(* ===== verification/Opsi_Prelude.thy ===== *)
theory Opsi_Prelude
  imports Main "HOL-Library.AList" "HOL-Library.Multiset" "HOL-Library.Sublist"
    "HOL-Library.Char_ord" "HOL-Library.List_Lexorder"
begin

text \<open>
  Shared foundation of the development: the Python exceptions the modelled code raises and
  the result type of fallible code, sequencing and loops over that type, Python dictionaries
  as association lists in insertion order, and the string methods of the Python standard
  library the sources call.

  Strings are lists of \<open>char\<close>, that is of code points below 256. Code points above that
  (Python has them) do not occur in any literal the modelled functions compare with.
\<close>

section \<open>Exceptions and results\<close>

text \<open>
  One constructor per exception class; the argument is the fixed part of the message, or the
  detail where the code inspects it. \<open>HTTPException\<close> carries the status code and the detail.
\<close>

datatype py_error =
    ValueError string
  | KeyError string
  | IndexError
  | TypeError
  | AttributeError
  | AssertionError
  | RuntimeError string
  | BackendPermissionDeniedError string
  | BackendAuthenticationError string
  | ConnectionRefusedError string
  | HTTPException nat string
  | OpsiProductNotAvailableError
  | OpsiProductNotAvailableOnDepotError
  | OtherError string

type_synonym 'a result = "py_error + 'a"

named_theorems res_simps \<open>sequencing of fallible code\<close>
named_theorems dict_simps \<open>dictionaries in insertion order\<close>
named_theorems str_simps \<open>Python string methods\<close>

fun bind_res :: "'a result \<Rightarrow> ('a \<Rightarrow> 'b result) \<Rightarrow> 'b result" where
  "bind_res (Inl e) f = Inl e"
| "bind_res (Inr x) f = f x"

fun fold_res :: "('a \<Rightarrow> 's \<Rightarrow> 's result) \<Rightarrow> 'a list \<Rightarrow> 's \<Rightarrow> 's result" where
  "fold_res f [] s = Inr s"
| "fold_res f (x # xs) s = bind_res (f x s) (fold_res f xs)"

fun map_res :: "('a \<Rightarrow> 'b result) \<Rightarrow> 'a list \<Rightarrow> 'b list result" where
  "map_res f [] = Inr []"
| "map_res f (x # xs) = bind_res (f x) (\<lambda>y. bind_res (map_res f xs) (\<lambda>ys. Inr (y # ys)))"

definition assert_res :: "bool \<Rightarrow> py_error \<Rightarrow> unit result" where
  "assert_res b e = (if b then Inr () else Inl e)"

definition of_option :: "'a option \<Rightarrow> py_error \<Rightarrow> 'a result" where
  "of_option x e = (case x of None \<Rightarrow> Inl e | Some y \<Rightarrow> Inr y)"

lemma bind_res_Inr_iff [res_simps]:
  "bind_res m f = Inr y \<longleftrightarrow> (\<exists>x. m = Inr x \<and> f x = Inr y)"
  by (cases m) auto

lemma bind_res_Inl_iff:
  "bind_res m f = Inl e \<longleftrightarrow> m = Inl e \<or> (\<exists>x. m = Inr x \<and> f x = Inl e)"
  by (cases m) auto

lemma bind_res_assoc: "bind_res (bind_res m f) g = bind_res m (\<lambda>x. bind_res (f x) g)"
  by (cases m) auto

lemma bind_res_cong [fundef_cong]:
  "m = m' \<Longrightarrow> (\<And>x. m' = Inr x \<Longrightarrow> f x = g x) \<Longrightarrow> bind_res m f = bind_res m' g"
  by (cases m') auto

lemma assert_res_simps [simp]:
  "assert_res b e = Inr u \<longleftrightarrow> b"
  "assert_res b e = Inl e' \<longleftrightarrow> \<not> b \<and> e' = e"
  by (auto simp: assert_res_def)

lemma fold_res_append:
  "fold_res f (xs @ ys) s = bind_res (fold_res f xs s) (fold_res f ys)"
  by (induction xs arbitrary: s) (auto simp: bind_res_assoc intro: bind_res_cong)

text \<open>The invariant rule of a loop that may raise.\<close>

lemma fold_res_invariant:
  assumes "fold_res f xs s = Inr t" and "P s"
    and "\<And>x s t. x \<in> set xs \<Longrightarrow> P s \<Longrightarrow> f x s = Inr t \<Longrightarrow> P t"
  shows "P t"
  using assms
proof (induction xs arbitrary: s)
  case (Cons x xs)
  from Cons.prems(1) obtain u where u: "f x s = Inr u" "fold_res f xs u = Inr t"
    by (auto simp: bind_res_Inr_iff)
  have "P u" using Cons.prems(3)[OF _ Cons.prems(2) u(1)] by simp
  with u(2) show ?case using Cons.prems(3) by (auto intro: Cons.IH)
qed simp

lemma fold_res_total:
  assumes "P s" and "\<And>x s. x \<in> set xs \<Longrightarrow> P s \<Longrightarrow> \<exists>t. f x s = Inr t \<and> P t"
  shows "\<exists>t. fold_res f xs s = Inr t \<and> P t"
  using assms
proof (induction xs arbitrary: s)
  case (Cons x xs)
  obtain t where t: "f x s = Inr t" "P t" using Cons.prems by fastforce
  have "\<exists>t'. fold_res f xs t = Inr t' \<and> P t'"
    using Cons.prems(2) t(2) by (intro Cons.IH) auto
  with t(1) show ?case by simp
qed simp

lemma fold_res_cong:
  "(\<And>x s. x \<in> set xs \<Longrightarrow> f x s = g x s) \<Longrightarrow> fold_res f xs s = fold_res g xs s"
  by (induction xs arbitrary: s) (auto intro: bind_res_cong)

section \<open>Stateful code that may raise\<close>

text \<open>
  A Python function with side effects: the state after the call is part of the outcome, also
  when it raises, because an exception does not undo the assignments made before it.
\<close>

type_synonym ('s, 'a) prog = "'s \<Rightarrow> 'a result \<times> 's"

named_theorems prog_simps \<open>running stateful code\<close>

definition return_prog :: "'a \<Rightarrow> ('s, 'a) prog" where
  "return_prog x = (\<lambda>s. (Inr x, s))"

definition raise_prog :: "py_error \<Rightarrow> ('s, 'a) prog" where
  "raise_prog e = (\<lambda>s. (Inl e, s))"

definition bind_prog :: "('s, 'a) prog \<Rightarrow> ('a \<Rightarrow> ('s, 'b) prog) \<Rightarrow> ('s, 'b) prog" where
  "bind_prog m f = (\<lambda>s. case m s of (Inl e, t) \<Rightarrow> (Inl e, t) | (Inr x, t) \<Rightarrow> f x t)"

abbreviation then_prog :: "('s, 'a) prog \<Rightarrow> ('s, 'b) prog \<Rightarrow> ('s, 'b) prog" where
  "then_prog m n \<equiv> bind_prog m (\<lambda>_. n)"

definition gets_prog :: "('s \<Rightarrow> 'a) \<Rightarrow> ('s, 'a) prog" where
  "gets_prog f = (\<lambda>s. (Inr (f s), s))"

definition modify_prog :: "('s \<Rightarrow> 's) \<Rightarrow> ('s, unit) prog" where
  "modify_prog f = (\<lambda>s. (Inr (), f s))"

definition when_prog :: "bool \<Rightarrow> ('s, unit) prog \<Rightarrow> ('s, unit) prog" where
  "when_prog b m = (if b then m else return_prog ())"

definition lift_prog :: "'a result \<Rightarrow> ('s, 'a) prog" where
  "lift_prog r = (\<lambda>s. (r, s))"

text \<open>\<open>try: m except Exception: h\<close>; the handler starts in the state the exception left.\<close>

definition catch_prog :: "('s, 'a) prog \<Rightarrow> (py_error \<Rightarrow> ('s, 'a) prog) \<Rightarrow> ('s, 'a) prog" where
  "catch_prog m h = (\<lambda>s. case m s of (Inl e, t) \<Rightarrow> h e t | (Inr x, t) \<Rightarrow> (Inr x, t))"

fun iter_prog :: "('a \<Rightarrow> ('s, unit) prog) \<Rightarrow> 'a list \<Rightarrow> ('s, unit) prog" where
  "iter_prog f [] = return_prog ()"
| "iter_prog f (x # xs) = then_prog (f x) (iter_prog f xs)"

lemma run_prog [simp, prog_simps]:
  "return_prog y s = (Inr y, s)"
  "raise_prog e s = (Inl e, s)"
  "gets_prog f s = (Inr (f s), s)"
  "modify_prog u s = (Inr (), u s)"
  "lift_prog r s = (r, s)"
  "when_prog b m s = (if b then m s else (Inr (), s))"
  by (simp_all add: return_prog_def raise_prog_def gets_prog_def modify_prog_def lift_prog_def when_prog_def)

lemma bind_prog_run: "bind_prog m f s = (case m s of (Inl e, t) \<Rightarrow> (Inl e, t) | (Inr x, t) \<Rightarrow> f x t)"
  by (simp add: bind_prog_def)

lemma bind_prog_Inr [prog_simps]:
  "bind_prog m f s = (Inr y, u) \<longleftrightarrow> (\<exists>x t. m s = (Inr x, t) \<and> f x t = (Inr y, u))"
  by (auto simp: bind_prog_def split: sum.splits prod.splits)

lemma bind_prog_Inl:
  "bind_prog m f s = (Inl e, u) \<longleftrightarrow>
     m s = (Inl e, u) \<or> (\<exists>x t. m s = (Inr x, t) \<and> f x t = (Inl e, u))"
  by (auto simp: bind_prog_def split: sum.splits prod.splits)

lemma bind_prog_basic [simp]:
  "bind_prog (return_prog x) f1 = f1 x"
  "bind_prog (raise_prog e) f2 = raise_prog e"
  "bind_prog (gets_prog g) f3 s = f3 (g s) s"
  "bind_prog (modify_prog u) f4 s = f4 () (u s)"
  "bind_prog (lift_prog (Inr y)) f5 = f5 y"
  "bind_prog (lift_prog (Inl e)) f6 = raise_prog e"
  by (auto simp: bind_prog_def return_prog_def raise_prog_def gets_prog_def modify_prog_def lift_prog_def)

lemma bind_prog_when: "bind_prog (when_prog b m) f = (if b then bind_prog m f else f ())"
  by (simp add: when_prog_def)

text \<open>A relation between the states before and after that every step keeps.\<close>

definition keeps :: "('s \<Rightarrow> bool) \<Rightarrow> ('s, 'a) prog \<Rightarrow> bool" where
  "keeps I m \<longleftrightarrow> (\<forall>s. I s \<longrightarrow> I (snd (m s)))"

named_theorems keeps_intros \<open>preservation of a state predicate\<close>

lemma keeps_basic [keeps_intros]:
  "keeps I1 (return_prog x)" "keeps I2 (raise_prog e)" "keeps I3 (gets_prog g)" "keeps I4 (lift_prog r)"
  by (simp_all add: keeps_def)

lemma keeps_bind [keeps_intros]:
  "keeps I m \<Longrightarrow> (\<And>x. keeps I (f x)) \<Longrightarrow> keeps I (bind_prog m f)"
  by (fastforce simp: keeps_def bind_prog_def split: sum.splits prod.splits)

lemma keeps_when [keeps_intros]: "keeps I m \<Longrightarrow> keeps I (when_prog b m)"
  by (simp add: keeps_def)

lemma keeps_modify [keeps_intros]: "(\<And>s. I s \<Longrightarrow> I (g s)) \<Longrightarrow> keeps I (modify_prog g)"
  by (simp add: keeps_def)

lemma keeps_catch [keeps_intros]:
  "keeps I m \<Longrightarrow> (\<And>e. keeps I (h e)) \<Longrightarrow> keeps I (catch_prog m h)"
  by (fastforce simp: keeps_def catch_prog_def split: sum.splits prod.splits)

lemma keeps_iter [keeps_intros]: "(\<And>x. keeps I (f x)) \<Longrightarrow> keeps I (iter_prog f xs)"
  by (induction xs) (auto intro: keeps_intros)

lemma keeps_if [keeps_intros]: "keeps I m \<Longrightarrow> keeps I n \<Longrightarrow> keeps I (if b then m else n)"
  by simp

lemma keepsD: "keeps I m \<Longrightarrow> I s \<Longrightarrow> m s = (r, t) \<Longrightarrow> I t"
  by (metis keeps_def snd_conv)

section \<open>Dictionaries\<close>

text \<open>
  A Python \<open>dict\<close> keeps insertion order: storing under an existing key keeps its place,
  a new key goes to the end, which is \<open>AList.update\<close>; \<open>del\<close> is \<open>AList.delete\<close>.
\<close>

type_synonym 'v dict = "(string \<times> 'v) list"

abbreviation dict_set :: "'k \<Rightarrow> 'v \<Rightarrow> ('k \<times> 'v) list \<Rightarrow> ('k \<times> 'v) list" where
  "dict_set \<equiv> AList.update"

abbreviation dict_del :: "'k \<Rightarrow> ('k \<times> 'v) list \<Rightarrow> ('k \<times> 'v) list" where
  "dict_del \<equiv> AList.delete"

definition dict_keys :: "('k \<times> 'v) list \<Rightarrow> 'k list" where
  "dict_keys d = map fst d"

definition dict_has :: "('k \<times> 'v) list \<Rightarrow> 'k \<Rightarrow> bool" where
  "dict_has d k = (k \<in> set (map fst d))"

definition dict_wf :: "('k \<times> 'v) list \<Rightarrow> bool" where
  "dict_wf d = distinct (map fst d)"

lemma dict_has_iff [dict_simps]: "dict_has d k \<longleftrightarrow> map_of d k \<noteq> None"
  by (simp add: dict_has_def map_of_eq_None_iff)

lemma dict_wf_set [simp, intro]: "dict_wf d \<Longrightarrow> dict_wf (dict_set k v d)"
  by (simp add: dict_wf_def distinct_update)

lemma dict_wf_del [simp, intro]: "dict_wf d \<Longrightarrow> dict_wf (dict_del k d)"
  by (simp add: dict_wf_def distinct_delete)

lemma dict_wf_Nil [simp]: "dict_wf []"
  by (simp add: dict_wf_def)

lemma map_of_dict_set [simp]: "map_of (dict_set k v d) j = (if j = k then Some v else map_of d j)"
  by (simp add: update_conv')

lemma map_of_dict_del [simp]: "map_of (dict_del k d) j = (if j = k then None else map_of d j)"
  by (simp add: delete_conv')

lemma dict_keys_set: "set (dict_keys (dict_set k v d)) = insert k (set (dict_keys d))"
  by (induction d) (auto simp: dict_keys_def)

lemma dict_set_fresh: "map_of d k = None \<Longrightarrow> dict_set k v d = d @ [(k, v)]"
  by (induction d) (auto split: if_splits)

lemma map_of_rev_distinct: "distinct (map fst xs) \<Longrightarrow> map_of (rev xs) = map_of xs"
  by (rule map_of_inject_set[THEN iffD2]) (simp_all add: rev_map[symmetric])

text \<open>The contract a dictionary offers its clients, and that the association lists meet it.\<close>

locale dictionary =
  fixes lookup :: "'d \<Rightarrow> 'k \<Rightarrow> 'v option"
    and store :: "'k \<Rightarrow> 'v \<Rightarrow> 'd \<Rightarrow> 'd"
    and remove :: "'k \<Rightarrow> 'd \<Rightarrow> 'd"
    and wf :: "'d \<Rightarrow> bool"
  assumes lookup_store: "lookup (store k v d) j = (if j = k then Some v else lookup d j)"
    and lookup_remove: "lookup (remove k d) j = (if j = k then None else lookup d j)"
    and wf_store: "wf d \<Longrightarrow> wf (store k v d)"
    and wf_remove: "wf d \<Longrightarrow> wf (remove k d)"
begin

lemma store_all_lookup:
  "lookup (fold (\<lambda>(k, v). store k v) kvs d) j =
     (case map_of (rev kvs) j of Some v \<Rightarrow> Some v | None \<Rightarrow> lookup d j)"
proof (induction kvs arbitrary: d)
  case (Cons kv kvs)
  obtain k v where kv: "kv = (k, v)" by (cases kv)
  show ?case
    by (auto simp: kv Cons.IH lookup_store map_add_def split: option.splits)
qed simp

lemma remove_all_lookup:
  "lookup (fold remove ks d) j = (if j \<in> set ks then None else lookup d j)"
  by (induction ks arbitrary: d) (auto simp: lookup_remove)

lemma wf_store_all: "wf d \<Longrightarrow> wf (fold (\<lambda>(k, v). store k v) kvs d)"
  by (induction kvs arbitrary: d) (auto simp: wf_store)

lemma wf_remove_all: "wf d \<Longrightarrow> wf (fold remove ks d)"
  by (induction ks arbitrary: d) (auto simp: wf_remove)

end

interpretation pydict: dictionary map_of AList.update AList.delete dict_wf
  by unfold_locales auto

section \<open>Lists\<close>

text \<open>\<open>xs.insert(j, xs.pop(i))\<close> for indices inside the list.\<close>

definition list_pop :: "nat \<Rightarrow> 'a list \<Rightarrow> 'a list" where
  "list_pop i xs = take i xs @ drop (Suc i) xs"

definition list_insert_at :: "nat \<Rightarrow> 'a \<Rightarrow> 'a list \<Rightarrow> 'a list" where
  "list_insert_at j x xs = take j xs @ x # drop j xs"

lemma mset_list_insert_at [simp]: "mset (list_insert_at j x xs) = add_mset x (mset xs)"
proof -
  have "mset xs = mset (take j xs) + mset (drop j xs)"
    by (simp only: mset_append[symmetric] append_take_drop_id)
  then show ?thesis by (simp add: list_insert_at_def)
qed

lemma mset_list_pop:
  assumes "i < length xs"
  shows "add_mset (xs ! i) (mset (list_pop i xs)) = mset xs"
proof -
  have "mset xs = mset (take i xs @ xs ! i # drop (Suc i) xs)"
    using assms by (simp add: id_take_nth_drop[symmetric])
  then show ?thesis by (simp add: list_pop_def)
qed

lemma length_list_pop [simp]: "i < length xs \<Longrightarrow> length (list_pop i xs) = length xs - 1"
  by (simp add: list_pop_def)

text \<open>\<open>xs.remove(x)\<close> removes the first occurrence (and raises when there is none).\<close>

definition list_remove :: "'a \<Rightarrow> 'a list \<Rightarrow> 'a list result" where
  "list_remove x xs = (if x \<in> set xs then Inr (remove1 x xs) else Inl (ValueError ''list.remove''))"

end
