(* ===== verification/Py_Strings.thy ===== *)
theory Py_Strings
  imports Opsi_Prelude
begin

text \<open>
  The methods of Python's \<open>str\<close> the modelled code calls, on lists of code points below
  256, with the lemmas that let the parsers be inverted: splitting and joining at a
  separator, stripping, replacing, decimal numerals.
\<close>

section \<open>Definitions\<close>

text \<open>\<open>str.isspace\<close> for one code point; \<open>\s\<close> of a regular expression is the same set.\<close>

definition py_space :: "char \<Rightarrow> bool" where
  "py_space c = (let n = (of_char c :: nat) in
     (9 \<le> n \<and> n \<le> 13) \<or> (28 \<le> n \<and> n \<le> 32) \<or> n = 133 \<or> n = 160)"

definition py_lower_char :: "char \<Rightarrow> char" where
  "py_lower_char c = (let n = (of_char c :: nat) in
     if (65 \<le> n \<and> n \<le> 90) \<or> (192 \<le> n \<and> n \<le> 222 \<and> n \<noteq> 215) then char_of (n + 32) else c)"

definition py_upper_char :: "char \<Rightarrow> bool" where
  "py_upper_char c = (let n = (of_char c :: nat) in
     (65 \<le> n \<and> n \<le> 90) \<or> (192 \<le> n \<and> n \<le> 222 \<and> n \<noteq> 215))"

text \<open>\<open>str.upper\<close> on ASCII letters, which is where the sources use it (table and lock names).\<close>

definition py_upper :: "string \<Rightarrow> string" where
  "py_upper s = map (\<lambda>c. let n = (of_char c :: nat) in if 97 \<le> n \<and> n \<le> 122 then char_of (n - 32) else c) s"

definition py_lower :: "string \<Rightarrow> string" where
  "py_lower s = map py_lower_char s"

definition py_lstrip :: "string \<Rightarrow> string" where
  "py_lstrip s = dropWhile py_space s"

definition py_rstrip :: "string \<Rightarrow> string" where
  "py_rstrip s = rev (dropWhile py_space (rev s))"

definition py_strip :: "string \<Rightarrow> string" where
  "py_strip s = py_rstrip (py_lstrip s)"

definition py_rstrip_char :: "char \<Rightarrow> string \<Rightarrow> string" where
  "py_rstrip_char c s = rev (dropWhile (\<lambda>x. x = c) (rev s))"

definition py_lstrip_char :: "char \<Rightarrow> string \<Rightarrow> string" where
  "py_lstrip_char c s = dropWhile (\<lambda>x. x = c) s"

definition py_startswith :: "string \<Rightarrow> string \<Rightarrow> bool" where
  "py_startswith s p = (take (length p) s = p)"

definition py_endswith :: "string \<Rightarrow> string \<Rightarrow> bool" where
  "py_endswith s p = (length p \<le> length s \<and> drop (length s - length p) s = p)"

text \<open>\<open>s.split(c)\<close> for a one-character separator.\<close>

fun py_split :: "char \<Rightarrow> string \<Rightarrow> string list" where
  "py_split c [] = [[]]"
| "py_split c (x # xs) =
     (if x = c then [] # py_split c xs
      else (case py_split c xs of [] \<Rightarrow> [[x]] | y # ys \<Rightarrow> (x # y) # ys))"

text \<open>\<open>s.split(c, 1)\<close>: \<open>None\<close> when the separator does not occur (one part only).\<close>

fun py_split1 :: "char \<Rightarrow> string \<Rightarrow> (string \<times> string) option" where
  "py_split1 c [] = None"
| "py_split1 c (x # xs) =
     (if x = c then Some ([], xs)
      else (case py_split1 c xs of None \<Rightarrow> None | Some (a, b) \<Rightarrow> Some (x # a, b)))"

definition py_rsplit1 :: "char \<Rightarrow> string \<Rightarrow> (string \<times> string) option" where
  "py_rsplit1 c s = (case py_split1 c (rev s) of None \<Rightarrow> None | Some (b, a) \<Rightarrow> Some (rev a, rev b))"

text \<open>\<open>s.split()\<close>: the maximal runs of non-space characters.\<close>

function py_words :: "string \<Rightarrow> string list" where
  "py_words s = (let t = dropWhile py_space s in
     if t = [] then [] else takeWhile (\<lambda>c. \<not> py_space c) t # py_words (dropWhile (\<lambda>c. \<not> py_space c) t))"
  by pat_completeness auto
termination
proof (relation "measure length", simp)
  fix s t :: string
  assume t: "t = dropWhile py_space s" "t \<noteq> []"
  then have "\<not> py_space (hd t)" using hd_dropWhile by blast
  then have "length (dropWhile (\<lambda>c. \<not> py_space c) t) < length t"
    using t(2) by (cases t) (auto simp: le_imp_less_Suc length_dropWhile_le)
  also have "length t \<le> length s" using t(1) by (simp add: length_dropWhile_le)
  finally show "(dropWhile (\<lambda>c. \<not> py_space c) t, s) \<in> measure length" by simp
qed

declare py_words.simps [simp del]

fun py_join :: "string \<Rightarrow> string list \<Rightarrow> string" where
  "py_join sep [] = []"
| "py_join sep [x] = x"
| "py_join sep (x # y # ys) = x @ sep @ py_join sep (y # ys)"

fun py_find :: "char \<Rightarrow> string \<Rightarrow> nat option" where
  "py_find c [] = None"
| "py_find c (x # xs) = (if x = c then Some 0 else map_option Suc (py_find c xs))"

text \<open>\<open>s.replace(old, new)\<close> for a non-empty \<open>old\<close>, left to right.\<close>

function py_replace :: "string \<Rightarrow> string \<Rightarrow> string \<Rightarrow> string" where
  "py_replace old new [] = []"
| "py_replace old new (x # xs) =
     (if old \<noteq> [] \<and> py_startswith (x # xs) old
      then new @ py_replace old new (drop (length old) (x # xs))
      else x # py_replace old new xs)"
  by pat_completeness auto
termination
  by (relation "measure (\<lambda>(old, new, s). length s)") auto

definition py_contains :: "string \<Rightarrow> string \<Rightarrow> bool" where
  "py_contains needle s = list_ex (\<lambda>t. py_startswith t needle) (suffixes s)"

text \<open>The end of the text in a regular expression: a final line feed does not count.\<close>

definition re_end :: "string \<Rightarrow> string" where
  "re_end s = (if s \<noteq> [] \<and> last s = CHR 0x0A then butlast s else s)"

definition digit_char :: "nat \<Rightarrow> char" where
  "digit_char n = char_of (48 + n)"

fun str_of_nat :: "nat \<Rightarrow> string" where
  "str_of_nat n = (if n < 10 then [digit_char n] else str_of_nat (n div 10) @ [digit_char (n mod 10)])"

declare str_of_nat.simps [simp del]

definition str_of_int :: "int \<Rightarrow> string" where
  "str_of_int i = (if i < 0 then CHR ''-'' # str_of_nat (nat (- i)) else str_of_nat (nat i))"

definition is_digit :: "char \<Rightarrow> bool" where
  "is_digit c = (let n = (of_char c :: nat) in 48 \<le> n \<and> n \<le> 57)"

definition nat_of_str :: "string \<Rightarrow> nat" where
  "nat_of_str s = foldl (\<lambda>a c. 10 * a + (of_char c - 48)) 0 s"

text \<open>\<open>int(s)\<close> on ASCII text: surrounding space, one sign, digits with single underscores
  between them; anything else raises.\<close>

definition py_int :: "string \<Rightarrow> int result" where
  "py_int s = (let t = py_strip s;
                   neg = (t \<noteq> [] \<and> hd t = CHR ''-'');
                   u = (if t \<noteq> [] \<and> hd t \<in> {CHR ''-'', CHR ''+''} then tl t else t);
                   parts = py_split CHR ''_'' u
     in if list_all (\<lambda>p. p \<noteq> [] \<and> list_all is_digit p) parts
        then Inr (if neg then - int (nat_of_str (concat parts)) else int (nat_of_str (concat parts)))
        else Inl (ValueError ''invalid literal for int()''))"

text \<open>UTF-8 on code points below 256: one byte below 128, two bytes above.\<close>

definition utf8_encode :: "string \<Rightarrow> string" where
  "utf8_encode s = concat (map (\<lambda>c. let n = (of_char c :: nat) in
     if n < 128 then [c] else [char_of (192 + n div 64), char_of (128 + n mod 64)]) s)"

fun utf8_decode :: "string \<Rightarrow> string result" where
  "utf8_decode [] = Inr []"
| "utf8_decode (c # cs) =
     (if (of_char c :: nat) < 128 then bind_res (utf8_decode cs) (\<lambda>s. Inr (c # s))
      else (case cs of
          [] \<Rightarrow> Inl (ValueError ''utf-8'')
        | d # ds \<Rightarrow>
            (let n = (of_char c :: nat); m = (of_char d :: nat) in
             if n \<in> {194, 195} \<and> 128 \<le> m \<and> m < 192
             then bind_res (utf8_decode ds) (\<lambda>s. Inr (char_of ((n - 192) * 64 + (m - 128)) # s))
             else Inl (ValueError ''utf-8''))))"

section \<open>Stripping\<close>

definition py_stripped :: "string \<Rightarrow> bool" where
  "py_stripped s = (s = [] \<or> (\<not> py_space (hd s) \<and> \<not> py_space (last s)))"

lemma py_strip_stripped [simp, str_simps]: "py_stripped s \<Longrightarrow> py_strip s = s"
proof (cases "s = []")
  case False
  moreover assume "py_stripped s"
  ultimately have h: "\<not> py_space (hd s)" and l: "\<not> py_space (hd (rev s))"
    by (auto simp: py_stripped_def hd_rev)
  have d: "dropWhile py_space t = t" if "\<not> py_space (hd t)" for t
    using that by (cases t) auto
  show ?thesis
    using d[OF h] d[OF l] by (simp add: py_strip_def py_lstrip_def py_rstrip_def)
qed (simp add: py_strip_def py_lstrip_def py_rstrip_def)

lemma py_strip_Nil [simp]: "py_strip [] = []"
  by (simp add: py_strip_def py_lstrip_def py_rstrip_def)

lemma py_rstrip_hd: "py_rstrip s \<noteq> [] \<Longrightarrow> hd (py_rstrip s) = hd s"
proof -
  assume ne: "py_rstrip s \<noteq> []"
  have "rev s = takeWhile py_space (rev s) @ dropWhile py_space (rev s)" by simp
  then have "s = py_rstrip s @ rev (takeWhile py_space (rev s))"
    by (metis py_rstrip_def rev_append rev_rev_ident)
  with ne show ?thesis by (metis hd_append2)
qed

lemma py_strip_is_stripped [simp]: "py_stripped (py_strip s)"
proof (cases "py_strip s = []")
  case False
  then have h: "hd (py_strip s) = hd (py_lstrip s)" unfolding py_strip_def by (rule py_rstrip_hd)
  from False have "py_lstrip s \<noteq> []" by (auto simp: py_strip_def py_rstrip_def)
  then have "\<not> py_space (hd (py_lstrip s))" unfolding py_lstrip_def by (rule hd_dropWhile)
  moreover have "\<not> py_space (last (py_strip s))"
    using False hd_dropWhile[of py_space "rev (py_lstrip s)"]
    by (simp add: py_strip_def py_rstrip_def last_rev)
  ultimately show ?thesis using h by (simp add: py_stripped_def)
qed (simp add: py_stripped_def)

lemma py_strip_idem [simp]: "py_strip (py_strip s) = py_strip s"
  by simp

lemma set_py_strip: "set (py_strip s) \<subseteq> set s"
  by (auto simp: py_strip_def py_rstrip_def py_lstrip_def dest!: set_dropWhileD)

section \<open>Splitting and joining\<close>

lemma py_split_not_Nil [simp]: "py_split c s \<noteq> []"
  by (induction s) (auto split: list.splits)

lemma py_join_split: "py_join [c] (py_split c s) = s"
proof (induction s)
  case (Cons x xs)
  obtain y ys where ys: "py_split c xs = y # ys" by (cases "py_split c xs") auto
  show ?case
  proof (cases "x = c")
    case True with Cons ys show ?thesis by simp
  next
    case False
    with Cons.IH ys show ?thesis by (cases ys) auto
  qed
qed simp

lemma py_split_parts: "p \<in> set (py_split c s) \<Longrightarrow> c \<notin> set p"
  by (induction s arbitrary: p) (fastforce split: list.splits if_splits)+

lemma py_split_clean: "c \<notin> set s \<Longrightarrow> py_split c s = [s]"
  by (induction s) auto

lemma py_split_append: "c \<notin> set s \<Longrightarrow> py_split c (s @ c # t) = s # py_split c t"
  by (induction s) auto

lemma py_split_join:
  "xs \<noteq> [] \<Longrightarrow> (\<And>x. x \<in> set xs \<Longrightarrow> c \<notin> set x) \<Longrightarrow> py_split c (py_join [c] xs) = xs"
  by (induction "[c]" xs rule: py_join.induct) (auto simp: py_split_clean py_split_append)

lemma set_py_join: "set (py_join sep xs) \<subseteq> set sep \<union> (\<Union>x \<in> set xs. set x)"
  by (induction sep xs rule: py_join.induct) auto

lemma py_join_eq_Nil: "x \<noteq> [] \<Longrightarrow> x \<in> set xs \<Longrightarrow> py_join sep xs \<noteq> []"
  by (induction sep xs rule: py_join.induct) auto

lemma py_split1_Some: "py_split1 c s = Some (a, b) \<longleftrightarrow> s = a @ c # b \<and> c \<notin> set a"
proof (induction s arbitrary: a)
  case (Cons x xs)
  show ?case
  proof (cases "x = c")
    case True
    then show ?thesis by (cases a) auto
  next
    case False
    then have "py_split1 c (x # xs) = Some (a, b) \<longleftrightarrow>
        (\<exists>a'. a = x # a' \<and> py_split1 c xs = Some (a', b))"
      by (auto split: option.split)
    also have "\<dots> \<longleftrightarrow> x # xs = a @ c # b \<and> c \<notin> set a"
      unfolding Cons.IH using False by (cases a) auto
    finally show ?thesis .
  qed
qed simp

lemma py_split1_None: "py_split1 c s = None \<longleftrightarrow> c \<notin> set s"
  by (induction s) (auto split: option.splits)

lemma py_strip_Cons_space: "py_space c \<Longrightarrow> py_strip (c # s) = py_strip s"
  by (simp add: py_strip_def py_lstrip_def)

lemma py_strip_snoc_space: "py_space c \<Longrightarrow> py_strip (s @ [c]) = py_strip s"
proof (cases "\<forall>x \<in> set s. py_space x")
  case True
  moreover assume "py_space c"
  ultimately have "\<forall>x \<in> set (s @ [c]). py_space x" "\<forall>x \<in> set s. py_space x" by simp_all
  then have "dropWhile py_space (s @ [c]) = []" "dropWhile py_space s = []"
    by (simp_all only: dropWhile_eq_Nil_conv)
  then show ?thesis by (simp only: py_strip_def py_lstrip_def)
qed (auto simp: py_strip_def py_lstrip_def py_rstrip_def dropWhile_append)

lemma py_strip_eq_Nil: "py_strip s = [] \<longleftrightarrow> (\<forall>c \<in> set s. py_space c)"
proof (induction s)
  case (Cons c s)
  show ?case
  proof (cases "py_space c")
    case True with Cons show ?thesis by (simp add: py_strip_Cons_space)
  next
    case False
    then show ?thesis by (auto simp: py_strip_def py_lstrip_def py_rstrip_def dropWhile_eq_Nil_conv)
  qed
qed simp

lemma py_strip_padded:
  assumes "list_all py_space l" "list_all py_space r"
  shows "py_strip (l @ w @ r) = py_strip w"
proof -
  have "py_strip (w @ r) = py_strip w" using assms(2)
  proof (induction r rule: rev_induct)
    case (snoc c r)
    then show ?case using py_strip_snoc_space[of c "w @ r"] by simp
  qed simp
  moreover have "py_strip (l @ u) = py_strip u" for u using assms(1)
    by (induction l) (simp_all add: py_strip_Cons_space)
  ultimately show ?thesis by simp
qed

lemma py_strip_decompose: "\<exists>l r. list_all py_space l \<and> list_all py_space r \<and> s = l @ py_strip s @ r"
proof -
  let ?u = "dropWhile py_space s"
  let ?l = "takeWhile py_space s" and ?r = "rev (takeWhile py_space (rev ?u))"
  have "?u = py_rstrip ?u @ ?r"
    unfolding py_rstrip_def rev_append[symmetric] by (simp only: takeWhile_dropWhile_id rev_rev_ident)
  then have "s = ?l @ py_strip s @ ?r"
    unfolding py_strip_def py_lstrip_def by (metis takeWhile_dropWhile_id)
  moreover have "list_all py_space ?l" "list_all py_space ?r"
    by (auto simp: list_all_iff dest: set_takeWhileD)
  ultimately show ?thesis by blast
qed

lemma py_strip_lstrip: "py_strip (py_lstrip s) = py_strip s"
  by (simp add: py_strip_def py_lstrip_def)

lemma py_lstrip_rstrip: "py_lstrip (py_rstrip s) = py_strip s"
proof (induction s)
  case (Cons c s)
  show ?case
  proof (cases "py_space c")
    case True
    then have "py_rstrip (c # s) = (if py_rstrip s = [] then [] else c # py_rstrip s)"
      by (auto simp: py_rstrip_def dropWhile_append dropWhile_eq_Nil_conv)
    with True Cons show ?thesis by (auto simp: py_strip_Cons_space py_lstrip_def split: if_splits)
  next
    case False
    then have "py_rstrip (c # s) = c # py_rstrip s"
      by (auto simp: py_rstrip_def dropWhile_append dropWhile_eq_Nil_conv)
    with False show ?thesis by (simp add: py_strip_def py_lstrip_def)
  qed
qed (simp add: py_lstrip_def py_rstrip_def)

lemma py_rstrip_colon: "\<not> py_space c \<Longrightarrow> py_rstrip (u @ c # v) = u @ c # py_rstrip v"
  by (auto simp: py_rstrip_def dropWhile_append dropWhile_eq_Nil_conv)

lemma py_split_snoc:
  "x \<noteq> c \<Longrightarrow> py_split c (s @ [x]) = butlast (py_split c s) @ [last (py_split c s) @ [x]]"
proof (induction s)
  case (Cons a s)
  then show ?case by (cases "py_split c s") auto
qed simp

text \<open>Stripping a text before splitting it only strips the outer parts.\<close>

lemma map_strip_split:
  assumes "\<not> py_space c"
  shows "map py_strip (py_split c (py_strip s)) = map py_strip (py_split c s)"
proof -
  have l: "map py_strip (py_split c (x # s)) = map py_strip (py_split c s)" if "py_space x" for x s
    using that assms by (cases "py_split c s") (auto simp: py_strip_Cons_space)
  have r: "map py_strip (py_split c (s @ [x])) = map py_strip (py_split c s)" if "py_space x" for x s
  proof -
    obtain ys y where "py_split c s = ys @ [y]" by (cases "py_split c s" rule: rev_cases) auto
    moreover have "x \<noteq> c" using that assms by blast
    ultimately show ?thesis using that by (simp add: py_split_snoc py_strip_snoc_space)
  qed
  have "map py_strip (py_split c (py_lstrip s)) = map py_strip (py_split c s)" for s
    by (induction s) (auto simp: py_lstrip_def l simp del: py_split.simps)
  moreover have "map py_strip (py_split c (py_rstrip s)) = map py_strip (py_split c s)" for s
    by (induction s rule: rev_induct) (auto simp: py_rstrip_def r simp del: py_split.simps)
  ultimately show ?thesis by (simp add: py_strip_def)
qed

lemma py_join_mem: "x \<in> set xs \<Longrightarrow> c \<in> set x \<Longrightarrow> c \<in> set (py_join sep xs)"
  by (induction sep xs rule: py_join.induct) auto

lemma py_rsplit1_Some: "py_rsplit1 c s = Some (a, b) \<longleftrightarrow> s = a @ c # b \<and> c \<notin> set b"
proof -
  have "py_rsplit1 c s = Some (a, b) \<longleftrightarrow> py_split1 c (rev s) = Some (rev b, rev a)"
    by (auto simp: py_rsplit1_def split: option.splits)
  also have "\<dots> \<longleftrightarrow> rev s = rev b @ c # rev a \<and> c \<notin> set b"
    by (simp add: py_split1_Some)
  also have "\<dots> \<longleftrightarrow> s = a @ c # b \<and> c \<notin> set b"
    using rev_is_rev_conv[of s "a @ c # b"] by simp
  finally show ?thesis .
qed

lemma py_startswith_append [simp]: "py_startswith (p @ s) p"
  by (simp add: py_startswith_def)

lemma py_startswith_Nil [simp]: "py_startswith s []"
  by (simp add: py_startswith_def)

lemma py_startswith_iff: "py_startswith s p \<longleftrightarrow> (\<exists>t. s = p @ t)"
  by (auto simp: py_startswith_def) (metis append_take_drop_id)

lemma py_replace_clean:
  assumes "old = c # cs" and "c \<notin> set s"
  shows "py_replace old new s = s"
  using assms(2) by (induction s) (auto simp: assms(1) py_startswith_def)

section \<open>Words\<close>

lemma py_words_Nil [simp]: "py_words [] = []"
  by (simp add: py_words.simps)

definition py_word :: "string \<Rightarrow> bool" where
  "py_word w = (w \<noteq> [] \<and> list_all (\<lambda>c. \<not> py_space c) w)"

lemma py_words_single: "py_word w \<Longrightarrow> py_words w = [w]"
  by (cases w) (simp_all add: py_words.simps[of "_ # _"] py_word_def list_all_iff Let_def
      takeWhile_eq_all_conv[THEN iffD2] dropWhile_eq_Nil_conv[THEN iffD2])

lemma py_words_cons:
  assumes "py_word w" "py_space c"
  shows "py_words (w @ c # s) = w # py_words s"
proof -
  have "py_words (c # s) = py_words s"
    using assms(2) by (simp add: py_words.simps[of "c # s"] py_words.simps[of s] Let_def)
  then show ?thesis
    using assms by (cases w)
      (simp_all add: py_words.simps[of "_ # _ @ _"] py_word_def list_all_iff Let_def
         takeWhile_append2 dropWhile_append2)
qed

lemma py_words_space: "py_space c \<Longrightarrow> py_words (c # s) = py_words s"
  by (simp add: py_words.simps[of "c # s"] py_words.simps[of s] Let_def)

lemma space_char [simp]: "py_space CHR '' ''" "py_space CHR ''\<newline>''"
  by code_simp+

lemma py_words_join:
  "list_all py_word ws \<Longrightarrow> py_words (py_join '' '' ws) = ws"
  by (induction "'' ''" ws rule: py_join.induct)
     (auto simp: py_words_single py_words_cons)

lemma py_words_are_words: "list_all py_word (py_words s)"
proof (induction s rule: py_words.induct)
  case (1 s)
  let ?t = "dropWhile py_space s"
  show ?case
  proof (cases "?t = []")
    case False
    then have "\<not> py_space (hd ?t)" using hd_dropWhile by blast
    then have "py_word (takeWhile (\<lambda>c. \<not> py_space c) ?t)"
      using False by (cases ?t) (auto simp: py_word_def list_all_iff dest: set_takeWhileD)
    with 1 False show ?thesis by (simp add: py_words.simps[of s] Let_def)
  qed (simp add: py_words.simps[of s])
qed

section \<open>Decimal numerals\<close>

lemma of_char_digit_char: "n < 10 \<Longrightarrow> of_char (digit_char n) = 48 + n"
  by (simp add: digit_char_def)

lemma nat_of_str_snoc: "nat_of_str (s @ [c]) = 10 * nat_of_str s + (of_char c - 48)"
  by (simp add: nat_of_str_def)

lemma nat_of_str_of_nat [simp]: "nat_of_str (str_of_nat n) = n"
proof (induction n rule: str_of_nat.induct)
  case (1 n)
  then show ?case
    by (cases "n < 10")
       (simp_all add: str_of_nat.simps[of n] nat_of_str_snoc of_char_digit_char,
        simp add: nat_of_str_def of_char_digit_char)
qed

lemma str_of_nat_inject [simp]: "str_of_nat m = str_of_nat n \<longleftrightarrow> m = n"
  by (metis nat_of_str_of_nat)

lemma str_of_nat_digits: "list_all is_digit (str_of_nat n)"
proof (induction n rule: str_of_nat.induct)
  case (1 n)
  have "is_digit (digit_char k)" if "k < 10" for k
    using that by (simp add: is_digit_def of_char_digit_char Let_def)
  with 1 show ?case by (cases "n < 10") (simp_all add: str_of_nat.simps[of n])
qed

lemma str_of_nat_not_Nil [simp]: "str_of_nat n \<noteq> []"
  by (subst str_of_nat.simps) simp

lemma digit_not_space: "is_digit c \<Longrightarrow> \<not> py_space c"
  by (auto simp: is_digit_def py_space_def Let_def)

lemma py_int_digits:
  assumes "list_all is_digit u" "u \<noteq> []" "t = u \<and> \<not> neg \<or> t = CHR ''-'' # u \<and> neg"
  shows "py_int t = Inr (if neg then - int (nat_of_str u) else int (nat_of_str u))"
proof -
  have e: "is_digit (hd u)" "is_digit (last u)" using assms(1,2) by (auto simp: list_all_iff)
  have hd: "hd u \<notin> {CHR ''-'', CHR ''+''}" using e(1) by (auto simp: is_digit_def Let_def)
  have minus: "\<not> py_space CHR ''-''" by code_simp
  have strip: "py_strip t = t"
    using assms(2,3) digit_not_space[OF e(1)] digit_not_space[OF e(2)] minus
    by (intro py_strip_stripped) (auto simp: py_stripped_def)
  have "CHR ''_'' \<notin> set u" using assms(1) by (auto simp: list_all_iff is_digit_def Let_def)
  then have "py_split CHR ''_'' u = [u]" by (rule py_split_clean)
  with strip assms hd show ?thesis by (auto simp: py_int_def Let_def)
qed

lemma py_int_str_of_int [simp]: "py_int (str_of_int i) = Inr i"
  using py_int_digits[OF str_of_nat_digits str_of_nat_not_Nil, of "str_of_int i" "nat \<bar>i\<bar>" "i < 0"]
  by (auto simp: str_of_int_def)

lemma py_int_str_of_nat [simp]: "py_int (str_of_nat n) = Inr (int n)"
  using py_int_digits[OF str_of_nat_digits str_of_nat_not_Nil, of "str_of_nat n" n False] by simp

section \<open>UTF-8\<close>

lemma char_lt_256: "(of_char c :: nat) < 256"
proof -
  have "of_char (char_of (of_char c :: nat) :: char) = (of_char c :: nat) mod 256"
    by (rule of_char_of)
  then have "(of_char c :: nat) = (of_char c :: nat) mod 256" by simp
  then show ?thesis by (metis mod_less_divisor zero_less_numeral)
qed

lemma utf8_roundtrip [simp]: "utf8_decode (utf8_encode s) = Inr s"
proof (induction s)
  case (Cons c s)
  let ?n = "of_char c :: nat"
  show ?case
  proof (cases "?n < 128")
    case True
    then show ?thesis using Cons by (simp add: utf8_encode_def Let_def)
  next
    case False
    have lt: "?n < 256" by (rule char_lt_256)
    have "2 \<le> ?n div 64" "?n div 64 < 4" using lt False by (simp_all add: less_mult_imp_div_less div_le_mono[of 128 _ 64, simplified])
    then have d: "?n div 64 = 2 \<or> ?n div 64 = 3" by linarith
    have m: "?n mod 64 < 64" by simp
    have a: "of_char (char_of (192 + ?n div 64) :: char) = 192 + ?n div 64"
      "of_char (char_of (128 + ?n mod 64) :: char) = 128 + ?n mod 64"
      using d m by (auto simp: of_char_of)
    have "?n div 64 * 64 + ?n mod 64 = ?n" by simp
    with False a d m Cons show ?thesis by (auto simp: utf8_encode_def Let_def)
  qed
qed (simp add: utf8_encode_def)

lemma utf8_encode_Nil [simp]: "utf8_encode [] = []"
  by (simp add: utf8_encode_def)

lemma utf8_encode_eq_Nil [simp]: "utf8_encode s = [] \<longleftrightarrow> s = []"
  by (cases s) (auto simp: utf8_encode_def Let_def)

lemma utf8_decode_ascii: "list_all (\<lambda>c. (of_char c :: nat) < 128) s \<Longrightarrow> utf8_decode s = Inr s"
  by (induction s) auto

lemma str_of_int_ascii: "list_all (\<lambda>c. (of_char c :: nat) < 128) (str_of_int i)"
proof -
  have "list_all (\<lambda>c. (of_char c :: nat) < 128) (str_of_nat n)" for n
    using str_of_nat_digits[of n] by (auto simp: list_all_iff is_digit_def Let_def)
  then show ?thesis by (simp add: str_of_int_def)
qed

lemma utf8_decode_str_of_int [simp]: "utf8_decode (str_of_int i) = Inr (str_of_int i)"
  by (rule utf8_decode_ascii) (rule str_of_int_ascii)

end
