(* ===== verification/Session.thy ===== *)
theory Session
  imports Py_Strings
begin

text \<open>
  Client sessions (\<open>opsiconfd/session.py\<close>, class \<open>OPSISession\<close>): the attributes, their
  property setters that record modifications, validity, the session cookie, and the
  serialisation for redis. Instants are integers counting microseconds, so that
  \<open>int(utc_timestamp())\<close> is a division by a million; every operation reads the clock once
  (\<open>now\<close>). Message packing (\<open>msgspec\<close>) is a parameter of the serialisation.
\<close>

section \<open>Data\<close>

datatype authentication_method =
    ADMIN_NETWORKS | HARDWARE_ADDRESS | HOST_ID | HOST_KEY | NOT_SET | PASSWORD_FILE | PASSWORD_LDAP
  | PASSWORD_ONETIME | PASSWORD_PAM | SYSTEM_UUID | TLS_CERTIFICATE | TOTP | USERNAME

text \<open>The host objects of the backend, as far as the session code reads and writes them.\<close>

datatype host_type = OpsiClient | OpsiDepotserver | OpsiConfigserver

record host =
  host_id :: string
  host_type :: host_type
  opsiHostKey :: "string option"
  oneTimePassword :: "string option"
  ipAddress :: "string option"
  lastSeen :: "string option"

type_synonym headers = "(string \<times> string) list"

record opsisession =
  req_headers :: headers
  redis_expiration_seconds :: int
  messagebus_in_use_timeout :: int
  modifications :: "(string \<times> int) list"
  password :: "string option"
  deleted :: bool
  persistent :: bool
  last_stored :: int
  session_id :: "string option"
  version :: string
  client_addr :: string
  user_agent :: string
  max_age :: int
  created :: int
  last_used :: int
  messagebus_last_used :: int
  username :: string
  user_groups :: "string set"
  session_host :: "host option"
  authenticated :: bool
  auth_methods :: "authentication_method set"
  is_admin :: bool
  is_read_only :: bool

text \<open>The options of \<open>opsiconfd.config\<close> that session handling reads.\<close>

record session_config =
  session_lifetime :: int
  max_session_per_ip :: int
  max_sessions_excludes :: "string list"
  redis_prefix :: string

abbreviation usec :: int where
  "usec \<equiv> 1000000"

text \<open>\<open>int()\<close> of a number of seconds truncates towards zero.\<close>

definition secs :: "int \<Rightarrow> int" where
  "secs t = (if t < 0 then - ((- t) div usec) else t div usec)"

text \<open>Header names are compared without regard to case; the pairs hold them in lower case.\<close>

definition hdr_get :: "headers \<Rightarrow> string \<Rightarrow> string option" where
  "hdr_get h k = map_of h (py_lower k)"

definition SESSION_COOKIE_NAME :: string where
  "SESSION_COOKIE_NAME = ''opsiconfd-session''"

definition MESSAGEBUS_IN_USE_TIMEOUT :: int where
  "MESSAGEBUS_IN_USE_TIMEOUT = 60"

section \<open>Property setters\<close>

definition set_modified :: "int \<Rightarrow> string \<Rightarrow> opsisession \<Rightarrow> opsisession" where
  "set_modified now attribute s = s\<lparr>modifications := dict_set attribute now (modifications s)\<rparr>"

definition set_version :: "int \<Rightarrow> string \<Rightarrow> opsisession \<Rightarrow> opsisession" where
  "set_version now value s =
     (if version s = value then s else set_modified now ''version'' (s\<lparr>version := value\<rparr>))"

definition set_client_addr :: "int \<Rightarrow> string \<Rightarrow> opsisession \<Rightarrow> opsisession" where
  "set_client_addr now value s =
     (if client_addr s = value then s else set_modified now ''client_addr'' (s\<lparr>client_addr := value\<rparr>))"

definition set_user_agent :: "int \<Rightarrow> string \<Rightarrow> opsisession \<Rightarrow> opsisession" where
  "set_user_agent now value s =
     (if user_agent s = value then s else set_modified now ''user_agent'' (s\<lparr>user_agent := value\<rparr>))"

definition set_created :: "int \<Rightarrow> int \<Rightarrow> opsisession \<Rightarrow> opsisession" where
  "set_created now value s =
     (if created s = value then s else set_modified now ''created'' (s\<lparr>created := value\<rparr>))"

definition set_last_used :: "int \<Rightarrow> int \<Rightarrow> opsisession \<Rightarrow> opsisession" where
  "set_last_used now value s =
     (if last_used s = value then s else set_modified now ''last_used'' (s\<lparr>last_used := value\<rparr>))"

definition set_messagebus_last_used :: "int \<Rightarrow> int \<Rightarrow> opsisession \<Rightarrow> opsisession" where
  "set_messagebus_last_used now value s =
     (if messagebus_last_used s = value then s
      else set_modified now ''messagebus_last_used'' (s\<lparr>messagebus_last_used := value\<rparr>))"

definition set_username :: "int \<Rightarrow> string \<Rightarrow> opsisession \<Rightarrow> opsisession" where
  "set_username now value s =
     (if username s = value then s else set_modified now ''username'' (s\<lparr>username := value\<rparr>))"

definition set_user_groups :: "int \<Rightarrow> string set \<Rightarrow> opsisession \<Rightarrow> opsisession" where
  "set_user_groups now value s =
     (if user_groups s = value then s else set_modified now ''user_groups'' (s\<lparr>user_groups := value\<rparr>))"

text \<open>Objects of \<open>opsicommon\<close> are equal when they are of the same class and have the same identifying
  attributes, which for a host is its id: a host object with other data is not taken over.\<close>

fun same_host :: "host option \<Rightarrow> host option \<Rightarrow> bool" where
  "same_host None None = True"
| "same_host (Some g) (Some h) = (host_type g = host_type h \<and> host_id g = host_id h)"
| "same_host _ _ = False"

definition set_host :: "int \<Rightarrow> host option \<Rightarrow> opsisession \<Rightarrow> opsisession" where
  "set_host now value s =
     (if same_host (session_host s) value then s else set_modified now ''host'' (s\<lparr>session_host := value\<rparr>))"

lemma same_host_refl [simp]: "same_host h h"
  by (cases h) simp_all

lemma same_host_None [simp]: "same_host None h = (h = None)" "same_host h None = (h = None)"
  by (cases h; simp)+

definition set_authenticated :: "int \<Rightarrow> bool \<Rightarrow> opsisession \<Rightarrow> opsisession" where
  "set_authenticated now value s =
     (if authenticated s = value then s else set_modified now ''authenticated'' (s\<lparr>authenticated := value\<rparr>))"

definition set_auth_methods :: "int \<Rightarrow> authentication_method set \<Rightarrow> opsisession \<Rightarrow> opsisession" where
  "set_auth_methods now value s =
     (if auth_methods s = value then s else set_modified now ''auth_methods'' (s\<lparr>auth_methods := value\<rparr>))"

definition add_auth_methods :: "int \<Rightarrow> authentication_method list \<Rightarrow> opsisession \<Rightarrow> opsisession" where
  "add_auth_methods now value s =
     set_modified now ''auth_methods'' (s\<lparr>auth_methods := auth_methods s \<union> set value\<rparr>)"

definition set_is_admin :: "int \<Rightarrow> bool \<Rightarrow> opsisession \<Rightarrow> opsisession" where
  "set_is_admin now value s =
     (if is_admin s = value then s else set_modified now ''is_admin'' (s\<lparr>is_admin := value\<rparr>))"

definition set_is_read_only :: "int \<Rightarrow> bool \<Rightarrow> opsisession \<Rightarrow> opsisession" where
  "set_is_read_only now value s =
     (if is_read_only s = value then s else set_modified now ''is_read_only'' (s\<lparr>is_read_only := value\<rparr>))"

definition set_max_age :: "int \<Rightarrow> int \<Rightarrow> opsisession \<Rightarrow> opsisession" where
  "set_max_age now value s =
     (if max_age s = value then s else set_modified now ''max_age'' (s\<lparr>max_age := value\<rparr>))"

text \<open>The headers setter takes the user agent (unrecorded) and a lifetime the client asks for.\<close>

definition set_headers :: "int \<Rightarrow> headers \<Rightarrow> opsisession \<Rightarrow> opsisession" where
  "set_headers now value s =
     (if value = [] then s
      else let s = s\<lparr>req_headers := value,
                     user_agent := (case hdr_get value ''user-agent'' of None \<Rightarrow> [] | Some ua \<Rightarrow> ua)\<rparr>
           in case hdr_get value ''x-opsi-session-lifetime'' of
                None \<Rightarrow> s
              | Some x \<Rightarrow>
                  if x = [] then s
                  else (case py_int x of
                      Inl _ \<Rightarrow> s
                    | Inr lifetime \<Rightarrow>
                        if 0 < lifetime \<and> lifetime \<le> 3600 * 24
                        then (if max_age s \<noteq> lifetime then set_max_age now lifetime s else s)
                        else s))"

section \<open>Life cycle\<close>

definition new_session ::
  "session_config \<Rightarrow> int \<Rightarrow> string \<Rightarrow> headers \<Rightarrow> string option \<Rightarrow> opsisession" where
  "new_session cfg now addr hs sid =
     set_headers now hs
       \<lparr>req_headers = [], redis_expiration_seconds = 3600,
        messagebus_in_use_timeout = MESSAGEBUS_IN_USE_TIMEOUT, modifications = [],
        password = None, deleted = False, persistent = True, last_stored = 0,
        session_id = (if sid = Some [] then None else sid),
        version = [], client_addr = addr, user_agent = [], max_age = session_lifetime cfg,
        created = 0, last_used = 0, messagebus_last_used = 0, username = [], user_groups = {},
        session_host = None, authenticated = False, auth_methods = {}, is_admin = False,
        is_read_only = False\<rparr>"

definition reset_auth_data :: "int \<Rightarrow> opsisession \<Rightarrow> opsisession" where
  "reset_auth_data now s =
     set_is_read_only now False (set_is_admin now False (set_auth_methods now {}
       (set_authenticated now False (set_host now None (set_user_groups now {}
         ((set_username now [] s)\<lparr>password := None\<rparr>))))))"

definition validity :: "int \<Rightarrow> opsisession \<Rightarrow> int" where
  "validity now s = secs (usec * max_age s - (now - usec * last_used s))"

definition expired :: "int \<Rightarrow> opsisession \<Rightarrow> bool" where
  "expired now s = (validity now s \<le> 0)"

definition update_last_used :: "int \<Rightarrow> opsisession \<Rightarrow> opsisession" where
  "update_last_used now s = set_last_used now (secs now) s"

definition update_messagebus_last_used :: "int \<Rightarrow> opsisession \<Rightarrow> opsisession" where
  "update_messagebus_last_used now s =
     set_messagebus_last_used now (secs now) (set_last_used now (secs now) s)"

definition in_use_by_messagebus :: "int \<Rightarrow> opsisession \<Rightarrow> bool" where
  "in_use_by_messagebus now s = (secs now - messagebus_last_used s < messagebus_in_use_timeout s)"

definition get_cookie :: "int \<Rightarrow> opsisession \<Rightarrow> string option" where
  "get_cookie now s =
     (case session_id s of
        None \<Rightarrow> None
      | Some sid \<Rightarrow>
          if sid = [] \<or> \<not> persistent s then None
          else let attrs = ''SameSite=Strict; Secure; '';
                   age = ''; Max-Age='' @ str_of_int (max_age s);
                   age = (if deleted s then ''; Max-Age=0'' else age);
                   age = (if in_use_by_messagebus now s then [] else age)
               in Some (SESSION_COOKIE_NAME @ ''='' @ sid @ ''; '' @ attrs @ ''path=/'' @ age))"

definition add_cookie_to_headers :: "int \<Rightarrow> opsisession \<Rightarrow> headers \<Rightarrow> headers" where
  "add_cookie_to_headers now s hs =
     (case get_cookie now s of
        None \<Rightarrow> hs
      | Some cookie \<Rightarrow> if dict_has hs ''set-cookie'' then hs else dict_set ''set-cookie'' cookie hs)"

text \<open>The session id of a request: the cookie header is split by hand.\<close>

fun find_session_cookie :: "string list \<Rightarrow> string option" where
  "find_session_cookie [] = None"
| "find_session_cookie (cookie # cookies) =
     (case py_split1 CHR ''='' (py_strip cookie) of
        None \<Rightarrow> find_session_cookie cookies
      | Some (k, v) \<Rightarrow>
          if py_lower (py_strip k) = SESSION_COOKIE_NAME then Some (py_lower (py_strip v))
          else find_session_cookie cookies)"

definition get_session_id_from_headers :: "headers \<Rightarrow> string option" where
  "get_session_id_from_headers hs =
     (case hdr_get hs ''cookie'' of
        None \<Rightarrow> None
      | Some cookies \<Rightarrow> if cookies = [] then None else find_session_cookie (py_split CHR '';'' cookies))"

section \<open>Serialisation\<close>

text \<open>The value of an attribute, before it is encoded for redis.\<close>

datatype sval =
    VStr string
  | VInt int
  | VBool bool
  | VGroups "string set"
  | VMethods "authentication_method set"
  | VHost "host option"

definition session_attributes :: "string list" where
  "session_attributes =
     [''version'', ''client_addr'', ''user_agent'', ''max_age'', ''created'', ''last_used'',
      ''messagebus_last_used'', ''username'', ''user_groups'', ''host'', ''authenticated'',
      ''auth_methods'', ''is_admin'', ''is_read_only'']"

definition attr_value :: "opsisession \<Rightarrow> string \<Rightarrow> sval option" where
  "attr_value s a = map_of
     [(''version'', VStr (version s)), (''client_addr'', VStr (client_addr s)),
      (''user_agent'', VStr (user_agent s)), (''max_age'', VInt (max_age s)),
      (''created'', VInt (created s)), (''last_used'', VInt (last_used s)),
      (''messagebus_last_used'', VInt (messagebus_last_used s)), (''username'', VStr (username s)),
      (''user_groups'', VGroups (user_groups s)), (''host'', VHost (session_host s)),
      (''authenticated'', VBool (authenticated s)), (''auth_methods'', VMethods (auth_methods s)),
      (''is_admin'', VBool (is_admin s)), (''is_read_only'', VBool (is_read_only s))] a"

text \<open>What is passed to redis: bytes or a number, which redis keeps as decimal text.\<close>

datatype redis_val = RBytes string | RInt int

fun redis_bytes :: "redis_val \<Rightarrow> string" where
  "redis_bytes (RBytes b) = b"
| "redis_bytes (RInt i) = str_of_int i"

text \<open>\<open>msgspec.msgpack\<close>: packing of host hashes and of lists of strings.\<close>

record codec =
  pack_host :: "host \<Rightarrow> string"
  unpack_host :: "string \<Rightarrow> host option"
  pack_groups :: "string set \<Rightarrow> string"
  unpack_groups :: "string \<Rightarrow> string set option"
  pack_methods :: "authentication_method set \<Rightarrow> string"
  unpack_methods :: "string \<Rightarrow> authentication_method set option"

definition codec_laws :: "codec \<Rightarrow> bool" where
  "codec_laws c \<longleftrightarrow>
     (\<forall>h. unpack_host c (pack_host c h) = Some h \<and> pack_host c h \<noteq> []) \<and>
     (\<forall>g. finite g \<longrightarrow> unpack_groups c (pack_groups c g) = Some g) \<and>
     (\<forall>m. finite m \<longrightarrow> unpack_methods c (pack_methods c m) = Some m)"

fun serialize_value :: "codec \<Rightarrow> sval \<Rightarrow> redis_val" where
  "serialize_value c (VHost (Some h)) = RBytes (pack_host c h)"
| "serialize_value c (VGroups g) = RBytes (pack_groups c g)"
| "serialize_value c (VMethods m) = RBytes (pack_methods c m)"
| "serialize_value c (VBool b) = RInt (if b then 1 else 0)"
| "serialize_value c (VStr x) = RBytes (utf8_encode x)"
| "serialize_value c (VHost None) = RBytes []"
| "serialize_value c (VInt i) = RInt i"

definition serialize :: "codec \<Rightarrow> opsisession \<Rightarrow> (string \<times> redis_val) list" where
  "serialize c s = map (\<lambda>a. (a, serialize_value c (the (attr_value s a)))) session_attributes"

definition deserialize_value :: "codec \<Rightarrow> string \<Rightarrow> string \<Rightarrow> sval result" where
  "deserialize_value c attr val =
     (if attr = ''host'' then
        (if val = [] then Inr (VHost None)
         else bind_res (of_option (unpack_host c val) (ValueError ''msgpack'')) (\<lambda>h. Inr (VHost (Some h))))
      else if attr = ''user_groups'' then
        bind_res (of_option (unpack_groups c val) (ValueError ''msgpack'')) (\<lambda>g. Inr (VGroups g))
      else if attr = ''auth_methods'' then
        bind_res (of_option (unpack_methods c val) (ValueError ''msgpack'')) (\<lambda>m. Inr (VMethods m))
      else if attr \<in> {''authenticated'', ''is_admin'', ''is_read_only''} then
        bind_res (py_int val) (\<lambda>i. Inr (VBool (i \<noteq> 0)))
      else bind_res (utf8_decode val) (\<lambda>x. Inr (VStr x)))"

fun deserialize :: "codec \<Rightarrow> (string \<times> string) list \<Rightarrow> (string \<times> sval) list result" where
  "deserialize c [] = Inr []"
| "deserialize c ((attr, val) # data) =
     bind_res (deserialize_value c attr val) (\<lambda>v.
       bind_res (deserialize c data) (\<lambda>d. Inr ((attr, v) # d)))"

text \<open>The context of a message is a serialised session that never went through a redis hash: its numbers
  are still numbers.\<close>

fun deserialize_native :: "codec \<Rightarrow> string \<Rightarrow> redis_val \<Rightarrow> sval result" where
  "deserialize_native c attr (RBytes b) = deserialize_value c attr b"
| "deserialize_native c attr (RInt i) =
     (if attr = ''host'' then (if i = 0 then Inr (VHost None) else Inl AssertionError)
      else if attr \<in> {''user_groups'', ''auth_methods''} then Inl TypeError
      else if attr \<in> {''authenticated'', ''is_admin'', ''is_read_only''} then Inr (VBool (i \<noteq> 0))
      else Inr (VInt i))"

definition deserialize_context :: "codec \<Rightarrow> (string \<times> redis_val) list \<Rightarrow> (string \<times> sval) list result" where
  "deserialize_context c data = map_res (\<lambda>(attr, val). bind_res (deserialize_native c attr val) (\<lambda>v. Inr (attr, v))) data"

text \<open>\<open>setattr(session, attr, val)\<close> runs the property setter; from a redis hash numbers arrive as text.\<close>

definition session_setattr :: "int \<Rightarrow> string \<Rightarrow> sval \<Rightarrow> opsisession \<Rightarrow> opsisession result" where
  "session_setattr now attr val s =
     (case val of
        VStr x \<Rightarrow>
          if attr = ''version'' then Inr (set_version now x s)
          else if attr = ''client_addr'' then Inr (set_client_addr now x s)
          else if attr = ''user_agent'' then Inr (set_user_agent now x s)
          else if attr = ''username'' then Inr (set_username now x s)
          else if attr = ''max_age'' then bind_res (py_int x) (\<lambda>i. Inr (set_max_age now i s))
          else if attr = ''created'' then bind_res (py_int x) (\<lambda>i. Inr (set_created now i s))
          else if attr = ''last_used'' then bind_res (py_int x) (\<lambda>i. Inr (set_last_used now i s))
          else if attr = ''messagebus_last_used'' then bind_res (py_int x) (\<lambda>i. Inr (set_messagebus_last_used now i s))
          else Inr s
      | VBool b \<Rightarrow>
          if attr = ''authenticated'' then Inr (set_authenticated now b s)
          else if attr = ''is_admin'' then Inr (set_is_admin now b s)
          else if attr = ''is_read_only'' then Inr (set_is_read_only now b s)
          else Inr s
      | VGroups g \<Rightarrow> Inr (set_user_groups now g s)
      | VMethods m \<Rightarrow> Inr (set_auth_methods now m s)
      | VHost h \<Rightarrow> Inr (set_host now h s)
      | VInt i \<Rightarrow>
          if attr = ''max_age'' then Inr (set_max_age now i s)
          else if attr = ''created'' then Inr (set_created now i s)
          else if attr = ''last_used'' then Inr (set_last_used now i s)
          else if attr = ''messagebus_last_used'' then Inr (set_messagebus_last_used now i s)
          else Inr s)"

definition session_setattrs :: "int \<Rightarrow> (string \<times> sval) list \<Rightarrow> opsisession \<Rightarrow> opsisession result" where
  "session_setattrs now data s = fold_res (\<lambda>(a, v). session_setattr now a v) data s"

definition from_serialized ::
  "session_config \<Rightarrow> codec \<Rightarrow> int \<Rightarrow> (string \<times> redis_val) list \<Rightarrow> opsisession result" where
  "from_serialized cfg c now data =
     bind_res (deserialize_context c data) (\<lambda>d.
       (case map_of d ''client_addr'' of
          Some (VStr addr) \<Rightarrow> session_setattrs now d (new_session cfg now addr [] None)
        | _ \<Rightarrow> Inl (KeyError ''client_addr'')))"

section \<open>The contract of an attribute\<close>

text \<open>
  Every stored attribute is written through a setter that changes this attribute only, does
  nothing when the value is the same, and otherwise records the attribute as modified.
\<close>

definition same_rest :: "opsisession \<Rightarrow> opsisession \<Rightarrow> bool" where
  "same_rest s t = (session_id s = session_id t \<and> deleted s = deleted t \<and>
     persistent s = persistent t \<and> last_stored s = last_stored t \<and>
     password s = password t \<and> req_headers s = req_headers t \<and>
     redis_expiration_seconds s = redis_expiration_seconds t \<and>
     messagebus_in_use_timeout s = messagebus_in_use_timeout t)"

text \<open>Every attribute that differs from a snapshot is recorded as modified.\<close>

definition tracked :: "opsisession \<Rightarrow> opsisession \<Rightarrow> bool" where
  "tracked s0 s \<longleftrightarrow>
     (\<forall>a \<in> set session_attributes. attr_value s a \<noteq> attr_value s0 a \<longrightarrow> dict_has (modifications s) a)"

locale tracked_attribute =
  fixes name :: string
    and inj :: "'a \<Rightarrow> sval"
    and put :: "int \<Rightarrow> 'a \<Rightarrow> opsisession \<Rightarrow> opsisession"
    and same :: "opsisession \<Rightarrow> 'a \<Rightarrow> bool"
  assumes attr_put_unless: "attr_value (put now v s) a = (if a = name \<and> \<not> same s v then Some (inj v) else attr_value s a)"
    and put_unless: "same s v \<Longrightarrow> put now v s = s"
    and put_records: "\<not> same s v \<Longrightarrow> modifications (put now v s) = dict_set name now (modifications s)"
    and put_rest: "same_rest (put now v s) s"
    and name_attribute: "name \<in> set session_attributes"
begin

lemma put_tracked:
  assumes "tracked s0 s"
  shows "tracked s0 (put now v s)"
proof (cases "same s v")
  case True
  with assms show ?thesis by (simp add: put_unless)
next
  case False
  with assms show ?thesis
    by (auto simp: tracked_def attr_put_unless put_records dict_has_iff)
qed

lemma put_keeps_modifications:
  "dict_has (modifications s) a \<Longrightarrow> dict_has (modifications (put now v s)) a"
  by (cases "same s v") (auto simp: put_unless put_records dict_has_iff)

lemma put_outcome:
  "\<exists>t. Inr (put now v u) = Inr t \<and> same_rest t u \<and>
    (\<forall>b. attr_value t b = (if b = name \<and> \<not> same u v then Some (inj v) else attr_value u b))"
  by (simp add: put_rest attr_put_unless)

end

text \<open>For every attribute but the host, the setter compares the values themselves.\<close>

locale session_attribute =
  tracked_attribute name inj put "\<lambda>s v. attr_value s name = Some (inj v)"
  for name :: string and inj :: "'a \<Rightarrow> sval" and put :: "int \<Rightarrow> 'a \<Rightarrow> opsisession \<Rightarrow> opsisession"
begin

lemma attr_put: "attr_value (put now v s) a = (if a = name then Some (inj v) else attr_value s a)"
  by (simp add: attr_put_unless)

lemma put_put: "put now v (put now v s) = put now v s"
  by (rule put_unless) (simp add: attr_put)

lemma put_ok:
  "\<exists>t. Inr (put now v u) = Inr t \<and> same_rest t u \<and>
    (\<forall>b. attr_value t b = (if b = name then Some (inj v) else attr_value u b))"
  by (simp add: put_rest attr_put)

lemma put_marks: "attr_value s name \<noteq> Some (inj v) \<Longrightarrow> dict_has (modifications (put now v s)) name"
  by (simp add: put_records dict_has_iff)

end

lemmas attr_defs = set_modified_def attr_value_def same_rest_def session_attributes_def

interpretation attr_version: session_attribute "''version''" VStr set_version
  by unfold_locales (auto simp: set_version_def attr_defs)

interpretation attr_client_addr: session_attribute "''client_addr''" VStr set_client_addr
  by unfold_locales (auto simp: set_client_addr_def attr_defs)

interpretation attr_user_agent: session_attribute "''user_agent''" VStr set_user_agent
  by unfold_locales (auto simp: set_user_agent_def attr_defs)

interpretation attr_max_age: session_attribute "''max_age''" VInt set_max_age
  by unfold_locales (auto simp: set_max_age_def attr_defs)

interpretation attr_created: session_attribute "''created''" VInt set_created
  by unfold_locales (auto simp: set_created_def attr_defs)

interpretation attr_last_used: session_attribute "''last_used''" VInt set_last_used
  by unfold_locales (auto simp: set_last_used_def attr_defs)

interpretation attr_messagebus: session_attribute "''messagebus_last_used''" VInt set_messagebus_last_used
  by unfold_locales (auto simp: set_messagebus_last_used_def attr_defs)

interpretation attr_username: session_attribute "''username''" VStr set_username
  by unfold_locales (auto simp: set_username_def attr_defs)

interpretation attr_user_groups: session_attribute "''user_groups''" VGroups set_user_groups
  by unfold_locales (auto simp: set_user_groups_def attr_defs)

interpretation attr_host: tracked_attribute "''host''" VHost set_host "\<lambda>s. same_host (session_host s)"
  by unfold_locales (auto simp: set_host_def attr_defs)

interpretation attr_authenticated: session_attribute "''authenticated''" VBool set_authenticated
  by unfold_locales (auto simp: set_authenticated_def attr_defs)

interpretation attr_auth_methods: session_attribute "''auth_methods''" VMethods set_auth_methods
  by unfold_locales (auto simp: set_auth_methods_def attr_defs)

interpretation attr_is_admin: session_attribute "''is_admin''" VBool set_is_admin
  by unfold_locales (auto simp: set_is_admin_def attr_defs)

interpretation attr_is_read_only: session_attribute "''is_read_only''" VBool set_is_read_only
  by unfold_locales (auto simp: set_is_read_only_def attr_defs)

section \<open>Decoding what was encoded\<close>

text \<open>What \<open>deserialize\<close> makes of an encoded attribute: numbers stay text.\<close>

fun text_value :: "sval \<Rightarrow> sval" where
  "text_value (VInt i) = VStr (str_of_int i)"
| "text_value v = v"

definition finite_sets :: "opsisession \<Rightarrow> bool" where
  "finite_sets s = (finite (user_groups s) \<and> finite (auth_methods s))"

lemma session_attribute_cases:
  assumes "a \<in> set session_attributes"
  obtains "a = ''version''" | "a = ''client_addr''" | "a = ''user_agent''" | "a = ''max_age''"
    | "a = ''created''" | "a = ''last_used''" | "a = ''messagebus_last_used''" | "a = ''username''"
    | "a = ''user_groups''" | "a = ''host''" | "a = ''authenticated''" | "a = ''auth_methods''"
    | "a = ''is_admin''" | "a = ''is_read_only''"
  using assms unfolding session_attributes_def list.set insert_iff empty_iff by (elim disjE FalseE) assumption+

lemma attr_value_simps [simp]:
  "attr_value s ''version'' = Some (VStr (version s))"
  "attr_value s ''client_addr'' = Some (VStr (client_addr s))"
  "attr_value s ''user_agent'' = Some (VStr (user_agent s))"
  "attr_value s ''max_age'' = Some (VInt (max_age s))"
  "attr_value s ''created'' = Some (VInt (created s))"
  "attr_value s ''last_used'' = Some (VInt (last_used s))"
  "attr_value s ''messagebus_last_used'' = Some (VInt (messagebus_last_used s))"
  "attr_value s ''username'' = Some (VStr (username s))"
  "attr_value s ''user_groups'' = Some (VGroups (user_groups s))"
  "attr_value s ''host'' = Some (VHost (session_host s))"
  "attr_value s ''authenticated'' = Some (VBool (authenticated s))"
  "attr_value s ''auth_methods'' = Some (VMethods (auth_methods s))"
  "attr_value s ''is_admin'' = Some (VBool (is_admin s))"
  "attr_value s ''is_read_only'' = Some (VBool (is_read_only s))"
  by (simp_all add: attr_value_def)

lemma deserialize_text:
  assumes "a \<notin> {''host'', ''user_groups'', ''auth_methods'', ''authenticated'', ''is_admin'', ''is_read_only''}"
  shows "deserialize_value c a (utf8_encode x) = Inr (VStr x)"
    and "deserialize_value c a (str_of_int i) = Inr (VStr (str_of_int i))"
  using assms by (simp_all add: deserialize_value_def)

lemma deserialize_bool:
  assumes "a \<in> {''authenticated'', ''is_admin'', ''is_read_only''}"
  shows "deserialize_value c a (str_of_int (if b then 1 else 0)) = Inr (VBool b)"
  using assms by (auto simp: deserialize_value_def simp del: py_int_str_of_nat)

lemma deserialize_packed:
  assumes "codec_laws c" "finite_sets s"
  shows "deserialize_value c ''host'' (redis_bytes (serialize_value c (VHost h))) = Inr (VHost h)"
    and "deserialize_value c ''user_groups'' (pack_groups c (user_groups s)) = Inr (VGroups (user_groups s))"
    and "deserialize_value c ''auth_methods'' (pack_methods c (auth_methods s)) = Inr (VMethods (auth_methods s))"
  using assms
  by (cases h; simp add: deserialize_value_def codec_laws_def of_option_def finite_sets_def)+

lemma deserialize_serialize_value:
  assumes "codec_laws c" "finite_sets s" "a \<in> set session_attributes"
  shows "deserialize_value c a (redis_bytes (serialize_value c (the (attr_value s a)))) =
    Inr (text_value (the (attr_value s a)))"
  using assms(3)
  by (cases a rule: session_attribute_cases)
     (simp_all add: deserialize_text deserialize_bool deserialize_packed[OF assms(1,2), simplified])

text \<open>The value of an attribute when the stored values of \<open>s\<close> are assigned to \<open>u\<close>: a host that counts as the
  same is not replaced.\<close>

definition loaded_value :: "opsisession \<Rightarrow> opsisession \<Rightarrow> string \<Rightarrow> sval option" where
  "loaded_value u s a =
     (if a = ''host'' \<and> same_host (session_host u) (session_host s) then attr_value u a else attr_value s a)"

lemma loaded_value_other [simp]: "a \<noteq> ''host'' \<Longrightarrow> loaded_value u s a = attr_value s a"
  by (simp add: loaded_value_def)

lemma session_setattr_text_value:
  assumes "a \<in> set session_attributes"
  shows "\<exists>t. session_setattr now a (text_value (the (attr_value s a))) u = Inr t \<and> same_rest t u \<and>
    (\<forall>b. attr_value t b = (if b = a then loaded_value u s a else attr_value u b))"
proof -
  show ?thesis
    using assms
  proof (cases a rule: session_attribute_cases)
    case 1
    then show ?thesis using attr_version.put_ok[of now "version s" u]
      by (simp add: session_setattr_def)
  next
    case 2
    then show ?thesis using attr_client_addr.put_ok[of now "client_addr s" u]
      by (simp add: session_setattr_def)
  next
    case 3
    then show ?thesis using attr_user_agent.put_ok[of now "user_agent s" u]
      by (simp add: session_setattr_def)
  next
    case 4
    then show ?thesis using attr_max_age.put_ok[of now "max_age s" u]
      by (simp add: session_setattr_def)
  next
    case 5
    then show ?thesis using attr_created.put_ok[of now "created s" u]
      by (simp add: session_setattr_def)
  next
    case 6
    then show ?thesis using attr_last_used.put_ok[of now "last_used s" u]
      by (simp add: session_setattr_def)
  next
    case 7
    then show ?thesis using attr_messagebus.put_ok[of now "messagebus_last_used s" u]
      by (simp add: session_setattr_def)
  next
    case 8
    then show ?thesis using attr_username.put_ok[of now "username s" u]
      by (simp add: session_setattr_def)
  next
    case 9
    then show ?thesis using attr_user_groups.put_ok[of now "user_groups s" u]
      by (simp add: session_setattr_def)
  next
    case 10
    then show ?thesis using attr_host.put_outcome[of now "session_host s" u]
      by (simp add: session_setattr_def loaded_value_def)
  next
    case 11
    then show ?thesis using attr_authenticated.put_ok[of now "authenticated s" u]
      by (simp add: session_setattr_def)
  next
    case 12
    then show ?thesis using attr_auth_methods.put_ok[of now "auth_methods s" u]
      by (simp add: session_setattr_def)
  next
    case 13
    then show ?thesis using attr_is_admin.put_ok[of now "is_admin s" u]
      by (simp add: session_setattr_def)
  next
    case 14
    then show ?thesis using attr_is_read_only.put_ok[of now "is_read_only s" u]
      by (simp add: session_setattr_def)
  qed
qed

lemma same_rest_trans: "same_rest s t \<Longrightarrow> same_rest t u \<Longrightarrow> same_rest s u"
  by (simp add: same_rest_def)

lemma same_rest_refl [simp]: "same_rest s s"
  by (simp add: same_rest_def)

text \<open>The hash of a session in redis: attribute names to the bytes of their values.\<close>

definition stored_hash :: "codec \<Rightarrow> opsisession \<Rightarrow> string \<rightharpoonup> string" where
  "stored_hash c s = map_of (map (\<lambda>(a, v). (a, redis_bytes v)) (serialize c s))"

lemma map_of_serialize:
  "map_of (serialize c s) a =
    (if a \<in> set session_attributes then Some (serialize_value c (the (attr_value s a))) else None)"
  by (simp add: serialize_def map_of_map_restrict restrict_map_def)

lemma stored_hash_eq:
  "stored_hash c s a =
    (if a \<in> set session_attributes then Some (redis_bytes (serialize_value c (the (attr_value s a)))) else None)"
proof -
  have "stored_hash c s a = map_option redis_bytes (map_of (serialize c s) a)"
    by (simp add: stored_hash_def map_of_map)
  then show ?thesis by (simp add: map_of_serialize)
qed

lemma deserialize_stored:
  assumes "codec_laws c" "finite_sets s" "\<And>a v. (a, v) \<in> set data \<Longrightarrow> stored_hash c s a = Some v"
  shows "deserialize c data = Inr (map (\<lambda>(a, v). (a, text_value (the (attr_value s a)))) data)"
  using assms(3)
proof (induction data)
  case (Cons av data)
  obtain a v where av: "av = (a, v)" by (cases av)
  then have "stored_hash c s a = Some v" using Cons.prems by simp
  then have "a \<in> set session_attributes" "v = redis_bytes (serialize_value c (the (attr_value s a)))"
    by (auto simp: stored_hash_eq split: if_splits)
  with Cons show ?case by (simp add: av deserialize_serialize_value[OF assms(1,2)])
qed simp

lemma loaded_value_again:
  assumes "\<And>b. attr_value t b = (if b = a then loaded_value u s a else attr_value u b)"
  shows "loaded_value t s b = loaded_value u s b"
proof (cases "b = ''host''")
  case True
  have "Some (VHost (session_host t)) = (if a = ''host'' then loaded_value u s a else Some (VHost (session_host u)))"
    using assms[of "''host''"] by simp
  then show ?thesis using True by (auto simp: loaded_value_def split: if_splits)
qed simp

lemma session_setattrs_stored:
  assumes "\<And>a. a \<in> set as \<Longrightarrow> a \<in> set session_attributes"
  shows "\<exists>t. session_setattrs now (map (\<lambda>a. (a, text_value (the (attr_value s a)))) as) u = Inr t \<and> same_rest t u \<and>
    (\<forall>b. attr_value t b = (if b \<in> set as then loaded_value u s b else attr_value u b))"
  using assms
proof (induction as arbitrary: u)
  case (Cons a as)
  obtain t where t: "session_setattr now a (text_value (the (attr_value s a))) u = Inr t" "same_rest t u"
    "\<And>b. attr_value t b = (if b = a then loaded_value u s a else attr_value u b)"
    using session_setattr_text_value[of a now s u] Cons.prems by auto
  obtain w where w: "session_setattrs now (map (\<lambda>a. (a, text_value (the (attr_value s a)))) as) t = Inr w"
    "same_rest w t" "\<And>b. attr_value w b = (if b \<in> set as then loaded_value t s b else attr_value t b)"
    using Cons.IH[of t] Cons.prems by auto
  have "attr_value w b = (if b \<in> set (a # as) then loaded_value u s b else attr_value u b)" for b
    using w(3)[of b] t(3)[of b] loaded_value_again[OF t(3), of b] by auto
  then show ?case
    using t(1) w(1) same_rest_trans[OF w(2) t(2)] by (auto simp: session_setattrs_def)
qed (simp add: session_setattrs_def)

text \<open>A session made from the serialised form of another one has its attributes.\<close>

lemma deserialize_serialize_native:
  assumes "codec_laws c" "finite_sets s" "a \<in> set session_attributes"
  shows "deserialize_native c a (serialize_value c (the (attr_value s a))) = Inr (the (attr_value s a))"
  using assms(3)
  by (cases a rule: session_attribute_cases)
     (simp_all add: deserialize_text deserialize_packed[OF assms(1,2), simplified],
      cases "session_host s", use assms(1) in \<open>simp_all add: deserialize_value_def codec_laws_def of_option_def\<close>)

lemma session_setattr_native:
  assumes "a \<in> set session_attributes"
  shows "session_setattr now a (the (attr_value s a)) u = session_setattr now a (text_value (the (attr_value s a))) u"
  using assms by (cases a rule: session_attribute_cases) (simp_all add: session_setattr_def)

lemma from_serialized_serialize:
  assumes "codec_laws c" "finite_sets s"
  shows "\<exists>t. from_serialized cfg c now (serialize c s) = Inr t \<and> (\<forall>a \<in> set session_attributes. attr_value t a = attr_value s a)"
proof -
  let ?d = "map (\<lambda>a. (a, the (attr_value s a))) session_attributes"
  have "map_res (\<lambda>(attr, val). bind_res (deserialize_native c attr val) (\<lambda>v. Inr (attr, v)))
      (map (\<lambda>a. (a, serialize_value c (the (attr_value s a)))) as) = Inr (map (\<lambda>a. (a, the (attr_value s a))) as)"
    if "set as \<subseteq> set session_attributes" for as
    using that by (induction as) (simp_all add: deserialize_serialize_native[OF assms])
  then have d: "deserialize_context c (serialize c s) = Inr ?d" by (simp add: deserialize_context_def serialize_def)
  have addr: "map_of ?d ''client_addr'' = Some (VStr (client_addr s))"
    by (simp add: session_attributes_def attr_value_def)
  let ?u = "new_session cfg now (client_addr s) [] None"
  have as_text: "session_setattrs now ?d u = session_setattrs now (map (\<lambda>a. (a, text_value (the (attr_value s a)))) session_attributes) u" for u
  proof -
    have "fold_res (\<lambda>(a, v). session_setattr now a v) (map (\<lambda>a. (a, the (attr_value s a))) as) u =
        fold_res (\<lambda>(a, v). session_setattr now a v) (map (\<lambda>a. (a, text_value (the (attr_value s a)))) as) u"
      if "set as \<subseteq> set session_attributes" for as u
      using that by (induction as arbitrary: u) (auto simp: session_setattr_native intro!: bind_res_cong)
    then show ?thesis by (simp add: session_setattrs_def)
  qed
  have new: "loaded_value ?u s b = attr_value s b" for b
    by (auto simp: loaded_value_def new_session_def set_headers_def)
  obtain t where "session_setattrs now ?d ?u = Inr t" "\<And>b. attr_value t b = (if b \<in> set session_attributes then attr_value s b else attr_value ?u b)"
    using session_setattrs_stored[of session_attributes now s ?u] unfolding as_text new by auto
  then show ?thesis by (simp add: from_serialized_def d addr)
qed

lemma session_eqI:
  "attr_value s = attr_value t \<Longrightarrow> same_rest s t \<Longrightarrow> modifications s = modifications t \<Longrightarrow> s = t"
proof -
  assume av: "attr_value s = attr_value t" and r: "same_rest s t" and m: "modifications s = modifications t"
  have "attr_value s a = attr_value t a" for a using av by simp
  from this[of "''version''"] this[of "''client_addr''"] this[of "''user_agent''"] this[of "''max_age''"]
    this[of "''created''"] this[of "''last_used''"] this[of "''messagebus_last_used''"] this[of "''username''"]
    this[of "''user_groups''"] this[of "''host''"] this[of "''authenticated''"] this[of "''auth_methods''"]
    this[of "''is_admin''"] this[of "''is_read_only''"]
  show ?thesis using r m by (cases s; cases t) (simp add: same_rest_def)
qed

section \<open>Validity and cookies\<close>

lemma secs_pos: "0 < secs t \<longleftrightarrow> usec \<le> t"
  by (auto simp: secs_def pos_imp_zdiv_pos_iff)

lemma not_expired_iff:
  "\<not> expired now s \<longleftrightarrow> now \<le> usec * (last_used s + max_age s - 1)"
proof -
  have "\<not> expired now s \<longleftrightarrow> 0 < secs (usec * max_age s - (now - usec * last_used s))"
    by (auto simp: expired_def validity_def)
  also have "\<dots> \<longleftrightarrow> usec \<le> usec * max_age s - (now - usec * last_used s)" by (rule secs_pos)
  also have "\<dots> \<longleftrightarrow> now \<le> usec * (last_used s + max_age s - 1)" by (simp add: algebra_simps)
  finally show ?thesis .
qed

lemma max_age_set_headers:
  "max_age (set_headers now hs s) = max_age s \<or>
   (1 \<le> max_age (set_headers now hs s) \<and> max_age (set_headers now hs s) \<le> 86400)"
  by (simp add: set_headers_def set_max_age_def set_modified_def Let_def split: option.split sum.split)

lemma find_session_cookie_skip:
  assumes "\<And>c k v. c \<in> set pre \<Longrightarrow> py_split1 CHR ''='' (py_strip c) = Some (k, v) \<Longrightarrow>
      py_lower (py_strip k) \<noteq> SESSION_COOKIE_NAME"
  shows "find_session_cookie (pre @ cs) = find_session_cookie cs"
  using assms by (induction pre) (auto split: option.splits)

definition hex_id :: "string \<Rightarrow> bool" where
  "hex_id sid = (sid \<noteq> [] \<and> list_all (\<lambda>c. c \<in> set ''0123456789abcdef'') sid)"

lemma hex_char:
  assumes "c \<in> set ''0123456789abcdef''"
  shows "\<not> py_space c" "py_lower_char c = c" "c \<noteq> CHR '';''" "c \<noteq> CHR ''=''"
  using assms by (auto simp: py_space_def py_lower_char_def)

lemma hex_id_props:
  assumes "hex_id sid"
  shows "py_strip sid = sid" "py_lower sid = sid" "CHR '';'' \<notin> set sid" "\<not> py_space (last sid)"
proof -
  have h: "\<not> py_space c" "py_lower_char c = c" "c \<noteq> CHR '';''" if "c \<in> set sid" for c
    using assms that hex_char[of c] unfolding hex_id_def list_all_iff by blast+
  have "hd sid \<in> set sid" "last sid \<in> set sid" using assms by (auto simp: hex_id_def)
  then show "py_strip sid = sid" "\<not> py_space (last sid)" using h(1) by (auto simp: py_stripped_def)
  show "py_lower sid = sid" using h(2) by (simp add: py_lower_def map_idI)
  show "CHR '';'' \<notin> set sid" using h(3) by blast
qed

lemma cookie_name_props:
  "py_strip SESSION_COOKIE_NAME = SESSION_COOKIE_NAME" "py_lower SESSION_COOKIE_NAME = SESSION_COOKIE_NAME"
  "CHR ''='' \<notin> set SESSION_COOKIE_NAME" "CHR '';'' \<notin> set SESSION_COOKIE_NAME"
  "\<not> py_space (hd SESSION_COOKIE_NAME)" "SESSION_COOKIE_NAME \<noteq> []"
  by code_simp+

lemma find_own_cookie:
  assumes "hex_id sid"
  shows "find_session_cookie ((SESSION_COOKIE_NAME @ ''='' @ sid) # cs) = Some sid"
proof -
  let ?c = "SESSION_COOKIE_NAME @ ''='' @ sid"
  have "py_strip ?c = ?c"
    using assms hex_id_props[OF assms] cookie_name_props
    by (intro py_strip_stripped) (simp add: py_stripped_def hex_id_def)
  moreover have "py_split1 CHR ''='' ?c = Some (SESSION_COOKIE_NAME, sid)"
    using cookie_name_props(3) by (simp add: py_split1_Some)
  ultimately show ?thesis using hex_id_props[OF assms] cookie_name_props by simp
qed

lemma get_cookie_head:
  assumes "get_cookie now s = Some ck" "session_id s = Some sid" "hex_id sid"
  shows "hd (py_split CHR '';'' ck) = SESSION_COOKIE_NAME @ ''='' @ sid"
proof -
  obtain rest where "ck = (SESSION_COOKIE_NAME @ ''='' @ sid) @ CHR '';'' # rest"
    using assms(1,2) by (auto simp: get_cookie_def Let_def split: if_splits)
  then show ?thesis
    using py_split_append[of "CHR '';''" "SESSION_COOKIE_NAME @ ''='' @ sid" rest]
      hex_id_props(3)[OF assms(3)] cookie_name_props(4) by simp
qed

section \<open>Steps of a session between two stores\<close>

inductive session_step :: "opsisession \<Rightarrow> opsisession \<Rightarrow> bool" where
  setattr: "session_setattr now a v s = Inr t \<Longrightarrow> session_step s t"
| add_methods: "session_step s (add_auth_methods now ms s)"
| touch: "session_step s (update_last_used now s)"
| touch_messagebus: "session_step s (update_messagebus_last_used now s)"
| reset: "session_step s (reset_auth_data now s)"
| lifetime: "session_step s (set_max_age now n s)"

lemmas put_tracked_lemmas =
  attr_version.put_tracked attr_client_addr.put_tracked attr_user_agent.put_tracked
  attr_max_age.put_tracked attr_created.put_tracked attr_last_used.put_tracked
  attr_messagebus.put_tracked attr_username.put_tracked attr_user_groups.put_tracked
  attr_host.put_tracked attr_authenticated.put_tracked attr_auth_methods.put_tracked
  attr_is_admin.put_tracked attr_is_read_only.put_tracked

lemma tracked_password [simp]: "tracked s0 (s\<lparr>password := p\<rparr>) = tracked s0 s"
  by (simp add: tracked_def attr_value_def)

lemma attr_value_add_auth_methods:
  "a \<noteq> ''auth_methods'' \<Longrightarrow> attr_value (add_auth_methods now ms s) a = attr_value s a"
  by (simp add: attr_value_def add_auth_methods_def set_modified_def)

lemma tracked_add_auth_methods:
  assumes "tracked s0 s"
  shows "tracked s0 (add_auth_methods now ms s)"
  unfolding tracked_def
proof (intro ballI impI)
  fix a
  assume a: "a \<in> set session_attributes" "attr_value (add_auth_methods now ms s) a \<noteq> attr_value s0 a"
  show "dict_has (modifications (add_auth_methods now ms s)) a"
  proof (cases "a = ''auth_methods''")
    case True
    then show ?thesis by (simp add: add_auth_methods_def set_modified_def dict_has_iff)
  next
    case False
    then have "dict_has (modifications s) a"
      using assms a by (auto simp: tracked_def attr_value_add_auth_methods)
    then show ?thesis by (simp add: add_auth_methods_def set_modified_def dict_has_iff)
  qed
qed

lemma tracked_setattr: "tracked s0 s \<Longrightarrow> session_setattr now a v s = Inr t \<Longrightarrow> tracked s0 t"
  by (auto simp: session_setattr_def bind_res_Inr_iff put_tracked_lemmas
      simp del: insert_iff split: sval.splits if_splits)

lemma tracked_reset_auth_data: "tracked s0 s \<Longrightarrow> tracked s0 (reset_auth_data now s)"
  by (simp add: reset_auth_data_def put_tracked_lemmas)

lemma tracked_step: "session_step s t \<Longrightarrow> tracked s0 s \<Longrightarrow> tracked s0 t"
  by (induction rule: session_step.induct)
     (auto simp: update_last_used_def update_messagebus_last_used_def put_tracked_lemmas
        tracked_add_auth_methods tracked_reset_auth_data intro: tracked_setattr)

lemma tracked_refl [simp]: "tracked s s"
  by (simp add: tracked_def)

lemma tracked_steps: "session_step\<^sup>*\<^sup>* s0 s \<Longrightarrow> tracked s0 s"
  by (induction rule: rtranclp_induct) (auto intro: tracked_step)

section \<open>Properties\<close>

text \<open>
  Modification tracking is complete: after any sequence of attribute assignments, added
  authentication methods, touches, resets and lifetime changes, every stored attribute whose
  value differs from the one at the start is recorded in the modifications of the session.
\<close>

theorem session_modifications_complete:
  assumes "session_step\<^sup>*\<^sup>* s0 s" "a \<in> set session_attributes"
    "attr_value s a \<noteq> attr_value s0 a"
  shows "dict_has (modifications s) a"
  using tracked_steps[OF assms(1)] assms(2,3) by (auto simp: tracked_def)

definition example_session :: opsisession where
  "example_session = new_session
     \<lparr>session_lifetime = 120, max_session_per_ip = 25, max_sessions_excludes = [], redis_prefix = ''opsiconfd''\<rparr>
     0 ''10.1.1.1'' [] (Some ''ab12'')"

theorem session_modifications_complete_witness:
  "dict_has (modifications (update_last_used 5000000 example_session)) ''last_used''"
proof (rule session_modifications_complete)
  show "session_step\<^sup>*\<^sup>* example_session (update_last_used 5000000 example_session)"
    by (intro r_into_rtranclp session_step.touch)
  show "''last_used'' \<in> set session_attributes" by (simp add: session_attributes_def)
  show "attr_value (update_last_used 5000000 example_session) ''last_used'' \<noteq> attr_value example_session ''last_used''"
    by code_simp
qed

text \<open>
  The instant a session expires: it is valid exactly up to one second before
  \<open>last_used + max_age\<close> (the truncation of the remaining validity to whole seconds
  makes the last started second count as expired).
\<close>

theorem session_expiry_boundary:
  "\<not> expired now s \<longleftrightarrow> now \<le> usec * (last_used s + max_age s - 1)"
  by (rule not_expired_iff)

text \<open>
  A client cannot obtain an unlimited session: whatever the request headers hold, they
  leave the lifetime of the session as it is or set it to between one second and one day.
\<close>

theorem session_lifetime_bounded:
  "max_age (set_headers now hs s) = max_age s \<or>
   1 \<le> max_age (set_headers now hs s) \<and> max_age (set_headers now hs s) \<le> 86400"
  by (rule max_age_set_headers)

text \<open>
  The cookie round trip: when a client sends back the name-value part of the session
  cookie it was given, among any other cookies that come without the session's cookie name
  before it, the middleware finds this session's id again.
\<close>

theorem session_cookie_roundtrip:
  assumes "get_cookie now s = Some ck" "session_id s = Some sid" "hex_id sid"
    and "\<And>c. c \<in> set (pre @ post) \<Longrightarrow> CHR '';'' \<notin> set c"
    and "\<And>c k v. c \<in> set pre \<Longrightarrow> py_split1 CHR ''='' (py_strip c) = Some (k, v) \<Longrightarrow>
      py_lower (py_strip k) \<noteq> SESSION_COOKIE_NAME"
  shows "get_session_id_from_headers
    [(''cookie'', py_join '';'' (pre @ hd (py_split CHR '';'' ck) # post))] = Some sid"
proof -
  let ?own = "SESSION_COOKIE_NAME @ ''='' @ sid"
  let ?cs = "pre @ ?own # post"
  have "CHR '';'' \<notin> set ?own" using hex_id_props(3)[OF assms(3)] cookie_name_props(4) by simp
  then have split: "py_split CHR '';'' (py_join '';'' ?cs) = ?cs"
    using assms(4) by (intro py_split_join) auto
  have "find_session_cookie ?cs = find_session_cookie (?own # post)"
    using assms(5) by (rule find_session_cookie_skip)
  also have "\<dots> = Some sid" by (rule find_own_cookie[OF assms(3)])
  finally have "find_session_cookie ?cs = Some sid" .
  moreover have "py_join '';'' ?cs \<noteq> []" by (rule py_join_eq_Nil[of ?own]) auto
  moreover have "py_lower ''cookie'' = ''cookie''" by code_simp
  ultimately show ?thesis
    using split get_cookie_head[OF assms(1-3)]
    by (simp add: get_session_id_from_headers_def hdr_get_def)
qed

theorem session_cookie_roundtrip_witness:
  "get_session_id_from_headers
    [(''cookie'', py_join '';'' ([''NULL''] @
       hd (py_split CHR '';'' ''opsiconfd-session=ab12; SameSite=Strict; Secure; path=/; Max-Age=120'') # []))] = Some ''ab12''"
proof (rule session_cookie_roundtrip)
  show "get_cookie 100000000 example_session = Some ''opsiconfd-session=ab12; SameSite=Strict; Secure; path=/; Max-Age=120''"
    by code_simp
  show "session_id example_session = Some ''ab12''" by code_simp
  show "hex_id ''ab12''" by code_simp
  show "\<And>c. c \<in> set ([''NULL''] @ []) \<Longrightarrow> CHR '';'' \<notin> set c" by simp
  fix c k v
  assume "c \<in> set [''NULL'']" "py_split1 CHR ''='' (py_strip c) = Some (k, v)"
  moreover have "py_split1 CHR ''='' (py_strip ''NULL'') = None" by code_simp
  ultimately show "py_lower (py_strip k) \<noteq> SESSION_COOKIE_NAME" by simp
qed

end
