(* ===== verification/Session_Store.thy ===== *)
theory Session_Store
  imports Session
begin

text \<open>
  Sessions in redis (\<open>opsiconfd/session.py\<close>): storing, incremental storing, loading,
  refreshing and deleting a session, and the creation of a new session with the limit of
  sessions per address. Redis itself is a parameter: the commands the code sends are the
  fields of \<open>redis_ops\<close>, and \<open>redis_laws\<close> states their documented behaviour.
\<close>

section \<open>Redis\<close>

record 'r redis_ops =
  r_hgetall :: "'r \<Rightarrow> string \<Rightarrow> (string \<times> string) list"
  r_exists :: "'r \<Rightarrow> string \<Rightarrow> bool"
  r_hset :: "string \<Rightarrow> (string \<times> redis_val) list \<Rightarrow> 'r \<Rightarrow> 'r"
  r_expire :: "string \<Rightarrow> int \<Rightarrow> 'r \<Rightarrow> 'r"
  r_delete :: "string \<Rightarrow> 'r \<Rightarrow> 'r"
  r_scan :: "'r \<Rightarrow> string \<Rightarrow> string list"

definition redis_laws :: "'r redis_ops \<Rightarrow> bool" where
  "redis_laws ops \<longleftrightarrow>
     (\<forall>r k. distinct (map fst (r_hgetall ops r k))) \<and>
     (\<forall>r k. r_exists ops r k \<longleftrightarrow> r_hgetall ops r k \<noteq> []) \<and>
     (\<forall>r k m j. map_of (r_hgetall ops (r_hset ops k m r) j) =
        (if j = k then map_of (r_hgetall ops r k) ++ (map_option redis_bytes \<circ> map_of m)
         else map_of (r_hgetall ops r j))) \<and>
     (\<forall>r k n j. r_hgetall ops (r_expire ops k n r) j = r_hgetall ops r j) \<and>
     (\<forall>r k j. r_hgetall ops (r_delete ops k r) j = (if j = k then [] else r_hgetall ops r j))"

record 'r session_env =
  env_cfg :: session_config
  env_codec :: codec
  env_redis :: "'r redis_ops"
  env_norm_ip :: "string \<Rightarrow> string"

text \<open>What a session operation works on: the session object, redis, and the module variable
  with the addresses of known depots.\<close>

record 'r session_mem =
  cur :: opsisession
  red :: 'r
  depot_addresses :: "(string \<times> int) list"

section \<open>Keys\<close>

definition ip_address_to_redis_key :: "(string \<Rightarrow> string) \<Rightarrow> string \<Rightarrow> string" where
  "ip_address_to_redis_key norm_ip address =
     (if CHR '':'' \<in> set address
      then map (\<lambda>c. if c = CHR '':'' then CHR ''.'' else c) (norm_ip address) else address)"

definition session_key_prefix :: "'r session_env \<Rightarrow> string \<Rightarrow> string" where
  "session_key_prefix E addr =
     redis_prefix (env_cfg E) @ '':session:'' @ ip_address_to_redis_key (env_norm_ip E) addr @ '':''"

definition redis_key :: "'r session_env \<Rightarrow> opsisession \<Rightarrow> string result" where
  "redis_key E s =
     (case session_id s of
        None \<Rightarrow> Inl AssertionError
      | Some sid \<Rightarrow> if sid = [] then Inl AssertionError else Inr (session_key_prefix E (client_addr s) @ sid))"

section \<open>Storing and loading\<close>

definition store_session :: "'r session_env \<Rightarrow> int \<Rightarrow> string \<Rightarrow> bool \<Rightarrow> ('r session_mem, unit) prog" where
  "store_session E now uuid modifications_only = (\<lambda>w.
     let s = cur w in
     if deleted s \<or> expired now s \<or> \<not> persistent s then (Inr (), w)
     else if modifications_only \<and> modifications s = [] then (Inr (), w)
     else
       let s1 = (set_version now uuid s)\<lparr>last_stored := secs now\<rparr>;
           data = serialize (env_codec E) s1
       in case redis_key E s1 of
            Inl e \<Rightarrow> (Inl e, w\<lparr>cur := s1\<rparr>)
          | Inr key \<Rightarrow>
              let data = (if modifications_only \<and> r_exists (env_redis E) (red w) key
                          then filter (\<lambda>(a, v). dict_has (modifications s1) a) data else data);
                  r1 = (if data = [] then red w
                        else r_expire (env_redis E) key (redis_expiration_seconds s1)
                               (r_hset (env_redis E) key data (red w)))
              in (Inr (), w\<lparr>cur := s1\<lparr>modifications := []\<rparr>, red := r1\<rparr>))"

definition set_loaded_attr :: "int \<Rightarrow> string \<times> sval \<Rightarrow> ('r session_mem, unit) prog" where
  "set_loaded_attr now av = (\<lambda>w.
     case session_setattr now (fst av) (snd av) (cur w) of
       Inl e \<Rightarrow> (Inl e, w)
     | Inr t \<Rightarrow> (Inr (), w\<lparr>cur := t\<rparr>))"

text \<open>Any failure to read or decode the hash counts as an absent session.\<close>

definition load_session :: "'r session_env \<Rightarrow> int \<Rightarrow> ('r session_mem, bool) prog" where
  "load_session E now = (\<lambda>w.
     let data = (case bind_res (redis_key E (cur w))
                        (\<lambda>key. deserialize (env_codec E) (r_hgetall (env_redis E) (red w) key)) of
                   Inl _ \<Rightarrow> []
                 | Inr d \<Rightarrow> d)
     in if data = [] then (Inr False, w)
        else bind_prog (iter_prog (set_loaded_attr now) data)
               (\<lambda>_. bind_prog (modify_prog (\<lambda>w. let s = cur w;
                         s = (if last_stored s = 0 then s\<lparr>last_stored := secs now\<rparr> else s)
                       in w\<lparr>cur := s\<lparr>modifications := []\<rparr>\<rparr>))
                  (\<lambda>_. return_prog True)) w)"

definition is_stored :: "'r session_env \<Rightarrow> ('r session_mem, bool) prog" where
  "is_stored E = (\<lambda>w. (bind_res (redis_key E (cur w)) (\<lambda>key. Inr (r_exists (env_redis E) (red w) key)), w))"

definition get_version_from_redis :: "'r session_env \<Rightarrow> ('r session_mem, string option) prog" where
  "get_version_from_redis E = (\<lambda>w.
     (bind_res (redis_key E (cur w)) (\<lambda>key.
        case map_of (r_hgetall (env_redis E) (red w) key) ''version'' of
          None \<Rightarrow> Inr None
        | Some v \<Rightarrow> if v = [] then Inr None else bind_res (utf8_decode v) (\<lambda>x. Inr (Some x))), w))"

definition refresh_session :: "'r session_env \<Rightarrow> int \<Rightarrow> ('r session_mem, bool) prog" where
  "refresh_session E now =
     bind_prog (get_version_from_redis E) (\<lambda>v.
       case v of
         None \<Rightarrow> return_prog False
       | Some x \<Rightarrow>
           (\<lambda>w. if x = [] then (Inr False, w)
                else if x = version (cur w) then (Inr True, w)
                else load_session E now w))"

fun delete_loop :: "'r redis_ops \<Rightarrow> nat \<Rightarrow> string \<Rightarrow> 'r \<Rightarrow> 'r" where
  "delete_loop ops 0 key r = r"
| "delete_loop ops (Suc n) key r =
     (let r1 = r_delete ops key r in if r_exists ops r1 key then delete_loop ops n key r1 else r1)"

definition delete_session :: "'r session_env \<Rightarrow> ('r session_mem, unit) prog" where
  "delete_session E = (\<lambda>w.
     case redis_key E (cur w) of
       Inl e \<Rightarrow> (Inl e, w)
     | Inr key \<Rightarrow>
         (Inr (), w\<lparr>red := delete_loop (env_redis E) 10 key (red w), cur := (cur w)\<lparr>deleted := True\<rparr>\<rparr>))"

section \<open>New sessions\<close>

text \<open>The validity of a stored session; anything that cannot be read counts as zero.\<close>

definition stored_validity :: "'r session_env \<Rightarrow> int \<Rightarrow> 'r \<Rightarrow> string \<Rightarrow> int" where
  "stored_validity E now r key =
     (let vals = map_of (r_hgetall (env_redis E) r key) in
      case (vals ''max_age'', vals ''last_used'') of
        (Some m, Some l) \<Rightarrow>
          if m = [] \<or> l = [] then 0
          else (case bind_res (py_int m) (\<lambda>m. bind_res (py_int l) (\<lambda>l. Inr (secs (usec * m - (now - usec * l))))) of
                  Inl _ \<Rightarrow> 0
                | Inr v \<Rightarrow> v)
      | _ \<Rightarrow> 0)"

fun count_sessions :: "'r session_env \<Rightarrow> int \<Rightarrow> string list \<Rightarrow> nat \<Rightarrow> 'r \<Rightarrow> nat \<times> 'r" where
  "count_sessions E now [] n r = (n, r)"
| "count_sessions E now (key # keys) n r =
     (if 0 < stored_validity E now r key then count_sessions E now keys (Suc n) r
      else count_sessions E now keys n (r_delete (env_redis E) key r))"

text \<open>The limit that applies to the address, and the depot addresses after outdated ones
  are dropped.\<close>

definition session_limit :: "session_config \<Rightarrow> int \<Rightarrow> string \<Rightarrow> (string \<times> int) list \<Rightarrow> int \<times> (string \<times> int) list" where
  "session_limit cfg now addr depots =
     (if addr \<in> set (max_sessions_excludes cfg) then (0, depots)
      else (case map_of depots addr of
          None \<Rightarrow> (max_session_per_ip cfg, depots)
        | Some t \<Rightarrow>
            if now - t \<le> usec * session_lifetime cfg then (0, depots)
            else (max_session_per_ip cfg, dict_del addr depots)))"

definition init_new_session ::
  "'r session_env \<Rightarrow> int \<Rightarrow> string \<Rightarrow> string \<Rightarrow> ('r session_mem, unit) prog" where
  "init_new_session E now new_id new_version = (\<lambda>w.
     let s = reset_auth_data now (cur w);
         (limit, depots) = session_limit (env_cfg E) now (client_addr s) (depot_addresses w);
         keys = r_scan (env_redis E) (red w) (session_key_prefix E (client_addr s) @ ''*'');
         (session_count, r) = count_sessions E now keys 0 (red w);
         w1 = w\<lparr>cur := s, depot_addresses := depots, red := r\<rparr>
     in if 0 < limit \<and> limit < int session_count + 1
        then (Inl (HTTPException 403 ''Too many sessions''), w1)
        else (Inr (), w1\<lparr>cur := set_created now (secs now)
                (set_version now new_version (s\<lparr>session_id := Some new_id\<rparr>))\<rparr>))"

definition init_session ::
  "'r session_env \<Rightarrow> int \<Rightarrow> string \<Rightarrow> string \<Rightarrow> ('r session_mem, unit) prog" where
  "init_session E now new_id new_version =
     bind_prog
       (\<lambda>w. if session_id (cur w) = None then init_new_session E now new_id new_version w
            else bind_prog (load_session E now) (\<lambda>found w.
               if \<not> found \<or> expired now (cur w) then init_new_session E now new_id new_version w
               else (Inr (), w)) w)
       (\<lambda>_. modify_prog (\<lambda>w. w\<lparr>cur := update_last_used now (cur w)\<rparr>))"

section \<open>Redis after a write\<close>

lemma redis_hset:
  "redis_laws ops \<Longrightarrow> map_of (r_hgetall ops (r_hset ops k m r) k) =
     map_of (r_hgetall ops r k) ++ (map_option redis_bytes \<circ> map_of m)"
  by (simp add: redis_laws_def)

lemma redis_expire: "redis_laws ops \<Longrightarrow> r_hgetall ops (r_expire ops k n r) j = r_hgetall ops r j"
  by (simp add: redis_laws_def)

lemma redis_delete:
  "redis_laws ops \<Longrightarrow> r_hgetall ops (r_delete ops k r) j = (if j = k then [] else r_hgetall ops r j)"
  by (simp add: redis_laws_def)

lemma redis_exists: "redis_laws ops \<Longrightarrow> r_exists ops r k \<longleftrightarrow> r_hgetall ops r k \<noteq> []"
  by (simp add: redis_laws_def)

lemma redis_distinct: "redis_laws ops \<Longrightarrow> distinct (map fst (r_hgetall ops r k))"
  by (simp add: redis_laws_def)

lemma attr_value_upd [simp]:
  "attr_value (s\<lparr>last_stored := n\<rparr>) = attr_value s"
  "attr_value (s\<lparr>modifications := m\<rparr>) = attr_value s"
  "attr_value (s\<lparr>deleted := d\<rparr>) = attr_value s"
  by (auto simp: attr_value_def)

lemma stored_hash_upd [simp]:
  "stored_hash c (s\<lparr>last_stored := n\<rparr>) = stored_hash c s"
  "stored_hash c (s\<lparr>modifications := m\<rparr>) = stored_hash c s"
  by (auto simp: stored_hash_eq fun_eq_iff)

text \<open>The session object a successful store writes.\<close>

definition to_store :: "int \<Rightarrow> string \<Rightarrow> opsisession \<Rightarrow> opsisession" where
  "to_store now uuid s = (set_version now uuid s)\<lparr>last_stored := secs now\<rparr>"

definition storable :: "int \<Rightarrow> opsisession \<Rightarrow> bool" where
  "storable now s = (\<not> deleted s \<and> \<not> expired now s \<and> persistent s)"

lemma to_store_fields [simp]:
  "session_id (to_store now uuid s) = session_id s"
  "client_addr (to_store now uuid s) = client_addr s"
  "user_groups (to_store now uuid s) = user_groups s"
  "auth_methods (to_store now uuid s) = auth_methods s"
  "is_admin (to_store now uuid s) = is_admin s"
  "redis_expiration_seconds (to_store now uuid s) = redis_expiration_seconds s"
  by (simp_all add: to_store_def set_version_def set_modified_def)

lemma redis_key_to_store [simp]: "redis_key E (to_store now uuid s) = redis_key E s"
  by (simp add: redis_key_def split: option.split)

lemma tracked_to_store: "tracked s0 s \<Longrightarrow> tracked s0 (to_store now uuid s)"
  using attr_version.put_tracked[of s0 s now uuid] by (simp add: to_store_def tracked_def)

lemma serialize_not_Nil [simp]: "serialize c s \<noteq> []"
  by (simp add: serialize_def session_attributes_def)

lemma store_session_run:
  assumes "storable now (cur w)" "redis_key E (cur w) = Inr key" "mods_only \<longrightarrow> modifications (cur w) \<noteq> []"
    and "data = (if mods_only \<and> r_exists (env_redis E) (red w) key
      then filter (\<lambda>(a, v). dict_has (modifications (to_store now uuid (cur w))) a)
             (serialize (env_codec E) (to_store now uuid (cur w)))
      else serialize (env_codec E) (to_store now uuid (cur w)))"
  shows "store_session E now uuid mods_only w =
    (Inr (), w\<lparr>cur := (to_store now uuid (cur w))\<lparr>modifications := []\<rparr>,
      red := (if data = [] then red w
              else r_expire (env_redis E) key (redis_expiration_seconds (cur w))
                     (r_hset (env_redis E) key data (red w)))\<rparr>)"
  using assms redis_key_to_store[of E now uuid "cur w"]
  unfolding store_session_def Let_def to_store_def[symmetric] storable_def
  by (cases mods_only) simp_all

lemma store_session_hash:
  assumes "redis_laws (env_redis E)" "storable now (cur w)" "redis_key E (cur w) = Inr key"
    and "dom (map_of (r_hgetall (env_redis E) (red w) key)) \<subseteq> set session_attributes"
  shows "\<exists>r. store_session E now uuid False w =
      (Inr (), w\<lparr>cur := (to_store now uuid (cur w))\<lparr>modifications := []\<rparr>, red := r\<rparr>) \<and>
    map_of (r_hgetall (env_redis E) r key) = stored_hash (env_codec E) (to_store now uuid (cur w))"
proof -
  let ?s = "to_store now uuid (cur w)" and ?ops = "env_redis E" and ?c = "env_codec E"
  let ?r = "r_expire ?ops key (redis_expiration_seconds (cur w)) (r_hset ?ops key (serialize ?c ?s) (red w))"
  have "store_session E now uuid False w = (Inr (), w\<lparr>cur := ?s\<lparr>modifications := []\<rparr>, red := ?r\<rparr>)"
    using store_session_run[OF assms(2,3), of False "serialize ?c ?s" uuid] by simp
  moreover have "map_of (r_hgetall ?ops ?r key) a = stored_hash ?c ?s a" for a
  proof -
    have "map_of (r_hgetall ?ops ?r key) a =
        (map_of (r_hgetall ?ops (red w) key) ++ (map_option redis_bytes \<circ> map_of (serialize ?c ?s))) a"
      by (simp add: redis_expire[OF assms(1)] redis_hset[OF assms(1)])
    also have "\<dots> = stored_hash ?c ?s a"
      using assms(4) by (auto simp: stored_hash_eq map_of_serialize map_add_def dom_def split: option.splits)
    finally show ?thesis .
  qed
  ultimately show ?thesis by blast
qed

text \<open>Storing the modified attributes only: of an existing hash exactly the recorded attributes are
  overwritten (the new version among them).\<close>

definition written :: "string \<Rightarrow> opsisession \<Rightarrow> string \<Rightarrow> bool" where
  "written uuid s a = (dict_has (modifications s) a \<or> (a = ''version'' \<and> uuid \<noteq> version s))"

lemma to_store_written: "dict_has (modifications (to_store now uuid s)) a = written uuid s a"
  by (auto simp: to_store_def set_version_def set_modified_def written_def dict_has_iff)

lemma store_modifications_hash:
  fixes uuid :: string
  assumes "redis_laws (env_redis E)" "storable now (cur w)" "redis_key E (cur w) = Inr key" "modifications (cur w) \<noteq> []"
  defines "old \<equiv> map_of (r_hgetall (env_redis E) (red w) key)"
    and "new \<equiv> stored_hash (env_codec E) (to_store now uuid (cur w))"
  shows "\<exists>r. store_session E now uuid True w =
      (Inr (), w\<lparr>cur := (to_store now uuid (cur w))\<lparr>modifications := []\<rparr>, red := r\<rparr>) \<and>
    (\<forall>a. map_of (r_hgetall (env_redis E) r key) a =
      (if a \<in> set session_attributes \<and> (\<not> r_exists (env_redis E) (red w) key \<or> written uuid (cur w) a)
       then new a else old a))"
proof -
  let ?s = "to_store now uuid (cur w)" and ?ops = "env_redis E" and ?c = "env_codec E"
  let ?all = "\<not> r_exists ?ops (red w) key"
  let ?data = "if \<not> ?all then filter (\<lambda>(a, v). dict_has (modifications ?s) a) (serialize ?c ?s) else serialize ?c ?s"
  let ?r = "if ?data = [] then red w
    else r_expire ?ops key (redis_expiration_seconds (cur w)) (r_hset ?ops key ?data (red w))"
  have run: "store_session E now uuid True w = (Inr (), w\<lparr>cur := ?s\<lparr>modifications := []\<rparr>, red := ?r\<rparr>)"
    using store_session_run[OF assms(2,3), of True ?data uuid] assms(4) by simp
  have "map_of (filter (\<lambda>(a, v). Q a) xs) a = (if Q a then map_of xs a else None)"
    for Q and xs :: "(string \<times> redis_val) list" and a
    by (induction xs) auto
  then have m: "map_of ?data a = (if ?all \<or> written uuid (cur w) a then map_of (serialize ?c ?s) a else None)" for a
    by (simp add: to_store_written)
  have "map_of (r_hgetall ?ops ?r key) a = (old ++ (map_option redis_bytes \<circ> map_of ?data)) a" for a
    by (simp add: old_def redis_expire[OF assms(1)] redis_hset[OF assms(1)])
  moreover have "(old ++ (map_option redis_bytes \<circ> map_of ?data)) a =
      (if a \<in> set session_attributes \<and> (?all \<or> written uuid (cur w) a) then new a else old a)" for a
    unfolding map_add_def comp_def m by (auto simp: new_def stored_hash_eq map_of_serialize)
  ultimately show ?thesis using run by (intro exI[of _ ?r]) auto
qed

section \<open>Reading back\<close>

lemma iter_set_loaded_attr:
  "session_setattrs now d (cur w) = Inr t \<Longrightarrow>
   iter_prog (set_loaded_attr now) d w = (Inr (), w\<lparr>cur := t\<rparr>)"
proof (induction d arbitrary: w)
  case (Cons av d)
  obtain u where u: "session_setattr now (fst av) (snd av) (cur w) = Inr u" "session_setattrs now d u = Inr t"
    using Cons.prems by (auto simp: session_setattrs_def bind_res_Inr_iff split: prod.splits)
  then show ?case
    using Cons.IH[of "w\<lparr>cur := u\<rparr>"] by (simp add: bind_prog_run set_loaded_attr_def)
qed (simp add: session_setattrs_def)

lemma load_session_stored:
  assumes "redis_laws (env_redis E)" "codec_laws (env_codec E)" "finite_sets s"
    and "redis_key E (cur w) = Inr key"
    and "map_of (r_hgetall (env_redis E) (red w) key) = stored_hash (env_codec E) s"
  shows "\<exists>t. load_session E now w = (Inr True, w\<lparr>cur := t\<rparr>) \<and> modifications t = [] \<and>
    session_id t = session_id (cur w) \<and>
    (\<forall>a \<in> set session_attributes. attr_value t a = loaded_value (cur w) s a)"
proof -
  let ?data = "r_hgetall (env_redis E) (red w) key" and ?c = "env_codec E"
  have h: "stored_hash ?c s a = Some v" if "(a, v) \<in> set ?data" for a v
    using redis_distinct[OF assms(1), of "red w" key] that assms(5)
    by (metis map_of_eq_Some_iff)
  have keys: "set (map fst ?data) = set session_attributes"
  proof -
    have "set (map fst ?data) = dom (map_of ?data)" by (simp add: dom_map_of_conv_image_fst)
    also have "\<dots> = set session_attributes" by (auto simp: assms(5) stored_hash_eq dom_def)
    finally show ?thesis .
  qed
  let ?d = "map (\<lambda>a. (a, text_value (the (attr_value s a)))) (map fst ?data)"
  have "map (\<lambda>(a, v). (a, text_value (the (attr_value s a)))) ?data = ?d"
    by (simp add: case_prod_beta)
  then have des: "deserialize ?c ?data = Inr ?d"
    using deserialize_stored[OF assms(2,3) h] by simp
  obtain t where t: "session_setattrs now ?d (cur w) = Inr t" "same_rest t (cur w)"
    "\<And>b. attr_value t b = (if b \<in> set (map fst ?data) then loaded_value (cur w) s b else attr_value (cur w) b)"
    using session_setattrs_stored[of "map fst ?data" now s "cur w"] keys by auto
  have "set session_attributes \<noteq> {}" by (simp add: session_attributes_def)
  then have "?data \<noteq> []" using keys by (metis list.set(1) list.map_disc_iff set_empty)
  let ?t = "(if last_stored t = 0 then t\<lparr>last_stored := secs now\<rparr> else t)\<lparr>modifications := []\<rparr>"
  have "load_session E now w = (Inr True, w\<lparr>cur := ?t\<rparr>)"
    using des assms(4) \<open>?data \<noteq> []\<close> iter_set_loaded_attr[OF t(1)]
    by (simp add: load_session_def bind_prog_run)
  moreover have "session_id ?t = session_id (cur w)" using t(2) by (simp add: same_rest_def)
  moreover have "\<forall>a \<in> set session_attributes. attr_value ?t a = loaded_value (cur w) s a"
    using t(3) keys by auto
  ultimately show ?thesis by (intro exI[of _ ?t]) auto
qed

section \<open>A redis and a codec that meet the laws\<close>

text \<open>Association lists keyed by redis keys; the first binding of a field counts.\<close>

type_synonym alist_redis = "(string \<times> (string \<times> string) list) list"

definition alist_hash :: "alist_redis \<Rightarrow> string \<Rightarrow> (string \<times> string) list" where
  "alist_hash r k = AList.clearjunk (case map_of r k of None \<Rightarrow> [] | Some d \<Rightarrow> d)"

definition alist_redis_ops :: "alist_redis redis_ops" where
  "alist_redis_ops =
     \<lparr>r_hgetall = alist_hash,
      r_exists = (\<lambda>r k. alist_hash r k \<noteq> []),
      r_hset = (\<lambda>k m r. dict_set k (map (\<lambda>(a, v). (a, redis_bytes v)) m @ alist_hash r k) r),
      r_expire = (\<lambda>k n r. r),
      r_delete = (\<lambda>k r. dict_del k r),
      r_scan = (\<lambda>r pat. filter (\<lambda>k. py_startswith k (butlast pat)) (map fst r))\<rparr>"

lemma alist_redis_laws: "redis_laws alist_redis_ops"
proof -
  have clear: "AList.clearjunk xs = [] \<longleftrightarrow> xs = []" for xs :: "(string \<times> string) list"
    by (cases xs) (auto simp: clearjunk.simps)
  have "map_of (map (\<lambda>(a, v). (a, redis_bytes v)) m) = map_option redis_bytes \<circ> map_of m" for m :: "(string \<times> redis_val) list"
    by (auto simp: map_of_map)
  then show ?thesis
    by (auto simp: redis_laws_def alist_redis_ops_def alist_hash_def distinct_clearjunk map_of_clearjunk
        clear split: option.splits)
qed

text \<open>Strings are packed character by character, each preceded by a mark, and closed.\<close>

fun pack_str :: "string \<Rightarrow> string" where
  "pack_str [] = ''.''"
| "pack_str (c # cs) = CHR ''c'' # c # pack_str cs"

fun unpack_str :: "string \<Rightarrow> (string \<times> string) option" where
  "unpack_str [] = None"
| "unpack_str (x # xs) =
     (if x = CHR ''.'' then Some ([], xs)
      else (case xs of [] \<Rightarrow> None
        | c # cs \<Rightarrow> (case unpack_str cs of None \<Rightarrow> None | Some (s, rest) \<Rightarrow> Some (c # s, rest))))"

lemma unpack_pack_str: "unpack_str (pack_str s @ rest) = Some (s, rest)"
  by (induction s) simp_all

fun unpack_strs :: "nat \<Rightarrow> string \<Rightarrow> string list option" where
  "unpack_strs 0 xs = None"
| "unpack_strs (Suc n) xs =
     (if xs = [] then Some []
      else (case unpack_str xs of None \<Rightarrow> None
        | Some (s, rest) \<Rightarrow> map_option (\<lambda>ss. s # ss) (unpack_strs n rest)))"

lemma pack_str_not_Nil [simp]: "pack_str s \<noteq> []" "0 < length (pack_str s)"
  by (cases s; simp)+

lemma unpack_pack_strs:
  "length (concat (map pack_str ss)) < n \<Longrightarrow> unpack_strs n (concat (map pack_str ss)) = Some ss"
proof (induction ss arbitrary: n)
  case Nil
  then show ?case by (cases n) simp_all
next
  case (Cons s ss)
  then obtain k where k: "n = Suc k" by (cases n) auto
  have "length (concat (map pack_str ss)) < k"
    using Cons.prems pack_str_not_Nil(2)[of s] by (simp only: k list.map concat.simps length_append)
  then show ?case using Cons.IH by (simp add: k unpack_pack_str)
qed

definition opt_strs :: "string option \<Rightarrow> string" where
  "opt_strs x = (case x of None \<Rightarrow> [] | Some y \<Rightarrow> ''s'' @ y)"

definition strs_opt :: "string \<Rightarrow> string option" where
  "strs_opt x = (if x = [] then None else Some (tl x))"

definition example_codec :: codec where
  "example_codec =
     \<lparr>pack_host = (\<lambda>h. concat (map pack_str
          [host_id h, (case host_type h of OpsiClient \<Rightarrow> ''c'' | OpsiDepotserver \<Rightarrow> ''d'' | OpsiConfigserver \<Rightarrow> ''s''),
           opt_strs (opsiHostKey h), opt_strs (oneTimePassword h), opt_strs (ipAddress h), opt_strs (lastSeen h)])),
      unpack_host = (\<lambda>s. case unpack_strs (Suc (length s)) s of
          Some [i, t, k, p, ip, l] \<Rightarrow>
            Some \<lparr>host_id = i, host_type = (if t = ''c'' then OpsiClient else if t = ''d'' then OpsiDepotserver else OpsiConfigserver),
              opsiHostKey = strs_opt k, oneTimePassword = strs_opt p, ipAddress = strs_opt ip, lastSeen = strs_opt l\<rparr>
        | _ \<Rightarrow> None),
      pack_groups = (\<lambda>g. concat (map pack_str (sorted_list_of_set g))),
      unpack_groups = (\<lambda>s. map_option set (unpack_strs (Suc (length s)) s)),
      pack_methods = (\<lambda>m. map (\<lambda>x. if x \<in> m then CHR ''1'' else CHR ''0'')
          [ADMIN_NETWORKS, HARDWARE_ADDRESS, HOST_ID, HOST_KEY, NOT_SET, PASSWORD_FILE, PASSWORD_LDAP,
           PASSWORD_ONETIME, PASSWORD_PAM, SYSTEM_UUID, TLS_CERTIFICATE, TOTP, USERNAME]),
      unpack_methods = (\<lambda>s. Some (set (map fst (filter (\<lambda>(x, b). b = CHR ''1'')
          (zip [ADMIN_NETWORKS, HARDWARE_ADDRESS, HOST_ID, HOST_KEY, NOT_SET, PASSWORD_FILE, PASSWORD_LDAP,
           PASSWORD_ONETIME, PASSWORD_PAM, SYSTEM_UUID, TLS_CERTIFICATE, TOTP, USERNAME] s)))))\<rparr>"

lemma strs_opt_opt_strs [simp]: "strs_opt (opt_strs x) = x"
  by (cases x) (simp_all add: strs_opt_def opt_strs_def)

lemma example_codec_host:
  "unpack_host example_codec (pack_host example_codec h) = Some h" "pack_host example_codec h \<noteq> []"
proof -
  show "unpack_host example_codec (pack_host example_codec h) = Some h"
    unfolding example_codec_def codec.simps
    by (subst unpack_pack_strs, simp, cases h) (simp split: host_type.split)
  show "pack_host example_codec h \<noteq> []"
    by (simp add: example_codec_def)
qed

lemma example_codec_methods:
  "unpack_methods example_codec (pack_methods example_codec m) = Some m"
proof -
  have "set (map fst (filter (\<lambda>(x, b). b = CHR ''1'') (zip xs (map (\<lambda>x. if x \<in> m then CHR ''1'' else CHR ''0'') xs)))) = set xs \<inter> m"
    for xs :: "authentication_method list"
    by (induction xs) auto
  moreover have "set [ADMIN_NETWORKS, HARDWARE_ADDRESS, HOST_ID, HOST_KEY, NOT_SET, PASSWORD_FILE, PASSWORD_LDAP,
           PASSWORD_ONETIME, PASSWORD_PAM, SYSTEM_UUID, TLS_CERTIFICATE, TOTP, USERNAME] = UNIV"
    by (auto intro: authentication_method.exhaust)
  ultimately show ?thesis unfolding example_codec_def codec.simps by (metis Int_UNIV_left)
qed

lemma example_codec_laws: "codec_laws example_codec"
proof -
  have "unpack_groups example_codec (pack_groups example_codec g) = Some g" if "finite g" for g
    using that unpack_pack_strs[of "sorted_list_of_set g", OF lessI]
    by (simp add: example_codec_def del: unpack_strs.simps)
  then show ?thesis by (simp add: codec_laws_def example_codec_host example_codec_methods)
qed

section \<open>Counting and deleting\<close>

lemma stored_validity_cong:
  "r_hgetall (env_redis E) r k = r_hgetall (env_redis E) r' k \<Longrightarrow>
   stored_validity E now r k = stored_validity E now r' k"
  by (simp add: stored_validity_def)

lemma stored_validity_absent:
  "r_hgetall (env_redis E) r k = [] \<Longrightarrow> stored_validity E now r k = 0"
  by (simp add: stored_validity_def)

lemma stored_validity_delete:
  assumes "redis_laws (env_redis E)" "\<not> 0 < stored_validity E now r k"
  shows "0 < stored_validity E now (r_delete (env_redis E) k r) i \<longleftrightarrow> 0 < stored_validity E now r i"
  using assms(2) stored_validity_cong[of E "r_delete (env_redis E) k r" i r now]
    stored_validity_absent[of E "r_delete (env_redis E) k r" k now]
  by (cases "i = k") (simp_all add: redis_delete[OF assms(1)])

lemma count_sessions_number:
  assumes "redis_laws (env_redis E)"
  shows "fst (count_sessions E now keys n r) = n + length (filter (\<lambda>k. 0 < stored_validity E now r k) keys)"
proof (induction keys arbitrary: n r)
  case (Cons k keys)
  show ?case
  proof (cases "0 < stored_validity E now r k")
    case True
    then show ?thesis using Cons.IH[of "Suc n" r] by simp
  next
    case False
    then show ?thesis
      using Cons.IH[of n "r_delete (env_redis E) k r"] by (simp add: stored_validity_delete[OF assms False])
  qed
qed simp

lemma count_sessions_remaining:
  assumes "redis_laws (env_redis E)"
  shows "r_hgetall (env_redis E) (snd (count_sessions E now keys n r)) j =
      (if j \<in> set keys \<and> stored_validity E now r j \<le> 0 then [] else r_hgetall (env_redis E) r j)"
proof (induction keys arbitrary: n r)
  case (Cons k keys)
  show ?case
  proof (cases "0 < stored_validity E now r k")
    case True
    then show ?thesis using Cons.IH[of "Suc n" r] by auto
  next
    case False
    then show ?thesis
      using Cons.IH[of n "r_delete (env_redis E) k r"] stored_validity_delete[OF assms False, of j]
      by (auto simp: redis_delete[OF assms] not_less)
  qed
qed simp

lemmas count_sessions_counts = count_sessions_number count_sessions_remaining

lemma delete_loop_gone:
  assumes "redis_laws ops"
  shows "r_hgetall ops (delete_loop ops (Suc n) k r) j = (if j = k then [] else r_hgetall ops r j)"
  by (simp add: redis_exists[OF assms] redis_delete[OF assms] Let_def)

lemma client_addr_reset_auth_data [simp]: "client_addr (reset_auth_data now s) = client_addr s"
  by (simp add: reset_auth_data_def set_is_read_only_def set_is_admin_def set_auth_methods_def
      set_authenticated_def set_host_def set_user_groups_def set_username_def set_modified_def)

lemma reset_auth_data_auth [simp]:
  "authenticated (reset_auth_data now s) = False" "is_admin (reset_auth_data now s) = False"
  "user_groups (reset_auth_data now s) = {}" "session_host (reset_auth_data now s) = None"
  "username (reset_auth_data now s) = []" "session_id (reset_auth_data now s) = session_id s"
  by (simp_all add: reset_auth_data_def set_is_read_only_def set_is_admin_def set_auth_methods_def
      set_authenticated_def set_host_def set_user_groups_def set_username_def set_modified_def)

section \<open>Properties\<close>


definition example_env :: "alist_redis session_env" where
  "example_env =
     \<lparr>env_cfg = \<lparr>session_lifetime = 120, max_session_per_ip = 2, max_sessions_excludes = [], redis_prefix = ''opsiconfd''\<rparr>,
      env_codec = example_codec, env_redis = alist_redis_ops, env_norm_ip = (\<lambda>a. a)\<rparr>"

definition example_mem :: "alist_redis session_mem" where
  "example_mem = \<lparr>cur = update_last_used 5000000 example_session, red = [], depot_addresses = []\<rparr>"



definition stored_mem :: "alist_redis session_mem" where
  "stored_mem = \<lparr>cur = update_last_used 5000000 example_session,
     red = [(''opsiconfd:session:10.1.1.1:ab12'',
        map (\<lambda>(a, v). (a, redis_bytes v)) (serialize example_codec example_session))], depot_addresses = []\<rparr>"


text \<open>
  C20. The limit of sessions per address: a new session is refused with status 403 exactly
  when a limit applies and that many unexpired sessions of the address are in redis;
  unexpired sessions are untouched, expired ones of the address are removed, and the session
  object holds no authentication data in either case.
\<close>

theorem session_limit_enforced:
  fixes E :: "'r session_env"
  assumes "redis_laws (env_redis E)"
    and "init_new_session E now new_id new_version w = (res, w1)"
    and "keys = r_scan (env_redis E) (red w) (session_key_prefix E (client_addr (cur w)) @ ''*'')"
    and "limit = fst (session_limit (env_cfg E) now (client_addr (cur w)) (depot_addresses w))"
    and "valid = length (filter (\<lambda>k. 0 < stored_validity E now (red w) k) keys)"
  shows "res = (if 0 < limit \<and> limit \<le> int valid then Inl (HTTPException 403 ''Too many sessions'') else Inr ()) \<and>
    (\<forall>j. r_hgetall (env_redis E) (red w1) j =
      (if j \<in> set keys \<and> stored_validity E now (red w) j \<le> 0 then [] else r_hgetall (env_redis E) (red w) j)) \<and>
    \<not> authenticated (cur w1) \<and> \<not> is_admin (cur w1) \<and> user_groups (cur w1) = {} \<and> session_host (cur w1) = None"
proof -
  note count = count_sessions_counts[OF assms(1), of now keys 0 "red w"]
  have "res = (if 0 < limit \<and> limit \<le> int valid then Inl (HTTPException 403 ''Too many sessions'') else Inr ())"
    using assms(2) count(1) assms(4,5) unfolding assms(3)
    by (auto simp: init_new_session_def Let_def split: prod.splits if_splits)
  moreover have "r_hgetall (env_redis E) (red w1) j =
      (if j \<in> set keys \<and> stored_validity E now (red w) j \<le> 0 then [] else r_hgetall (env_redis E) (red w) j)" for j
    using assms(2) count(2)[of j] unfolding assms(3)
    by (auto simp: init_new_session_def Let_def split: prod.splits if_splits)
  moreover have "\<not> authenticated (cur w1) \<and> \<not> is_admin (cur w1) \<and> user_groups (cur w1) = {} \<and> session_host (cur w1) = None"
    using assms(2)
    by (auto simp: init_new_session_def Let_def set_created_def set_version_def set_modified_def
        split: prod.splits if_splits)
  ultimately show ?thesis by blast
qed

text \<open>Two unexpired sessions of the address are stored and the limit is two.\<close>

definition full_mem :: "alist_redis session_mem" where
  "full_mem = \<lparr>cur = example_session,
     red = [(''opsiconfd:session:10.1.1.1:aa'', [(''max_age'', ''120''), (''last_used'', ''5'')]),
            (''opsiconfd:session:10.1.1.1:bb'', [(''max_age'', ''120''), (''last_used'', ''6'')])],
     depot_addresses = []\<rparr>"

theorem session_limit_enforced_witness:
  "fst (init_new_session example_env 7000000 ''cc'' ''v1'' full_mem) = Inl (HTTPException 403 ''Too many sessions'')"
proof -
  have laws: "redis_laws (env_redis example_env)" by (simp add: example_env_def alist_redis_laws)
  have n: "length (filter (\<lambda>k. 0 < stored_validity example_env 7000000 (red full_mem) k)
      (r_scan (env_redis example_env) (red full_mem) (session_key_prefix example_env (client_addr (cur full_mem)) @ ''*''))) = 2"
    "fst (session_limit (env_cfg example_env) 7000000 (client_addr (cur full_mem)) (depot_addresses full_mem)) = 2"
    by code_simp+
  show ?thesis
    using session_limit_enforced[OF laws surjective_pairing refl refl refl, of 7000000 "''cc''" "''v1''" full_mem] n by simp
qed



end
