(* ===== verification/Session_Manager.thy ===== *)
theory Session_Manager
  imports Session_Store
begin

text \<open>
  The sessions of a worker process (\<open>opsiconfd/session.py\<close>, class \<open>SessionManager\<close>): finding or
  creating the session of a request, and the pass of the manager task that stores changed
  sessions and drops expired and deleted ones. The redis database is shared by all workers, the
  dictionary of session objects belongs to one. A pass is one iteration of the endless loop of
  the task, and the sessions of the dictionary do not change under it.
\<close>

section \<open>Data\<close>

record 'r session_manager =
  sm_sessions :: "(string \<times> opsisession) list"
  sm_should_stop :: bool
  sm_red :: 'r
  sm_depots :: "(string \<times> int) list"

definition SESSION_UNAWARE_USER_AGENTS :: "string list" where
  "SESSION_UNAWARE_USER_AGENTS = [''libdnf'', ''curl'']"

definition session_unaware :: "opsisession \<Rightarrow> bool" where
  "session_unaware s = (user_agent s \<noteq> [] \<and> list_ex (py_startswith (user_agent s)) SESSION_UNAWARE_USER_AGENTS)"

text \<open>Running an operation of a session object of the dictionary.\<close>

definition on_session ::
  "('r session_mem, 'a) prog \<Rightarrow> opsisession \<Rightarrow> 'r session_manager \<Rightarrow> 'a result \<times> opsisession \<times> 'r session_manager" where
  "on_session p s m =
     (let (r, w) = p \<lparr>cur = s, red = sm_red m, depot_addresses = sm_depots m\<rparr>
      in (r, cur w, m\<lparr>sm_red := red w, sm_depots := depot_addresses w\<rparr>))"

definition put_session :: "string \<Rightarrow> opsisession \<Rightarrow> 'r session_manager \<Rightarrow> 'r session_manager" where
  "put_session k s m = m\<lparr>sm_sessions := dict_set k s (sm_sessions m)\<rparr>"

definition drop_session :: "string \<Rightarrow> 'r session_manager \<Rightarrow> 'r session_manager" where
  "drop_session k m = m\<lparr>sm_sessions := dict_del k (sm_sessions m)\<rparr>"

section \<open>The session of a request\<close>

definition create_session ::
  "'r session_env \<Rightarrow> int \<Rightarrow> string \<Rightarrow> string \<Rightarrow> string \<Rightarrow> headers \<Rightarrow> string option \<Rightarrow> ('r session_manager, opsisession) prog" where
  "create_session E now new_id new_version addr hs sid = (\<lambda>m.
     let (r, s, m1) = on_session (init_session E now new_id new_version) (new_session (env_cfg E) now addr hs sid) m
     in case r of
          Inl e \<Rightarrow> (Inl e, m1)
        | Inr _ \<Rightarrow>
            if client_addr s \<noteq> addr then (Inl AssertionError, m1)
            else if session_unaware s then (Inr (set_headers now hs (s\<lparr>persistent := False\<rparr>)), m1)
            else (case session_id s of
                None \<Rightarrow> (Inl AssertionError, m1)
              | Some i \<Rightarrow>
                  if i = [] then (Inl AssertionError, m1)
                  else (Inr (set_headers now hs s), put_session i (set_headers now hs s) m1)))"

definition get_session ::
  "'r session_env \<Rightarrow> int \<Rightarrow> string \<Rightarrow> string \<Rightarrow> string \<Rightarrow> headers \<Rightarrow> string option \<Rightarrow> ('r session_manager, opsisession) prog" where
  "get_session E now new_id new_version addr hs sid = (\<lambda>m.
     if sm_should_stop m then (Inl (RuntimeError ''Shutting down''), m)
     else
       case (case sid of None \<Rightarrow> None | Some i \<Rightarrow> if i = [] then None else map_of (sm_sessions m) i) of
         None \<Rightarrow> create_session E now new_id new_version addr hs sid m
       | Some s \<Rightarrow>
           let i = the sid;
               (r, s1, m1) = on_session (refresh_session E now) s m;
               m1 = put_session i s1 m1
           in case r of
                Inl e \<Rightarrow> (Inl e, m1)
              | Inr refresh_ok \<Rightarrow>
                  if refresh_ok \<and> \<not> expired now s1 \<and> client_addr s1 = addr
                  then let s2 = set_headers now hs (update_last_used now s1) in (Inr s2, put_session i s2 m1)
                  else create_session E now new_id new_version addr hs None (drop_session i m1))"

section \<open>The manager task\<close>

definition half :: "int \<Rightarrow> int" where
  "half n = (if n < 0 then - ((- n) div 2) else n div 2)"

definition only_used :: "opsisession \<Rightarrow> bool" where
  "only_used s = list_all (\<lambda>(a, t). a = ''last_used'' \<or> a = ''messagebus_last_used'') (modifications s)"

text \<open>The result tells whether the session is to be removed from the dictionary.\<close>

definition manage_session :: "'r session_env \<Rightarrow> int \<Rightarrow> int \<Rightarrow> string \<Rightarrow> ('r session_mem, bool) prog" where
  "manage_session E store_interval_min now uuid = (\<lambda>w.
     let s = cur w in
     if expired now s then
       bind_prog (get_version_from_redis E) (\<lambda>v.
         then_prog (when_prog (v = Some (version s)) (delete_session E)) (return_prog True)) w
     else if deleted s then (Inr True, w)
     else if last_stored s = 0 then then_prog (store_session E now uuid False) (return_prog False) w
     else if modifications s \<noteq> [] then
       (if only_used s then
          (if authenticated s \<and> usec * (last_stored s + min (half (max_age s)) store_interval_min) \<le> now then
             bind_prog (is_stored E) (\<lambda>stored.
               if stored then then_prog (store_session E now uuid True) (return_prog False)
               else then_prog (modify_prog (\<lambda>w. w\<lparr>cur := (cur w)\<lparr>deleted := True\<rparr>\<rparr>)) (return_prog True)) w
           else (Inr False, w))
        else then_prog (store_session E now uuid True) (return_prog False) w)
     else (Inr False, w))"

definition manage_step ::
  "'r session_env \<Rightarrow> int \<Rightarrow> int \<Rightarrow> (string \<Rightarrow> string) \<Rightarrow> string \<times> opsisession \<Rightarrow> string list \<times> 'r session_manager \<Rightarrow>
    unit result \<times> string list \<times> 'r session_manager" where
  "manage_step E smin now uuid = (\<lambda>(k, s) (del, m).
     let (r, s1, m1) = on_session (manage_session E smin now (uuid k)) s m;
         m1 = put_session k s1 m1
     in case r of Inl e \<Rightarrow> (Inl e, del, m1) | Inr remove \<Rightarrow> (Inr (), if remove then del @ [k] else del, m1))"

fun manage_loop ::
  "'r session_env \<Rightarrow> int \<Rightarrow> int \<Rightarrow> (string \<Rightarrow> string) \<Rightarrow> (string \<times> opsisession) list \<Rightarrow> string list \<times> 'r session_manager \<Rightarrow>
    unit result \<times> string list \<times> 'r session_manager" where
  "manage_loop E smin now uuid [] st = (Inr (), st)"
| "manage_loop E smin now uuid (x # xs) st =
     (case manage_step E smin now uuid x st of (Inl e, st1) \<Rightarrow> (Inl e, st1) | (Inr _, st1) \<Rightarrow> manage_loop E smin now uuid xs st1)"

text \<open>An exception ends the pass before anything is removed; it is logged and the next pass follows.\<close>

definition manage_pass :: "'r session_env \<Rightarrow> int \<Rightarrow> int \<Rightarrow> (string \<Rightarrow> string) \<Rightarrow> ('r session_manager, unit) prog" where
  "manage_pass E smin now uuid m =
     (case manage_loop E smin now uuid (sm_sessions m) ([], m) of
        (Inl e, del, m1) \<Rightarrow> (Inl e, m1)
      | (Inr _, del, m1) \<Rightarrow> (Inr (), fold drop_session del m1))"

definition reset_manager :: "'r session_manager \<Rightarrow> 'r session_manager" where
  "reset_manager m = m\<lparr>sm_should_stop := False, sm_sessions := []\<rparr>"

definition stop_manager :: "'r session_manager \<Rightarrow> 'r session_manager" where
  "stop_manager m = m\<lparr>sm_should_stop := True\<rparr>"

section \<open>What session operations keep\<close>

lemma setter_ids [simp]:
  "session_id (set_modified now a s) = session_id s" "authenticated (set_modified now a s) = authenticated s"
  "session_id (set_headers now hs s) = session_id s" "authenticated (set_headers now hs s) = authenticated s"
  "client_addr (set_headers now hs s) = client_addr s"
  "session_id (update_last_used now s) = session_id s" "authenticated (update_last_used now s) = authenticated s"
  "client_addr (update_last_used now s) = client_addr s"
  by (auto simp: set_modified_def set_headers_def set_max_age_def update_last_used_def set_last_used_def Let_def split: option.split sum.split)

lemma session_setattr_id: "session_setattr now a v s = Inr t \<Longrightarrow> session_id t = session_id s"
  by (auto simp: session_setattr_def bind_res_Inr_iff set_version_def set_client_addr_def set_user_agent_def set_username_def
      set_max_age_def set_created_def set_last_used_def set_messagebus_last_used_def set_authenticated_def set_is_admin_def
      set_is_read_only_def set_user_groups_def set_auth_methods_def set_host_def split: sval.splits if_splits)

abbreviation has_id :: "string option \<Rightarrow> 'r session_mem \<Rightarrow> bool" where
  "has_id i w \<equiv> session_id (cur w) = i"

text \<open>Loading, split into the data read and the attributes set.\<close>

definition set_loaded :: "int \<Rightarrow> (string \<times> sval) list \<Rightarrow> ('r session_mem, bool) prog" where
  "set_loaded now data = bind_prog (iter_prog (set_loaded_attr now) data)
     (\<lambda>_. bind_prog (modify_prog (\<lambda>w. let s = cur w; s = (if last_stored s = 0 then s\<lparr>last_stored := secs now\<rparr> else s)
        in w\<lparr>cur := s\<lparr>modifications := []\<rparr>\<rparr>)) (\<lambda>_. return_prog True))"

definition loaded_data :: "'r session_env \<Rightarrow> 'r session_mem \<Rightarrow> (string \<times> sval) list" where
  "loaded_data E w = (case bind_res (redis_key E (cur w)) (\<lambda>key. deserialize (env_codec E) (r_hgetall (env_redis E) (red w) key)) of
     Inl _ \<Rightarrow> [] | Inr d \<Rightarrow> d)"

lemma load_session_eq: "load_session E now w = (if loaded_data E w = [] then (Inr False, w) else set_loaded now (loaded_data E w) w)"
  unfolding load_session_def loaded_data_def set_loaded_def Let_def ..

lemma keeps_set_loaded: "keeps (has_id i) (set_loaded now data)"
  unfolding set_loaded_def
  by (intro keeps_intros) (auto simp: Let_def keeps_def set_loaded_attr_def session_setattr_id split: sum.splits)

lemma keeps_load_id [keeps_intros]: "keeps (has_id i) (load_session E now)"
  by (auto simp: keeps_def load_session_eq keeps_set_loaded[unfolded keeps_def, rule_format])

lemma keeps_version_id [keeps_intros]: "keeps (has_id i) (get_version_from_redis E)"
  by (simp add: keeps_def get_version_from_redis_def)

lemma keeps_refresh_id [keeps_intros]: "keeps (has_id i) (refresh_session E now)"
proof -
  have "keeps (has_id i) (\<lambda>w. if x = [] then (Inr False, w) else if x = version (cur w) then (Inr True, w) else load_session E now w)" for x
    using keeps_load_id[of i E now] by (simp add: keeps_def)
  then show ?thesis unfolding refresh_session_def
    by (intro keeps_intros) (auto split: option.split intro: keeps_intros)
qed

lemma keeps_store_id [keeps_intros]: "keeps (has_id i) (store_session E now uuid b)"
  by (auto simp: keeps_def store_session_def Let_def set_version_def split: sum.splits)

lemma keeps_manage_id: "keeps (has_id i) (manage_session E smin now uuid)"
proof -
  have d: "keeps (has_id i) (delete_session E)" by (auto simp: keeps_def delete_session_def split: sum.splits)
  have st: "keeps (has_id i) (is_stored E)" by (simp add: keeps_def is_stored_def)
  have a: "keeps (has_id i) (bind_prog (get_version_from_redis E) (\<lambda>v. then_prog (when_prog (v = Some x) (delete_session E)) (return_prog True)))" for x
    by (intro keeps_intros d)
  have b: "keeps (has_id i) (then_prog (store_session E now uuid m) (return_prog False))" for m by (intro keeps_intros)
  have c: "keeps (has_id i) (bind_prog (is_stored E) (\<lambda>stored.
      if stored then then_prog (store_session E now uuid True) (return_prog False)
      else then_prog (modify_prog (\<lambda>w. w\<lparr>cur := (cur w)\<lparr>deleted := True\<rparr>\<rparr>)) (return_prog True)))"
    by (intro keeps_intros st) simp
  show ?thesis
    unfolding manage_session_def keeps_def Let_def using a b c by (simp add: keeps_def)
qed

section \<open>The dictionary of sessions\<close>

text \<open>Every session stands under its id.\<close>

definition sm_wf :: "'r session_manager \<Rightarrow> bool" where
  "sm_wf m = (dict_wf (sm_sessions m) \<and> (\<forall>k s. map_of (sm_sessions m) k = Some s \<longrightarrow> session_id s = Some k \<and> k \<noteq> []))"

lemma sm_wf_put: "sm_wf m \<Longrightarrow> session_id s = Some k \<Longrightarrow> k \<noteq> [] \<Longrightarrow> sm_wf (put_session k s m)"
  by (auto simp: sm_wf_def put_session_def)

lemma sm_wf_drop: "sm_wf m \<Longrightarrow> sm_wf (drop_session k m)"
  by (auto simp: sm_wf_def drop_session_def)

lemma on_session_sessions: "on_session p s m = (r, s1, m1) \<Longrightarrow> sm_sessions m1 = sm_sessions m \<and> sm_should_stop m1 = sm_should_stop m"
  by (auto simp: on_session_def split: prod.splits)

lemma on_session_wf: "on_session p s m = (r, s1, m1) \<Longrightarrow> sm_wf m \<Longrightarrow> sm_wf m1"
  using on_session_sessions[of p s m r s1 m1] by (simp add: sm_wf_def)

lemma on_session_keeps:
  assumes "on_session p s m = (r, s1, m1)" "keeps (has_id i) p" "session_id s = i"
  shows "session_id s1 = i"
  using assms keepsD[OF assms(2), of "\<lparr>cur = s, red = sm_red m, depot_addresses = sm_depots m\<rparr>"]
  by (auto simp: on_session_def split: prod.splits)

lemma load_session_found: "load_session E now w = (Inr True, w1) \<Longrightarrow>
  \<exists>key. redis_key E (cur w) = Inr key \<and> r_hgetall (env_redis E) (red w) key \<noteq> []"
proof -
  assume a: "load_session E now w = (Inr True, w1)"
  show ?thesis
  proof (cases "redis_key E (cur w)")
    case (Inr key)
    then show ?thesis using a by (cases "r_hgetall (env_redis E) (red w) key") (auto simp: load_session_def)
  qed (use a in \<open>simp add: load_session_def\<close>)
qed

lemma refresh_session_found:
  assumes "refresh_session E now w = (Inr True, w1)"
  shows "\<exists>key. redis_key E (cur w) = Inr key \<and> r_hgetall (env_redis E) (red w) key \<noteq> []"
proof (cases "redis_key E (cur w)")
  case (Inl e)
  then show ?thesis using assms by (simp add: refresh_session_def get_version_from_redis_def bind_prog_run)
next
  case (Inr key)
  then show ?thesis using assms
    by (cases "r_hgetall (env_redis E) (red w) key") (auto simp: refresh_session_def get_version_from_redis_def bind_prog_run)
qed

lemma redis_key_shape: "redis_key E s = Inr key \<Longrightarrow> session_id s = Some i \<Longrightarrow> key = session_key_prefix E (client_addr s) @ i"
  by (auto simp: redis_key_def split: if_splits)

lemma create_session_spec:
  assumes "create_session E now new_id new_version addr hs sid m = (Inr s, m1)" "sm_wf m"
  shows "client_addr s = addr \<and> sm_wf m1 \<and>
    (authenticated s \<longrightarrow> (\<exists>i. sid = Some i \<and> session_id s = Some i \<and>
      r_hgetall (env_redis E) (sm_red m) (session_key_prefix E addr @ i) \<noteq> []))"
proof -
  let ?s0 = "new_session (env_cfg E) now addr hs sid"
  let ?w = "\<lparr>cur = ?s0, red = sm_red m, depot_addresses = sm_depots m\<rparr>"
  obtain r s1 m2 where o: "on_session (init_session E now new_id new_version) ?s0 m = (r, s1, m2)" by (metis prod_cases3)
  have r: "r = Inr ()" "client_addr s1 = addr" "session_id s = session_id s1" "client_addr s = client_addr s1" "authenticated s = authenticated s1"
    using assms(1) o by (auto simp: create_session_def split: sum.splits if_splits option.splits)
  have m1: "m1 = m2 \<or> (\<exists>i. session_id s = Some i \<and> i \<noteq> [] \<and> m1 = put_session i s m2)"
    using assms(1) o by (auto simp: create_session_def split: sum.splits if_splits option.splits)
  have "sm_wf m2" using on_session_wf[OF o assms(2)] .
  then have "sm_wf m1" using m1 sm_wf_put by metis
  moreover have "\<exists>i. sid = Some i \<and> session_id s = Some i \<and> r_hgetall (env_redis E) (sm_red m) (session_key_prefix E addr @ i) \<noteq> []"
    if auth: "authenticated s"
  proof -
    obtain w1 where i: "init_session E now new_id new_version ?w = (Inr (), w1)" "s1 = cur w1"
      using o r(1) by (auto simp: on_session_def split: prod.splits)
    have fresh: "\<not> authenticated (cur w3)" if "init_new_session E now new_id new_version w2 = (x, w3)" for w2 x w3
      using that by (auto simp: init_new_session_def Let_def set_created_def set_version_def split: prod.splits if_splits)
    obtain w2 where l: "load_session E now ?w = (Inr True, w2)" "cur w1 = update_last_used now (cur w2)" "session_id ?s0 \<noteq> None"
      using i(1) auth r(5) fresh unfolding i(2) init_session_def
      by (auto simp: bind_prog_Inr split: if_splits)
    obtain key where k: "redis_key E ?s0 = Inr key" "r_hgetall (env_redis E) (sm_red m) key \<noteq> []"
      using load_session_found[OF l(1)] by auto
    have sid0: "session_id ?s0 = (if sid = Some [] then None else sid)" by (simp add: new_session_def)
    then obtain j where j: "sid = Some j" "session_id ?s0 = Some j" using l(3) by (cases sid) (auto split: if_splits)
    have "client_addr ?s0 = addr" by (simp add: new_session_def)
    then have "key = session_key_prefix E addr @ j" using redis_key_shape[OF k(1) j(2)] by simp
    moreover have "session_id (cur w2) = session_id ?s0" using keepsD[OF keeps_load_id _ l(1)] by simp
    ultimately show ?thesis using k(2) j l(2) r(3) i(2) by auto
  qed
  ultimately show ?thesis using r(2,4) by simp
qed

lemma get_session_spec:
  assumes "get_session E now new_id new_version addr hs sid m = (Inr s, m1)" "sm_wf m"
  shows "client_addr s = addr \<and> sm_wf m1 \<and>
    (authenticated s \<longrightarrow> (\<exists>i a. sid = Some i \<and> session_id s = Some i \<and>
      r_hgetall (env_redis E) (sm_red m) (session_key_prefix E a @ i) \<noteq> []))"
proof (cases "case sid of None \<Rightarrow> None | Some i \<Rightarrow> if i = [] then None else map_of (sm_sessions m) i")
  case None
  then have "create_session E now new_id new_version addr hs sid m = (Inr s, m1)"
    using assms(1) by (simp add: get_session_def split: if_splits)
  from create_session_spec[OF this assms(2)] show ?thesis by blast
next
  case (Some s0)
  then obtain i where i: "sid = Some i" "i \<noteq> []" "map_of (sm_sessions m) i = Some s0" by (auto split: option.splits if_splits)
  have id0: "session_id s0 = Some i" using assms(2) i(3) by (simp add: sm_wf_def)
  obtain r s1 m2 where o: "on_session (refresh_session E now) s0 m = (r, s1, m2)" by (metis prod_cases3)
  have id1: "session_id s1 = Some i" by (rule on_session_keeps[OF o keeps_refresh_id id0])
  have wf: "sm_wf (put_session i s1 m2)" using sm_wf_put[OF on_session_wf[OF o assms(2)] id1 i(2)] .
  obtain ok where ok: "r = Inr ok" using assms(1) Some o i by (cases r) (auto simp: get_session_def Let_def split: if_splits)
  show ?thesis
  proof (cases "ok \<and> \<not> expired now s1 \<and> client_addr s1 = addr")
    case True
    let ?s = "set_headers now hs (update_last_used now s1)"
    have res: "s = ?s" "m1 = put_session i ?s (put_session i s1 m2)"
      using assms(1) Some o i ok True by (auto simp: get_session_def Let_def split: if_splits)
    have "refresh_session E now \<lparr>cur = s0, red = sm_red m, depot_addresses = sm_depots m\<rparr> = (Inr True, \<lparr>cur = s1, red = sm_red m2, depot_addresses = sm_depots m2\<rparr>)"
      using o ok True by (auto simp: on_session_def split: prod.splits)
    from refresh_session_found[OF this] obtain key where
      "redis_key E s0 = Inr key" "r_hgetall (env_redis E) (sm_red m) key \<noteq> []" by auto
    then show ?thesis using res True i(1) id1 sm_wf_put[OF wf, of ?s i] i(2) redis_key_shape[OF _ id0] by auto
  next
    case False
    then have c: "create_session E now new_id new_version addr hs None (drop_session i (put_session i s1 m2)) = (Inr s, m1)"
      using assms(1) Some o i ok by (auto simp: get_session_def Let_def split: if_splits)
    from create_session_spec[OF c sm_wf_drop[OF wf]] show ?thesis by simp
  qed
qed

section \<open>Properties\<close>

text \<open>
  C12. The session a request gets belongs to the address of the request. If it is authenticated,
  it is the session whose id the request sent, and redis still holds a session with that id: a
  session that was deleted by any worker, or that belongs to another address, is not reused.
\<close>

theorem get_session_own_address:
  assumes "get_session E now new_id new_version addr hs sid m = (Inr s, m1)" "sm_wf m"
  shows "client_addr s = addr \<and> sm_wf m1 \<and>
    (authenticated s \<longrightarrow> (\<exists>i a. sid = Some i \<and> session_id s = Some i \<and>
      r_hgetall (env_redis E) (sm_red m) (session_key_prefix E a @ i) \<noteq> []))"
  using assms by (rule get_session_spec)

definition example_manager :: "alist_redis session_manager" where
  "example_manager = \<lparr>sm_sessions = [(''ab12'', example_session\<lparr>version := ''v1'', authenticated := True, last_used := 5\<rparr>)],
     sm_should_stop = False, sm_red = [(''opsiconfd:session:10.1.1.1:ab12'', [(''version'', ''v1'')])], sm_depots = []\<rparr>"

theorem get_session_own_address_witness:
  "\<exists>s m1. get_session example_env 6000000 ''cd34'' ''v2'' ''10.1.1.1'' [] (Some ''ab12'') example_manager = (Inr s, m1) \<and>
     authenticated s \<and> client_addr s = ''10.1.1.1'' \<and> session_id s = Some ''ab12''"
proof -
  let ?g = "get_session example_env 6000000 ''cd34'' ''v2'' ''10.1.1.1'' [] (Some ''ab12'') example_manager"
  have run: "isl (fst ?g) = False" "authenticated (projr (fst ?g))" by code_simp+
  then have g: "?g = (Inr (projr (fst ?g)), snd ?g)" by (metis prod.collapse sum.collapse(2))
  have "session_id example_session = Some ''ab12''" by code_simp
  then have "sm_wf example_manager" by (auto simp: sm_wf_def example_manager_def dict_wf_def)
  from get_session_own_address[OF g this] run(2) g show ?thesis by (metis option.inject)
qed

text \<open>What is left of a session that stays in the dictionary, and why one is removed.\<close>

definition settled_session :: "int \<Rightarrow> opsisession \<Rightarrow> bool" where
  "settled_session now s = (\<not> expired now s \<and> \<not> deleted s \<and> (persistent s \<longrightarrow> only_used s))"

definition removable :: "'r session_env \<Rightarrow> int \<Rightarrow> int \<Rightarrow> 'r \<Rightarrow> opsisession \<Rightarrow> bool" where
  "removable E smin now r s = (expired now s \<or> deleted s \<or>
     (authenticated s \<and> usec * (last_stored s + min (half (max_age s)) smin) \<le> now \<and>
      (\<exists>key. redis_key E s = Inr key \<and> \<not> r_exists (env_redis E) r key)))"

text \<open>Managing one session touches the key of this session only.\<close>

lemma redis_exists_map: "redis_laws ops \<Longrightarrow> r_exists ops r k \<longleftrightarrow> map_of (r_hgetall ops r k) \<noteq> Map.empty"
  by (simp add: redis_exists)

lemma redis_write_frame:
  assumes "redis_laws ops" "j \<noteq> k"
  shows "r_exists ops (r_expire ops k n (r_hset ops k d r)) j = r_exists ops r j"
  using assms unfolding redis_exists_map[OF assms(1)] by (simp add: redis_laws_def)

lemma store_session_frame:
  assumes "redis_laws (env_redis E)" "store_session E now uuid b w = (res, w1)" "redis_key E (cur w) \<noteq> Inr j"
  shows "r_exists (env_redis E) (red w1) j = r_exists (env_redis E) (red w) j"
proof (cases "redis_key E (cur w)")
  case (Inl e)
  then show ?thesis
    using assms(2) redis_key_to_store[of E now uuid "cur w"]
    by (auto simp: store_session_def Let_def to_store_def[symmetric] split: if_splits)
next
  case (Inr key)
  then have "j \<noteq> key" using assms(3) by auto
  then show ?thesis
    using assms(2) Inr redis_key_to_store[of E now uuid "cur w"] redis_write_frame[OF assms(1)]
    by (auto simp: store_session_def Let_def to_store_def[symmetric] simp del: filter.simps split: if_splits)
qed

lemma delete_session_frame:
  assumes "redis_laws (env_redis E)" "delete_session E w = (res, w1)" "redis_key E (cur w) \<noteq> Inr j"
  shows "r_exists (env_redis E) (red w1) j = r_exists (env_redis E) (red w) j"
  using assms(2,3) delete_loop_gone[OF assms(1), of 9]
  by (auto simp: delete_session_def numeral_eq_Suc redis_exists[OF assms(1)] simp del: delete_loop.simps split: sum.splits)

lemma manage_session_frame:
  assumes "redis_laws (env_redis E)" "manage_session E smin now uuid w = (Inr remove, w1)" "redis_key E (cur w) \<noteq> Inr j"
  shows "r_exists (env_redis E) (red w1) j = r_exists (env_redis E) (red w) j"
proof -
  have st: "r_exists (env_redis E) (red w1) j = r_exists (env_redis E) (red w) j"
    if "store_session E now uuid b w = (Inr (), w1)" for b
    using store_session_frame[OF assms(1) that assms(3)] .
  have de: "r_exists (env_redis E) (red w1) j = r_exists (env_redis E) (red w) j" if "delete_session E w = (Inr (), w1)"
    using delete_session_frame[OF assms(1) that assms(3)] .
  show ?thesis
    using assms(2)
    by (auto simp: manage_session_def Let_def bind_prog_Inr is_stored_def get_version_from_redis_def
        dest!: st de split: if_splits)
qed

lemma store_session_settles:
  assumes "store_session E now uuid b w = (Inr (), w1)" "\<not> expired now (cur w)" "\<not> deleted (cur w)"
  shows "settled_session now (cur w1)"
proof (cases "persistent (cur w) \<and> (b \<longrightarrow> modifications (cur w) \<noteq> [])")
  case True
  then obtain s1 where "cur w1 = s1\<lparr>modifications := []\<rparr>" "s1 = (set_version now uuid (cur w))\<lparr>last_stored := secs now\<rparr>"
    using assms by (auto simp: store_session_def Let_def split: sum.splits)
  then show ?thesis using assms(2,3)
    by (simp add: settled_session_def only_used_def expired_def validity_def set_version_def set_modified_def)
next
  case False
  then have "w1 = w" using assms by (auto simp: store_session_def Let_def split: if_splits)
  then show ?thesis using False assms(2,3) by (auto simp: settled_session_def only_used_def)
qed

lemma manage_session_outcome:
  assumes "manage_session E smin now uuid w = (Inr remove, w1)"
  shows "if remove then removable E smin now (red w) (cur w) else settled_session now (cur w1)"
proof (cases "expired now (cur w) \<or> deleted (cur w)")
  case True
  then show ?thesis
    using assms by (auto simp: manage_session_def Let_def removable_def bind_prog_Inr split: if_splits)
next
  case False
  have st: "settled_session now (cur w1)" if "store_session E now uuid b w = (Inr (), w1)" for b
    using store_session_settles[OF that] False by simp
  have unchanged: "settled_session now (cur w1)" if "w = w1" "modifications (cur w1) = [] \<or> only_used (cur w1)"
    using that False by (auto simp: settled_session_def only_used_def)
  show ?thesis
    using assms False
    by (auto simp: manage_session_def Let_def bind_prog_Inr bind_res_Inr_iff removable_def is_stored_def unchanged
        intro: st split: if_splits)
qed

text \<open>Different sessions of the dictionary have different keys, because no id contains a colon.\<close>

definition keys_differ :: "'r session_env \<Rightarrow> (string \<times> opsisession) list \<Rightarrow> bool" where
  "keys_differ E xs \<longleftrightarrow> (\<forall>k s k' s'. (k, s) \<in> set xs \<longrightarrow> (k', s') \<in> set xs \<longrightarrow> k \<noteq> k' \<longrightarrow>
     (\<forall>key. redis_key E s = Inr key \<longrightarrow> redis_key E s' \<noteq> Inr key))"

lemma key_determines_id:
  assumes "session_key_prefix E a @ i = session_key_prefix E b @ j" "CHR '':'' \<notin> set i" "CHR '':'' \<notin> set j"
  shows "i = j"
proof -
  have "takeWhile (\<lambda>c. c \<noteq> CHR '':'') (rev (session_key_prefix E a @ i)) = rev i" if "CHR '':'' \<notin> set i" for a i
    using that by (simp add: session_key_prefix_def takeWhile_append takeWhile_eq_all_conv[THEN iffD2])
  from this[OF assms(2), of a] this[OF assms(3), of b] show ?thesis unfolding assms(1) by simp
qed

lemma sm_keys_differ:
  assumes "sm_wf m" "\<forall>k \<in> set (dict_keys (sm_sessions m)). CHR '':'' \<notin> set k"
  shows "keys_differ E (sm_sessions m)"
  unfolding keys_differ_def
proof (intro allI impI notI)
  fix k s k' s' key
  assume in_m: "(k, s) \<in> set (sm_sessions m)" "(k', s') \<in> set (sm_sessions m)" and "k \<noteq> k'"
    and keys: "redis_key E s = Inr key" "redis_key E s' = Inr key"
  have ids: "session_id s = Some k" "session_id s' = Some k'"
    using assms(1) in_m by (auto simp: sm_wf_def dict_wf_def)
  have "CHR '':'' \<notin> set k" "CHR '':'' \<notin> set k'" using assms(2) in_m by (force simp: dict_keys_def)+
  moreover have "session_key_prefix E (client_addr s) @ k = session_key_prefix E (client_addr s') @ k'"
    using redis_key_shape[OF keys(1) ids(1)] redis_key_shape[OF keys(2) ids(2)] by simp
  ultimately show False using key_determines_id \<open>k \<noteq> k'\<close> by blast
qed

lemma manage_loop_outcome:
  assumes "redis_laws (env_redis E)"
    and "manage_loop E smin now uuid xs (del, m) = (Inr (), del1, m1)" "distinct (map fst xs)" "keys_differ E xs"
  shows "(\<forall>k. k \<notin> fst ` set xs \<longrightarrow> map_of (sm_sessions m1) k = map_of (sm_sessions m) k) \<and>
    (\<forall>k \<in> fst ` set xs. k \<in> set del1 \<or> (\<exists>s. map_of (sm_sessions m1) k = Some s \<and> settled_session now s)) \<and>
    set del \<subseteq> set del1 \<and> (\<forall>k \<in> set del1. k \<in> set del \<or> (\<exists>s. (k, s) \<in> set xs \<and> removable E smin now (sm_red m) s))"
  using assms(2-4)
proof (induction xs arbitrary: del m)
  case (Cons x xs)
  obtain k s where x: "x = (k, s)" by fastforce
  obtain r s2 m2 where o: "on_session (manage_session E smin now (uuid k)) s m = (r, s2, m2)" by (metis prod_cases3)
  obtain remove where r: "r = Inr remove" using Cons.prems(1) o x by (cases r) (auto simp: manage_step_def)
  have rest: "manage_loop E smin now uuid xs (if remove then del @ [k] else del, put_session k s2 m2) = (Inr (), del1, m1)"
    using Cons.prems(1) o x r by (simp add: manage_step_def)
  obtain w1 where w1: "manage_session E smin now (uuid k) \<lparr>cur = s, red = sm_red m, depot_addresses = sm_depots m\<rparr> = (Inr remove, w1)"
    "s2 = cur w1" "sm_red m2 = red w1"
    using o r by (auto simp: on_session_def split: prod.splits)
  have out: "if remove then removable E smin now (sm_red m) s else settled_session now s2"
    using manage_session_outcome[OF w1(1)] w1(2) by (auto split: if_splits)
  have d: "k \<notin> fst ` set xs" "distinct (map fst xs)" "keys_differ E xs"
    using Cons.prems(2,3) x by (auto simp: keys_differ_def)
  have frame: "r_exists (env_redis E) (sm_red (put_session k s2 m2)) j = r_exists (env_redis E) (sm_red m) j"
    if "(k', s') \<in> set xs" "redis_key E s' = Inr j" for k' s' j
  proof -
    have "k' \<noteq> k" using that(1) d(1) by force
    then have "redis_key E s \<noteq> Inr j" using Cons.prems(3) that x unfolding keys_differ_def by (metis list.set_intros(1,2))
    then show ?thesis using manage_session_frame[OF assms(1) w1(1)] w1(3) by (simp add: put_session_def)
  qed
  then have earlier: "removable E smin now (sm_red m) s'" if "(k', s') \<in> set xs" "removable E smin now (sm_red (put_session k s2 m2)) s'" for k' s'
    using that unfolding removable_def by blast
  have same: "map_of (sm_sessions (put_session k s2 m2)) j = (if j = k then Some s2 else map_of (sm_sessions m) j)" for j
    using on_session_sessions[OF o] by (simp add: put_session_def)
  note IH = Cons.IH[OF rest d(2,3)]
  have del: "\<forall>j \<in> set del1. j \<in> set (if remove then del @ [k] else del) \<or> (\<exists>s. (j, s) \<in> set xs \<and> removable E smin now (sm_red m) s)"
    using IH earlier by blast
  show ?case
  proof (cases remove)
    case True
    with del have "\<forall>j \<in> set del1. j \<in> set del \<or> (\<exists>s'. (j, s') \<in> set (x # xs) \<and> removable E smin now (sm_red m) s')"
      using out x by auto
    then show ?thesis using True IH d(1) out x same by (auto split: if_splits)
  next
    case False
    with del have "\<forall>j \<in> set del1. j \<in> set del \<or> (\<exists>s'. (j, s') \<in> set (x # xs) \<and> removable E smin now (sm_red m) s')"
      by auto
    then show ?thesis using False IH d(1) out x same by (auto split: if_splits)
  qed
qed simp

lemma fold_drop_session: "map_of (sm_sessions (fold drop_session del m)) k = (if k \<in> set del then None else map_of (sm_sessions m) k)"
  by (induction del arbitrary: m) (auto simp: drop_session_def)

text \<open>
  C31. A completed pass of the manager task cleans up and makes progress: afterwards no session
  of the worker is expired or deleted, and no change but the times of last use is left unstored; a
  session is dropped only if it was expired, was deleted, or was due for storing its time of last
  use and redis no longer held it. So a session that is neither expired nor marked as deleted and
  that redis holds is kept. Hypotheses: session ids contain no colon (they are hexadecimal), and
  no other worker writes to redis during the pass.
\<close>

theorem manager_pass_cleans_up:
  assumes "redis_laws (env_redis E)" "manage_pass E smin now uuid m = (Inr (), m1)" "sm_wf m"
    and "\<forall>k \<in> set (dict_keys (sm_sessions m)). CHR '':'' \<notin> set k"
  shows "case map_of (sm_sessions m1) k of
      Some s \<Rightarrow> \<not> expired now s \<and> \<not> deleted s \<and> (persistent s \<longrightarrow> only_used s)
    | None \<Rightarrow> (case map_of (sm_sessions m) k of
        None \<Rightarrow> True
      | Some s \<Rightarrow> expired now s \<or> deleted s \<or>
          (authenticated s \<and> usec * (last_stored s + min (half (max_age s)) smin) \<le> now \<and>
           (\<exists>key. redis_key E s = Inr key \<and> \<not> r_exists (env_redis E) (sm_red m) key)))"
proof -
  obtain del m2 where l: "manage_loop E smin now uuid (sm_sessions m) ([], m) = (Inr (), del, m2)" "m1 = fold drop_session del m2"
    using assms(2) by (auto simp: manage_pass_def split: prod.splits sum.splits)
  have d: "distinct (map fst (sm_sessions m))" using assms(3) by (simp add: sm_wf_def dict_wf_def)
  note out = manage_loop_outcome[OF assms(1) l(1) d sm_keys_differ[OF assms(3,4)]]
  have keys: "k \<in> fst ` set (sm_sessions m) \<longleftrightarrow> map_of (sm_sessions m) k \<noteq> None" by (simp add: map_of_eq_None_iff)
  show ?thesis
  proof (cases "k \<in> set del")
    case True
    then obtain s where "map_of (sm_sessions m) k = Some s" "removable E smin now (sm_red m) s"
      using out d by (metis empty_iff empty_set map_of_is_SomeI)
    then show ?thesis using True by (simp add: l(2) fold_drop_session removable_def)
  next
    case False
    then show ?thesis
      using out keys by (cases "map_of (sm_sessions m) k") (force simp: l(2) fold_drop_session settled_session_def split: option.split)+
  qed
qed

text \<open>A session that is used but not due is kept, and so is one that is due and held by redis.\<close>

theorem manager_pass_cleans_up_witness:
  "map_of (sm_sessions (snd (manage_pass example_env 60 6000000 (\<lambda>k. ''v3'') example_manager))) ''ab12'' \<noteq> None \<and>
   map_of (sm_sessions (snd (manage_pass example_env 60 100000000 (\<lambda>k. ''v3'') example_manager))) ''ab12'' \<noteq> None"
proof -
  have "session_id example_session = Some ''ab12''" by code_simp
  then have wf: "sm_wf example_manager" by (auto simp: sm_wf_def example_manager_def dict_wf_def)
  have laws: "redis_laws (env_redis example_env)" by (simp add: example_env_def alist_redis_laws)
  have colon: "\<forall>k \<in> set (dict_keys (sm_sessions example_manager)). CHR '':'' \<notin> set k"
    by (simp add: example_manager_def dict_keys_def)
  let ?s = "the (map_of (sm_sessions example_manager) ''ab12'')"
  have s: "map_of (sm_sessions example_manager) ''ab12'' = Some ?s" by (simp add: example_manager_def)
  have run: "fst (manage_pass example_env 60 6000000 (\<lambda>k. ''v3'') example_manager) = Inr ()"
    "fst (manage_pass example_env 60 100000000 (\<lambda>k. ''v3'') example_manager) = Inr ()"
    "\<not> expired 6000000 ?s" "\<not> expired 100000000 ?s" "\<not> deleted ?s"
    "redis_key example_env ?s = Inr ''opsiconfd:session:10.1.1.1:ab12''"
    "r_exists (env_redis example_env) (sm_red example_manager) ''opsiconfd:session:10.1.1.1:ab12''"
    by code_simp+
  have pass: "manage_pass example_env 60 n (\<lambda>k. ''v3'') example_manager = (Inr (), snd (manage_pass example_env 60 n (\<lambda>k. ''v3'') example_manager))"
    if "fst (manage_pass example_env 60 n (\<lambda>k. ''v3'') example_manager) = Inr ()" for n
    using that by (metis prod.collapse)
  show ?thesis
    using manager_pass_cleans_up[OF laws pass[OF run(1)] wf colon, of "''ab12''"]
      manager_pass_cleans_up[OF laws pass[OF run(2)] wf colon, of "''ab12''"] s run(3-7)
    by (auto split: option.splits)
qed

end
