(* ===== verification/Acl.thy ===== *)
theory Acl
  imports Py_Strings
begin

text \<open>
  The access control list of the RPC methods (\<open>opsiconfd/backend/auth.py\<close>): the entries
  (class \<open>RPCACE\<close>) and the parser \<open>read_acl_file\<close>, every branch and error of it.
  The compilation of the method patterns (module \<open>re\<close> on patterns written by the
  administrator) is a parameter: \<open>re_compiles\<close> says which patterns compile.
\<close>

section \<open>Data\<close>

datatype ace_type = ACE_all | ACE_self | ACE_opsi_depotserver | ACE_opsi_client | ACE_sys_group | ACE_sys_user

record rpcace =
  method_re :: string
  acetype :: ace_type
  ace_id :: "string option"
  allowed_attributes :: "string set"
  denied_attributes :: "string set"

definition RPCACE_ALLOW_ALL :: rpcace where
  "RPCACE_ALLOW_ALL = \<lparr>method_re = ''.*'', acetype = ACE_all, ace_id = None,
     allowed_attributes = {}, denied_attributes = {}\<rparr>"

text \<open>The two group names \<open>opsi_config\<close> supplies.\<close>

record opsi_groups =
  admingroup :: string
  fileadmingroup :: string

definition ace_type_of :: "string \<Rightarrow> ace_type option" where
  "ace_type_of s =
     (if s = ''all'' then Some ACE_all
      else if s = ''self'' then Some ACE_self
      else if s = ''opsi_depotserver'' then Some ACE_opsi_depotserver
      else if s = ''opsi_client'' then Some ACE_opsi_client
      else if s = ''sys_group'' then Some ACE_sys_group
      else if s = ''sys_user'' then Some ACE_sys_user
      else None)"

section \<open>The parameter list of an entry\<close>

text \<open>The variables of the loop over the characters of \<open>ace_type_params\<close>.\<close>

record acl_state =
  ap_param :: string
  ap_values :: "string list"
  ap_in_values :: bool
  ap_ids :: "string list"
  ap_allowed :: "string set"
  ap_denied :: "string set"

definition acl_state0 :: acl_state where
  "acl_state0 = \<lparr>ap_param = [], ap_values = [[]], ap_in_values = False, ap_ids = [],
     ap_allowed = {}, ap_denied = {}\<rparr>"

definition acl_add_attribute :: "string \<Rightarrow> acl_state \<Rightarrow> acl_state" where
  "acl_add_attribute val s =
     (if val = [] then s
      else if py_startswith val ''!'' then s\<lparr>ap_denied := insert (py_strip (tl val)) (ap_denied s)\<rparr>
      else s\<lparr>ap_allowed := insert (py_strip val) (ap_allowed s)\<rparr>)"

definition acl_expand_group :: "opsi_groups \<Rightarrow> string \<Rightarrow> string" where
  "acl_expand_group g val =
     py_replace ''{fileadmingroup}'' (fileadmingroup g) (py_replace ''{admingroup}'' (admingroup g) val)"

text \<open>What happens at a comma outside parentheses and at the last character.\<close>

definition acl_finish_param :: "opsi_groups \<Rightarrow> ace_type \<Rightarrow> acl_state \<Rightarrow> acl_state result" where
  "acl_finish_param g t s =
     (let param = py_strip (ap_param s);
          vals = filter (\<lambda>v. v \<noteq> []) (map py_strip (ap_values s));
          done = (\<lambda>u. u\<lparr>ap_param := [], ap_values := [[]]\<rparr>)
      in if param = ''attributes'' then Inr (done (fold acl_add_attribute vals s))
         else if t \<in> {ACE_sys_group, ACE_sys_user, ACE_opsi_depotserver, ACE_opsi_client}
         then Inr (done (s\<lparr>ap_ids := ap_ids s @
                [if t = ACE_sys_group then acl_expand_group g (py_strip param) else py_strip param]\<rparr>))
         else Inl (ValueError ''Unhandled acl type param''))"

definition acl_add_char :: "char \<Rightarrow> acl_state \<Rightarrow> acl_state result" where
  "acl_add_char c s =
     (if ap_in_values s
      then (if ap_values s = [] then Inl IndexError
            else Inr (s\<lparr>ap_values := butlast (ap_values s) @ [last (ap_values s) @ [c]]\<rparr>))
      else Inr (s\<lparr>ap_param := ap_param s @ [c]\<rparr>))"

definition acl_param_char :: "opsi_groups \<Rightarrow> ace_type \<Rightarrow> bool \<Rightarrow> char \<Rightarrow> acl_state \<Rightarrow> acl_state result" where
  "acl_param_char g t is_last c s =
     bind_res
       (if c = CHR ''('' then
          (if ap_in_values s then Inl (ValueError ''Bad formatted acl type params'')
           else Inr (s\<lparr>ap_in_values := True\<rparr>))
        else if c = CHR '')'' then
          (if \<not> ap_in_values s \<or> ap_param s = [] then Inl (ValueError ''Bad formatted acl type params'')
           else Inr (s\<lparr>ap_in_values := False\<rparr>))
        else if c \<noteq> CHR '','' \<or> is_last then acl_add_char c s
        else Inr s)
       (\<lambda>s. if c = CHR '','' \<or> is_last then
               (if ap_in_values s then
                  (if is_last then Inl (ValueError ''Bad formatted acl type params'')
                   else Inr (s\<lparr>ap_values := ap_values s @ [[]]\<rparr>))
                else acl_finish_param g t s)
             else Inr s)"

fun acl_params :: "opsi_groups \<Rightarrow> ace_type \<Rightarrow> string \<Rightarrow> acl_state \<Rightarrow> acl_state result" where
  "acl_params g t [] s = Inr s"
| "acl_params g t (c # cs) s = bind_res (acl_param_char g t (cs = []) c s) (acl_params g t cs)"

section \<open>Entries, lines, the file\<close>

definition mk_ace :: "string \<Rightarrow> ace_type \<Rightarrow> acl_state \<Rightarrow> string option \<Rightarrow> rpcace" where
  "mk_ace re t s i = \<lparr>method_re = re, acetype = t, ace_id = i,
     allowed_attributes = ap_allowed s, denied_attributes = ap_denied s\<rparr>"

text \<open>\<open>entry.split('(', 1)\<close> and the check for the closing parenthesis; the last character
  of an empty parameter text does not exist, so \<open>self(\<close> raises \<open>IndexError\<close>.\<close>

definition acl_split_entry :: "string \<Rightarrow> (string \<times> string) result" where
  "acl_split_entry entry =
     (case py_split1 CHR ''('' entry of
        None \<Rightarrow> Inr (entry, [])
      | Some (ty, params) \<Rightarrow>
          if params = [] then Inl IndexError
          else if last params \<noteq> CHR '')'' then Inl (ValueError ''Bad formatted acl entry'')
          else Inr (py_strip ty, butlast params))"

definition acl_entry :: "opsi_groups \<Rightarrow> string \<Rightarrow> string \<Rightarrow> rpcace list result" where
  "acl_entry g re raw =
     bind_res (acl_split_entry (py_strip raw)) (\<lambda>(ty, params).
       if ty = [] then Inr []
       else (case ace_type_of ty of
           None \<Rightarrow> Inl (ValueError ''Unhandled acl type'')
         | Some t \<Rightarrow>
             if params = [] then
               (if t \<in> {ACE_sys_group, ACE_sys_user}
                then Inl (ValueError ''Bad formatted acl type: no params given'')
                else Inr [mk_ace re t acl_state0 None])
             else bind_res (acl_params g t params acl_state0) (\<lambda>s.
               if ap_ids s \<noteq> [] then Inr (map (\<lambda>i. mk_ace re t s (Some i)) (ap_ids s))
               else Inr [mk_ace re t s None])))"

fun acl_entries :: "opsi_groups \<Rightarrow> string \<Rightarrow> string list \<Rightarrow> rpcace list result" where
  "acl_entries g re [] = Inr []"
| "acl_entries g re (e # es) =
     bind_res (acl_entry g re e) (\<lambda>a. bind_res (acl_entries g re es) (\<lambda>b. Inr (a @ b)))"

text \<open>
  \<open>acl_entry_regex = ^([^:]+)+\s*:\s*(\S.*)$\<close> on a stripped line: the repeated group is
  greedy and cannot cross a colon, so group 1 is the text before the first colon, which
  must not be empty; group 2 is what follows it without leading space, not empty either.
\<close>

definition acl_entry_regex :: "string \<Rightarrow> (string \<times> string) option" where
  "acl_entry_regex line =
     (case py_split1 CHR '':'' line of
        None \<Rightarrow> None
      | Some (a, b) \<Rightarrow> if a = [] \<or> py_lstrip b = [] then None else Some (a, py_lstrip b))"

definition acl_line :: "opsi_groups \<Rightarrow> (string \<Rightarrow> bool) \<Rightarrow> string \<Rightarrow> rpcace list result" where
  "acl_line g re_compiles raw =
     (let line = py_strip raw in
      if line = [] \<or> py_startswith line ''#'' then Inr []
      else (case acl_entry_regex line of
          None \<Rightarrow> Inl (ValueError ''Bad formatted line'')
        | Some (m, entries) \<Rightarrow>
            if \<not> re_compiles (py_strip m) then Inl (OtherError ''re.error'')
            else acl_entries g (py_strip m) (py_split CHR '';'' entries)))"

fun acl_lines :: "opsi_groups \<Rightarrow> (string \<Rightarrow> bool) \<Rightarrow> string list \<Rightarrow> rpcace list result" where
  "acl_lines g re_compiles [] = Inr []"
| "acl_lines g re_compiles (l # ls) =
     bind_res (acl_line g re_compiles l) (\<lambda>a. bind_res (acl_lines g re_compiles ls) (\<lambda>b. Inr (a @ b)))"

definition read_acl_file :: "opsi_groups \<Rightarrow> (string \<Rightarrow> bool) \<Rightarrow> string \<Rightarrow> rpcace list result" where
  "read_acl_file g re_compiles text = acl_lines g re_compiles (py_split CHR ''\<newline>'' text)"

section \<open>The parameter loop on well-formed text\<close>

definition acl_clean :: "string \<Rightarrow> bool" where
  "acl_clean w = (set w \<inter> {CHR ''('', CHR '')'', CHR '',''} = {})"

lemma acl_clean_Nil [simp]: "acl_clean []"
  by (simp add: acl_clean_def)

lemma acl_clean_Cons [simp]:
  "acl_clean (c # w) \<longleftrightarrow> c \<noteq> CHR ''('' \<and> c \<noteq> CHR '')'' \<and> c \<noteq> CHR '','' \<and> acl_clean w"
  by (auto simp: acl_clean_def)

lemma acl_params_clean_outside:
  assumes "acl_clean w" "cs \<noteq> []" "\<not> ap_in_values s"
  shows "acl_params g t (w @ cs) s = acl_params g t cs (s\<lparr>ap_param := ap_param s @ w\<rparr>)"
  using assms
proof (induction w arbitrary: s)
  case (Cons c w)
  then have "acl_param_char g t False c s = Inr (s\<lparr>ap_param := ap_param s @ [c]\<rparr>)"
    by (simp add: acl_param_char_def acl_add_char_def)
  with Cons show ?case by simp
qed simp

lemma acl_params_clean_inside:
  assumes "acl_clean w" "cs \<noteq> []" "ap_in_values s" "ap_values s = vs @ [v]"
  shows "acl_params g t (w @ cs) s = acl_params g t cs (s\<lparr>ap_values := vs @ [v @ w]\<rparr>)"
  using assms
proof (induction w arbitrary: s v)
  case Nil
  then show ?case by (metis append.right_neutral append_Nil acl_state.surjective acl_state.update_convs(2))
next
  case (Cons c w)
  then have "acl_param_char g t False c s = Inr (s\<lparr>ap_values := vs @ [v @ [c]]\<rparr>)"
    by (simp add: acl_param_char_def acl_add_char_def)
  with Cons.prems Cons.IH[of "s\<lparr>ap_values := vs @ [v @ [c]]\<rparr>" "v @ [c]"] show ?case by simp
qed

lemma acl_params_comma_outside:
  assumes "cs \<noteq> []" "\<not> ap_in_values s"
  shows "acl_params g t (CHR '','' # cs) s = bind_res (acl_finish_param g t s) (acl_params g t cs)"
  using assms by (simp add: acl_param_char_def)

lemma acl_params_end:
  assumes "acl_clean w" "w \<noteq> []" "\<not> ap_in_values s"
  shows "acl_params g t w s = acl_finish_param g t (s\<lparr>ap_param := ap_param s @ w\<rparr>)"
proof -
  obtain u c where w: "w = u @ [c]" using assms(2) by (cases w rule: rev_cases) auto
  have c: "acl_clean u" "c \<noteq> CHR ''(''" "c \<noteq> CHR '')''" "c \<noteq> CHR '',''"
    using assms(1) by (auto simp: w acl_clean_def)
  let ?s = "s\<lparr>ap_param := ap_param s @ u\<rparr>"
  have "acl_params g t w s = acl_params g t [c] ?s"
    unfolding w using acl_params_clean_outside[OF c(1) _ assms(3), of "[c]"] by simp
  also have "\<dots> = acl_finish_param g t (s\<lparr>ap_param := ap_param s @ w\<rparr>)"
    using c assms(3) by (cases "acl_finish_param g t (s\<lparr>ap_param := ap_param s @ w\<rparr>)")
      (simp_all add: acl_param_char_def acl_add_char_def w)
  finally show ?thesis .
qed

text \<open>The values between the parentheses, up to the closing one.\<close>

lemma acl_params_values:
  assumes "list_all acl_clean vals" "vals \<noteq> []" "ap_in_values s" "ap_values s = vs @ [[]]" "cs \<noteq> []"
  shows "acl_params g t (py_join '','' vals @ cs) s = acl_params g t cs (s\<lparr>ap_values := vs @ vals\<rparr>)"
  using assms
proof (induction "'',''" vals arbitrary: s vs rule: py_join.induct)
  case (2 x)
  then show ?case using acl_params_clean_inside[of x cs s vs "[]"] by simp
next
  case (3 x y ys)
  let ?s = "s\<lparr>ap_values := vs @ [x]\<rparr>"
  have "acl_params g t (py_join '','' (x # y # ys) @ cs) s
      = acl_params g t (CHR '','' # py_join '','' (y # ys) @ cs) ?s"
    using 3 acl_params_clean_inside[of x "CHR '','' # py_join '','' (y # ys) @ cs" s vs "[]"] by simp
  also have "\<dots> = acl_params g t (py_join '','' (y # ys) @ cs) (s\<lparr>ap_values := (vs @ [x]) @ [[]]\<rparr>)"
    using 3 by (simp add: acl_param_char_def)
  also have "\<dots> = acl_params g t cs (s\<lparr>ap_values := vs @ x # y # ys\<rparr>)"
    using 3 by (subst "3.hyps") auto
  finally show ?case .
qed simp

section \<open>The documented syntax\<close>

text \<open>
  What an administrator means by one entry: a type and parameters, each an id or a group of
  attributes (\<open>True\<close> marks a denied attribute), in any order.  The relations below say
  which texts write it down: blanks may surround every line, colon, semicolon, comma and
  parenthesis, blank lines and comments may stand between the lines.
\<close>

datatype acl_parameter = Ident string | Attributes "(bool \<times> string) list"

record ace_spec =
  sp_type :: ace_type
  sp_params :: "acl_parameter list"

fun sp_ids :: "acl_parameter list \<Rightarrow> string list" where
  "sp_ids [] = []"
| "sp_ids (Ident i # ps) = i # sp_ids ps"
| "sp_ids (Attributes as # ps) = sp_ids ps"

fun sp_attrs :: "acl_parameter list \<Rightarrow> (bool \<times> string) list" where
  "sp_attrs [] = []"
| "sp_attrs (Ident i # ps) = sp_attrs ps"
| "sp_attrs (Attributes as # ps) = as @ sp_attrs ps"

definition acl_name :: "string \<Rightarrow> bool" where
  "acl_name n = (n \<noteq> [] \<and> py_stripped n \<and> acl_clean n \<and> CHR '';'' \<notin> set n)"

fun acl_parameter_ok :: "ace_type \<Rightarrow> acl_parameter \<Rightarrow> bool" where
  "acl_parameter_ok t (Ident i) = (t \<notin> {ACE_all, ACE_self} \<and> acl_name i \<and> i \<noteq> ''attributes'')"
| "acl_parameter_ok t (Attributes as) =
     (as \<noteq> [] \<and> list_all (\<lambda>a. acl_name (snd a) \<and> hd (snd a) \<noteq> CHR ''!'') as)"

definition ace_spec_ok :: "ace_spec \<Rightarrow> bool" where
  "ace_spec_ok sp =
     (list_all (acl_parameter_ok (sp_type sp)) (sp_params sp) \<and>
      (sp_type sp \<in> {ACE_sys_group, ACE_sys_user} \<longrightarrow> sp_params sp \<noteq> []))"

definition acl_method_ok :: "string \<Rightarrow> bool" where
  "acl_method_ok m = (m \<noteq> [] \<and> py_stripped m \<and> hd m \<noteq> CHR ''#'' \<and> CHR '':'' \<notin> set m)"

fun show_ace_type :: "ace_type \<Rightarrow> string" where
  "show_ace_type ACE_all = ''all''"
| "show_ace_type ACE_self = ''self''"
| "show_ace_type ACE_opsi_depotserver = ''opsi_depotserver''"
| "show_ace_type ACE_opsi_client = ''opsi_client''"
| "show_ace_type ACE_sys_group = ''sys_group''"
| "show_ace_type ACE_sys_user = ''sys_user''"

abbreviation blank :: "string \<Rightarrow> bool" where
  "blank b \<equiv> list_all py_space b"

definition padded :: "string \<Rightarrow> string \<Rightarrow> bool" where
  "padded w x = (\<exists>l r. blank l \<and> blank r \<and> x = l @ w @ r)"

definition attr_text :: "bool \<times> string \<Rightarrow> string \<Rightarrow> bool" where
  "attr_text a x = (\<exists>b. blank b \<and> padded (if fst a then ''!'' @ b @ snd a else snd a) x)"

fun param_text :: "acl_parameter \<Rightarrow> string \<Rightarrow> bool" where
  "param_text (Ident i) x = padded i x"
| "param_text (Attributes as) x = (\<exists>p vs b. padded ''attributes'' p \<and> list_all2 attr_text as vs \<and>
     blank b \<and> x = p @ ''('' @ py_join '','' vs @ '')'' @ b)"

definition entry_text :: "ace_spec \<Rightarrow> string \<Rightarrow> bool" where
  "entry_text sp x =
     (if sp_params sp = [] then padded (show_ace_type (sp_type sp)) x
      else (\<exists>p xs b. padded (show_ace_type (sp_type sp)) p \<and> list_all2 param_text (sp_params sp) xs \<and>
             blank b \<and> x = p @ ''('' @ py_join '','' xs @ '')'' @ b))"

fun line_text :: "(string \<times> ace_spec list) option \<Rightarrow> string \<Rightarrow> bool" where
  "line_text None x = (blank x \<or> (\<exists>b c. blank b \<and> x = b @ ''#'' @ c))"
| "line_text (Some (m, sps)) x = (\<exists>p es. padded m p \<and> list_all2 entry_text sps es \<and>
     x = p @ '':'' @ py_join '';'' es)"

definition acl_file_text :: "(string \<times> ace_spec list) option list \<Rightarrow> string \<Rightarrow> bool" where
  "acl_file_text ls x = (\<exists>xs. list_all2 line_text ls xs \<and> list_all (\<lambda>l. CHR ''\<newline>'' \<notin> set l) xs \<and>
     x = py_join [CHR ''\<newline>''] xs)"

definition acl_text_ok :: "(string \<Rightarrow> bool) \<Rightarrow> (string \<times> ace_spec list) option list \<Rightarrow> bool" where
  "acl_text_ok re_compiles ls =
     list_all (\<lambda>l. case l of None \<Rightarrow> True
        | Some (m, sps) \<Rightarrow> acl_method_ok m \<and> re_compiles m \<and> sps \<noteq> [] \<and> list_all ace_spec_ok sps) ls"

definition ace_meaning :: "opsi_groups \<Rightarrow> string \<Rightarrow> ace_spec \<Rightarrow> rpcace list" where
  "ace_meaning g re sp =
     (let ids = sp_ids (sp_params sp); attrs = sp_attrs (sp_params sp);
          ace = (\<lambda>i. \<lparr>method_re = re, acetype = sp_type sp, ace_id = i,
            allowed_attributes = snd ` {a \<in> set attrs. \<not> fst a},
            denied_attributes = snd ` {a \<in> set attrs. fst a}\<rparr>)
      in if ids = [] then [ace None]
         else map (\<lambda>i. ace (Some (if sp_type sp = ACE_sys_group then acl_expand_group g i else i))) ids)"

fun line_meaning :: "opsi_groups \<Rightarrow> (string \<times> ace_spec list) option \<Rightarrow> rpcace list" where
  "line_meaning g None = []"
| "line_meaning g (Some (m, sps)) = concat (map (ace_meaning g m) sps)"

section \<open>Reading a text in the documented syntax\<close>

subsection \<open>Blanks\<close>

lemma padded_strip: "padded w x \<Longrightarrow> py_strip x = py_strip w"
  by (auto simp: padded_def py_strip_padded)

lemma padded_stripped: "padded w x \<Longrightarrow> py_stripped w \<Longrightarrow> py_strip x = w"
  by (simp add: padded_strip)

lemma blank_clean: "blank b \<Longrightarrow> acl_clean b"
  by (induction b) (auto simp: py_space_def)

lemma acl_clean_append [simp]: "acl_clean (u @ v) \<longleftrightarrow> acl_clean u \<and> acl_clean v"
  by (auto simp: acl_clean_def)

lemma padded_clean: "padded w x \<Longrightarrow> acl_clean w \<Longrightarrow> acl_clean x"
  by (auto simp: padded_def blank_clean)

lemma blank_not_in: "blank b \<Longrightarrow> \<not> py_space c \<Longrightarrow> c \<notin> set b"
  by (auto simp: list_all_iff)

lemma padded_set: "padded w x \<Longrightarrow> \<not> py_space c \<Longrightarrow> c \<in> set x \<longleftrightarrow> c \<in> set w"
  by (auto simp: padded_def blank_not_in)

lemma padded_hd:
  assumes "padded w x" "\<not> py_space (hd w)" "w \<noteq> []"
  shows "py_lstrip (x @ y) = py_lstrip x @ y" "hd (py_lstrip x) = hd w" "py_lstrip x \<noteq> []"
proof -
  obtain l r where x: "blank l" "x = l @ w @ r" using assms(1) by (auto simp: padded_def)
  obtain c w' where w: "w = c # w'" using assms(3) by (cases w) auto
  have "dropWhile py_space (l @ u) = dropWhile py_space u" for u
    using x(1) by (induction l) auto
  then have "py_lstrip (x @ y) = w @ r @ y" for y using assms(2) by (simp add: x(2) py_lstrip_def w)
  from this[of y] this[of "[]"] show "py_lstrip (x @ y) = py_lstrip x @ y"
    "hd (py_lstrip x) = hd w" "py_lstrip x \<noteq> []" by (simp_all add: w)
qed

subsection \<open>Parameters\<close>

abbreviation acl_fresh :: "acl_state \<Rightarrow> bool" where
  "acl_fresh s \<equiv> ap_param s = [] \<and> ap_values s = [[]] \<and> \<not> ap_in_values s"

abbreviation acl_id_of :: "opsi_groups \<Rightarrow> ace_type \<Rightarrow> string \<Rightarrow> string" where
  "acl_id_of g t i \<equiv> (if t = ACE_sys_group then acl_expand_group g i else i)"

abbreviation id_types :: "ace_type set" where
  "id_types \<equiv> {ACE_sys_group, ACE_sys_user, ACE_opsi_depotserver, ACE_opsi_client}"

abbreviation allowed_of :: "(bool \<times> string) list \<Rightarrow> string set" where
  "allowed_of as \<equiv> snd ` {a \<in> set as. \<not> fst a}"

abbreviation denied_of :: "(bool \<times> string) list \<Rightarrow> string set" where
  "denied_of as \<equiv> snd ` {a \<in> set as. fst a}"

fun param_effect :: "opsi_groups \<Rightarrow> ace_type \<Rightarrow> acl_parameter \<Rightarrow> acl_state \<Rightarrow> acl_state" where
  "param_effect g t (Ident i) s = s\<lparr>ap_ids := ap_ids s @ [acl_id_of g t i]\<rparr>"
| "param_effect g t (Attributes as) s =
     s\<lparr>ap_allowed := ap_allowed s \<union> allowed_of as, ap_denied := ap_denied s \<union> denied_of as\<rparr>"

lemma param_effect_fresh: "acl_fresh s \<Longrightarrow> acl_fresh (param_effect g t p s)"
  by (cases p) simp_all

lemma attributes_word: "py_stripped ''attributes''" "acl_clean ''attributes''"
  by code_simp+

lemma bang_not_space: "\<not> py_space CHR ''!''"
  by code_simp

lemma attr_text_strip:
  assumes "attr_text a v" "acl_name (snd a)" "hd (snd a) \<noteq> CHR ''!''"
  shows "py_strip v \<noteq> []" and "acl_clean v"
    and "acl_add_attribute (py_strip v) s =
      (if fst a then s\<lparr>ap_denied := insert (snd a) (ap_denied s)\<rparr> else s\<lparr>ap_allowed := insert (snd a) (ap_allowed s)\<rparr>)"
proof -
  obtain d n where a: "a = (d, n)" by (cases a)
  obtain b where b: "blank b" "padded (if d then ''!'' @ b @ n else n) v"
    using assms(1) unfolding attr_text_def a fst_conv snd_conv by blast
  have n: "n \<noteq> []" "py_stripped n" "acl_clean n" "hd n \<noteq> CHR ''!''"
    using assms(2,3) by (auto simp: acl_name_def a)
  have "py_stripped (if d then ''!'' @ b @ n else n)"
    using n by (auto simp: py_stripped_def bang_not_space)
  then have strip: "py_strip v = (if d then ''!'' @ b @ n else n)" by (rule padded_stripped[OF b(2)])
  have "py_strip (b @ n) = n" using py_strip_padded[OF b(1), of "[]" n] n(2) by simp
  moreover have "\<not> py_startswith n ''!''" using n(1,4) by (cases n) (auto simp: py_startswith_def)
  moreover have "py_startswith (''!'' @ b @ n) ''!''" by (simp add: py_startswith_def)
  ultimately show "acl_add_attribute (py_strip v) s =
      (if fst a then s\<lparr>ap_denied := insert (snd a) (ap_denied s)\<rparr> else s\<lparr>ap_allowed := insert (snd a) (ap_allowed s)\<rparr>)"
    using n(1,2) unfolding strip a acl_add_attribute_def fst_conv snd_conv by (cases d) simp_all
  show "py_strip v \<noteq> []" using n(1) unfolding strip by (cases d) simp_all
  show "acl_clean v" using padded_clean[OF b(2)] n(3) blank_clean[OF b(1)] by (cases d) simp_all
qed

lemma fold_add_attributes:
  assumes "list_all2 attr_text as vs" "list_all (\<lambda>a. acl_name (snd a) \<and> hd (snd a) \<noteq> CHR ''!'') as"
  shows "fold acl_add_attribute (filter (\<lambda>v. v \<noteq> []) (map py_strip vs)) s =
    s\<lparr>ap_allowed := ap_allowed s \<union> allowed_of as, ap_denied := ap_denied s \<union> denied_of as\<rparr>"
  using assms
proof (induction arbitrary: s rule: list_all2_induct)
  case (Cons a as v vs)
  have a: "py_strip v \<noteq> []" "acl_add_attribute (py_strip v) s =
      (if fst a then s\<lparr>ap_denied := insert (snd a) (ap_denied s)\<rparr> else s\<lparr>ap_allowed := insert (snd a) (ap_allowed s)\<rparr>)"
    using attr_text_strip[OF Cons.hyps(1)] Cons.prems by auto
  have "allowed_of (a # as) = (if fst a then allowed_of as else insert (snd a) (allowed_of as))"
    "denied_of (a # as) = (if fst a then insert (snd a) (denied_of as) else denied_of as)"
    by (auto simp: image_iff)
  with a Cons show ?case by (cases "fst a") auto
qed simp

text \<open>The text \<open>p(values)\<close>: up to the closing parenthesis.\<close>

lemma acl_params_group:
  assumes "acl_clean p" "p \<noteq> []" "list_all acl_clean vals" "vals \<noteq> []" "acl_fresh s"
  defines "u \<equiv> s\<lparr>ap_values := vals, ap_param := p\<rparr>"
  shows "acl_params g t (p @ ''('' @ py_join '','' vals @ '')'' @ cs) s =
    (if cs = [] then acl_finish_param g t u else acl_params g t cs u)"
proof -
  let ?v = "py_join '','' vals @ '')'' @ cs"
  let ?s = "s\<lparr>ap_param := p, ap_in_values := True\<rparr>"
  have "acl_params g t (p @ (CHR ''('' # ?v)) s = acl_params g t (CHR ''('' # ?v) (s\<lparr>ap_param := p\<rparr>)"
    using acl_params_clean_outside[of p "CHR ''('' # ?v" s g t] assms by simp
  also have "\<dots> = acl_params g t ?v ?s"
    using assms(5) by (simp add: acl_param_char_def)
  also have "\<dots> = acl_params g t ('')'' @ cs) (?s\<lparr>ap_values := vals\<rparr>)"
    using acl_params_values[OF assms(3,4), of ?s "[]" "'')'' @ cs" g t] assms(5) by simp
  also have "\<dots> = (if cs = [] then acl_finish_param g t u else acl_params g t cs u)"
  proof -
    have "?s\<lparr>ap_values := vals, ap_in_values := False\<rparr> = u" using assms(5) by (cases s) (simp add: u_def)
    then show ?thesis using assms(2)
      by (cases "acl_finish_param g t u") (auto simp: acl_param_char_def)
  qed
  finally show ?thesis by simp
qed

text \<open>One parameter, before a comma and at the end.\<close>

lemma acl_params_one:
  assumes "param_text p x" "acl_parameter_ok t p" "acl_fresh s"
  shows "acl_params g t x s = Inr (param_effect g t p s)" "x \<noteq> []"
    and "cs \<noteq> [] \<Longrightarrow> acl_params g t (x @ '','' @ cs) s = acl_params g t cs (param_effect g t p s)"
proof -
  have "x \<noteq> [] \<and> (\<exists>u. \<not> ap_in_values u \<and> acl_finish_param g t u = Inr (param_effect g t p s) \<and>
    acl_params g t x s = acl_finish_param g t u \<and>
    (\<forall>cs. acl_params g t (x @ CHR '','' # cs) s = acl_params g t (CHR '','' # cs) u))"
  proof (cases p)
    case (Ident i)
    have i: "padded i x" "acl_name i" "i \<noteq> ''attributes''" "t \<in> id_types"
      using assms(1,2) Ident by (auto intro: ace_type.exhaust[of t])
    have x: "py_strip x = i" "acl_clean x" "x \<noteq> []"
      using i padded_stripped padded_clean by (auto simp: acl_name_def padded_def)
    have "acl_finish_param g t (s\<lparr>ap_param := x\<rparr>) = Inr (param_effect g t p s)"
      using i(2-4) x(1) assms(3) by (simp add: acl_finish_param_def acl_name_def Let_def Ident)
    then show ?thesis
      using x acl_params_end[OF x(2,3), of s g t] acl_params_clean_outside[OF x(2), of _ s g t] assms(3)
      by (intro conjI exI[of _ "s\<lparr>ap_param := x\<rparr>"]) simp_all
  next
    case (Attributes as)
    obtain w vs b where x: "padded ''attributes'' w" "list_all2 attr_text as vs" "blank b"
      "x = w @ ''('' @ py_join '','' vs @ '')'' @ b" using assms(1) Attributes by auto
    have as: "as \<noteq> []" "list_all (\<lambda>a. acl_name (snd a) \<and> hd (snd a) \<noteq> CHR ''!'') as"
      using assms(2) Attributes by simp_all
    have w: "acl_clean w" "w \<noteq> []"
      using x(1) padded_clean[OF x(1) attributes_word(2)] by (auto simp: padded_def)
    have vs: "list_all acl_clean vs" "vs \<noteq> []"
      using x(2) as attr_text_strip(2) by (induction rule: list_all2_induct) (fastforce simp: list_all2_Cons1)+
    define u where "u = s\<lparr>ap_values := vs, ap_param := w @ b\<rparr>"
    have strip: "py_strip (w @ b) = ''attributes''"
      using x(1,3) attributes_word(1) by (intro padded_stripped) (force simp: padded_def)+
    have fin: "acl_finish_param g t u = Inr (param_effect g t p s)"
      using strip fold_add_attributes[OF x(2) as(2), of u] assms(3)
      by (cases s) (simp add: acl_finish_param_def Let_def u_def Attributes)
    let ?u = "s\<lparr>ap_values := vs, ap_param := w\<rparr>"
    note grp = acl_params_group[OF w vs assms(3), of g t]
    have "acl_params g t x s = acl_finish_param g t u"
      using grp[of b] acl_params_end[OF blank_clean[OF x(3)], of ?u g t] assms(3)
      by (auto simp: x(4) u_def)
    moreover have "acl_params g t (x @ CHR '','' # cs) s = acl_params g t (CHR '','' # cs) u" for cs
      using grp[of "b @ CHR '','' # cs"] acl_params_clean_outside[OF blank_clean[OF x(3)], of "CHR '','' # cs" ?u g t] assms(3)
      by (simp add: x(4) u_def)
    ultimately show ?thesis using fin w(2) assms(3)
      by (intro conjI exI[of _ u]) (simp_all add: x(4) u_def)
  qed
  then show "acl_params g t x s = Inr (param_effect g t p s)" "x \<noteq> []"
    "cs \<noteq> [] \<Longrightarrow> acl_params g t (x @ '','' @ cs) s = acl_params g t cs (param_effect g t p s)"
    by (auto simp: acl_params_comma_outside simp del: acl_params.simps)
qed

lemma acl_params_text:
  assumes "list_all2 param_text ps xs" "list_all (acl_parameter_ok t) ps" "ps \<noteq> []" "acl_fresh s"
  shows "acl_params g t (py_join '','' xs) s = Inr (fold (param_effect g t) ps s) \<and> py_join '','' xs \<noteq> []"
  using assms
proof (induction arbitrary: s rule: list_all2_induct)
  case (Cons p ps x xs)
  have p: "acl_parameter_ok t p" using Cons.prems by simp
  note one = acl_params_one[OF Cons.hyps(1) p Cons.prems(3)]
  show ?case
  proof (cases xs)
    case Nil
    with Cons.hyps(2) one(1,2) show ?thesis by simp
  next
    case xs: (Cons y ys)
    then have ps: "ps \<noteq> []" using Cons.hyps(2) by auto
    have "acl_params g t (py_join '','' xs) (param_effect g t p s) =
        Inr (fold (param_effect g t) ps (param_effect g t p s)) \<and> py_join '','' xs \<noteq> []"
      using Cons.IH[OF _ ps] Cons.prems by (simp add: param_effect_fresh)
    then show ?thesis using one(2) one(3)[of "py_join '','' xs"] by (simp add: xs)
  qed
qed simp

lemma fold_param_effect:
  "fold (param_effect g t) ps s = s\<lparr>ap_ids := ap_ids s @ map (acl_id_of g t) (sp_ids ps),
     ap_allowed := ap_allowed s \<union> allowed_of (sp_attrs ps),
     ap_denied := ap_denied s \<union> denied_of (sp_attrs ps)\<rparr>"
proof (induction ps arbitrary: s)
  case (Cons p ps)
  then show ?case by (cases p) (auto simp: image_Un Collect_disj_eq conj_disj_distribR Un_assoc)
qed simp

subsection \<open>Entries\<close>

lemma ace_type_of_show [simp]: "ace_type_of (show_ace_type t) = Some t"
  by (cases t) (simp_all add: ace_type_of_def)

lemma show_ace_type_chars:
  "set (show_ace_type t) \<inter> {CHR ''('', CHR '';''} = {}" "show_ace_type t \<noteq> []"
  "py_stripped (show_ace_type t)"
  by (cases t; simp add: py_space_def py_stripped_def)+

lemma syntax_not_space: "\<not> py_space CHR '')''" "\<not> py_space CHR ''(''" "\<not> py_space CHR '';''"
  "\<not> py_space CHR '':''" "\<not> py_space CHR '',''" "\<not> py_space CHR ''#''"
  by code_simp+

lemma acl_entry_text:
  assumes "entry_text sp x" "ace_spec_ok sp"
  shows "acl_entry g re x = Inr (ace_meaning g re sp)"
proof (cases "sp_params sp = []")
  case True
  then have "py_strip x = show_ace_type (sp_type sp)"
    using assms(1) padded_stripped show_ace_type_chars(3) by (simp add: entry_text_def)
  moreover have "acl_split_entry (show_ace_type (sp_type sp)) = Inr (show_ace_type (sp_type sp), [])"
    using show_ace_type_chars(1)[of "sp_type sp"]
    by (auto simp: acl_split_entry_def py_split1_None[THEN iffD2])
  moreover have "sp_type sp \<notin> {ACE_sys_group, ACE_sys_user}" using assms(2) True by (auto simp: ace_spec_ok_def)
  ultimately show ?thesis
    using True show_ace_type_chars(2)[of "sp_type sp"]
    by (simp add: acl_entry_def ace_meaning_def mk_ace_def acl_state0_def Let_def)
next
  case False
  let ?t = "sp_type sp"
  obtain p xs b where x: "padded (show_ace_type ?t) p" "list_all2 param_text (sp_params sp) xs" "blank b"
    "x = p @ ''('' @ py_join '','' xs @ '')'' @ b" using assms(1) False by (auto simp: entry_text_def)
  let ?ps = "py_join '','' xs"
  obtain l r where p: "blank l" "blank r" "p = l @ show_ace_type ?t @ r" using x(1) by (auto simp: padded_def)
  let ?w = "show_ace_type ?t @ r @ ''('' @ ?ps @ '')''"
  have "py_strip x = py_strip ?w"
    using py_strip_padded[OF p(1) x(3), of ?w] by (simp add: x(4) p(3))
  also have "\<dots> = ?w" using show_ace_type_chars(2,3)[of ?t] syntax_not_space
    by (intro py_strip_stripped) (auto simp: py_stripped_def)
  finally have strip: "py_strip x = ?w" .
  have "py_split1 CHR ''('' ?w = Some (show_ace_type ?t @ r, ?ps @ '')'')"
    using show_ace_type_chars(1)[of ?t] blank_not_in[OF p(2)] syntax_not_space by (auto simp: py_split1_Some)
  moreover have "py_strip (show_ace_type ?t @ r) = show_ace_type ?t"
    using py_strip_padded[of "[]" r "show_ace_type ?t"] p(2) show_ace_type_chars(3) by simp
  ultimately have split: "acl_split_entry ?w = Inr (show_ace_type ?t, ?ps)"
    by (simp add: acl_split_entry_def)
  have "list_all (acl_parameter_ok ?t) (sp_params sp)" using assms(2) by (simp add: ace_spec_ok_def)
  note ps = acl_params_text[OF x(2) this False, of acl_state0]
  show ?thesis
    using ps split strip show_ace_type_chars(2)[of ?t]
    by (simp add: acl_entry_def ace_meaning_def mk_ace_def acl_state0_def Let_def comp_def fold_param_effect)
qed

lemma acl_entries_text:
  "list_all2 entry_text sps es \<Longrightarrow> list_all ace_spec_ok sps \<Longrightarrow>
   acl_entries g re es = Inr (concat (map (ace_meaning g re) sps))"
  by (induction rule: list_all2_induct) (simp_all add: acl_entry_text)

lemma acl_entries_strip: "acl_entries g re (map py_strip es) = acl_entries g re es"
  by (induction es) (simp_all add: acl_entry_def)

subsection \<open>Lines and files\<close>

lemma attr_text_semicolon: "attr_text a v \<Longrightarrow> acl_name (snd a) \<Longrightarrow> CHR '';'' \<notin> set v"
proof -
  assume "attr_text a v" "acl_name (snd a)"
  then obtain b where b: "blank b" "padded (if fst a then ''!'' @ b @ snd a else snd a) v" "CHR '';'' \<notin> set (snd a)"
    unfolding attr_text_def acl_name_def by blast
  show ?thesis
    using padded_set[OF b(2) syntax_not_space(3)] blank_not_in[OF b(1) syntax_not_space(3)] b(3) by auto
qed

lemma join_not_in: "c \<notin> set sep \<Longrightarrow> \<forall>x \<in> set xs. c \<notin> set x \<Longrightarrow> c \<notin> set (py_join sep xs)"
  using set_py_join[of sep xs] by blast

lemma param_text_semicolon:
  assumes "param_text p x" "acl_parameter_ok t p"
  shows "CHR '';'' \<notin> set x"
proof (cases p)
  case (Ident i)
  with assms show ?thesis using syntax_not_space by (simp add: padded_set acl_name_def)
next
  case (Attributes as)
  obtain w vs b where x: "padded ''attributes'' w" "list_all2 attr_text as vs" "blank b"
    "x = w @ ''('' @ py_join '','' vs @ '')'' @ b" using assms(1) Attributes by auto
  have "\<forall>v \<in> set vs. CHR '';'' \<notin> set v"
  proof
    fix v assume "v \<in> set vs"
    then obtain a where "a \<in> set as" "attr_text a v"
      using x(2) by (metis in_set_conv_nth list_all2_conv_all_nth)
    then show "CHR '';'' \<notin> set v"
      using assms(2) attr_text_semicolon unfolding Attributes acl_parameter_ok.simps list_all_iff by blast
  qed
  then have "CHR '';'' \<notin> set (py_join '','' vs)" by (intro join_not_in) auto
  then show ?thesis using x syntax_not_space by (simp add: padded_set blank_not_in)
qed

lemma entry_text_semicolon:
  assumes "entry_text sp x" "ace_spec_ok sp"
  shows "CHR '';'' \<notin> set x"
proof (cases "sp_params sp = []")
  case True
  with assms(1) show ?thesis using syntax_not_space show_ace_type_chars(1)[of "sp_type sp"]
    by (auto simp: entry_text_def padded_set)
next
  case False
  let ?t = "sp_type sp"
  obtain p xs b where x: "padded (show_ace_type ?t) p" "list_all2 param_text (sp_params sp) xs" "blank b"
    "x = p @ ''('' @ py_join '','' xs @ '')'' @ b" using assms(1) False by (auto simp: entry_text_def)
  have "\<forall>v \<in> set xs. CHR '';'' \<notin> set v"
    using x(2) assms(2) param_text_semicolon
    by (fastforce simp: ace_spec_ok_def list_all2_conv_all_nth in_set_conv_nth list_all_length)
  then have "CHR '';'' \<notin> set (py_join '','' xs)" by (intro join_not_in) auto
  then show ?thesis using x syntax_not_space show_ace_type_chars(1)[of ?t]
    by (auto simp: padded_set blank_not_in)
qed

lemma entry_text_not_blank:
  assumes "entry_text sp x"
  shows "py_strip x \<noteq> []"
proof -
  have "\<exists>c \<in> set x. \<not> py_space c"
  proof (cases "sp_params sp = []")
    case True
    then obtain l r where "x = l @ show_ace_type (sp_type sp) @ r"
      using assms by (auto simp: entry_text_def padded_def)
    then show ?thesis using show_ace_type_chars(2,3)[of "sp_type sp"]
      by (auto simp: py_stripped_def intro!: bexI[of _ "hd (show_ace_type (sp_type sp))"])
  next
    case False
    then show ?thesis using assms syntax_not_space by (auto simp: entry_text_def)
  qed
  then show ?thesis by (simp add: py_strip_eq_Nil)
qed

lemma acl_line_text:
  assumes "line_text (Some (m, sps)) x" "acl_method_ok m" "re_compiles m" "sps \<noteq> []" "list_all ace_spec_ok sps"
  shows "acl_line g re_compiles x = Inr (concat (map (ace_meaning g m) sps))"
proof -
  obtain p es where x: "padded m p" "list_all2 entry_text sps es" "x = p @ '':'' @ py_join '';'' es"
    using assms(1) by auto
  let ?J = "py_join '';'' es"
  have m: "m \<noteq> []" "py_stripped m" "CHR '':'' \<notin> set m" "hd m \<noteq> CHR ''#''" "\<not> py_space (hd m)"
    using assms(2) by (auto simp: acl_method_ok_def py_stripped_def)
  note p = padded_hd[OF x(1) m(5,1)]
  have es: "es \<noteq> []" using x(2) assms(4) by auto
  have semi: "CHR '';'' \<notin> set e" "py_strip e \<noteq> []" if "e \<in> set es" for e
    using that x(2) assms(5) entry_text_semicolon entry_text_not_blank
    by (fastforce simp: list_all2_conv_all_nth in_set_conv_nth list_all_length)+
  have J: "py_strip ?J \<noteq> []"
    using es semi(2)[of "hd es"] py_join_mem[of "hd es" es _ "'';''"] by (fastforce simp: py_strip_eq_Nil)
  have strip: "py_strip x = py_lstrip p @ '':'' @ py_rstrip ?J"
    using p(1)[of "'':'' @ ?J"] J by (simp add: x(3) py_strip_def py_rstrip_colon syntax_not_space)
  have "CHR '':'' \<notin> set (py_lstrip p)"
    using padded_set[OF x(1), of "CHR '':''"] m(3) syntax_not_space
    by (auto simp: py_lstrip_def dest: set_dropWhileD)
  then have "py_split1 CHR '':'' (py_strip x) = Some (py_lstrip p, py_rstrip ?J)"
    by (simp add: strip py_split1_Some)
  moreover have lr: "py_lstrip (py_rstrip ?J) = py_strip ?J" by (simp add: py_lstrip_rstrip)
  ultimately have "acl_entry_regex (py_strip x) = Some (py_lstrip p, py_strip ?J)"
    using p(3) J by (simp add: acl_entry_regex_def)
  moreover have "py_strip (py_lstrip p) = m"
    using padded_stripped[OF x(1) m(2)] by (simp add: py_strip_lstrip)
  moreover have "acl_entries g m (py_split CHR '';'' (py_strip ?J)) = Inr (concat (map (ace_meaning g m) sps))"
  proof -
    have "acl_entries g m (py_split CHR '';'' (py_strip ?J)) = acl_entries g m (py_split CHR '';'' ?J)"
      using map_strip_split[OF syntax_not_space(3), of ?J] acl_entries_strip by metis
    also have "py_split CHR '';'' ?J = es" using es semi(1) by (intro py_split_join) auto
    finally show ?thesis using acl_entries_text[OF x(2) assms(5)] by simp
  qed
  moreover have "\<not> py_startswith (py_strip x) ''#''" "py_strip x \<noteq> []"
    using p(2,3) m(4) by (cases "py_lstrip p"; simp add: strip py_startswith_def)+
  ultimately show ?thesis using assms(3) by (simp add: acl_line_def Let_def)
qed

lemma acl_line_skipped: "line_text None x \<Longrightarrow> acl_line g re_compiles x = Inr []"
proof -
  assume "line_text None x"
  then consider "blank x" | b c where "blank b" "x = b @ ''#'' @ c" by auto
  then show ?thesis
  proof cases
    case 1
    then have "py_strip x = []" by (auto simp: py_strip_eq_Nil list_all_iff)
    then show ?thesis by (simp add: acl_line_def)
  next
    case 2
    have "py_strip x = py_strip (''#'' @ c)" using py_strip_padded[OF 2(1), of "[]" "''#'' @ c"] 2(2) by simp
    moreover have "py_strip (''#'' @ c) \<noteq> []" using syntax_not_space by (simp add: py_strip_eq_Nil)
    moreover have "hd (py_strip (''#'' @ c)) = CHR ''#''"
      using py_rstrip_hd[of "''#'' @ c"] calculation(2) syntax_not_space
      by (simp add: py_strip_def py_lstrip_def)
    ultimately obtain u where "py_strip x = CHR ''#'' # u" by (metis list.collapse)
    then show ?thesis by (simp add: acl_line_def py_startswith_def)
  qed
qed

lemma acl_lines_text:
  assumes "list_all2 line_text ls xs" "acl_text_ok re_compiles ls"
  shows "acl_lines g re_compiles xs = Inr (concat (map (line_meaning g) ls))"
  using assms
proof (induction rule: list_all2_induct)
  case (Cons l ls x xs)
  have "acl_line g re_compiles x = Inr (line_meaning g l)"
  proof (cases l)
    case None
    with Cons.hyps(1) show ?thesis by (simp add: acl_line_skipped del: line_text.simps)
  next
    case (Some ms)
    obtain m sps where "ms = (m, sps)" by (cases ms)
    with Some Cons.hyps(1) Cons.prems show ?thesis
      by (auto simp: acl_text_ok_def acl_line_text simp del: line_text.simps)
  qed
  with Cons show ?case by (simp add: acl_text_ok_def)
qed simp

lemma read_acl_file_text:
  assumes "acl_file_text ls x" "acl_text_ok re_compiles ls"
  shows "read_acl_file g re_compiles x = Inr (concat (map (line_meaning g) ls))"
proof -
  obtain xs where xs: "list_all2 line_text ls xs" "list_all (\<lambda>l. CHR ''\<newline>'' \<notin> set l) xs"
    "x = py_join [CHR ''\<newline>''] xs" using assms(1) by (auto simp: acl_file_text_def)
  show ?thesis
  proof (cases "xs = []")
    case True
    with xs show ?thesis by (simp add: read_acl_file_def acl_line_def)
  next
    case False
    then have "py_split CHR ''\<newline>'' x = xs"
      unfolding xs(3) using xs(2) by (intro py_split_join) (auto simp: list_all_iff)
    then show ?thesis using acl_lines_text[OF xs(1) assms(2)] by (simp add: read_acl_file_def)
  qed
qed

section \<open>What every accepted list satisfies\<close>

definition ace_ok :: "(string \<Rightarrow> bool) \<Rightarrow> rpcace \<Rightarrow> bool" where
  "ace_ok re_compiles a =
     (method_re a \<noteq> [] \<and> re_compiles (method_re a) \<and>
      (acetype a \<in> {ACE_all, ACE_self} \<longrightarrow> ace_id a = None) \<and>
      (\<forall>x \<in> allowed_attributes a \<union> denied_attributes a. acl_clean x \<and> py_stripped x))"

definition acl_state_ok :: "ace_type \<Rightarrow> acl_state \<Rightarrow> bool" where
  "acl_state_ok t s =
     ((t \<in> {ACE_all, ACE_self} \<longrightarrow> ap_ids s = []) \<and> list_all acl_clean (ap_values s) \<and>
      (\<forall>x \<in> ap_allowed s \<union> ap_denied s. acl_clean x \<and> py_stripped x))"

lemma acl_clean_strip: "acl_clean s \<Longrightarrow> acl_clean (py_strip s)"
  using set_py_strip[of s] by (auto simp: acl_clean_def)

lemma acl_clean_tl: "acl_clean s \<Longrightarrow> acl_clean (tl s)"
  by (cases s) auto

lemma acl_state_ok_upd [simp]:
  "acl_state_ok t (s\<lparr>ap_param := p\<rparr>) = acl_state_ok t s"
  "acl_state_ok t (s\<lparr>ap_in_values := b\<rparr>) = acl_state_ok t s"
  by (simp_all add: acl_state_ok_def)

lemma acl_state_ok_values:
  "acl_state_ok t s \<Longrightarrow> list_all acl_clean vs \<Longrightarrow> acl_state_ok t (s\<lparr>ap_values := vs\<rparr>)"
  by (simp add: acl_state_ok_def)

lemma acl_state_ok_ids:
  "acl_state_ok t s \<Longrightarrow> t \<notin> {ACE_all, ACE_self} \<Longrightarrow> acl_state_ok t (s\<lparr>ap_ids := is\<rparr>)"
  by (simp add: acl_state_ok_def)

lemma acl_state_ok_clean: "acl_state_ok t s \<Longrightarrow> list_all acl_clean (ap_values s)"
  by (simp add: acl_state_ok_def)

lemma acl_add_attribute_ok:
  "acl_state_ok t s \<Longrightarrow> acl_clean v \<Longrightarrow> acl_state_ok t (acl_add_attribute v s)"
  by (auto simp: acl_state_ok_def acl_add_attribute_def acl_clean_strip acl_clean_tl)

lemma fold_acl_add_attribute_ok:
  "acl_state_ok t s \<Longrightarrow> list_all acl_clean vs \<Longrightarrow> acl_state_ok t (fold acl_add_attribute vs s)"
  by (induction vs arbitrary: s) (simp_all add: acl_add_attribute_ok)

lemma acl_finish_param_ok:
  assumes "acl_state_ok t s" "acl_finish_param g t s = Inr s'"
  shows "acl_state_ok t s'"
proof -
  let ?vals = "filter (\<lambda>v. v \<noteq> []) (map py_strip (ap_values s))"
  let ?u = "fold acl_add_attribute ?vals s"
  have "list_all acl_clean ?vals"
    using acl_state_ok_clean[OF assms(1)] by (auto simp: list_all_iff acl_clean_strip)
  then have u: "acl_state_ok t (?u\<lparr>ap_param := [], ap_values := [[]]\<rparr>)"
    using assms(1) by (simp add: acl_state_ok_values fold_acl_add_attribute_ok)
  show ?thesis
  proof (cases "py_strip (ap_param s) = ''attributes''")
    case True
    with assms(2) u show ?thesis by (simp add: acl_finish_param_def Let_def)
  next
    case False
    with assms(2) obtain js where "t \<in> id_types" "s' = s\<lparr>ap_ids := js, ap_param := [], ap_values := [[]]\<rparr>"
      by (auto simp: acl_finish_param_def Let_def simp del: insert_iff split: if_splits)
    then show ?thesis
      using assms(1) by (auto simp: acl_state_ok_def)
  qed
qed

lemma acl_add_char_ok:
  assumes "acl_state_ok t s" "acl_add_char c s = Inr s'" "c \<notin> {CHR ''('', CHR '')'', CHR '',''}"
  shows "acl_state_ok t s'"
proof (cases "ap_in_values s")
  case True
  with assms(2) obtain vs v where "ap_values s = vs @ [v]" "s' = s\<lparr>ap_values := vs @ [v @ [c]]\<rparr>"
    by (cases "ap_values s" rule: rev_cases) (auto simp: acl_add_char_def)
  with assms acl_state_ok_clean[OF assms(1)] show ?thesis
    by (auto intro!: acl_state_ok_values simp: acl_clean_def)
next
  case False
  with assms show ?thesis by (auto simp: acl_add_char_def)
qed

lemma acl_add_char_in_values: "acl_add_char c s = Inr s' \<Longrightarrow> ap_in_values s' = ap_in_values s"
  by (auto simp: acl_add_char_def split: if_splits)

lemma acl_param_char_ok:
  assumes "acl_state_ok t s" "acl_param_char g t l c s = Inr s'"
  shows "acl_state_ok t s'"
proof -
  let ?tail = "\<lambda>u. if c = CHR '','' \<or> l then
               (if ap_in_values u then
                  (if l then Inl (ValueError ''Bad formatted acl type params'')
                   else Inr (u\<lparr>ap_values := ap_values u @ [[]]\<rparr>))
                else acl_finish_param g t u)
             else Inr u"
  have tail: "acl_state_ok t s'" if "acl_state_ok t u" "?tail u = Inr s'" for u
    using that acl_state_ok_clean[OF that(1)]
    by (auto split: if_splits intro: acl_finish_param_ok acl_state_ok_values)
  consider "c = CHR ''(''" | "c = CHR '')''" | "c = CHR '',''" "\<not> l" | "c = CHR '',''" "l"
    | "c \<notin> {CHR ''('', CHR '')'', CHR '',''}" by blast
  then show ?thesis
  proof cases
    case 4
    then obtain u where u: "acl_add_char c s = Inr u" "?tail u = Inr s'"
      using assms(2) unfolding acl_param_char_def bind_res_Inr_iff by (auto split: if_splits)
    then have "\<not> ap_in_values s" using 4 by (auto simp: acl_add_char_in_values)
    then have "acl_state_ok t u" using u(1) assms(1) by (auto simp: acl_add_char_def)
    then show ?thesis using u(2) by (rule tail)
  next
    case 5
    then obtain u where "acl_add_char c s = Inr u" "?tail u = Inr s'"
      using assms(2) by (auto simp: acl_param_char_def bind_res_Inr_iff)
    then show ?thesis using acl_add_char_ok[OF assms(1) _ 5] tail by blast
  qed (use assms tail in \<open>auto simp: acl_param_char_def bind_res_Inr_iff split: if_splits
        intro: acl_finish_param_ok[rotated]\<close>)
qed

lemma acl_params_ok:
  "acl_state_ok t s \<Longrightarrow> acl_params g t cs s = Inr s' \<Longrightarrow> acl_state_ok t s'"
  by (induction cs arbitrary: s) (auto simp: bind_res_Inr_iff intro: acl_param_char_ok)

lemma acl_state0_ok: "acl_state_ok t acl_state0"
  by (simp add: acl_state_ok_def acl_state0_def)

lemma mk_ace_ok:
  "acl_state_ok t s \<Longrightarrow> re \<noteq> [] \<Longrightarrow> re_compiles re \<Longrightarrow>
   (t \<in> {ACE_all, ACE_self} \<Longrightarrow> i = None) \<Longrightarrow> ace_ok re_compiles (mk_ace re t s i)"
  by (auto simp: ace_ok_def acl_state_ok_def mk_ace_def)

lemma acl_entry_ok:
  assumes "acl_entry g re e = Inr as" "re \<noteq> []" "re_compiles re"
  shows "list_all (ace_ok re_compiles) as"
proof -
  have k: "ace_ok re_compiles (mk_ace re t s i)"
    if "acl_params g t ps acl_state0 = Inr s" "i = None \<or> ap_ids s \<noteq> []" for t s i ps
    using acl_params_ok[OF acl_state0_ok that(1)] that(2) assms(2,3)
    by (intro mk_ace_ok) (auto simp: acl_state_ok_def)
  show ?thesis
    using assms k mk_ace_ok[OF acl_state0_ok, of re re_compiles]
    by (auto simp: acl_entry_def bind_res_Inr_iff list_all_iff split: if_splits option.splits)
qed

lemma acl_entries_ok:
  "acl_entries g re es = Inr as \<Longrightarrow> re \<noteq> [] \<Longrightarrow> re_compiles re \<Longrightarrow> list_all (ace_ok re_compiles) as"
  by (induction es arbitrary: as) (auto simp: bind_res_Inr_iff dest: acl_entry_ok)

lemma acl_line_ok:
  assumes "acl_line g re_compiles l = Inr as"
  shows "list_all (ace_ok re_compiles) as"
proof -
  have "py_strip m \<noteq> []" if "acl_entry_regex (py_strip l) = Some (m, es)" for m es
  proof -
    from that have "py_strip l = m @ CHR '':'' # drop (Suc (length m)) (py_strip l)" "m \<noteq> []"
      by (auto simp: acl_entry_regex_def py_split1_Some split: option.splits if_splits)
    then have "hd (py_strip l) = hd m" by (metis hd_append2)
    moreover have "\<not> py_space (hd (py_strip l))"
      using py_strip_is_stripped[of l] \<open>py_strip l = _\<close> by (auto simp: py_stripped_def)
    ultimately have "py_lstrip m = m" using \<open>m \<noteq> []\<close> by (cases m) (auto simp: py_lstrip_def)
    with \<open>m \<noteq> []\<close> \<open>hd (py_strip l) = hd m\<close> \<open>\<not> py_space (hd (py_strip l))\<close> show ?thesis
      by (cases m) (auto simp: py_strip_def py_rstrip_def dropWhile_append)
  qed
  with assms show ?thesis
    by (auto simp: acl_line_def Let_def split: if_splits option.splits dest: acl_entries_ok)
qed

lemma acl_lines_ok: "acl_lines g re_compiles ls = Inr as \<Longrightarrow> list_all (ace_ok re_compiles) as"
  by (induction ls arbitrary: as) (auto simp: bind_res_Inr_iff dest: acl_line_ok)

section \<open>Properties\<close>

text \<open>
  C28. Reading: \<open>acl_file_text ls x\<close> says that the text \<open>x\<close> writes down the lines
  \<open>ls\<close> in the documented syntax: each line is blank, a comment, or a method pattern, a colon
  and entries separated by semicolons, an entry being a type with ids and groups of allowed and
  denied attributes in any order, and any number of blanks may stand around lines, patterns,
  colons, semicolons, commas, parentheses, names and after an exclamation mark.  When the names
  are free of syntax characters, the patterns compile, ids are given only for the types that take
  them and \<open>sys_group\<close> and \<open>sys_user\<close> have a parameter, \<open>read_acl_file\<close> turns every
  such text into exactly the entries it denotes, in order, with the group placeholders replaced
  in the ids of \<open>sys_group\<close> entries only.
\<close>

theorem read_acl_file_roundtrip:
  assumes "acl_file_text ls x" "acl_text_ok re_compiles ls"
  shows "read_acl_file g re_compiles x = Inr (concat (map (line_meaning g) ls))"
  using assms by (rule read_acl_file_text)

definition acl_example :: "(string \<times> ace_spec list) option list" where
  "acl_example =
     [None, None,
      Some (''host_get.*'',
       [\<lparr>sp_type = ACE_sys_group, sp_params = [Ident ''{admingroup}'', Ident ''group 2'']\<rparr>,
        \<lparr>sp_type = ACE_self, sp_params = []\<rparr>,
        \<lparr>sp_type = ACE_opsi_client, sp_params = [Attributes [(True, ''opsiHostKey''), (False, ''id'')]]\<rparr>])]"

definition acl_example_text :: string where
  "acl_example_text = '' # hosts'' @ [CHR ''\<newline>''] @ ''  '' @ [CHR ''\<newline>''] @
     '' host_get.*   : sys_group({admingroup}, group 2); self ; opsi_client( attributes(! opsiHostKey, id))''"

lemma padded_by: "py_strip x = w \<Longrightarrow> padded w x"
  using py_strip_decompose[of x] by (auto simp: padded_def)

lemma entry_textI:
  "padded (show_ace_type t) p \<Longrightarrow> list_all2 param_text ps xs \<Longrightarrow> ps \<noteq> [] \<Longrightarrow>
   entry_text \<lparr>sp_type = t, sp_params = ps\<rparr> (p @ ''('' @ py_join '','' xs @ '')'')"
  by (force simp: entry_text_def)

lemma attributes_textI:
  "padded ''attributes'' p \<Longrightarrow> list_all2 attr_text as vs \<Longrightarrow> blank b \<Longrightarrow>
   param_text (Attributes as) (p @ ''('' @ py_join '','' vs @ '')'' @ b)"
  by auto

lemma line_textI:
  "padded m p \<Longrightarrow> list_all2 entry_text sps es \<Longrightarrow> line_text (Some (m, sps)) (p @ '':'' @ py_join '';'' es)"
  by auto

lemma acl_example_entries:
  "entry_text \<lparr>sp_type = ACE_sys_group, sp_params = [Ident ''{admingroup}'', Ident ''group 2'']\<rparr>
     '' sys_group({admingroup}, group 2)''"
  "entry_text \<lparr>sp_type = ACE_self, sp_params = []\<rparr> '' self ''"
  "entry_text \<lparr>sp_type = ACE_opsi_client, sp_params = [Attributes [(True, ''opsiHostKey''), (False, ''id'')]]\<rparr>
     '' opsi_client( attributes(! opsiHostKey, id))''"
proof -
  have p: "padded ''{admingroup}'' ''{admingroup}''" "padded ''group 2'' '' group 2''"
    "padded ''sys_group'' '' sys_group''" "padded ''self'' '' self ''" "padded ''attributes'' '' attributes''"
    "padded ''opsi_client'' '' opsi_client''" "padded (''!'' @ '' '' @ ''opsiHostKey'') ''! opsiHostKey''"
    "padded ''id'' '' id''"
    by (rule padded_by, code_simp)+
  show "entry_text \<lparr>sp_type = ACE_sys_group, sp_params = [Ident ''{admingroup}'', Ident ''group 2'']\<rparr>
     '' sys_group({admingroup}, group 2)''"
    using entry_textI[of ACE_sys_group "'' sys_group''" "[Ident ''{admingroup}'', Ident ''group 2'']"
        "[''{admingroup}'', '' group 2'']"] p(1-3) by simp
  show "entry_text \<lparr>sp_type = ACE_self, sp_params = []\<rparr> '' self ''" using p(4) by (simp add: entry_text_def)
  have "blank '' ''" by code_simp
  then have "attr_text (True, ''opsiHostKey'') ''! opsiHostKey''" "attr_text (False, ''id'') '' id''"
    using p(7,8) unfolding attr_text_def fst_conv snd_conv if_True if_False by blast+
  then have "param_text (Attributes [(True, ''opsiHostKey''), (False, ''id'')])
      ('' attributes'' @ ''('' @ py_join '','' [''! opsiHostKey'', '' id''] @ '')'' @ [])"
    using p(5) by (intro attributes_textI) simp_all
  then show "entry_text \<lparr>sp_type = ACE_opsi_client, sp_params = [Attributes [(True, ''opsiHostKey''), (False, ''id'')]]\<rparr>
     '' opsi_client( attributes(! opsiHostKey, id))''"
    using entry_textI[of ACE_opsi_client "'' opsi_client''" "[Attributes [(True, ''opsiHostKey''), (False, ''id'')]]"
        "['' attributes(! opsiHostKey, id)'']"] p(6) by simp
qed

lemma acl_example_written: "acl_file_text acl_example acl_example_text"
proof -
  let ?es = "['' sys_group({admingroup}, group 2)'', '' self '', '' opsi_client( attributes(! opsiHostKey, id))'']"
  have "padded ''host_get.*'' '' host_get.*   ''" by (rule padded_by, code_simp)
  then have l: "line_text (acl_example ! 2) ('' host_get.*   '' @ '':'' @ py_join '';'' ?es)"
    using acl_example_entries
    by (simp add: acl_example_def line_textI del: line_text.simps append.simps py_join.simps)
  have "blank '' ''" "blank ''  ''" by code_simp+
  then have "line_text None ('' '' @ ''#'' @ '' hosts'')" "line_text None ''  ''"
    unfolding line_text.simps by blast+
  with l have "list_all2 line_text acl_example
      ['' # hosts'', ''  '', '' host_get.*   '' @ '':'' @ py_join '';'' ?es]"
    by (simp add: acl_example_def del: line_text.simps)
  then show ?thesis unfolding acl_file_text_def
    by (intro exI[of _ "['' # hosts'', ''  '', '' host_get.*   '' @ '':'' @ py_join '';'' ?es]"])
      (simp add: acl_example_text_def)
qed

theorem read_acl_file_roundtrip_witness:
  "read_acl_file \<lparr>admingroup = ''opsiadmin'', fileadmingroup = ''pcpatch''\<rparr> (\<lambda>_. True) acl_example_text =
    Inr (concat (map (line_meaning \<lparr>admingroup = ''opsiadmin'', fileadmingroup = ''pcpatch''\<rparr>) acl_example))"
proof (rule read_acl_file_roundtrip)
  show "acl_file_text acl_example acl_example_text" by (rule acl_example_written)
  show "acl_text_ok (\<lambda>_. True) acl_example" by code_simp
qed

text \<open>
  The examples in the comments of \<open>acl.conf\<close> that separate two entries by a comma are not in
  that syntax: the parser refuses them.
\<close>

theorem documented_comma_refused:
  "read_acl_file g (\<lambda>_. True) ''host_deleteObjects : sys_user(admin,opsiadmin),sys_group(opsiadmins)'' =
     Inl (ValueError ''Bad formatted acl type params'')"
  "read_acl_file g (\<lambda>_. True) ''product_.* : opsi_client(client1.uib.local),opsi_depotserver'' =
     Inl (ValueError ''Bad formatted acl entry'')"
  by code_simp+

text \<open>
  C29. Whatever text \<open>read_acl_file\<close> accepts, every entry it returns has a non-empty
  compilable method pattern, entries of the types \<open>all\<close> and \<open>self\<close> carry no id, and the
  attribute names are stripped and free of the syntax characters of the file.
\<close>

theorem read_acl_file_wellformed:
  assumes "read_acl_file g re_compiles text = Inr acl" "ace \<in> set acl"
  shows "ace_ok re_compiles ace"
  using acl_lines_ok[of g re_compiles _ acl] assms by (auto simp: read_acl_file_def list_all_iff)

theorem read_acl_file_wellformed_witness:
  "ace_ok (\<lambda>_. True) \<lparr>method_re = ''a'', acetype = ACE_self, ace_id = None,
      allowed_attributes = {}, denied_attributes = {''k''}\<rparr>"
proof (rule read_acl_file_wellformed)
  show "read_acl_file \<lparr>admingroup = ''g'', fileadmingroup = ''f''\<rparr> (\<lambda>_. True) ''a: self(attributes(!k))'' =
    Inr [\<lparr>method_re = ''a'', acetype = ACE_self, ace_id = None,
      allowed_attributes = {}, denied_attributes = {''k''}\<rparr>]"
    by code_simp
qed simp

end
