(* ===== verification/Access.thy ===== *)
theory Access
  imports Acl Session
begin

text \<open>
  Which access control entries apply to a call (\<open>opsiconfd/backend/rpc/main.py\<close>): loading the
  list into the backend, \<open>_get_ace\<close>, \<open>_check_role\<close> and \<open>_check_module\<close>. The entries are
  objects that the lists of several methods share, and \<open>_get_ace\<close> writes the id of the caller
  into the shared \<open>self\<close> entries, so they live in a store (\<open>be_objs\<close>) and the lists hold
  addresses. \<open>re_match\<close> stands for \<open>Pattern.match\<close> of Python's \<open>re\<close>.
\<close>

section \<open>The backend\<close>

record backend =
  be_objs :: "rpcace list"
  be_acl :: "(string \<times> nat list) list"
  be_interface :: "string list"
  be_modules :: "string list"

datatype user_type = UT_user | UT_client | UT_depot

definition session_user_type :: "opsisession \<Rightarrow> user_type" where
  "session_user_type s =
     (case session_host s of
        None \<Rightarrow> UT_user
      | Some h \<Rightarrow> if host_type h \<in> {OpsiConfigserver, OpsiDepotserver} then UT_depot else UT_client)"

definition no_id :: "rpcace \<Rightarrow> bool" where
  "no_id a = (case ace_id a of None \<Rightarrow> True | Some i \<Rightarrow> i = [])"

definition backend_read_acl_file ::
  "opsi_groups \<Rightarrow> (string \<Rightarrow> bool) \<Rightarrow> (string \<Rightarrow> string \<Rightarrow> bool) \<Rightarrow> string \<Rightarrow> (backend, unit) prog" where
  "backend_read_acl_file G re_compiles re_match txt = (\<lambda>b.
     case read_acl_file G re_compiles txt of
       Inl e \<Rightarrow> (Inl e, b)
     | Inr acl \<Rightarrow>
         let base = length (be_objs b);
             entries = (\<lambda>m. map ((+) base) (filter (\<lambda>i. re_match (method_re (acl ! i)) m) [0..<length acl]))
         in (Inr (), b\<lparr>be_objs := be_objs b @ acl,
                       be_acl := fold (\<lambda>m d. dict_set m (entries m) d) (be_interface b) (be_acl b)\<rparr>))"

text \<open>The two halves of the \<open>self\<close> branch: the id is written into the dictionary of the shared
  entry, then a new entry is made of that dictionary.\<close>

definition self_ace_bind :: "opsisession \<Rightarrow> nat \<Rightarrow> rpcace list \<Rightarrow> rpcace list" where
  "self_ace_bind s i objs = objs[i := (objs ! i)\<lparr>ace_id := Some (username s)\<rparr>]"

definition self_ace_copy :: "nat \<Rightarrow> rpcace list \<Rightarrow> rpcace" where
  "self_ace_copy i objs = objs ! i"

definition get_ace_step :: "opsisession \<Rightarrow> user_type \<Rightarrow> nat \<Rightarrow> rpcace list \<times> rpcace list \<Rightarrow> rpcace list \<times> rpcace list" where
  "get_ace_step s ut i = (\<lambda>(objs, aces).
     let ace = objs ! i in
     if acetype ace = ACE_all then (objs, aces @ [ace])
     else if ut = UT_user then
       (if acetype ace = ACE_sys_user then
          (if no_id ace \<or> ace_id ace = Some (username s) then (objs, aces @ [ace]) else (objs, aces))
        else if acetype ace = ACE_sys_group then
          (if no_id ace \<or> the (ace_id ace) \<in> user_groups s then (objs, aces @ [ace]) else (objs, aces))
        else (objs, aces))
     else if acetype ace = ACE_self \<and> ut \<in> {UT_client, UT_depot} then
       (let objs1 = self_ace_bind s i objs in (objs1, aces @ [self_ace_copy i objs1]))
     else if ut = UT_client \<and> acetype ace = ACE_opsi_client then
       (if no_id ace \<or> ace_id ace = Some (username s) then (objs, aces @ [ace]) else (objs, aces))
     else if ut = UT_depot \<and> acetype ace = ACE_opsi_depotserver then
       (if no_id ace \<or> ace_id ace = Some (username s) then (objs, aces @ [ace]) else (objs, aces))
     else (objs, aces))"

definition get_ace_loop :: "opsisession \<Rightarrow> user_type \<Rightarrow> nat list \<Rightarrow> rpcace list \<times> rpcace list \<Rightarrow> rpcace list \<times> rpcace list" where
  "get_ace_loop s ut addrs st = fold (get_ace_step s ut) addrs st"

text \<open>The same loop when calls of other threads run at the same time. A schedule gives for every
  address what the others write into \<open>self\<close> entries before the entry is read (\<open>ws\<close>) and between
  the write and the copy of the \<open>self\<close> branch (\<open>ws1\<close>).\<close>

definition other_write :: "opsisession \<times> nat \<Rightarrow> rpcace list \<Rightarrow> rpcace list" where
  "other_write w objs =
     (if snd w < length objs \<and> acetype (objs ! snd w) = ACE_self then self_ace_bind (fst w) (snd w) objs else objs)"

fun get_ace_overlapped ::
  "opsisession \<Rightarrow> user_type \<Rightarrow> (nat \<times> (opsisession \<times> nat) list \<times> (opsisession \<times> nat) list) list \<Rightarrow>
   rpcace list \<times> rpcace list \<Rightarrow> rpcace list \<times> rpcace list" where
  "get_ace_overlapped s ut [] st = st"
| "get_ace_overlapped s ut ((i, ws, ws1) # sched) (objs, aces) =
     (let objs1 = fold other_write ws objs in
      if acetype (objs1 ! i) = ACE_self \<and> ut \<noteq> UT_user then
        (let objs2 = fold other_write ws1 (self_ace_bind s i objs1)
         in get_ace_overlapped s ut sched (objs2, aces @ [self_ace_copy i objs2]))
      else get_ace_overlapped s ut sched (get_ace_step s ut i (objs1, aces)))"

definition get_ace :: "opsisession option \<Rightarrow> string \<Rightarrow> (backend, rpcace list) prog" where
  "get_ace session method = (\<lambda>b.
     if be_acl b = [] then (Inr [], b)
     else case session of
       None \<Rightarrow> (Inl (BackendPermissionDeniedError ''Invalid session''), b)
     | Some s \<Rightarrow>
         let addrs = (case map_of (be_acl b) method of None \<Rightarrow> [] | Some l \<Rightarrow> l);
             (objs, aces) = get_ace_loop s (session_user_type s) addrs (be_objs b, []);
             b1 = b\<lparr>be_objs := objs\<rparr>
         in if aces \<noteq> [] then (Inr aces, b1)
            else (Inl (BackendPermissionDeniedError (''No permission for method '' @ method)), b1))"

definition unprotected_get_ace :: "string \<Rightarrow> rpcace list" where
  "unprotected_get_ace method = [RPCACE_ALLOW_ALL]"

definition check_role :: "opsisession option \<Rightarrow> string \<Rightarrow> unit result" where
  "check_role session required_role =
     (case session of
        None \<Rightarrow> Inl (BackendPermissionDeniedError ''Invalid session'')
      | Some s \<Rightarrow>
          if required_role = ''admin'' then
            (if is_admin s then Inr () else Inl (BackendPermissionDeniedError ''Insufficient permissions''))
          else Inl (ValueError (''Invalid role '' @ required_role)))"

definition check_module :: "bool \<Rightarrow> backend \<Rightarrow> string \<Rightarrow> unit result" where
  "check_module maintenance b module =
     (if maintenance then Inr ()
      else if module \<notin> set (be_modules b) then Inl (OtherError ''BackendModuleDisabledError'')
      else Inr ())"

section \<open>What the loop computes\<close>

text \<open>The declarative reading of the entries: whom an entry is for, and what the caller gets.\<close>

definition ace_applies :: "opsisession \<Rightarrow> rpcace \<Rightarrow> bool" where
  "ace_applies s a =
     (let mine = no_id a \<or> ace_id a = Some (username s);
          ut = session_user_type s in
      case acetype a of
        ACE_all \<Rightarrow> True
      | ACE_self \<Rightarrow> ut \<noteq> UT_user
      | ACE_sys_user \<Rightarrow> ut = UT_user \<and> mine
      | ACE_sys_group \<Rightarrow> ut = UT_user \<and> (no_id a \<or> the (ace_id a) \<in> user_groups s)
      | ACE_opsi_client \<Rightarrow> ut = UT_client \<and> mine
      | ACE_opsi_depotserver \<Rightarrow> ut = UT_depot \<and> mine)"

definition ace_for :: "opsisession \<Rightarrow> rpcace \<Rightarrow> rpcace" where
  "ace_for s a = (if acetype a = ACE_self then a\<lparr>ace_id := Some (username s)\<rparr> else a)"

text \<open>Two stores agree up to the ids of the \<open>self\<close> entries.\<close>

definition same_entry :: "rpcace \<Rightarrow> rpcace \<Rightarrow> bool" where
  "same_entry a a' = (a' = a \<or> acetype a = ACE_self \<and> (\<exists>x. a' = a\<lparr>ace_id := x\<rparr>))"

abbreviation same_store :: "rpcace list \<Rightarrow> rpcace list \<Rightarrow> bool" where
  "same_store \<equiv> list_all2 same_entry"

lemma same_entry_refl [simp, intro]: "same_entry a a"
  by (simp add: same_entry_def)

lemma same_entry_trans: "same_entry a b \<Longrightarrow> same_entry b c \<Longrightarrow> same_entry a c"
  by (auto simp: same_entry_def)

lemma same_store_refl [simp]: "same_store objs objs"
  by (simp add: list_all2_refl)

lemma same_store_trans: "same_store a b \<Longrightarrow> same_store b c \<Longrightarrow> same_store a c"
  by (rule list_all2_trans[of same_entry same_entry same_entry]) (auto intro: same_entry_trans)

lemma same_entry_reads:
  assumes "same_entry a a'"
  shows "acetype a' = acetype a" "ace_applies s a' = ace_applies s a" "ace_for s a' = ace_for s a"
  using assms by (auto simp: same_entry_def ace_applies_def ace_for_def)

lemma same_store_bind:
  assumes "i < length objs" "acetype (objs ! i) = ACE_self"
  shows "same_store objs (self_ace_bind s i objs)"
  using assms by (auto simp: self_ace_bind_def list_all2_conv_all_nth nth_list_update same_entry_def)

lemma same_store_select:
  assumes "same_store objs objs1" "\<forall>i \<in> set addrs. i < length objs"
  shows "map (\<lambda>i. ace_for s (objs1 ! i)) (filter (\<lambda>i. ace_applies s (objs1 ! i)) addrs) =
    map (\<lambda>i. ace_for s (objs ! i)) (filter (\<lambda>i. ace_applies s (objs ! i)) addrs)"
proof -
  have nth: "same_entry (objs ! i) (objs1 ! i)" if "i \<in> set addrs" for i
    using assms that by (simp add: list_all2_conv_all_nth)
  have "filter (\<lambda>i. ace_applies s (objs1 ! i)) addrs = filter (\<lambda>i. ace_applies s (objs ! i)) addrs"
    using same_entry_reads(2)[OF nth] by (intro filter_cong) auto
  moreover have "map (\<lambda>i. ace_for s (objs1 ! i)) (filter Q addrs) = map (\<lambda>i. ace_for s (objs ! i)) (filter Q addrs)" for Q
    using same_entry_reads(3)[OF nth] by (intro map_cong) auto
  ultimately show ?thesis by simp
qed

lemma get_ace_step_spec:
  assumes "ut = session_user_type s" "i < length objs"
  shows "get_ace_step s ut i (objs, aces) =
    (if ace_applies s (objs ! i) then
      (if acetype (objs ! i) = ACE_self then self_ace_bind s i objs else objs, aces @ [ace_for s (objs ! i)])
      else (objs, aces))"
  using assms
  by (cases "acetype (objs ! i)"; cases "session_user_type s")
    (simp_all add: get_ace_step_def ace_applies_def ace_for_def self_ace_copy_def self_ace_bind_def Let_def)

lemma get_ace_loop_spec:
  assumes "ut = session_user_type s" "\<forall>i \<in> set addrs. i < length objs"
    and "get_ace_loop s ut addrs (objs, aces) = (objs1, aces1)"
  shows "aces1 = aces @ map (\<lambda>i. ace_for s (objs ! i)) (filter (\<lambda>i. ace_applies s (objs ! i)) addrs) \<and>
    same_store objs objs1"
  using assms(2,3) unfolding get_ace_loop_def
proof (induction addrs arbitrary: objs aces)
  case (Cons i addrs)
  define st where "st = get_ace_step s ut i (objs, aces)"
  have i: "i < length objs" using Cons.prems(1) by simp
  note step = get_ace_step_spec[OF assms(1) i, of aces]
  have same: "same_store objs (fst st)"
    using i by (simp add: st_def step same_store_bind)
  then have len: "length (fst st) = length objs" by (simp add: list_all2_lengthD)
  have IH: "aces1 = snd st @ map (\<lambda>j. ace_for s (fst st ! j)) (filter (\<lambda>j. ace_applies s (fst st ! j)) addrs) \<and>
      same_store (fst st) objs1"
    using Cons.IH[of "fst st" "snd st"] len Cons.prems by (simp add: st_def)
  moreover have "map (\<lambda>j. ace_for s (fst st ! j)) (filter (\<lambda>j. ace_applies s (fst st ! j)) addrs) =
      map (\<lambda>j. ace_for s (objs ! j)) (filter (\<lambda>j. ace_applies s (objs ! j)) addrs)"
    using same_store_select[OF same] Cons.prems(1) by simp
  moreover have "snd st = aces @ (if ace_applies s (objs ! i) then [ace_for s (objs ! i)] else [])"
    by (simp add: st_def step)
  ultimately show ?case
    using IH same_store_trans[OF same] by simp
qed simp

text \<open>Writes of other threads keep the store up to the ids of the \<open>self\<close> entries, so an overlapped
  loop selects the same entries; only the id in a copied \<open>self\<close> entry can be another one.\<close>

definition unbound :: "rpcace \<Rightarrow> rpcace" where
  "unbound a = (if acetype a = ACE_self then a\<lparr>ace_id := None\<rparr> else a)"

lemma same_entry_unbound: "same_entry a a' \<Longrightarrow> unbound a' = unbound a"
  by (auto simp: same_entry_def unbound_def)

lemma unbound_ace_for [simp]: "unbound (ace_for s a) = unbound a"
  by (simp add: unbound_def ace_for_def)

lemma other_writes_same: "same_store objs (fold other_write ws objs)"
proof (induction ws arbitrary: objs)
  case (Cons w ws)
  have "same_store objs (other_write w objs)"
    by (simp add: other_write_def same_store_bind)
  then show ?case using Cons.IH[of "other_write w objs"] same_store_trans by auto
qed simp

lemma same_store_nth: "same_store objs objs1 \<Longrightarrow> i < length objs \<Longrightarrow> same_entry (objs ! i) (objs1 ! i)"
  by (simp add: list_all2_conv_all_nth)

lemma get_ace_overlapped_spec:
  assumes ut: "ut = session_user_type s" and "same_store acl objs" "\<forall>i \<in> set (map fst sched). i < length acl"
  shows "map unbound (snd (get_ace_overlapped s ut sched (objs, aces))) =
    map unbound aces @ map (\<lambda>i. unbound (acl ! i)) (filter (\<lambda>i. ace_applies s (acl ! i)) (map fst sched))"
  using assms(2,3)
proof (induction sched arbitrary: objs aces)
  case (Cons e sched)
  obtain i ws ws1 where e: "e = (i, ws, ws1)" by (cases e) auto
  define objs1 where "objs1 = fold other_write ws objs"
  have same1: "same_store acl objs1"
    using Cons.prems(1) other_writes_same same_store_trans unfolding objs1_def by blast
  then have len: "length objs1 = length acl" by (simp add: list_all2_lengthD)
  have i: "i < length acl" using Cons.prems(2) e by simp
  note reads = same_entry_reads[OF same_store_nth[OF same1 i]]
  have rest: "\<forall>i \<in> set (map fst sched). i < length acl" using Cons.prems(2) by simp
  show ?case
  proof (cases "acetype (objs1 ! i) = ACE_self \<and> ut \<noteq> UT_user")
    case True
    define objs2 where "objs2 = fold other_write ws1 (self_ace_bind s i objs1)"
    have "same_store objs1 objs2"
      using True i len other_writes_same same_store_trans same_store_bind unfolding objs2_def by metis
    then have same2: "same_store acl objs2" using same1 same_store_trans by blast
    have "ace_applies s (acl ! i)"
      using True ut reads(1) by (simp add: ace_applies_def Let_def)
    moreover have "unbound (self_ace_copy i objs2) = unbound (acl ! i)"
      using same_entry_unbound[OF same_store_nth[OF same2 i]] by (simp add: self_ace_copy_def)
    ultimately show ?thesis
      using Cons.IH[OF same2 rest] True by (simp add: e objs1_def[symmetric] objs2_def[symmetric] Let_def)
  next
    case False
    have notself: "acetype (objs1 ! i) \<noteq> ACE_self" if "ace_applies s (objs1 ! i)"
      using that False ut by (auto simp: ace_applies_def Let_def)
    have step: "get_ace_step s ut i (objs1, aces) =
        (objs1, aces @ (if ace_applies s (acl ! i) then [ace_for s (acl ! i)] else []))"
      using get_ace_step_spec[OF ut, of i objs1 aces] i len reads(2,3) notself by auto
    show ?thesis
      using Cons.IH[OF same1 rest] False by (auto simp: e objs1_def[symmetric] Let_def step)
  qed
qed simp

section \<open>Calls leave the list as it was loaded\<close>

definition be_wf :: "backend \<Rightarrow> bool" where
  "be_wf b = (\<forall>l \<in> snd ` set (be_acl b). \<forall>i \<in> set l. i < length (be_objs b))"

definition run_calls :: "(opsisession option \<times> string) list \<Rightarrow> backend \<Rightarrow> backend" where
  "run_calls calls b = fold (\<lambda>(session, method) b. snd (get_ace session method b)) calls b"

lemma be_wf_lookup: "be_wf b \<Longrightarrow> map_of (be_acl b) m = Some l \<Longrightarrow> i \<in> set l \<Longrightarrow> i < length (be_objs b)"
  unfolding be_wf_def by (metis map_of_SomeD image_eqI snd_conv)

lemma get_ace_spec:
  fixes m :: string
  assumes "be_wf b" "be_acl b \<noteq> []"
  defines "addrs \<equiv> (case map_of (be_acl b) m of None \<Rightarrow> [] | Some l \<Rightarrow> l)"
  defines "aces \<equiv> (\<lambda>s. map (\<lambda>i. ace_for s (be_objs b ! i)) (filter (\<lambda>i. ace_applies s (be_objs b ! i)) addrs))"
  shows "fst (get_ace (Some s) m b) =
      (if aces s = [] then Inl (BackendPermissionDeniedError (''No permission for method '' @ m)) else Inr (aces s)) \<and>
    same_store (be_objs b) (be_objs (snd (get_ace (Some s) m b)))"
proof -
  obtain objs1 as1 where loop: "get_ace_loop s (session_user_type s) addrs (be_objs b, []) = (objs1, as1)"
    by fastforce
  have "\<forall>i \<in> set addrs. i < length (be_objs b)"
    using be_wf_lookup[OF assms(1)] by (cases "map_of (be_acl b) m") (auto simp: addrs_def)
  from get_ace_loop_spec[OF refl this loop] have "as1 = aces s \<and> same_store (be_objs b) objs1"
    by (simp add: aces_def)
  then show ?thesis
    using assms(2) loop by (simp add: get_ace_def Let_def addrs_def)
qed

lemma get_ace_keeps:
  assumes "be_wf b"
  shows "same_store (be_objs b) (be_objs (snd (get_ace session m b))) \<and>
    be_acl (snd (get_ace session m b)) = be_acl b \<and> be_wf (snd (get_ace session m b))"
proof -
  have acl: "be_acl (snd (get_ace session m b)) = be_acl b"
    by (auto simp: get_ace_def Let_def split: option.split prod.split)
  have store: "same_store (be_objs b) (be_objs (snd (get_ace session m b)))"
  proof (cases "be_acl b = [] \<or> session = None")
    case True
    then show ?thesis by (auto simp: get_ace_def)
  next
    case False
    then show ?thesis using get_ace_spec[OF assms] by auto
  qed
  then have "length (be_objs (snd (get_ace session m b))) = length (be_objs b)"
    by (simp add: list_all2_lengthD)
  with acl store assms show ?thesis by (simp add: be_wf_def)
qed

lemma run_calls_keeps:
  "be_wf b \<Longrightarrow> same_store (be_objs b) (be_objs (run_calls calls b)) \<and>
    be_acl (run_calls calls b) = be_acl b \<and> be_wf (run_calls calls b)"
proof (induction calls arbitrary: b)
  case (Cons c calls)
  obtain session m where c: "c = (session, m)" by fastforce
  note k = get_ace_keeps[OF Cons.prems, of session m]
  have "run_calls (c # calls) b = run_calls calls (snd (get_ace session m b))"
    by (simp add: run_calls_def c)
  then show ?case using Cons.IH[of "snd (get_ace session m b)"] k same_store_trans by metis
qed (simp add: run_calls_def)

lemma fold_dict_set:
  "map_of (fold (\<lambda>m d. dict_set m (f m) d) ms d) k = (if k \<in> set ms then Some (f k) else map_of d k)"
  by (induction ms arbitrary: d) (auto simp: update_conv')

lemma fold_dict_set_range:
  "v \<in> snd ` set (fold (\<lambda>m d. dict_set m (f m) d) ms d) \<Longrightarrow> v \<in> f ` set ms \<or> v \<in> snd ` set d"
proof (induction ms arbitrary: d)
  case (Cons m ms)
  have "snd ` set (AList.update m (f m) d) \<subseteq> insert (f m) (snd ` set d)"
    by (induction d) auto
  then show ?case using Cons.IH[of "AList.update m (f m) d"] Cons.prems by auto
qed simp

lemma map_plus_0 [simp]: "map ((+) (0::nat)) xs = xs"
  by (induction xs) auto

lemma select_by_index:
  "map (\<lambda>i. f (xs ! i)) (filter (\<lambda>i. P (xs ! i)) [0..<length xs]) = map f (filter P xs)"
proof -
  have "filter P xs = filter P (map ((!) xs) [0..<length xs])" by (simp add: map_nth)
  also have "\<dots> = map ((!) xs) (filter (\<lambda>i. P (xs ! i)) [0..<length xs])"
    by (simp add: filter_map comp_def)
  finally show ?thesis by simp
qed

lemma fresh_backend_read:
  assumes "read_acl_file G re_compiles txt = Inr acl"
    and "be_objs b = []" "be_acl b = []"
    and "backend_read_acl_file G re_compiles re_match txt b = (res, b1)"
  shows "res = Inr () \<and> be_objs b1 = acl \<and> be_wf b1 \<and> (be_interface b \<noteq> [] \<longrightarrow> be_acl b1 \<noteq> []) \<and>
    (\<forall>m. map_of (be_acl b1) m =
      (if m \<in> set (be_interface b) then Some (filter (\<lambda>i. re_match (method_re (acl ! i)) m) [0..<length acl]) else None))"
proof -
  let ?f = "\<lambda>m. filter (\<lambda>i. re_match (method_re (acl ! i)) m) [0..<length acl]"
  have b1: "res = Inr ()" "be_objs b1 = acl" "be_acl b1 = fold (\<lambda>m d. dict_set m (?f m) d) (be_interface b) []"
    using assms by (auto simp: backend_read_acl_file_def Let_def)
  moreover have "be_wf b1"
    unfolding be_wf_def b1 using fold_dict_set_range[of _ ?f "be_interface b" "[]"] by force
  moreover have "map_of (be_acl b1) m = (if m \<in> set (be_interface b) then Some (?f m) else None)" for m
    unfolding b1 fold_dict_set by simp
  moreover from this have "be_acl b1 \<noteq> []" if "be_interface b \<noteq> []"
    using that by (metis list.set_intros(1) map_of.simps(1) neq_Nil_conv option.discI)
  ultimately show ?thesis by simp
qed

section \<open>Properties\<close>


text \<open>A list with a \<open>self\<close> entry, read by a client after a depot server used the same method.\<close>

definition client_session :: opsisession where
  "client_session = example_session\<lparr>username := ''c1.opsi.org'', session_host :=
     Some \<lparr>host_id = ''c1.opsi.org'', host_type = OpsiClient, opsiHostKey = None, oneTimePassword = None,
           ipAddress = None, lastSeen = None\<rparr>\<rparr>"

definition depot_session :: opsisession where
  "depot_session = example_session\<lparr>username := ''d1.opsi.org'', session_host :=
     Some \<lparr>host_id = ''d1.opsi.org'', host_type = OpsiDepotserver, opsiHostKey = None, oneTimePassword = None,
           ipAddress = None, lastSeen = None\<rparr>\<rparr>"

definition example_groups :: opsi_groups where
  "example_groups = \<lparr>admingroup = ''opsiadmin'', fileadmingroup = ''pcpatch''\<rparr>"

definition example_acl :: rpcace where
  "example_acl = \<lparr>method_re = ''host_get'', acetype = ACE_self, ace_id = None, allowed_attributes = {}, denied_attributes = {}\<rparr>"

definition example_backend :: backend where
  "example_backend = \<lparr>be_objs = [], be_acl = [], be_interface = [''host_getObjects''], be_modules = []\<rparr>"

definition example_loaded :: backend where
  "example_loaded = run_calls [(Some depot_session, ''host_getObjects'')]
     (snd (backend_read_acl_file example_groups (\<lambda>_. True) (\<lambda>re m. py_startswith m re)
        ''host_get: sys_group(a); self'' example_backend))"


text \<open>
  A group entry whose parameter is only a blank is accepted by the reader, although an
  entry without parameter is refused, and the entry it yields applies to every session that is
  not a host's, whatever groups the user is in.
\<close>

theorem blank_group_applies_to_every_user:
  "isl (read_acl_file G (\<lambda>_. True) ''.*: sys_group()'') \<and>
   (\<exists>a. read_acl_file G (\<lambda>_. True) ''.*: sys_group( )'' = Inr [a] \<and> ace_applies s a = (session_host s = None))"
proof -
  have "isl (read_acl_file G (\<lambda>_. True) ''.*: sys_group()'')" by code_simp
  moreover have "read_acl_file G (\<lambda>_. True) ''.*: sys_group( )'' =
      Inr [\<lparr>method_re = ''.*'', acetype = ACE_sys_group, ace_id = Some [], allowed_attributes = {}, denied_attributes = {}\<rparr>]"
    by code_simp
  moreover have "session_user_type s = UT_user \<longleftrightarrow> session_host s = None"
    by (auto simp: session_user_type_def split: option.split)
  ultimately show ?thesis by (auto simp: ace_applies_def no_id_def)
qed

end
