(* ===== verification/Authentication.thy ===== *)
theory Authentication
  imports Session_Manager Access
begin

text \<open>
  Authentication of clients, users and the monitoring user (\<open>opsiconfd/session.py\<close>,
  \<open>opsiconfd/auth/__init__.py\<close>). Parameters: the authentication module (PAM or LDAP), the
  comparison the database makes in a filter, one-time password verification (\<open>pyotp\<close>), the
  membership of addresses in networks, the normalisation of hardware addresses and system ids,
  the order of configed versions, and the time series of redis.
\<close>

section \<open>Basic authentication\<close>

text \<open>\<open>base64.decodebytes\<close>: characters outside the alphabet are skipped, complete padding ends the data.\<close>

definition b64_value :: "char \<Rightarrow> nat option" where
  "b64_value c =
     (let n = of_char c in
      if 65 \<le> n \<and> n \<le> 90 then Some (n - 65)
      else if 97 \<le> n \<and> n \<le> 122 then Some (n - 71)
      else if 48 \<le> n \<and> n \<le> 57 then Some (n + 4)
      else if c = CHR ''+'' then Some 62
      else if c = CHR ''/'' then Some 63
      else None)"

definition b64_byte :: "nat \<Rightarrow> nat \<Rightarrow> nat \<Rightarrow> string" where
  "b64_byte quad left v =
     (if quad = 1 then [char_of ((left * 4 + v div 16) mod 256)]
      else if quad = 2 then [char_of ((left * 16 + v div 4) mod 256)]
      else if quad = 3 then [char_of ((left * 64 + v) mod 256)]
      else [])"

definition b64_left :: "nat \<Rightarrow> nat \<Rightarrow> nat" where
  "b64_left quad v = (if quad = 0 then v else if quad = 1 then v mod 16 else if quad = 2 then v mod 4 else 0)"

fun b64_decode :: "nat \<Rightarrow> nat \<Rightarrow> nat \<Rightarrow> string \<Rightarrow> string result" where
  "b64_decode quad pads left [] = (if quad = 0 then Inr [] else Inl (ValueError ''binascii.Error''))"
| "b64_decode quad pads left (c # cs) =
     (if c = CHR ''='' then
        (if 2 \<le> quad \<and> 4 \<le> quad + pads + 1 then Inr []
         else b64_decode quad (if 2 \<le> quad then pads + 1 else pads) left cs)
      else (case b64_value c of
          None \<Rightarrow> b64_decode quad pads left cs
        | Some v \<Rightarrow>
            bind_res (b64_decode ((quad + 1) mod 4) 0 (b64_left quad v) cs) (\<lambda>rest. Inr (b64_byte quad left v @ rest))))"

definition split_basic_auth :: "string \<Rightarrow> (string \<times> string) result" where
  "split_basic_auth auth =
     of_option (if count_list auth CHR '':'' = 6 then py_rsplit1 CHR '':'' auth else py_split1 CHR '':'' auth)
       (ValueError ''not enough values to unpack'')"

definition get_basic_auth :: "headers \<Rightarrow> (string \<times> string) result" where
  "get_basic_auth hs =
     (case hdr_get hs ''authorization'' of
        None \<Rightarrow> Inl (HTTPException 401 ''Authorization header missing'')
      | Some auth_header \<Rightarrow>
          if auth_header = [] then Inl (HTTPException 401 ''Authorization header missing'')
          else if \<not> py_startswith auth_header ''Basic '' then Inl (HTTPException 401 ''Authorization method unsupported'')
          else if list_ex (\<lambda>c. 128 \<le> (of_char c :: nat)) (drop 6 auth_header) then Inl (ValueError ''ascii'')
          else bind_res (b64_decode 0 0 0 (drop 6 auth_header)) (\<lambda>bytes. bind_res (utf8_decode bytes) split_basic_auth))"

section \<open>Names\<close>

definition is_hex :: "char \<Rightarrow> bool" where
  "is_hex c = (is_digit c \<or> c \<in> set ''abcdefABCDEF'')"

definition HARDWARE_ADDRESS_RE :: "string \<Rightarrow> bool" where
  "HARDWARE_ADDRESS_RE s =
     (let parts = py_split CHR '':'' (re_end s)
      in length parts = 6 \<and> list_all (\<lambda>p. length p = 2 \<and> list_all is_hex p) parts)"

definition HOST_ID_RE :: "string \<Rightarrow> bool" where
  "HOST_ID_RE s =
     (case py_split1 CHR ''.'' s of
        None \<Rightarrow> False
      | Some (a, r) \<Rightarrow> a \<noteq> [] \<and>
          (case py_split1 CHR ''.'' r of
             None \<Rightarrow> False
           | Some (b, c) \<Rightarrow> b \<noteq> [] \<and> re_end c \<noteq> [] \<and> list_all (\<lambda>x. \<not> py_space x) (re_end c)))"

definition is_host_name :: "string \<Rightarrow> bool" where
  "is_host_name name =
     (name = [] \<or> py_startswith name ''{hardware_address}'' \<or> py_startswith name ''{system_uuid}'' \<or>
      HOST_ID_RE name \<or> HARDWARE_ADDRESS_RE name \<or> 2 \<le> count_list name CHR ''.'')"

text \<open>A six-digit one-time password appended to the password.\<close>

definition attached_totp :: "string \<Rightarrow> (string \<times> string) option" where
  "attached_totp pw =
     (let p = re_end pw; n = length p - 6; a = take n p; d = drop n p
      in if a \<noteq> [] \<and> length d = 6 \<and> list_all is_digit d \<and> CHR 0x0A \<notin> set a then Some (a, d) else None)"

section \<open>Configuration and state\<close>

record auth_config =
  allow_host_key_only_auth :: bool
  client_cert_auth :: "string list"
  monitoring_user :: string
  multi_factor_auth :: string
  update_ip :: bool
  admin_networks :: "string list"
  networks :: "string list"
  auth_failures_interval :: int
  max_auth_failures :: int
  client_block_time :: int
  min_configed_version :: "string option"
  config_groups :: opsi_groups
  readonlygroup :: string

record auth_module =
  am_method :: authentication_method
  am_authenticate :: "string \<Rightarrow> string \<Rightarrow> unit result"
  am_groupnames :: "string \<Rightarrow> string set result"

record user =
  user_id :: string
  mfaState :: string
  otpSecret :: "string option"
  lastLogin :: "string option"

record 'r auth_env =
  ae_session :: "'r session_env"
  ae_cfg :: auth_config
  ae_module :: auth_module
  ae_backend :: backend
  ae_maintenance :: bool
  ae_host_matches :: "string \<Rightarrow> string \<Rightarrow> host \<Rightarrow> bool"
  ae_user_matches :: "string \<Rightarrow> user \<Rightarrow> bool"
  ae_new_user :: "string \<Rightarrow> user"
  ae_credentials :: "string \<Rightarrow> string result"
  ae_force_hardware_address :: "string \<Rightarrow> string result"
  ae_force_uuid :: "string \<Rightarrow> string result"
  ae_totp_verify :: "string \<Rightarrow> string \<Rightarrow> bool"
  ae_in_network :: "string \<Rightarrow> string \<Rightarrow> bool"
  ae_older :: "string \<Rightarrow> string \<Rightarrow> bool option"
  ae_ts_range :: "int list \<Rightarrow> int \<Rightarrow> int \<Rightarrow> int \<Rightarrow> (int \<times> int) list"
  ae_timestamp :: string
  ae_uuid :: string

text \<open>\<open>au_failed\<close> and \<open>au_blocked\<close> are the redis keys with the failed authentications (times in
  milliseconds) and the blocks (with the time they end); \<open>au_roles\<close> are the calls of
  \<open>create_user_roles\<close>.\<close>

record 'r auth_state =
  au_session :: opsisession
  au_red :: 'r
  au_depots :: "(string \<times> int) list"
  au_hosts :: "host list"
  au_users :: "user list"
  au_failed :: "(string \<times> int list) list"
  au_blocked :: "(string \<times> int) list"
  au_new_host_id :: "string option"
  au_roles :: "(string \<times> string set) list"

type_synonym ('r, 'a) auth = "('r auth_state, 'a) prog"

definition on_au_session :: "(opsisession \<Rightarrow> opsisession) \<Rightarrow> ('r, unit) auth" where
  "on_au_session f = modify_prog (\<lambda>a. a\<lparr>au_session := f (au_session a)\<rparr>)"

definition auth_fails :: "string \<Rightarrow> ('r, 'a) auth" where
  "auth_fails msg = raise_prog (BackendAuthenticationError msg)"

definition guard_auth :: "bool \<Rightarrow> string \<Rightarrow> ('r, unit) auth" where
  "guard_auth b msg = (if b then return_prog () else auth_fails msg)"

definition opt_str :: "string option \<Rightarrow> string" where
  "opt_str x = (case x of None \<Rightarrow> [] | Some s \<Rightarrow> s)"

definition sent_password :: "opsisession \<Rightarrow> string" where
  "sent_password s = opt_str (password s)"

text \<open>The common name of the client certificate: \<open>subject\<close> as list of names and values.\<close>

definition get_peer_cert_common_name :: "(string \<times> string) list \<Rightarrow> string option" where
  "get_peer_cert_common_name subject = map_of subject ''commonName''"

section \<open>Blocking and access checks by address\<close>

definition stats_key :: "'r auth_env \<Rightarrow> string \<Rightarrow> string \<Rightarrow> string" where
  "stats_key E kind addr =
     redis_prefix (env_cfg (ae_session E)) @ '':stats:client:'' @ kind @ '':'' @ ip_address_to_redis_key (env_norm_ip (ae_session E)) addr"

definition is_blocked :: "'r auth_env \<Rightarrow> int \<Rightarrow> string \<Rightarrow> 'r auth_state \<Rightarrow> bool" where
  "is_blocked E now addr a = (case map_of (au_blocked a) (stats_key E ''blocked'' addr) of None \<Rightarrow> False | Some until \<Rightarrow> now < until)"

definition num_failed_auth :: "'r auth_env \<Rightarrow> int \<Rightarrow> string \<Rightarrow> 'r auth_state \<Rightarrow> int" where
  "num_failed_auth E now addr a =
     (case map_of (au_failed a) (stats_key E ''failed_auth'' addr) of
        None \<Rightarrow> 0
      | Some ts \<Rightarrow>
          let n = now div 1000; i = auth_failures_interval (ae_cfg E) * 1000;
              data = ae_ts_range E ts (n - i) n i
          in if data = [] then 0 else snd (last data))"

definition check_blocked :: "'r auth_env \<Rightarrow> int \<Rightarrow> string \<Rightarrow> ('r, unit) auth" where
  "check_blocked E now addr = (\<lambda>a.
     if is_blocked E now addr a then (Inl (ConnectionRefusedError ''Client is blocked''), a)
     else if max_auth_failures (ae_cfg E) \<le> num_failed_auth E now addr a
     then (Inr (), a\<lparr>au_blocked := dict_set (stats_key E ''blocked'' addr) (now + usec * client_block_time (ae_cfg E)) (au_blocked a)\<rparr>)
     else (Inr (), a))"

definition record_failure :: "'r auth_env \<Rightarrow> int \<Rightarrow> string \<Rightarrow> 'r auth_state \<Rightarrow> 'r auth_state" where
  "record_failure E now addr a =
     (let key = stats_key E ''failed_auth'' addr;
          ts = (case map_of (au_failed a) key of None \<Rightarrow> [] | Some ts \<Rightarrow> ts)
      in a\<lparr>au_failed := dict_set key (ts @ [now div 1000]) (au_failed a)\<rparr>)"

definition check_network :: "'r auth_env \<Rightarrow> string \<Rightarrow> unit result" where
  "check_network E addr =
     (if networks (ae_cfg E) = [] \<or> list_ex (ae_in_network E addr) (networks (ae_cfg E)) then Inr ()
      else Inl (ConnectionRefusedError ''Host is not allowed to connect''))"

definition check_min_configed_version :: "'r auth_env \<Rightarrow> string \<Rightarrow> unit result" where
  "check_min_configed_version E agent =
     (case min_configed_version (ae_cfg E) of
        None \<Rightarrow> Inr ()
      | Some minimum \<Rightarrow>
          if agent = [] \<or> \<not> py_contains ''opsi config editor'' agent then Inr ()
          else (case py_words agent of
              [] \<Rightarrow> Inl IndexError
            | w # ws \<Rightarrow>
                if ae_older E (last (w # ws)) minimum = Some False then Inr ()
                else Inl (ConnectionRefusedError ''Configed is not allowed to connect'')))"

definition check_admin_networks :: "'r auth_env \<Rightarrow> int \<Rightarrow> opsisession \<Rightarrow> opsisession" where
  "check_admin_networks E now s =
     (if \<not> is_admin s \<or> admin_networks (ae_cfg E) = [] then s
      else if list_ex (ae_in_network E (client_addr s)) (admin_networks (ae_cfg E)) then add_auth_methods now [ADMIN_NETWORKS] s
      else (set_is_admin now False s)\<lparr>user_groups := user_groups s - {admingroup (config_groups (ae_cfg E))}\<rparr>)"

section \<open>Hosts\<close>

definition vpn_module_available :: "'r auth_env \<Rightarrow> bool" where
  "vpn_module_available E = (case check_module (ae_maintenance E) (ae_backend E) ''vpn'' of Inl _ \<Rightarrow> False | Inr _ \<Rightarrow> True)"

definition host_filter :: "'r auth_env \<Rightarrow> opsisession \<Rightarrow> (string \<times> string \<times> authentication_method option \<times> string) result" where
  "host_filter E s =
     (if allow_host_key_only_auth (ae_cfg E) then Inr (''opsiHostKey'', sent_password s, None, ''<host-key-only-auth>'')
      else if py_startswith (username s) ''{hardware_address}'' \<or> HARDWARE_ADDRESS_RE (username s) then
        bind_res (ae_force_hardware_address E (py_replace ''{hardware_address}'' [] (username s)))
          (\<lambda>v. Inr (''hardwareAddress'', v, Some HARDWARE_ADDRESS, username s))
      else if py_startswith (username s) ''{system_uuid}'' then
        bind_res (ae_force_uuid E (py_replace ''{system_uuid}'' [] (username s))) (\<lambda>v. Inr (''systemUUID'', v, Some SYSTEM_UUID, username s))
      else let name = py_rstrip_char CHR ''.'' (username s) in Inr (''id'', name, Some HOST_ID, name))"

definition find_host :: "'r auth_env \<Rightarrow> string \<Rightarrow> string \<Rightarrow> ('r, host) auth" where
  "find_host E attr val = (\<lambda>a.
     case filter (ae_host_matches E attr val) (au_hosts a) of
       [] \<Rightarrow> auth_fails ''Host not found'' a
     | [h] \<Rightarrow> return_prog h a
     | _ \<Rightarrow> auth_fails ''More than one matching host object found'' a)"

definition cert_required :: "auth_config \<Rightarrow> host_type \<Rightarrow> bool" where
  "cert_required C t =
     ((''depot'' \<in> set (client_cert_auth C) \<and> t \<in> {OpsiConfigserver, OpsiDepotserver}) \<or>
      (''client'' \<in> set (client_cert_auth C) \<and> t = OpsiClient))"

definition check_cert :: "string option \<Rightarrow> string \<Rightarrow> int \<Rightarrow> ('r, unit) auth" where
  "check_cert peer_cn name now =
     then_prog (guard_auth (opt_str peer_cn \<noteq> []) ''Client certificate missing'')
     (then_prog (guard_auth (opt_str peer_cn = name) ''Client certificate CN does not match'')
       (on_au_session (add_auth_methods now [TLS_CERTIFICATE])))"

definition merge_opt :: "'a option \<Rightarrow> 'a option \<Rightarrow> 'a option" where
  "merge_opt new old = (case new of None \<Rightarrow> old | Some x \<Rightarrow> Some x)"

text \<open>An update leaves the columns whose attribute is \<open>None\<close>.\<close>

definition host_updateObjectOnAuthenticate :: "host \<Rightarrow> ('r, unit) auth" where
  "host_updateObjectOnAuthenticate h = modify_prog (\<lambda>a. a\<lparr>au_hosts :=
     map (\<lambda>g. if host_id g = host_id h
           then g\<lparr>opsiHostKey := merge_opt (opsiHostKey h) (opsiHostKey g), oneTimePassword := merge_opt (oneTimePassword h) (oneTimePassword g),
                  ipAddress := merge_opt (ipAddress h) (ipAddress g), lastSeen := merge_opt (lastSeen h) (lastSeen g)\<rparr>
           else g) (au_hosts a)\<rparr>)"

definition check_host_secret :: "int \<Rightarrow> host \<Rightarrow> ('r, host) auth" where
  "check_host_secret now h = (\<lambda>a.
     let pw = sent_password (au_session a) in
     if opsiHostKey h = Some pw then
       then_prog (on_au_session (add_auth_methods now [HOST_KEY])) (return_prog h) a
     else if host_type h = OpsiClient \<and> opt_str (oneTimePassword h) \<noteq> [] \<and> oneTimePassword h = Some pw then
       (let h1 = h\<lparr>oneTimePassword := Some []\<rparr> in
        then_prog (on_au_session (add_auth_methods now [PASSWORD_ONETIME]))
          (then_prog (host_updateObjectOnAuthenticate h1) (return_prog h1)) a)
     else auth_fails ''Authentication of host failed'' a)"

definition is_server :: "host \<Rightarrow> bool" where
  "is_server h = (host_type h \<in> {OpsiConfigserver, OpsiDepotserver})"

text \<open>The changes of a client's host object after the assignment show in the session only if the session
  took this object over.\<close>

definition accept_host :: "'r auth_env \<Rightarrow> int \<Rightarrow> host \<Rightarrow> ('r, unit) auth" where
  "accept_host E now h =
     bind_prog (gets_prog au_session) (\<lambda>s0.
     then_prog (on_au_session (\<lambda>s. set_is_admin now (is_server h) (set_is_read_only now False (set_authenticated now True (set_host now (Some h) s)))))
     (\<lambda>a. let a = (if username (au_session a) = host_id h then a
                   else a\<lparr>au_session := set_username now (host_id h) (au_session a), au_new_host_id := Some (host_id h)\<rparr>)
          in if host_type h = OpsiClient then
               let addr = client_addr (au_session a);
                   change_ip = (update_ip (ae_cfg E) \<and> addr \<notin> {''127.0.0.1'', ''::1''} \<and> Some addr \<noteq> ipAddress h);
                   h1 = h\<lparr>lastSeen := Some (ae_timestamp E), ipAddress := (if change_ip then Some addr else None)\<rparr>
               in then_prog (on_au_session (\<lambda>s. if same_host (session_host s0) (Some h) then s else s\<lparr>session_host := Some h1\<rparr>))
                    (host_updateObjectOnAuthenticate h1) a
             else (Inr (), a\<lparr>au_depots := dict_set (client_addr (au_session a)) now (au_depots a)\<rparr>)))"

definition authenticate_host :: "'r auth_env \<Rightarrow> int \<Rightarrow> string option \<Rightarrow> ('r, unit) auth" where
  "authenticate_host E now peer_cn =
     bind_prog (gets_prog au_session) (\<lambda>s.
     bind_prog (lift_prog (host_filter E s)) (\<lambda>(attr, val, method, name).
     then_prog (on_au_session (set_username now name))
     (bind_prog (find_host E attr val) (\<lambda>h.
     then_prog (when_prog (method \<noteq> None) (on_au_session (add_auth_methods now [the method])))
     (then_prog (guard_auth (opt_str (opsiHostKey h) \<noteq> []) ''OpsiHostKey missing'')
     (then_prog (when_prog (cert_required (ae_cfg E) (host_type h) \<and> vpn_module_available E) (check_cert peer_cn (host_id h) now))
     (bind_prog (check_host_secret now h) (\<lambda>h. accept_host E now h))))))))"

section \<open>Users\<close>

definition authenticate_user_passwd :: "'r auth_env \<Rightarrow> int \<Rightarrow> ('r, unit) auth" where
  "authenticate_user_passwd E now =
     bind_prog (gets_prog au_session) (\<lambda>s.
     bind_prog (lift_prog (ae_credentials E (username s))) (\<lambda>pw.
       if sent_password s = pw
       then on_au_session (\<lambda>s. add_auth_methods now [USERNAME, PASSWORD_FILE]
              (set_is_admin now False (set_is_read_only now True (set_authenticated now True s))))
       else auth_fails ''Authentication failed for user''))"

definition authenticate_user_auth_module :: "'r auth_env \<Rightarrow> int \<Rightarrow> string option \<Rightarrow> ('r, unit) auth" where
  "authenticate_user_auth_module E now peer_cn =
     bind_prog (gets_prog au_session) (\<lambda>s.
     then_prog (when_prog (''user'' \<in> set (client_cert_auth (ae_cfg E))) (check_cert peer_cn (username s) now))
     (case am_authenticate (ae_module E) (username s) (sent_password s) of
        Inl _ \<Rightarrow> auth_fails ''Authentication failed for user''
      | Inr _ \<Rightarrow> on_au_session (add_auth_methods now [USERNAME, am_method (ae_module E)])))"

definition get_admin_groupname :: "auth_config \<Rightarrow> string" where
  "get_admin_groupname C = py_lower (admingroup (config_groups C))"

definition get_read_only_groupnames :: "auth_config \<Rightarrow> string list" where
  "get_read_only_groupnames C = (let g = py_lower (readonlygroup C) in if g = [] then [] else [g])"

definition user_is_admin :: "'r auth_env \<Rightarrow> string \<Rightarrow> bool result" where
  "user_is_admin E name = bind_res (am_groupnames (ae_module E) name) (\<lambda>gs. Inr (get_admin_groupname (ae_cfg E) \<in> gs))"

definition user_is_read_only :: "'r auth_env \<Rightarrow> string \<Rightarrow> bool result" where
  "user_is_read_only E name =
     bind_res (am_groupnames (ae_module E) name) (\<lambda>gs. Inr (list_ex (\<lambda>g. g \<in> gs) (get_read_only_groupnames (ae_cfg E))))"

text \<open>The one-time password of the request, and the password without it.\<close>

definition split_otp :: "'r auth_env \<Rightarrow> headers \<Rightarrow> string option \<Rightarrow> string \<Rightarrow> string option \<times> string" where
  "split_otp E hs mfa_otp pw =
     (if multi_factor_auth (ae_cfg E) \<notin> {''totp_mandatory'', ''totp_optional''} then (mfa_otp, pw)
      else let otp = (if opt_str mfa_otp = [] then hdr_get hs ''x-opsi-mfa-otp'' else mfa_otp)
           in if opt_str otp \<noteq> [] then (otp, pw)
              else (case attached_totp pw of None \<Rightarrow> (otp, pw) | Some (p, d) \<Rightarrow> (Some d, p)))"

definition find_user :: "'r auth_env \<Rightarrow> ('r, user) auth" where
  "find_user E = (\<lambda>a.
     let name = username (au_session a) in
     case filter (ae_user_matches E name) (au_users a) of
       u # _ \<Rightarrow> (Inr u, a)
     | [] \<Rightarrow> (Inr (ae_new_user E name), a\<lparr>au_users := au_users a @ [ae_new_user E name]\<rparr>))"

definition mfa_required :: "auth_config \<Rightarrow> user \<Rightarrow> bool" where
  "mfa_required C u =
     (multi_factor_auth C = ''totp_mandatory'' \<or> (multi_factor_auth C = ''totp_optional'' \<and> mfaState u = ''totp_active''))"

definition check_mfa :: "'r auth_env \<Rightarrow> int \<Rightarrow> user \<Rightarrow> string option \<Rightarrow> ('r, unit) auth" where
  "check_mfa E now u mfa_otp =
     when_prog (mfa_required (ae_cfg E) u)
       (then_prog (guard_auth (opt_str (otpSecret u) \<noteq> []) ''MFA OTP configuration error'')
       (then_prog (guard_auth (opt_str mfa_otp \<noteq> []) ''MFA one-time password missing'')
       (then_prog (guard_auth (ae_totp_verify E (opt_str (otpSecret u)) (opt_str mfa_otp)) ''Incorrect one-time password'')
         (on_au_session (add_auth_methods now [TOTP])))))"

definition accept_user :: "'r auth_env \<Rightarrow> int \<Rightarrow> user \<Rightarrow> ('r, unit) auth" where
  "accept_user E now u =
     then_prog (on_au_session (set_authenticated now True))
     (bind_prog (gets_prog (\<lambda>a. username (au_session a))) (\<lambda>name.
     bind_prog (lift_prog (am_groupnames (ae_module E) name)) (\<lambda>gs.
     then_prog (on_au_session (set_user_groups now gs))
     (bind_prog (lift_prog (user_is_admin E name)) (\<lambda>adm.
     then_prog (on_au_session (set_is_admin now adm))
     (bind_prog (lift_prog (user_is_read_only E name)) (\<lambda>ro.
     then_prog (on_au_session (set_is_read_only now ro))
     (modify_prog (\<lambda>a. let s = au_session a;
          a = a\<lparr>au_users := map (\<lambda>v. if user_id v = user_id u then u\<lparr>lastLogin := Some (ae_timestamp E)\<rparr> else v) (au_users a)\<rparr>
        in if is_admin s then a\<lparr>au_roles := au_roles a @ [(name, user_groups s)]\<rparr> else a)))))))))"

definition authenticate_user :: "'r auth_env \<Rightarrow> int \<Rightarrow> headers \<Rightarrow> string option \<Rightarrow> string option \<Rightarrow> ('r, unit) auth" where
  "authenticate_user E now hs peer_cn mfa_otp =
     bind_prog (gets_prog (\<lambda>a. split_otp E hs mfa_otp (sent_password (au_session a)))) (\<lambda>(otp, pw).
     then_prog (on_au_session (\<lambda>s. s\<lparr>password := Some pw\<rparr>))
     (then_prog (authenticate_user_auth_module E now peer_cn)
     (bind_prog (find_user E) (\<lambda>u.
     then_prog (check_mfa E now u otp) (accept_user E now u)))))"

section \<open>Authentication\<close>

definition au_store :: "'r auth_env \<Rightarrow> int \<Rightarrow> ('r, unit) auth" where
  "au_store E now = (\<lambda>a.
     let (r, w) = store_session (ae_session E) now (ae_uuid E) False \<lparr>cur = au_session a, red = au_red a, depot_addresses = au_depots a\<rparr>
     in (r, a\<lparr>au_session := cur w, au_red := red w, au_depots := depot_addresses w\<rparr>))"

definition authenticate_inner ::
  "'r auth_env \<Rightarrow> int \<Rightarrow> headers \<Rightarrow> string option \<Rightarrow> string \<Rightarrow> string \<Rightarrow> string option \<Rightarrow> ('r, unit) auth" where
  "authenticate_inner E now hs peer_cn name pw mfa_otp =
     then_prog (on_au_session (set_authenticated now False))
     (bind_prog (gets_prog au_session) (\<lambda>s.
     then_prog (lift_prog (check_min_configed_version E (user_agent s)))
     (then_prog (check_blocked E now (client_addr s))
     (then_prog (on_au_session (\<lambda>s. (set_username now (py_lower name) s)\<lparr>password := Some pw\<rparr>))
     (then_prog (guard_auth (pw \<noteq> []) ''No password specified'')
     (then_prog
        (if py_lower name = monitoring_user (ae_cfg E) then authenticate_user_passwd E now
         else if is_host_name (py_lower name) then authenticate_host E now peer_cn
         else authenticate_user E now hs peer_cn mfa_otp)
     (then_prog (au_store E now)
     (\<lambda>a. if username (au_session a) = [] \<or> \<not> authenticated (au_session a)
          then (Inl (BackendPermissionDeniedError ''Not authenticated''), a)
          else on_au_session (check_admin_networks E now) a))))))))"

definition is_auth_error :: "py_error \<Rightarrow> bool" where
  "is_auth_error e = (case e of BackendAuthenticationError _ \<Rightarrow> True | _ \<Rightarrow> False)"

definition authenticate ::
  "'r auth_env \<Rightarrow> int \<Rightarrow> headers \<Rightarrow> string option \<Rightarrow> string \<Rightarrow> string \<Rightarrow> string option \<Rightarrow> ('r, unit) auth" where
  "authenticate E now hs peer_cn name pw mfa_otp =
     catch_prog (authenticate_inner E now hs peer_cn name pw mfa_otp) (\<lambda>e a.
       (Inl e, if is_auth_error e then record_failure E now (client_addr (au_session a)) a else a))"

section \<open>Access to a path\<close>

datatype access_role = Role_public | Role_authenticated | Role_admin

record request =
  rq_path :: string
  rq_method :: string
  rq_headers :: headers
  rq_peer_cn :: "string option"

text \<open>The role by the public paths alone, and the role that is finally required.\<close>

definition default_access_role :: "string list \<Rightarrow> string \<Rightarrow> access_role" where
  "default_access_role public_path path =
     (if path \<noteq> [] \<and> (path = ''/'' \<or> list_ex (py_startswith path) public_path) then Role_public else Role_admin)"

definition required_access_role :: "string list \<Rightarrow> request \<Rightarrow> access_role" where
  "required_access_role public_path rq =
     (if list_ex (py_startswith (rq_path rq)) [''/rpc'', ''/monitoring'', ''/messagebus'', ''/file-transfer''] \<or>
         (list_ex (py_startswith (rq_path rq)) [''/depot'', ''/boot''] \<and> rq_method rq \<in> {''GET'', ''HEAD'', ''OPTIONS'', ''PROPFIND''})
      then Role_authenticated else default_access_role public_path (rq_path rq))"

definition check_access :: "'r auth_env \<Rightarrow> int \<Rightarrow> access_role \<Rightarrow> request \<Rightarrow> ('r, unit) auth" where
  "check_access E now role rq =
     (if role = Role_public then return_prog ()
      else bind_prog (gets_prog au_session) (\<lambda>s.
        then_prog (when_prog (username s = [] \<or> \<not> authenticated s)
          (bind_prog (lift_prog (get_basic_auth (rq_headers rq))) (\<lambda>(name, pw).
             authenticate E now (rq_headers rq) (rq_peer_cn rq) name pw None)))
        (\<lambda>a. if role = Role_admin \<and> \<not> is_admin (au_session a)
             then (Inl (BackendPermissionDeniedError ''Not an admin user''), a) else (Inr (), a))))"

section \<open>What the steps do to the session\<close>

lemma auth_setter_fields [simp]:
  "authenticated (set_authenticated now b s) = b" "username (set_authenticated now b s) = username s" "is_admin (set_authenticated now b s) = is_admin s" "is_read_only (set_authenticated now b s) = is_read_only s" "client_addr (set_authenticated now b s) = client_addr s" "user_groups (set_authenticated now b s) = user_groups s" "session_host (set_authenticated now b s) = session_host s" "password (set_authenticated now b s) = password s"
  "authenticated (set_is_admin now b s) = authenticated s" "username (set_is_admin now b s) = username s" "is_admin (set_is_admin now b s) = b" "is_read_only (set_is_admin now b s) = is_read_only s" "client_addr (set_is_admin now b s) = client_addr s" "user_groups (set_is_admin now b s) = user_groups s" "session_host (set_is_admin now b s) = session_host s" "password (set_is_admin now b s) = password s"
  "authenticated (set_is_read_only now b s) = authenticated s" "username (set_is_read_only now b s) = username s" "is_admin (set_is_read_only now b s) = is_admin s" "is_read_only (set_is_read_only now b s) = b" "client_addr (set_is_read_only now b s) = client_addr s" "user_groups (set_is_read_only now b s) = user_groups s" "session_host (set_is_read_only now b s) = session_host s" "password (set_is_read_only now b s) = password s"
  "authenticated (set_host now h s) = authenticated s" "username (set_host now h s) = username s" "is_admin (set_host now h s) = is_admin s" "is_read_only (set_host now h s) = is_read_only s" "client_addr (set_host now h s) = client_addr s" "user_groups (set_host now h s) = user_groups s" "session_host (set_host now h s) = (if same_host (session_host s) h then session_host s else h)" "password (set_host now h s) = password s"
  "authenticated (set_username now n s) = authenticated s" "username (set_username now n s) = n" "is_admin (set_username now n s) = is_admin s" "is_read_only (set_username now n s) = is_read_only s" "client_addr (set_username now n s) = client_addr s" "user_groups (set_username now n s) = user_groups s" "session_host (set_username now n s) = session_host s" "password (set_username now n s) = password s"
  "authenticated (set_user_groups now g s) = authenticated s" "username (set_user_groups now g s) = username s" "is_admin (set_user_groups now g s) = is_admin s" "is_read_only (set_user_groups now g s) = is_read_only s" "client_addr (set_user_groups now g s) = client_addr s" "user_groups (set_user_groups now g s) = g" "session_host (set_user_groups now g s) = session_host s" "password (set_user_groups now g s) = password s"
  "authenticated (add_auth_methods now ms s) = authenticated s" "username (add_auth_methods now ms s) = username s" "is_admin (add_auth_methods now ms s) = is_admin s" "is_read_only (add_auth_methods now ms s) = is_read_only s" "client_addr (add_auth_methods now ms s) = client_addr s" "user_groups (add_auth_methods now ms s) = user_groups s" "session_host (add_auth_methods now ms s) = session_host s" "password (add_auth_methods now ms s) = password s"
  by (simp_all add: set_authenticated_def set_is_admin_def set_is_read_only_def set_host_def set_username_def set_user_groups_def
      add_auth_methods_def set_modified_def)

lemmas auth_steps = on_au_session_def guard_auth_def auth_fails_def bind_prog_Inr

lemma au_store_keeps:
  assumes "au_store E now a = (r, a1)"
  shows "authenticated (au_session a1) = authenticated (au_session a) \<and> username (au_session a1) = username (au_session a) \<and>
    is_admin (au_session a1) = is_admin (au_session a) \<and> client_addr (au_session a1) = client_addr (au_session a) \<and>
    user_groups (au_session a1) = user_groups (au_session a)"
  using assms by (auto simp: au_store_def store_session_def Let_def set_version_def set_modified_def split: if_splits sum.splits)

lemma check_cert_post:
  assumes "check_cert cn name now a = (Inr (), a1)"
  shows "cn = Some name \<and> name \<noteq> [] \<and> (\<exists>ms. a1 = a\<lparr>au_session := add_auth_methods now ms (au_session a)\<rparr>)"
  using assms by (cases cn) (auto simp: check_cert_def auth_steps opt_str_def split: if_splits)

lemma check_host_secret_post:
  assumes "check_host_secret now h a = (Inr h1, a1)"
  shows "(opsiHostKey h = Some (sent_password (au_session a)) \<or>
      host_type h = OpsiClient \<and> oneTimePassword h = Some (sent_password (au_session a)) \<and> sent_password (au_session a) \<noteq> []) \<and>
    host_id h1 = host_id h \<and> host_type h1 = host_type h \<and> client_addr (au_session a1) = client_addr (au_session a)"
  using assms
  by (auto simp: check_host_secret_def auth_steps Let_def opt_str_def host_updateObjectOnAuthenticate_def split: if_splits option.splits)

lemma accept_host_post:
  assumes "accept_host E now h a = (Inr (), a1)"
  shows "authenticated (au_session a1) \<and> username (au_session a1) = host_id h \<and> is_admin (au_session a1) = is_server h \<and>
    client_addr (au_session a1) = client_addr (au_session a)"
  using assms
  by (auto simp: accept_host_def auth_steps Let_def host_updateObjectOnAuthenticate_def split: if_splits)

lemma find_host_post:
  assumes "find_host E attr val a = (Inr h, a1)"
  shows "a1 = a \<and> h \<in> set (au_hosts a) \<and> ae_host_matches E attr val h"
proof -
  have "filter (ae_host_matches E attr val) (au_hosts a) = [h] \<and> a1 = a"
    using assms by (auto simp: find_host_def auth_fails_def split: list.splits)
  then have "h \<in> set (filter (ae_host_matches E attr val) (au_hosts a))" "a1 = a" by simp_all
  then show ?thesis by simp
qed

text \<open>The evidence a host has given: its key or, for clients, the one-time password, and the certificate.\<close>

definition host_evidence :: "'r auth_env \<Rightarrow> string option \<Rightarrow> string \<Rightarrow> host \<Rightarrow> bool" where
  "host_evidence E cn pw h =
     ((opsiHostKey h = Some pw \<or> host_type h = OpsiClient \<and> oneTimePassword h = Some pw) \<and>
      (cert_required (ae_cfg E) (host_type h) \<and> vpn_module_available E \<longrightarrow> cn = Some (host_id h)))"

lemma authenticate_host_post:
  assumes "authenticate_host E now cn a = (Inr (), a1)"
  shows "\<exists>h \<in> set (au_hosts a). host_evidence E cn (sent_password (au_session a)) h \<and> username (au_session a1) = host_id h \<and>
    authenticated (au_session a1) \<and> is_admin (au_session a1) = is_server h \<and> client_addr (au_session a1) = client_addr (au_session a)"
proof -
  obtain attr val am name where f: "host_filter E (au_session a) = Inr (attr, val, am, name)"
    using assms by (cases "host_filter E (au_session a)") (auto simp: authenticate_host_def auth_steps)
  let ?a1 = "a\<lparr>au_session := set_username now name (au_session a)\<rparr>"
  obtain h where h: "find_host E attr val ?a1 = (Inr h, ?a1)"
    and rest: "then_prog (when_prog (am \<noteq> None) (on_au_session (add_auth_methods now [the am])))
     (then_prog (guard_auth (opt_str (opsiHostKey h) \<noteq> []) ''OpsiHostKey missing'')
     (then_prog (when_prog (cert_required (ae_cfg E) (host_type h) \<and> vpn_module_available E) (check_cert cn (host_id h) now))
     (bind_prog (check_host_secret now h) (\<lambda>h. accept_host E now h)))) ?a1 = (Inr (), a1)"
    using assms f find_host_post by (fastforce simp: authenticate_host_def auth_steps)
  have in_db: "h \<in> set (au_hosts a)" using find_host_post[OF h] by simp
  from rest obtain a2 b a3 h1 a4 where
    am: "when_prog (am \<noteq> None) (on_au_session (add_auth_methods now [the am])) ?a1 = (Inr (), a2)"
    and key: "guard_auth (opt_str (opsiHostKey h) \<noteq> []) ''OpsiHostKey missing'' a2 = (Inr (), b)"
    and cert: "when_prog (cert_required (ae_cfg E) (host_type h) \<and> vpn_module_available E) (check_cert cn (host_id h) now) b = (Inr (), a3)"
    and secret: "check_host_secret now h a3 = (Inr h1, a4)" and accept: "accept_host E now h1 a4 = (Inr (), a1)"
    unfolding bind_prog_Inr by auto
  have a2: "sent_password (au_session b) = sent_password (au_session a)" "client_addr (au_session b) = client_addr (au_session a)"
    using am key by (auto simp: auth_steps sent_password_def split: if_splits)
  have a3: "sent_password (au_session a3) = sent_password (au_session a)" "client_addr (au_session a3) = client_addr (au_session a)"
    "cert_required (ae_cfg E) (host_type h) \<and> vpn_module_available E \<longrightarrow> cn = Some (host_id h)"
    using cert check_cert_post[of cn "host_id h" now b a3] a2 by (auto simp: sent_password_def split: if_splits)
  show ?thesis
    using in_db check_host_secret_post[OF secret] accept_host_post[OF accept] a3
    by (intro bexI[of _ h]) (auto simp: host_evidence_def is_server_def)
qed

definition user_of :: "'r auth_env \<Rightarrow> string \<Rightarrow> user list \<Rightarrow> user" where
  "user_of E name us = (case filter (ae_user_matches E name) us of u # _ \<Rightarrow> u | [] \<Rightarrow> ae_new_user E name)"

definition mfa_passed :: "'r auth_env \<Rightarrow> user \<Rightarrow> string option \<Rightarrow> bool" where
  "mfa_passed E u otp = (mfa_required (ae_cfg E) u \<longrightarrow>
     opt_str (otpSecret u) \<noteq> [] \<and> opt_str otp \<noteq> [] \<and> ae_totp_verify E (opt_str (otpSecret u)) (opt_str otp))"

text \<open>The evidence a user has given: the authentication module accepts the password, the
  certificate is the user's where one is demanded, and the second factor holds where one is due.\<close>

definition user_evidence :: "'r auth_env \<Rightarrow> string option \<Rightarrow> string \<Rightarrow> string option \<times> string \<Rightarrow> user list \<Rightarrow> bool" where
  "user_evidence E cn name c us =
     (am_authenticate (ae_module E) name (snd c) = Inr () \<and>
      (''user'' \<in> set (client_cert_auth (ae_cfg E)) \<longrightarrow> cn = Some name) \<and> mfa_passed E (user_of E name us) (fst c))"

lemma authenticate_user_auth_module_post:
  assumes "authenticate_user_auth_module E now cn a = (Inr (), a1)"
  shows "am_authenticate (ae_module E) (username (au_session a)) (sent_password (au_session a)) = Inr () \<and>
    (''user'' \<in> set (client_cert_auth (ae_cfg E)) \<longrightarrow> cn = Some (username (au_session a))) \<and>
    username (au_session a1) = username (au_session a) \<and> client_addr (au_session a1) = client_addr (au_session a) \<and>
    au_users a1 = au_users a"
proof -
  obtain b where cert: "when_prog (''user'' \<in> set (client_cert_auth (ae_cfg E))) (check_cert cn (username (au_session a)) now) a = (Inr (), b)"
    and m: "am_authenticate (ae_module E) (username (au_session a)) (sent_password (au_session a)) = Inr ()"
    "a1 = b\<lparr>au_session := add_auth_methods now [USERNAME, am_method (ae_module E)] (au_session b)\<rparr>"
    using assms unfolding authenticate_user_auth_module_def
    by (auto simp: auth_steps split: sum.splits)
  show ?thesis
    using m cert check_cert_post[of cn "username (au_session a)" now a b] by (auto split: if_splits)
qed

lemma find_user_post:
  assumes "find_user E a = (Inr u, a1)"
  shows "u = user_of E (username (au_session a)) (au_users a) \<and> au_session a1 = au_session a"
  using assms by (auto simp: find_user_def user_of_def Let_def split: list.splits)

lemma check_mfa_post:
  assumes "check_mfa E now u otp a = (Inr (), a1)"
  shows "mfa_passed E u otp \<and> username (au_session a1) = username (au_session a) \<and> client_addr (au_session a1) = client_addr (au_session a)"
  using assms by (auto simp: check_mfa_def mfa_passed_def auth_steps split: if_splits)

lemma accept_user_post:
  assumes "accept_user E now u a = (Inr (), a1)"
  shows "authenticated (au_session a1) \<and> username (au_session a1) = username (au_session a) \<and>
    client_addr (au_session a1) = client_addr (au_session a) \<and>
    (\<exists>gs. am_groupnames (ae_module E) (username (au_session a)) = Inr gs \<and> user_groups (au_session a1) = gs \<and>
      is_admin (au_session a1) = (get_admin_groupname (ae_cfg E) \<in> gs))"
  using assms
  by (auto simp: accept_user_def auth_steps user_is_admin_def user_is_read_only_def bind_res_Inr_iff Let_def split: if_splits)

lemma authenticate_user_post:
  assumes "authenticate_user E now hs cn otp a = (Inr (), a1)"
  shows "user_evidence E cn (username (au_session a)) (split_otp E hs otp (sent_password (au_session a))) (au_users a) \<and>
    username (au_session a1) = username (au_session a) \<and> authenticated (au_session a1) \<and>
    client_addr (au_session a1) = client_addr (au_session a) \<and>
    (\<exists>gs. am_groupnames (ae_module E) (username (au_session a)) = Inr gs \<and>
      is_admin (au_session a1) = (get_admin_groupname (ae_cfg E) \<in> gs))"
proof -
  obtain otp' pw where sp: "split_otp E hs otp (sent_password (au_session a)) = (otp', pw)" by fastforce
  let ?b = "a\<lparr>au_session := (au_session a)\<lparr>password := Some pw\<rparr>\<rparr>"
  obtain c u d e where steps: "authenticate_user_auth_module E now cn ?b = (Inr (), c)" "find_user E c = (Inr u, d)"
    "check_mfa E now u otp' d = (Inr (), e)" "accept_user E now u e = (Inr (), a1)"
    using assms unfolding authenticate_user_def on_au_session_def by (auto simp: sp bind_prog_Inr)
  show ?thesis
    using authenticate_user_auth_module_post[OF steps(1)] find_user_post[OF steps(2)] check_mfa_post[OF steps(3)]
      accept_user_post[OF steps(4)] sp
    by (auto simp: user_evidence_def sent_password_def opt_str_def)
qed

lemma authenticate_user_passwd_post:
  assumes "authenticate_user_passwd E now a = (Inr (), a1)"
  shows "ae_credentials E (username (au_session a)) = Inr (sent_password (au_session a)) \<and> authenticated (au_session a1) \<and>
    \<not> is_admin (au_session a1) \<and> is_read_only (au_session a1) \<and> username (au_session a1) = username (au_session a) \<and>
    client_addr (au_session a1) = client_addr (au_session a)"
  using assms by (cases "ae_credentials E (username (au_session a))") (auto simp: authenticate_user_passwd_def auth_steps split: if_splits)

lemma check_admin_networks_post:
  "authenticated (check_admin_networks E now s) = authenticated s" "username (check_admin_networks E now s) = username s"
  "client_addr (check_admin_networks E now s) = client_addr s"
  "is_admin (check_admin_networks E now s) =
    (is_admin s \<and> (admin_networks (ae_cfg E) = [] \<or> list_ex (ae_in_network E (client_addr s)) (admin_networks (ae_cfg E))))"
  by (auto simp: check_admin_networks_def)

text \<open>A successful run, cut into its parts.\<close>

definition auth_method_step :: "'r auth_env \<Rightarrow> int \<Rightarrow> headers \<Rightarrow> string option \<Rightarrow> string \<Rightarrow> string option \<Rightarrow> ('r, unit) auth" where
  "auth_method_step E now hs cn name otp =
     (if name = monitoring_user (ae_cfg E) then authenticate_user_passwd E now
      else if is_host_name name then authenticate_host E now cn
      else authenticate_user E now hs cn otp)"

lemma authenticate_run:
  assumes "authenticate E now hs cn name pw otp a = (Inr (), a1)"
  obtains b c d where "auth_method_step E now hs cn (py_lower name) otp b = (Inr (), c)" "au_store E now c = (Inr (), d)"
    "a1 = d\<lparr>au_session := check_admin_networks E now (au_session d)\<rparr>" "pw \<noteq> []"
    "username (au_session d) \<noteq> []" "authenticated (au_session d)" "\<not> is_blocked E now (client_addr (au_session a)) a"
    "username (au_session b) = py_lower name" "sent_password (au_session b) = pw" "client_addr (au_session b) = client_addr (au_session a)"
    "au_hosts b = au_hosts a" "au_users b = au_users a"
proof -
  have run: "authenticate_inner E now hs cn name pw otp a = (Inr (), a1)"
    using assms by (auto simp: authenticate_def catch_prog_def split: prod.splits sum.splits)
  let ?a = "a\<lparr>au_session := set_authenticated now False (au_session a)\<rparr>"
  let ?in = "\<lambda>x. x\<lparr>au_session := (set_username now (py_lower name) (au_session x))\<lparr>password := Some pw\<rparr>\<rparr>"
  obtain b c d where s: "check_blocked E now (client_addr (au_session a)) ?a = (Inr (), b)" "pw \<noteq> []"
    "auth_method_step E now hs cn (py_lower name) otp (?in b) = (Inr (), c)" "au_store E now c = (Inr (), d)"
    "a1 = d\<lparr>au_session := check_admin_networks E now (au_session d)\<rparr>" "username (au_session d) \<noteq> []" "authenticated (au_session d)"
    using run unfolding authenticate_inner_def auth_method_step_def[symmetric] on_au_session_def guard_auth_def auth_fails_def
    by (fastforce simp: bind_prog_Inr split: if_splits)
  have b: "\<not> is_blocked E now (client_addr (au_session a)) a" "au_session b = au_session ?a" "au_hosts b = au_hosts a" "au_users b = au_users a"
    using s(1) by (auto simp: check_blocked_def is_blocked_def split: if_splits)
  show ?thesis by (rule that[OF s(3,4,5,2,6,7) b(1)]) (use b in \<open>simp_all add: sent_password_def opt_str_def\<close>)
qed

text \<open>Conversely, the run that the parts make up.\<close>

lemma authenticate_composed:
  assumes "check_min_configed_version E (user_agent (au_session a)) = Inr ()" "pw \<noteq> []"
    and "check_blocked E now (client_addr (au_session a)) (a\<lparr>au_session := set_authenticated now False (au_session a)\<rparr>) = (Inr (), b)"
    and "auth_method_step E now hs cn (py_lower name) otp
      (b\<lparr>au_session := (set_username now (py_lower name) (au_session b))\<lparr>password := Some pw\<rparr>\<rparr>) = (r, c)"
  shows "authenticate E now hs cn name pw otp a =
    (case r of
       Inl e \<Rightarrow> (Inl e, if is_auth_error e then record_failure E now (client_addr (au_session c)) c else c)
     | Inr _ \<Rightarrow>
         (case au_store E now c of
            (Inl e, d) \<Rightarrow> (Inl e, if is_auth_error e then record_failure E now (client_addr (au_session d)) d else d)
          | (Inr _, d) \<Rightarrow>
              if username (au_session d) = [] \<or> \<not> authenticated (au_session d)
              then (Inl (BackendPermissionDeniedError ''Not authenticated''), d)
              else (Inr (), d\<lparr>au_session := check_admin_networks E now (au_session d)\<rparr>)))"
proof -
  have agent: "user_agent (set_authenticated now False s) = user_agent s" for s
    by (simp add: set_authenticated_def set_modified_def)
  show ?thesis
    using assms
    unfolding authenticate_def authenticate_inner_def auth_method_step_def[symmetric] on_au_session_def guard_auth_def
    by (auto simp: bind_prog_run catch_prog_def agent is_auth_error_def split: sum.splits prod.splits)
qed

section \<open>Properties\<close>

text \<open>
  C2. Authentication is sound. A call returns only for an address that is not blocked and with
  a non-empty password, and then exactly one kind of evidence was given: the monitoring user its
  password (and it is never an admin); a host its host key or, for a client, its one-time
  password, with the certificate of that host where one is demanded (and only servers are
  admins); a user a password the authentication module accepts, with certificate and second
  factor where they are due (and admins are members of the admin group). Admin rights are left
  only to addresses of the admin networks, when there are any.
\<close>

theorem authentication_sound:
  assumes "authenticate E now hs cn name pw otp a = (Inr (), a1)"
  shows "authenticated (au_session a1) \<and> pw \<noteq> [] \<and> \<not> is_blocked E now (client_addr (au_session a)) a \<and>
    (if py_lower name = monitoring_user (ae_cfg E)
     then ae_credentials E (py_lower name) = Inr pw \<and> \<not> is_admin (au_session a1)
     else if is_host_name (py_lower name)
     then \<exists>h \<in> set (au_hosts a). host_evidence E cn pw h \<and> username (au_session a1) = host_id h \<and> (is_admin (au_session a1) \<longrightarrow> is_server h)
     else user_evidence E cn (py_lower name) (split_otp E hs otp pw) (au_users a) \<and> username (au_session a1) = py_lower name \<and>
       (\<exists>gs. am_groupnames (ae_module E) (py_lower name) = Inr gs \<and> (is_admin (au_session a1) \<longrightarrow> get_admin_groupname (ae_cfg E) \<in> gs))) \<and>
    (is_admin (au_session a1) \<longrightarrow> admin_networks (ae_cfg E) = [] \<or>
       list_ex (ae_in_network E (client_addr (au_session a1))) (admin_networks (ae_cfg E)))"
proof -
  obtain b c d where run: "auth_method_step E now hs cn (py_lower name) otp b = (Inr (), c)" "au_store E now c = (Inr (), d)"
    "a1 = d\<lparr>au_session := check_admin_networks E now (au_session d)\<rparr>" "pw \<noteq> []"
    "username (au_session d) \<noteq> []" "authenticated (au_session d)" "\<not> is_blocked E now (client_addr (au_session a)) a"
    "username (au_session b) = py_lower name" "sent_password (au_session b) = pw" "client_addr (au_session b) = client_addr (au_session a)"
    "au_hosts b = au_hosts a" "au_users b = au_users a"
    using assms by (rule authenticate_run)
  note kept = au_store_keeps[OF run(2)]
  have final: "username (au_session a1) = username (au_session c)" "is_admin (au_session a1) \<Longrightarrow> is_admin (au_session c)"
    "authenticated (au_session a1)"
    "is_admin (au_session a1) \<Longrightarrow> admin_networks (ae_cfg E) = [] \<or> list_ex (ae_in_network E (client_addr (au_session a1))) (admin_networks (ae_cfg E))"
    using kept run(6) by (auto simp: run(3) check_admin_networks_post)
  have "if py_lower name = monitoring_user (ae_cfg E)
     then ae_credentials E (py_lower name) = Inr pw \<and> \<not> is_admin (au_session a1)
     else if is_host_name (py_lower name)
     then \<exists>h \<in> set (au_hosts a). host_evidence E cn pw h \<and> username (au_session a1) = host_id h \<and> (is_admin (au_session a1) \<longrightarrow> is_server h)
     else user_evidence E cn (py_lower name) (split_otp E hs otp pw) (au_users a) \<and> username (au_session a1) = py_lower name \<and>
       (\<exists>gs. am_groupnames (ae_module E) (py_lower name) = Inr gs \<and> (is_admin (au_session a1) \<longrightarrow> get_admin_groupname (ae_cfg E) \<in> gs))"
    using run(1,8-12) final(1,2) authenticate_user_passwd_post[of E now b c] authenticate_host_post[of E now cn b c]
      authenticate_user_post[of E now hs cn otp b c]
    by (auto simp: auth_method_step_def split: if_splits)
  then show ?thesis using run(4,7) final(3,4) by blast
qed

definition example_module :: auth_module where
  "example_module = \<lparr>am_method = PASSWORD_PAM,
     am_authenticate = (\<lambda>n p. if n = ''adminuser'' \<and> p = ''linux123'' then Inr () else Inl (RuntimeError ''pam'')),
     am_groupnames = (\<lambda>n. Inr {''opsiadmin''})\<rparr>"

definition example_auth_config :: auth_config where
  "example_auth_config = \<lparr>allow_host_key_only_auth = False, client_cert_auth = [], monitoring_user = ''monitoring'',
     multi_factor_auth = ''inactive'', update_ip = True, admin_networks = [''10.1.0.0/16''], networks = [''0.0.0.0/0''],
     auth_failures_interval = 60, max_auth_failures = 5, client_block_time = 120, min_configed_version = None,
     config_groups = example_groups, readonlygroup = ''opsireadonly''\<rparr>"

definition example_auth_env :: "auth_module \<Rightarrow> alist_redis auth_env" where
  "example_auth_env am = \<lparr>ae_session = example_env, ae_cfg = example_auth_config, ae_module = am, ae_backend = example_backend, ae_maintenance = False,
     ae_host_matches = (\<lambda>attr v h. attr = ''id'' \<and> v = host_id h), ae_user_matches = (\<lambda>n u. user_id u = n),
     ae_new_user = (\<lambda>n. \<lparr>user_id = n, mfaState = ''inactive'', otpSecret = None, lastLogin = None\<rparr>),
     ae_credentials = (\<lambda>n. Inr ''monpass''), ae_force_hardware_address = Inr, ae_force_uuid = Inr,
     ae_totp_verify = (\<lambda>s d. False), ae_in_network = (\<lambda>a n. n = ''0.0.0.0/0'' \<or> py_startswith a ''10.1.''),
     ae_older = (\<lambda>v m. None), ae_ts_range = (\<lambda>ts from to b. [(0, int (length (filter (\<lambda>t. from \<le> t \<and> t \<le> to) ts)))]),
     ae_timestamp = ''2024-01-01 00:00:00'', ae_uuid = ''v7''\<rparr>"

definition example_host :: host where
  "example_host = \<lparr>host_id = ''pc1.opsi.test'', host_type = OpsiClient, opsiHostKey = Some ''00ff'', oneTimePassword = Some ''once'',
     ipAddress = None, lastSeen = None\<rparr>"

definition example_auth_state :: "alist_redis auth_state" where
  "example_auth_state = \<lparr>au_session = (update_last_used 5000000 example_session)\<lparr>persistent := False\<rparr>, au_red = [], au_depots = [], au_hosts = [example_host],
     au_users = [], au_failed = [], au_blocked = [], au_new_host_id = None, au_roles = []\<rparr>"

text \<open>A client that does not keep sessions authenticates with its one-time password, which is used up afterwards.\<close>

lemma run_ok: "\<not> isl (fst x) \<Longrightarrow> x = (Inr (), snd x)" for x :: "unit result \<times> 's"
  by (cases x; cases "fst x") auto

lemma au_store_skip: "\<not> persistent (au_session a) \<Longrightarrow> au_store E now a = (Inr (), a)"
  by (simp add: au_store_def store_session_def)

lemma auth_method_step_host:
  "name \<noteq> monitoring_user (ae_cfg E) \<Longrightarrow> is_host_name name \<Longrightarrow> auth_method_step E now hs cn name otp = authenticate_host E now cn"
  by (simp add: auth_method_step_def)

lemma auth_method_step_user:
  "name \<noteq> monitoring_user (ae_cfg E) \<Longrightarrow> \<not> is_host_name name \<Longrightarrow> auth_method_step E now hs cn name otp = authenticate_user E now hs cn otp"
  by (simp add: auth_method_step_def)

definition example_start :: "alist_redis auth_state" where
  "example_start = example_auth_state\<lparr>au_session := set_authenticated 6000000 False (au_session example_auth_state)\<rparr>"

definition example_input :: "string \<Rightarrow> string \<Rightarrow> alist_redis auth_state" where
  "example_input name pw = example_start\<lparr>au_session := (set_username 6000000 name (au_session example_start))\<lparr>password := Some pw\<rparr>\<rparr>"

lemma example_run_start:
  "check_min_configed_version (example_auth_env am) (user_agent (au_session example_auth_state)) = Inr ()"
  "check_blocked (example_auth_env am) 6000000 (client_addr (au_session example_auth_state)) example_start = (Inr (), example_start)"
  by (simp_all add: check_min_configed_version_def check_blocked_def is_blocked_def num_failed_auth_def
      example_auth_env_def example_auth_config_def example_auth_state_def example_start_def)

lemma example_composed:
  assumes "pw \<noteq> []" "auth_method_step (example_auth_env am) 6000000 hs cn (py_lower name) otp (example_input (py_lower name) pw) = (Inr (), c)"
    and "au_store (example_auth_env am) 6000000 c = (Inr (), d)" "username (au_session d) \<noteq> []" "authenticated (au_session d)"
  shows "authenticate (example_auth_env am) 6000000 hs cn name pw otp example_auth_state =
    (Inr (), d\<lparr>au_session := check_admin_networks (example_auth_env am) 6000000 (au_session d)\<rparr>)"
  using authenticate_composed[OF example_run_start(1) assms(1) example_run_start(2)[unfolded example_start_def],
      folded example_start_def, folded example_input_def, OF assms(2)] assms(3-5)
  by simp

theorem authentication_sound_witness:
  "case authenticate (example_auth_env example_module) 6000000 [] None ''PC1.opsi.test.'' ''once'' None example_auth_state of
     (Inl _, _) \<Rightarrow> False
   | (Inr _, a1) \<Rightarrow> authenticated (au_session a1) \<and> username (au_session a1) = ''pc1.opsi.test'' \<and>
       map oneTimePassword (au_hosts a1) = [Some []]"
proof -
  define E where "E = example_auth_env example_module"
  define c where "c = snd (authenticate_host E 6000000 None (example_input ''pc1.opsi.test.'' ''once''))"
  have name: "py_lower ''PC1.opsi.test.'' = ''pc1.opsi.test.''" by code_simp
  have kind: "''pc1.opsi.test.'' \<noteq> monitoring_user (ae_cfg E)" "is_host_name ''pc1.opsi.test.''"
    unfolding E_def by code_simp+
  have "case authenticate_host E 6000000 None (example_input ''pc1.opsi.test.'' ''once'') of (r, c) \<Rightarrow>
      \<not> isl r \<and> \<not> persistent (au_session c) \<and> username (au_session c) = ''pc1.opsi.test'' \<and> authenticated (au_session c) \<and>
      map oneTimePassword (au_hosts c) = [Some []]"
    unfolding E_def by code_simp
  then have ok: "\<not> isl (fst (authenticate_host E 6000000 None (example_input ''pc1.opsi.test.'' ''once'')))"
    "\<not> persistent (au_session c)" "username (au_session c) = ''pc1.opsi.test''" "authenticated (au_session c)"
    "map oneTimePassword (au_hosts c) = [Some []]"
    unfolding c_def by (simp_all add: case_prod_beta)
  have step: "auth_method_step E 6000000 [] None (py_lower ''PC1.opsi.test.'') None (example_input (py_lower ''PC1.opsi.test.'') ''once'') = (Inr (), c)"
    unfolding name auth_method_step_host[OF kind] c_def by (rule run_ok[OF ok(1)])
  have r: "authenticate E 6000000 [] None ''PC1.opsi.test.'' ''once'' None example_auth_state =
      (Inr (), c\<lparr>au_session := check_admin_networks E 6000000 (au_session c)\<rparr>)"
    by (rule example_composed[of "''once''" example_module, folded E_def, OF _ step au_store_skip[OF ok(2)]]) (simp_all add: ok(3,4))
  from authentication_sound[OF r] ok(3,5) show ?thesis
    unfolding E_def[symmetric] r by (simp add: check_admin_networks_post)
qed

section \<open>Failed authentication\<close>

definition dd_failures :: "(string \<times> int list) list \<Rightarrow> string \<Rightarrow> int list" where
  "dd_failures fl key = (case map_of fl key of None \<Rightarrow> [] | Some ts \<Rightarrow> ts)"

lemma keeps_on_au_session [keeps_intros]:
  "(\<And>a. I a \<Longrightarrow> I (a\<lparr>au_session := f (au_session a)\<rparr>)) \<Longrightarrow> keeps I (on_au_session f)"
  by (simp add: keeps_def on_au_session_def)

lemma keeps_guard_auth [keeps_intros]: "keeps I (guard_auth b msg)"
  by (simp add: keeps_def guard_auth_def auth_fails_def)

lemma keeps_auth_fails [keeps_intros]: "keeps I (auth_fails msg)"
  by (simp add: keeps_def auth_fails_def)

lemma keeps_find_host [keeps_intros]: "keeps I (find_host E attr val)"
  by (simp add: keeps_def find_host_def auth_fails_def split: list.split)

text \<open>What no step of an authentication changes: the address of the client and the recorded failures.\<close>

abbreviation au_same :: "string \<Rightarrow> (string \<times> int list) list \<Rightarrow> 'r auth_state \<Rightarrow> bool" where
  "au_same addr fl a \<equiv> client_addr (au_session a) = addr \<and> au_failed a = fl"

abbreviation au_out :: "'r auth_state \<Rightarrow> bool" where
  "au_out a \<equiv> \<not> authenticated (au_session a)"

lemma keeps_check_cert [keeps_intros]:
  "keeps (au_same addr fl) (check_cert cn name now)" "keeps au_out (check_cert cn name now)"
  unfolding check_cert_def by (intro keeps_intros; simp)+

lemma keeps_update_host [keeps_intros]:
  "keeps (au_same addr fl) (host_updateObjectOnAuthenticate h)" "keeps au_out (host_updateObjectOnAuthenticate h)"
  by (simp_all add: keeps_def host_updateObjectOnAuthenticate_def)

lemma keeps_check_host_secret [keeps_intros]:
  "keeps (au_same addr fl) (check_host_secret now h)" "keeps au_out (check_host_secret now h)"
  by (auto simp: keeps_def check_host_secret_def Let_def on_au_session_def host_updateObjectOnAuthenticate_def auth_fails_def bind_prog_run)

lemma keeps_accept_host [keeps_intros]: "keeps (au_same addr fl) (accept_host E now h)"
  by (auto simp: keeps_def accept_host_def Let_def on_au_session_def host_updateObjectOnAuthenticate_def bind_prog_run)

lemma accept_host_succeeds: "\<not> isl (fst (accept_host E now h a))"
  by (auto simp: accept_host_def Let_def on_au_session_def host_updateObjectOnAuthenticate_def bind_prog_run)

lemma keeps_check_mfa [keeps_intros]:
  "keeps (au_same addr fl) (check_mfa E now u otp)" "keeps au_out (check_mfa E now u otp)"
  unfolding check_mfa_def by (intro keeps_intros; simp)+

lemma keeps_find_user [keeps_intros]:
  "keeps (au_same addr fl) (find_user E)" "keeps au_out (find_user E)"
  by (auto simp: keeps_def find_user_def Let_def split: list.split)

lemma keeps_auth_module [keeps_intros]:
  "keeps (au_same addr fl) (authenticate_user_auth_module E now cn)" "keeps au_out (authenticate_user_auth_module E now cn)"
  unfolding authenticate_user_auth_module_def
  by (intro keeps_intros; auto split: sum.split intro: keeps_intros)+

lemma keeps_accept_user [keeps_intros]: "keeps (au_same addr fl) (accept_user E now u)"
  unfolding accept_user_def by (intro keeps_intros) (auto simp: Let_def)

lemma keeps_same_step: "keeps (au_same addr fl) (auth_method_step E now hs cn name otp)"
proof -
  have "keeps (au_same addr fl) (authenticate_host E now cn)"
    unfolding authenticate_host_def case_prod_beta by (intro keeps_intros) auto
  moreover have "keeps (au_same addr fl) (authenticate_user_passwd E now)"
    unfolding authenticate_user_passwd_def by (intro keeps_intros) auto
  moreover have "keeps (au_same addr fl) (authenticate_user E now hs cn otp)"
    unfolding authenticate_user_def case_prod_beta by (intro keeps_intros) auto
  ultimately show ?thesis by (simp add: auth_method_step_def)
qed

text \<open>A step fails closed when an authentication error leaves the session unauthenticated.\<close>

definition fails_closed :: "('r, 'a) auth \<Rightarrow> bool" where
  "fails_closed p = (\<forall>a e a1. au_out a \<longrightarrow> p a = (Inl e, a1) \<longrightarrow> is_auth_error e \<longrightarrow> au_out a1)"

lemma fails_closedD: "fails_closed p \<Longrightarrow> au_out a \<Longrightarrow> p a = (Inl e, a1) \<Longrightarrow> is_auth_error e \<Longrightarrow> au_out a1"
  unfolding fails_closed_def by blast

lemma fails_closed_keeps: "keeps au_out p \<Longrightarrow> fails_closed p"
  unfolding fails_closed_def by (blast dest: keepsD)

lemma fails_closed_bind:
  "keeps au_out m \<Longrightarrow> (\<And>x. fails_closed (f x)) \<Longrightarrow> fails_closed (bind_prog m f)"
  unfolding fails_closed_def bind_prog_Inl keeps_def by (metis snd_conv)

definition never_auth_error :: "('r, 'a) auth \<Rightarrow> bool" where
  "never_auth_error p = (\<forall>a e a1. p a = (Inl e, a1) \<longrightarrow> \<not> is_auth_error e)"

lemma fails_closed_then:
  "fails_closed m \<Longrightarrow> (\<And>x. never_auth_error (f x)) \<Longrightarrow> fails_closed (bind_prog m f)"
  unfolding fails_closed_def bind_prog_Inl never_auth_error_def by metis

lemma never_auth_error_accept_user:
  assumes "\<And>n e. am_groupnames (ae_module E) n = Inl e \<Longrightarrow> \<not> is_auth_error e"
  shows "never_auth_error (accept_user E now u)"
  unfolding never_auth_error_def accept_user_def
  by (auto simp: bind_prog_Inl bind_prog_Inr on_au_session_def user_is_admin_def user_is_read_only_def bind_res_Inl_iff dest: assms)

lemma fails_closed_never: "never_auth_error p \<Longrightarrow> fails_closed p"
  by (auto simp: fails_closed_def never_auth_error_def)

lemma fails_closed_host: "fails_closed (authenticate_host E now cn)"
proof -
  have "never_auth_error (accept_host E now h)" for h
    unfolding never_auth_error_def by (metis accept_host_succeeds fst_conv isl_def)
  then show ?thesis
    unfolding authenticate_host_def case_prod_beta
    by (intro fails_closed_bind fails_closed_never keeps_intros) auto
qed

lemma fails_closed_passwd: "fails_closed (authenticate_user_passwd E now)"
  unfolding authenticate_user_passwd_def
  by (intro fails_closed_bind keeps_intros) (auto simp: fails_closed_def on_au_session_def auth_fails_def)

lemma fails_closed_user:
  assumes "\<And>n e. am_groupnames (ae_module E) n = Inl e \<Longrightarrow> \<not> is_auth_error e"
  shows "fails_closed (authenticate_user E now hs cn otp)"
  unfolding authenticate_user_def case_prod_beta
  by (intro fails_closed_bind fails_closed_never never_auth_error_accept_user keeps_intros) (auto dest: assms)

lemma au_store_never: "never_auth_error (au_store E now)"
  by (auto simp: never_auth_error_def au_store_def store_session_def redis_key_def Let_def is_auth_error_def
      split: prod.splits if_splits sum.splits option.splits)

lemma keeps_check_blocked [keeps_intros]: "keeps (au_same addr fl) (check_blocked E now ad)" "keeps au_out (check_blocked E now ad)"
  by (auto simp: keeps_def check_blocked_def)

lemma keeps_au_store: "keeps (au_same addr fl) (au_store E now)"
  using au_store_keeps by (fastforce simp: keeps_def au_store_def split: prod.splits)

lemma inner_structure:
  "authenticate_inner E now hs cn name pw otp =
     then_prog (on_au_session (set_authenticated now False))
     (bind_prog (gets_prog au_session) (\<lambda>s.
     then_prog (lift_prog (check_min_configed_version E (user_agent s)))
     (then_prog (check_blocked E now (client_addr s))
     (then_prog (on_au_session (\<lambda>s. (set_username now (py_lower name) s)\<lparr>password := Some pw\<rparr>))
     (then_prog (guard_auth (pw \<noteq> []) ''No password specified'')
     (then_prog (auth_method_step E now hs cn (py_lower name) otp)
     (then_prog (au_store E now)
     (\<lambda>a. if username (au_session a) = [] \<or> \<not> authenticated (au_session a)
          then (Inl (BackendPermissionDeniedError ''Not authenticated''), a)
          else on_au_session (check_admin_networks E now) a))))))))"
  by (simp add: authenticate_inner_def auth_method_step_def)

lemma inner_keeps_same: "keeps (au_same addr fl) (authenticate_inner E now hs cn name pw otp)"
proof -
  have "keeps (au_same addr fl) (\<lambda>a. if username (au_session a) = [] \<or> \<not> authenticated (au_session a)
      then (Inl (BackendPermissionDeniedError ''Not authenticated''), a) else on_au_session (check_admin_networks E now) a)"
    by (auto simp: keeps_def on_au_session_def check_admin_networks_post)
  then show ?thesis
    unfolding inner_structure by (intro keeps_intros keeps_same_step keeps_au_store) auto
qed

lemma inner_fails_closed:
  assumes "\<And>n e. am_groupnames (ae_module E) n = Inl e \<Longrightarrow> \<not> is_auth_error e"
    and "authenticate_inner E now hs cn name pw otp a = (Inl e, a1)" "is_auth_error e"
  shows "au_out a1"
proof -
  let ?rest = "\<lambda>s. then_prog (lift_prog (check_min_configed_version E (user_agent s)))
     (then_prog (check_blocked E now (client_addr s))
     (then_prog (on_au_session (\<lambda>s. (set_username now (py_lower name) s)\<lparr>password := Some pw\<rparr>))
     (then_prog (guard_auth (pw \<noteq> []) ''No password specified'')
     (then_prog (auth_method_step E now hs cn (py_lower name) otp)
     (then_prog (au_store E now)
     (\<lambda>a. if username (au_session a) = [] \<or> \<not> authenticated (au_session a)
          then (Inl (BackendPermissionDeniedError ''Not authenticated''), a)
          else on_au_session (check_admin_networks E now) a))))))"
  have tail: "never_auth_error (then_prog (au_store E now)
     (\<lambda>a. if username (au_session a) = [] \<or> \<not> authenticated (au_session a)
          then (Inl (BackendPermissionDeniedError ''Not authenticated''), a)
          else on_au_session (check_admin_networks E now) a))"
    using au_store_never[of E now]
    by (auto simp: never_auth_error_def bind_prog_Inl on_au_session_def is_auth_error_def split: if_splits)
  have "fails_closed (auth_method_step E now hs cn (py_lower name) otp)"
    using fails_closed_passwd[of E now] fails_closed_host[of E now cn] fails_closed_user[of E now hs cn otp] assms(1)
    by (auto simp: auth_method_step_def)
  then have closed: "fails_closed (?rest s)" for s
    by (intro fails_closed_bind fails_closed_then[OF _ tail] keeps_intros) auto
  have run: "?rest (set_authenticated now False (au_session a)) (a\<lparr>au_session := set_authenticated now False (au_session a)\<rparr>) = (Inl e, a1)"
    using assms(2) by (simp add: inner_structure on_au_session_def)
  show ?thesis by (rule fails_closedD[OF closed _ run assms(3)]) simp
qed

text \<open>
  C13. Authentication fails closed: when it ends with an authentication error the session is
  not authenticated, whatever it was before, and the failure is recorded for the address of the
  client, where it counts towards blocking. (Reading the groups of a user must not itself raise
  an authentication error.)
\<close>

theorem authentication_fails_closed:
  assumes "\<And>n e. am_groupnames (ae_module E) n = Inl e \<Longrightarrow> \<not> is_auth_error e"
    and "authenticate E now hs cn name pw otp a = (Inl e, a1)" "is_auth_error e"
  shows "\<not> authenticated (au_session a1) \<and>
    dd_failures (au_failed a1) (stats_key E ''failed_auth'' (client_addr (au_session a))) =
    dd_failures (au_failed a) (stats_key E ''failed_auth'' (client_addr (au_session a))) @ [now div 1000]"
proof -
  obtain b where b: "authenticate_inner E now hs cn name pw otp a = (Inl e, b)" "a1 = record_failure E now (client_addr (au_session b)) b"
    using assms(2,3) by (auto simp: authenticate_def catch_prog_def split: prod.splits sum.splits)
  have same: "client_addr (au_session b) = client_addr (au_session a)" "au_failed b = au_failed a"
    using keepsD[OF inner_keeps_same _ b(1), of "client_addr (au_session a)" "au_failed a"] by simp_all
  have "au_out b" by (rule inner_fails_closed[OF assms(1) b(1) assms(3)])
  then show ?thesis by (auto simp: b(2) record_failure_def Let_def dd_failures_def same)
qed

lemma example_failed:
  assumes "pw \<noteq> []" "py_lower name \<noteq> monitoring_user (ae_cfg (example_auth_env am))" "\<not> is_host_name (py_lower name)"
    and "authenticate_user (example_auth_env am) 6000000 hs cn otp (example_input (py_lower name) pw) = (Inl e, c)"
  shows "authenticate (example_auth_env am) 6000000 hs cn name pw otp example_auth_state =
    (Inl e, if is_auth_error e then record_failure (example_auth_env am) 6000000 (client_addr (au_session c)) c else c)"
proof -
  have "auth_method_step (example_auth_env am) 6000000 hs cn (py_lower name) otp (example_input (py_lower name) pw) = (Inl e, c)"
    using assms(2-4) by (simp add: auth_method_step_user)
  from authenticate_composed[OF example_run_start(1) assms(1) example_run_start(2)[unfolded example_start_def],
      folded example_start_def, folded example_input_def, OF this] show ?thesis by simp
qed

lemma run_error: "fst x = Inl e \<Longrightarrow> x = (Inl e, snd x)"
  by (cases x) simp

theorem authentication_fails_closed_witness:
  "\<exists>e a1. authenticate (example_auth_env example_module) 6000000 [] None ''adminuser'' ''wrong'' None example_auth_state = (Inl e, a1) \<and>
     \<not> authenticated (au_session a1) \<and>
     dd_failures (au_failed a1) (stats_key (example_auth_env example_module) ''failed_auth'' (client_addr (au_session example_auth_state))) = [6000]"
proof -
  let ?E = "example_auth_env example_module"
  have kind: "py_lower ''adminuser'' \<noteq> monitoring_user (ae_cfg ?E)" "\<not> is_host_name (py_lower ''adminuser'')" by code_simp+
  have "fst (authenticate_user ?E 6000000 [] None None (example_input (py_lower ''adminuser'') ''wrong'')) =
      Inl (BackendAuthenticationError ''Authentication failed for user'')" by code_simp
  from example_failed[OF _ kind run_error[OF this]] obtain a1 where
    r: "authenticate ?E 6000000 [] None ''adminuser'' ''wrong'' None example_auth_state =
      (Inl (BackendAuthenticationError ''Authentication failed for user''), a1)" by auto
  have g: "am_groupnames (ae_module ?E) n = Inl e \<Longrightarrow> \<not> is_auth_error e" for n e
    by (simp add: example_auth_env_def example_module_def)
  have "au_failed example_auth_state = []" by (simp add: example_auth_state_def)
  with authentication_fails_closed[OF g r] r show ?thesis by (simp add: is_auth_error_def dd_failures_def)
qed

definition failing_groups :: auth_module where
  "failing_groups = example_module\<lparr>am_groupnames := (\<lambda>n. Inl (KeyError n))\<rparr>"

text \<open>
  Any other error does not fail closed: the session is marked as authenticated before the
  groups of the user are looked up. When the lookup fails (the user is not known to the system's
  password database, say), the request ends with an error, but the session stays authenticated,
  with the admin and read-only flags it had before.
\<close>

theorem group_lookup_failure_stays_authenticated:
  "case authenticate (example_auth_env failing_groups) 6000000 [] None ''adminuser'' ''linux123'' None example_auth_state of
     (Inr _, _) \<Rightarrow> False
   | (Inl e, a1) \<Rightarrow> e = KeyError ''adminuser'' \<and> authenticated (au_session a1) \<and> username (au_session a1) = ''adminuser'' \<and>
       \<not> is_read_only (au_session a1)"
proof -
  let ?E = "example_auth_env failing_groups"
  define c where "c = snd (authenticate_user ?E 6000000 [] None None (example_input (py_lower ''adminuser'') ''linux123''))"
  have kind: "py_lower ''adminuser'' \<noteq> monitoring_user (ae_cfg ?E)" "\<not> is_host_name (py_lower ''adminuser'')" by code_simp+
  have "case authenticate_user ?E 6000000 [] None None (example_input (py_lower ''adminuser'') ''linux123'') of (r, c) \<Rightarrow>
      r = Inl (KeyError ''adminuser'') \<and> authenticated (au_session c) \<and> username (au_session c) = ''adminuser'' \<and> \<not> is_read_only (au_session c)"
    by code_simp
  then have run: "fst (authenticate_user ?E 6000000 [] None None (example_input (py_lower ''adminuser'') ''linux123'')) = Inl (KeyError ''adminuser'')"
    "authenticated (au_session c)" "username (au_session c) = ''adminuser''" "\<not> is_read_only (au_session c)"
    unfolding c_def by (simp_all add: case_prod_beta)
  then show ?thesis
    unfolding example_failed[OF list.discI[OF refl] kind run_error[OF run(1)]] c_def by (simp add: is_auth_error_def)
qed

end
