(* ===== verification/Middleware.thy ===== *)
theory Middleware
  imports Authentication
begin

text \<open>
  The session middleware (\<open>opsiconfd/session.py\<close>, class \<open>SessionMiddleware\<close>): every request
  passes it before the application sees it. It refuses requests on overload, in maintenance and
  from foreign networks, finds the session, determines the access role of the path, checks the
  access, and turns exceptions into responses. Add-ons, which may answer a request for their
  path themselves, are a parameter. The end points of \<open>opsiconfd/application/session.py\<close> are here too.
\<close>

section \<open>Data\<close>

record maintenance =
  mt_retry_after :: int
  mt_address_exceptions :: "string list"

record 'r server =
  sv_manager :: "'r session_manager"
  sv_hosts :: "host list"
  sv_users :: "user list"
  sv_failed :: "(string \<times> int list) list"
  sv_blocked :: "(string \<times> int) list"
  sv_roles :: "(string \<times> string set) list"
  sv_overload_until :: int
  sv_maintenance :: "maintenance option"

record http_request = request +
  rq_type :: string
  rq_addr :: string
  rq_jsonrpc20 :: bool

datatype handled = By_addon | Passed "opsisession option"

record middleware =
  mw_public_path :: "string list"
  mw_addon :: "string \<Rightarrow> bool"

section \<open>Overload and maintenance\<close>

definition set_overload :: "int \<Rightarrow> int \<Rightarrow> 'r server \<Rightarrow> 'r server" where
  "set_overload now duration sv = sv\<lparr>sv_overload_until := now + usec * duration\<rparr>"

definition check_overload :: "int \<Rightarrow> 'r server \<Rightarrow> int \<times> 'r server" where
  "check_overload now sv =
     (if sv_overload_until sv \<le> 0 then (0, sv)
      else let time_left = sv_overload_until sv - now
           in if time_left \<le> 0 then (0, sv\<lparr>sv_overload_until := 0\<rparr>) else (time_left, sv))"

definition check_available :: "'r auth_env \<Rightarrow> int \<Rightarrow> string \<Rightarrow> ('r server, unit) prog" where
  "check_available E now addr = (\<lambda>sv.
     let (time_left, sv) = check_overload now sv in
     if time_left \<noteq> 0 \<and> addr \<notin> {''127.0.0.1'', ''::1''} then (Inl (HTTPException 503 ''Server overload''), sv)
     else (case sv_maintenance sv of
         None \<Rightarrow> (Inr (), sv)
       | Some mt \<Rightarrow>
           if list_ex (ae_in_network E addr) (mt_address_exceptions mt) then (Inr (), sv)
           else (Inl (HTTPException 503 ''maintenance''), sv)))"

section \<open>Requests\<close>

text \<open>Authentication code runs on the session of the request and the shared tables.\<close>

definition auth_state_of :: "opsisession \<Rightarrow> 'r server \<Rightarrow> 'r auth_state" where
  "auth_state_of s sv =
     \<lparr>au_session = s, au_red = sm_red (sv_manager sv), au_depots = sm_depots (sv_manager sv), au_hosts = sv_hosts sv, au_users = sv_users sv,
      au_failed = sv_failed sv, au_blocked = sv_blocked sv, au_new_host_id = None, au_roles = sv_roles sv\<rparr>"

definition keep_session :: "opsisession \<Rightarrow> 'r session_manager \<Rightarrow> 'r session_manager" where
  "keep_session s m =
     (case session_id s of
        None \<Rightarrow> m
      | Some i \<Rightarrow> if dict_has (sm_sessions m) i then put_session i s m else m)"

definition server_after :: "'r auth_state \<Rightarrow> 'r server \<Rightarrow> 'r server" where
  "server_after a sv =
     sv\<lparr>sv_manager := keep_session (au_session a) ((sv_manager sv)\<lparr>sm_red := au_red a, sm_depots := au_depots a\<rparr>),
        sv_hosts := au_hosts a, sv_users := au_users a, sv_failed := au_failed a, sv_blocked := au_blocked a, sv_roles := au_roles a\<rparr>"

definition run_auth :: "('r, 'a) auth \<Rightarrow> opsisession \<Rightarrow> ('r server, 'a \<times> opsisession) prog" where
  "run_auth p s = (\<lambda>sv.
     case p (auth_state_of s sv) of
       (Inl e, a) \<Rightarrow> (Inl e, server_after a sv)
     | (Inr x, a) \<Rightarrow> (Inr (x, au_session a), server_after a sv))"

definition request_session ::
  "'r auth_env \<Rightarrow> int \<Rightarrow> string \<Rightarrow> string \<Rightarrow> access_role \<Rightarrow> http_request \<Rightarrow> ('r server, opsisession option) prog" where
  "request_session E now new_id new_version role rq = (\<lambda>sv.
     let sid = get_session_id_from_headers (rq_headers rq) in
     if role \<noteq> Role_public \<or> opt_str sid \<noteq> [] then
       (case get_session (ae_session E) now new_id new_version (rq_addr rq) (rq_headers rq) sid (sv_manager sv) of
          (Inl e, m) \<Rightarrow> (Inl e, sv\<lparr>sv_manager := m\<rparr>)
        | (Inr s, m) \<Rightarrow> (Inr (Some s), sv\<lparr>sv_manager := m\<rparr>))
     else (Inr None, sv))"

definition check_file_admin :: "'r auth_env \<Rightarrow> string list \<Rightarrow> http_request \<Rightarrow> opsisession option \<Rightarrow> unit result" where
  "check_file_admin E public_path rq session =
     (case session of
        None \<Rightarrow> Inr ()
      | Some s \<Rightarrow>
          if default_access_role public_path (rq_path rq) = Role_admin \<and> session_host s = None \<and> py_startswith (rq_path rq) ''/depot'' \<and>
             fileadmingroup (config_groups (ae_cfg E)) \<notin> user_groups s
          then Inl (BackendPermissionDeniedError ''Not a file admin user'') else Inr ())"

definition check_request :: "'r auth_env \<Rightarrow> int \<Rightarrow> access_role \<Rightarrow> http_request \<Rightarrow> opsisession option \<Rightarrow> ('r server, opsisession option) prog" where
  "check_request E now role rq session =
     (case session of
        None \<Rightarrow> return_prog None
      | Some s \<Rightarrow>
          bind_prog (run_auth (check_access E now role (request.truncate rq)) s) (\<lambda>(_, s1). return_prog (Some s1)))"

definition handle_request ::
  "'r auth_env \<Rightarrow> middleware \<Rightarrow> int \<Rightarrow> string \<Rightarrow> string \<Rightarrow> http_request \<Rightarrow> ('r server, handled) prog" where
  "handle_request E M now new_id new_version rq =
     then_prog (check_available E now (rq_addr rq))
     (then_prog (lift_prog (check_network E (rq_addr rq)))
     (if rq_type rq \<notin> {''http'', ''websocket''} then return_prog (Passed None)
      else
        let role = required_access_role (mw_public_path M) (request.truncate rq) in
        bind_prog (request_session E now new_id new_version role rq) (\<lambda>session.
        if py_startswith (rq_path rq) ''/addons'' \<and> mw_addon M (rq_path rq) then return_prog By_addon
        else
          bind_prog (check_request E now role rq session) (\<lambda>session.
          then_prog (lift_prog (check_file_admin E (mw_public_path M) rq session))
            (return_prog (Passed session))))))"

section \<open>Error responses\<close>

definition exception_status :: "py_error \<Rightarrow> nat" where
  "exception_status e =
     (case e of
        BackendAuthenticationError _ \<Rightarrow> 401
      | BackendPermissionDeniedError _ \<Rightarrow> 401
      | ConnectionRefusedError _ \<Rightarrow> 403
      | HTTPException n _ \<Rightarrow> n
      | OtherError k \<Rightarrow> (if k = ''ValidationException'' then 422 else 500)
      | _ \<Rightarrow> 500)"

datatype response_kind = Resp_close nat | Resp_rpc bool | Resp_json | Resp_login | Resp_plain

record response =
  rs_status :: nat
  rs_kind :: response_kind
  rs_www_authenticate :: bool
  rs_headers :: headers

definition websocket_close_code :: "nat \<Rightarrow> nat" where
  "websocket_close_code code = (if code = 500 then 1011 else if code = 503 then 1013 else 1008)"

definition admin_page :: "string \<Rightarrow> bool" where
  "admin_page path =
     (let p = py_lower path;
          p = (case py_split1 CHR ''#'' p of None \<Rightarrow> p | Some (a, _) \<Rightarrow> a)
      in py_rstrip_char CHR ''/'' p \<in> {''/admin'', ''/admin/grafana''})"

definition wants_json :: "headers \<Rightarrow> bool" where
  "wants_json hs = py_contains ''application/json'' (opt_str (hdr_get hs ''accept''))"

definition response_kind_of :: "http_request \<Rightarrow> nat \<Rightarrow> response_kind" where
  "response_kind_of rq code =
     (if rq_type rq = ''websocket'' then Resp_close (websocket_close_code code)
      else if py_startswith (rq_path rq) ''/rpc'' then Resp_rpc (rq_jsonrpc20 rq)
      else if wants_json (rq_headers rq) then Resp_json
      else if code = 401 \<and> admin_page (rq_path rq) then Resp_login
      else Resp_plain)"

text \<open>A redirect to the login page is sent with the status 307 of \<open>RedirectResponse\<close>.\<close>

definition handle_request_exception :: "int \<Rightarrow> http_request \<Rightarrow> opsisession option \<Rightarrow> py_error \<Rightarrow> response" where
  "handle_request_exception now rq session e =
     (let code = exception_status e; kind = response_kind_of rq code
      in \<lparr>rs_status = (if kind = Resp_login then 307 else code), rs_kind = kind,
          rs_www_authenticate = (code = 401 \<and> py_lower (opt_str (hdr_get (rq_headers rq) ''x-requested-with'')) \<noteq> ''xmlhttprequest''),
          rs_headers = (case session of
             None \<Rightarrow> []
           | Some s \<Rightarrow> if rq_type rq = ''websocket'' then [] else add_cookie_to_headers now s [])\<rparr>)"

text \<open>The headers of a regular response: the cookie of the session and, for a host that
  authenticated under another name, its host id.\<close>

definition send_wrapper :: "int \<Rightarrow> opsisession option \<Rightarrow> string option \<Rightarrow> headers \<Rightarrow> headers" where
  "send_wrapper now session new_host_id hs =
     (let hs = (case session of None \<Rightarrow> hs | Some s \<Rightarrow> add_cookie_to_headers now s hs)
      in case new_host_id of None \<Rightarrow> hs | Some i \<Rightarrow> hs @ [(''x-opsi-new-host-id'', i)])"

section \<open>Session end points\<close>

definition login :: "'r auth_env \<Rightarrow> int \<Rightarrow> headers \<Rightarrow> string option \<Rightarrow> string \<Rightarrow> string \<Rightarrow> string option \<Rightarrow> ('r, string option \<times> bool) auth" where
  "login E now hs cn name pw otp =
     then_prog (authenticate E now hs cn name pw otp) (gets_prog (\<lambda>a. (session_id (au_session a), is_admin (au_session a))))"

definition logout :: "'r session_env \<Rightarrow> ('r session_mem, unit) prog" where
  "logout E = delete_session E"

definition authenticated_endpoint :: "opsisession option \<Rightarrow> nat" where
  "authenticated_endpoint session = (case session of Some s \<Rightarrow> if authenticated s then 200 else 401 | None \<Rightarrow> 401)"

section \<open>Authorisation of requests\<close>

lemma authenticate_post:
  assumes "authenticate E now hs cn name pw otp a = (Inr (), a1)"
  shows "authenticated (au_session a1) \<and> username (au_session a1) \<noteq> [] \<and> client_addr (au_session a1) = client_addr (au_session a)"
proof -
  obtain d where d: "a1 = d\<lparr>au_session := check_admin_networks E now (au_session d)\<rparr>"
    "username (au_session d) \<noteq> []" "authenticated (au_session d)"
    using assms by (rule authenticate_run)
  have "authenticate_inner E now hs cn name pw otp a = (Inr (), a1)"
    using assms by (auto simp: authenticate_def catch_prog_def split: prod.splits sum.splits)
  from keepsD[OF inner_keeps_same _ this, of "client_addr (au_session a)" "au_failed a"] d show ?thesis
    by (simp add: check_admin_networks_post)
qed

lemma check_access_post:
  assumes "check_access E now role rq a = (Inr (), a1)" "role \<noteq> Role_public"
  shows "authenticated (au_session a1) \<and> username (au_session a1) \<noteq> [] \<and> client_addr (au_session a1) = client_addr (au_session a) \<and>
    (role = Role_admin \<longrightarrow> is_admin (au_session a1))"
proof (cases "username (au_session a) = [] \<or> \<not> authenticated (au_session a)")
  case True
  then obtain name pw where "authenticate E now (rq_headers rq) (rq_peer_cn rq) name pw None a = (Inr (), a1)"
    "role = Role_admin \<longrightarrow> is_admin (au_session a1)"
    using assms by (auto simp: check_access_def bind_prog_Inr split: if_splits prod.splits)
  then show ?thesis using authenticate_post by blast
next
  case False
  then show ?thesis using assms by (auto simp: check_access_def bind_prog_Inr split: if_splits)
qed

lemma check_request_post:
  assumes "check_request E now role rq so sv = (Inr s1, sv1)" "role \<noteq> Role_public" "so = Some s"
  shows "\<exists>t. s1 = Some t \<and> authenticated t \<and> username t \<noteq> [] \<and> client_addr t = client_addr s \<and> (role = Role_admin \<longrightarrow> is_admin t)"
proof -
  obtain a1 where "check_access E now role (request.truncate rq) (auth_state_of s sv) = (Inr (), a1)" "s1 = Some (au_session a1)"
    using assms(1,3) by (auto simp: check_request_def bind_prog_Inr run_auth_def split: prod.splits sum.splits)
  with check_access_post[OF this(1) assms(2)] show ?thesis by (simp add: auth_state_of_def)
qed

lemma request_session_post:
  assumes "request_session E now new_id new_version role rq sv = (Inr so, sv1)" "role \<noteq> Role_public" "sm_wf (sv_manager sv)"
  shows "\<exists>s. so = Some s \<and> client_addr s = rq_addr rq"
proof -
  obtain s m where "get_session (ae_session E) now new_id new_version (rq_addr rq) (rq_headers rq)
      (get_session_id_from_headers (rq_headers rq)) (sv_manager sv) = (Inr s, m)" "so = Some s"
    using assms(1,2) by (auto simp: request_session_def Let_def split: prod.splits sum.splits)
  with get_session_spec[OF this(1) assms(3)] show ?thesis by simp
qed

lemma check_available_manager: "check_available E now addr sv = (r, sv1) \<Longrightarrow> sv_manager sv1 = sv_manager sv"
  by (auto simp: check_available_def check_overload_def Let_def split: if_splits option.splits)

text \<open>
  C1. Only authorised requests reach the application. If a request is passed on, its address is
  in an allowed network; and unless its path is public, its session belongs to that address and
  is authenticated, is that of an admin where the path demands one, and for file access below
  /depot by a user is that of a member of the file admin group.
\<close>

theorem passed_requests_authorized:
  assumes "handle_request E M now new_id new_version rq sv = (Inr (Passed so), sv1)"
    and "rq_type rq \<in> {''http'', ''websocket''}" "sm_wf (sv_manager sv)"
    and "required_access_role (mw_public_path M) (request.truncate rq) \<noteq> Role_public"
  shows "check_network E (rq_addr rq) = Inr () \<and>
    (\<exists>s. so = Some s \<and> authenticated s \<and> username s \<noteq> [] \<and> client_addr s = rq_addr rq \<and>
      (required_access_role (mw_public_path M) (request.truncate rq) = Role_admin \<longrightarrow> is_admin s) \<and>
      (py_startswith (rq_path rq) ''/depot'' \<and> default_access_role (mw_public_path M) (rq_path rq) = Role_admin \<and> session_host s = None \<longrightarrow>
        fileadmingroup (config_groups (ae_cfg E)) \<in> user_groups s))"
proof -
  let ?role = "required_access_role (mw_public_path M) (request.truncate rq)"
  obtain sv2 so1 sv3 so2 sv4 where s: "check_available E now (rq_addr rq) sv = (Inr (), sv2)" "check_network E (rq_addr rq) = Inr ()"
    "request_session E now new_id new_version ?role rq sv2 = (Inr so1, sv3)"
    "check_request E now ?role rq so1 sv3 = (Inr so2, sv4)" "check_file_admin E (mw_public_path M) rq so2 = Inr ()" "so = so2"
    using assms(1,2) by (auto simp: handle_request_def Let_def bind_prog_Inr split: if_splits)
  obtain s1 where s1: "so1 = Some s1" "client_addr s1 = rq_addr rq"
    using request_session_post[OF s(3) assms(4)] check_available_manager[OF s(1)] assms(3) by auto
  from check_request_post[OF s(4) assms(4) s1(1)] s(2,5,6) s1(2) show ?thesis
    by (auto simp: check_file_admin_def split: if_splits)
qed

definition example_server :: "alist_redis server" where
  "example_server = \<lparr>sv_manager = example_manager\<lparr>sm_sessions := map (\<lambda>(k, s). (k, s\<lparr>username := ''adminuser'', is_admin := True\<rparr>)) (sm_sessions example_manager)\<rparr>,
     sv_hosts = [], sv_users = [], sv_failed = [], sv_blocked = [], sv_roles = [], sv_overload_until = 0, sv_maintenance = None\<rparr>"

definition example_request_admin :: http_request where
  "example_request_admin = \<lparr>rq_path = ''/admin'', rq_method = ''GET'', rq_headers = [(''cookie'', ''opsiconfd-session=ab12'')], rq_peer_cn = None,
     rq_type = ''http'', rq_addr = ''10.1.1.1'', rq_jsonrpc20 = False\<rparr>"

definition example_middleware :: middleware where
  "example_middleware = \<lparr>mw_public_path = [''/static''], mw_addon = (\<lambda>p. False)\<rparr>"

theorem passed_requests_authorized_witness:
  "\<exists>s sv1. handle_request (example_auth_env example_module) example_middleware 6000000 ''cd34'' ''v2'' example_request_admin example_server =
     (Inr (Passed (Some s)), sv1) \<and> authenticated s \<and> is_admin s"
proof -
  let ?r = "handle_request (example_auth_env example_module) example_middleware 6000000 ''cd34'' ''v2'' example_request_admin example_server"
  have "case fst ?r of Inr (Passed _) \<Rightarrow> True | _ \<Rightarrow> False" by code_simp
  then obtain so where r: "?r = (Inr (Passed so), snd ?r)" by (cases ?r) (auto split: sum.splits handled.splits)
  have h: "rq_type example_request_admin \<in> {''http'', ''websocket''}"
    "required_access_role (mw_public_path example_middleware) (request.truncate example_request_admin) = Role_admin" by code_simp+
  have "session_id example_session = Some ''ab12''" by code_simp
  then have wf: "sm_wf (sv_manager example_server)" by (auto simp: sm_wf_def example_server_def example_manager_def dict_wf_def)
  from passed_requests_authorized[OF r h(1) wf] h(2) r show ?thesis by auto
qed

end
