(* ===== verification/Mysql_Columns.thy ===== *)
theory Mysql_Columns
  imports Access
begin

text \<open>
  The columns a caller may read (\<open>opsiconfd/backend/mysql/__init__.py\<close>): the tables of the
  database, the names of columns and attributes, the select expression of every column under
  the caller's access control entries, and the clients the entries restrict a caller to.
  Expressions are kept as terms; \<open>show_expr\<close> gives the text the code builds. What the database
  makes of them is \<open>eval_expr\<close>, over the equality of its collation as a parameter.
\<close>

section \<open>Tables and columns\<close>

datatype sqlval = SNone | SBool bool | SInt int | SStr string | SList "sqlval list"

datatype sql_expr =
    ECol string string
  | ENull
  | EIf string string string sql_expr sql_expr

fun show_expr :: "sql_expr \<Rightarrow> string" where
  "show_expr (ECol t c) = ''`'' @ t @ ''`.`'' @ c @ ''`''"
| "show_expr ENull = ''NULL''"
| "show_expr (EIf t c i a b) =
     ''IF(`'' @ t @ ''`.`'' @ c @ ''`='' @ [CHR 0x27] @ i @ [CHR 0x27] @ '','' @ show_expr a @ '','' @ show_expr b @ '')''"

record column_info =
  ci_table :: string
  ci_column :: string
  ci_client_id_column :: bool
  ci_select :: "sql_expr option"

record mysql =
  my_connected :: bool
  my_tables :: "(string \<times> string list) list"
  my_client_id_column :: "(string \<times> string) list"

definition column_to_attribute_map :: "(string \<times> (string \<times> string) list) list" where
  "column_to_attribute_map =
     [(''USER'', [(''userId'', ''id'')]),
      (''CONFIG'', [(''configId'', ''id'')]),
      (''HOST'', [(''hostId'', ''id'')]),
      (''PRODUCT'', [(''productId'', ''id'')]),
      (''GROUP'', [(''groupId'', ''id'')]),
      (''LICENSE_CONTRACT'', [(''licenseContractId'', ''id'')]),
      (''SOFTWARE_LICENSE'', [(''softwareLicenseId'', ''id'')]),
      (''LICENSE_POOL'', [(''licensePoolId'', ''id'')])]"

definition column_to_attribute :: "string \<Rightarrow> string \<Rightarrow> string" where
  "column_to_attribute table col =
     (let d = (case map_of column_to_attribute_map table of None \<Rightarrow> [] | Some d \<Rightarrow> d)
      in case map_of d col of None \<Rightarrow> col | Some a \<Rightarrow> a)"

definition client_id_column0 :: "(string \<times> string) list" where
  "client_id_column0 =
     [(''HOST'', ''hostId''),
      (''PRODUCT_ON_CLIENT'', ''clientId''),
      (''CONFIG_STATE'', ''objectId''),
      (''PRODUCT_PROPERTY_STATE'', ''objectId''),
      (''SOFTWARE_CONFIG'', ''clientId''),
      (''LICENSE_ON_CLIENT'', ''clientId'')]"

text \<open>\<open>read_tables\<close>, from the rows of \<open>SHOW TABLES\<close> and the fields of \<open>SHOW COLUMNS\<close>.\<close>

definition read_tables :: "string list \<Rightarrow> (string \<Rightarrow> string list) \<Rightarrow> mysql \<Rightarrow> mysql" where
  "read_tables shown flds m =
     (let tables = fold (\<lambda>t d. dict_set (py_upper t) [] d) shown [];
          names = dict_keys tables
      in m\<lparr>my_tables := map (\<lambda>t. (t, remdups (flds t))) names,
           my_client_id_column :=
             fold (\<lambda>t d.
                let d1 = (if py_startswith t ''HARDWARE_CONFIG_'' then dict_set t ''hostId'' d else d)
                in if py_startswith t ''HARDWARE_DEVICE_'' then dict_set t '''' d1 else d1)
               names (my_client_id_column m)\<rparr>)"

section \<open>Select expressions\<close>

text \<open>The two tests of the loop over the entries.\<close>

definition ace_permits :: "rpcace \<Rightarrow> string \<Rightarrow> bool" where
  "ace_permits a attr =
     (\<not> (allowed_attributes a \<noteq> {} \<and> attr \<notin> allowed_attributes a) \<and>
      \<not> (denied_attributes a \<noteq> {} \<and> attr \<in> denied_attributes a))"

definition column_ace_step :: "string \<Rightarrow> rpcace \<Rightarrow> bool \<times> rpcace option \<Rightarrow> bool \<times> rpcace option" where
  "column_ace_step attr a = (\<lambda>(selected, self_ace).
     if \<not> ace_permits a attr then (selected, self_ace)
     else if acetype a = ACE_self then (selected, Some a)
     else (True, self_ace))"

definition ace_id_text :: "rpcace \<Rightarrow> string" where
  "ace_id_text a = (case ace_id a of None \<Rightarrow> ''None'' | Some i \<Rightarrow> i)"

definition column_info_of ::
  "mysql \<Rightarrow> string \<Rightarrow> rpcace list \<Rightarrow> string list \<Rightarrow> string \<Rightarrow> string \<Rightarrow> column_info result" where
  "column_info_of m first_table aces attributes table col =
     (let attr = column_to_attribute table col;
          client_id_column = map_of (my_client_id_column m) first_table;
          ci = \<lparr>ci_table = table, ci_column = col,
                ci_client_id_column = (table = first_table \<and> client_id_column = Some col), ci_select = None\<rparr>
      in if attr = ''type'' then Inr (ci\<lparr>ci_select := Some (ECol table col)\<rparr>)
         else if attributes \<noteq> [] \<and> attr \<notin> set attributes then Inr ci
         else
           let (selected, self_ace) = fold (column_ace_step attr) aces (aces = [], None);
               e = (if selected then ECol table col else ENull)
           in case self_ace of
                None \<Rightarrow> if selected then Inr (ci\<lparr>ci_select := Some e\<rparr>) else Inr ci
              | Some a \<Rightarrow>
                  (case client_id_column of
                     None \<Rightarrow> Inl (RuntimeError ''No client id attribute defined'')
                   | Some c \<Rightarrow>
                       if c \<noteq> [] then Inr (ci\<lparr>ci_select := Some (EIf first_table c (ace_id_text a) (ECol table col) e)\<rparr>)
                       else Inr (ci\<lparr>ci_select := Some e\<rparr>)))"

definition get_columns_col ::
  "mysql \<Rightarrow> string \<Rightarrow> rpcace list \<Rightarrow> string list \<Rightarrow> string \<Rightarrow> string \<Rightarrow> (string \<times> column_info) list \<Rightarrow> (string \<times> column_info) list result" where
  "get_columns_col m first_table aces attributes table col res =
     (let attr = column_to_attribute table col in
      if dict_has res attr then Inr res
      else bind_res (column_info_of m first_table aces attributes table col) (\<lambda>ci. Inr (dict_set attr ci res)))"

definition get_columns ::
  "mysql \<Rightarrow> string list \<Rightarrow> rpcace list \<Rightarrow> string list \<Rightarrow> (string \<times> column_info) list result" where
  "get_columns m tables aces attributes =
     (case tables of
        [] \<Rightarrow> Inl IndexError
      | first_table # _ \<Rightarrow>
          fold_res (\<lambda>table res.
             case map_of (my_tables m) table of
               None \<Rightarrow> Inl (KeyError table)
             | Some cols \<Rightarrow> fold_res (get_columns_col m first_table aces attributes table) cols res) tables [])"

text \<open>\<open>None\<close>: every client; otherwise the clients the caller is restricted to.\<close>

fun get_allowed_client_ids :: "opsisession option \<Rightarrow> string list option \<Rightarrow> rpcace list \<Rightarrow> string list option" where
  "get_allowed_client_ids session allowed [] = allowed"
| "get_allowed_client_ids session allowed (a # aces) =
     (if acetype a = ACE_self then
        get_allowed_client_ids session
          (Some (case session of
                   None \<Rightarrow> []
                 | Some s \<Rightarrow> (case session_host s of None \<Rightarrow> [] | Some h \<Rightarrow> [host_id h]))) aces
      else None)"

section \<open>What the database evaluates\<close>

type_synonym sql_row = "string \<Rightarrow> string \<Rightarrow> sqlval"

fun eval_expr :: "(sqlval \<Rightarrow> sqlval \<Rightarrow> bool) \<Rightarrow> sql_row \<Rightarrow> sql_expr \<Rightarrow> sqlval" where
  "eval_expr eq r (ECol t c) = r t c"
| "eval_expr eq r ENull = SNone"
| "eval_expr eq r (EIf t c i a b) = (if eq (r t c) (SStr i) then eval_expr eq r a else eval_expr eq r b)"

lemma column_ace_fold:
  "fold (column_ace_step attr) aces (sel, sf) =
     (sel \<or> (\<exists>a \<in> set aces. ace_permits a attr \<and> acetype a \<noteq> ACE_self),
      case filter (\<lambda>a. ace_permits a attr \<and> acetype a = ACE_self) aces of [] \<Rightarrow> sf | l \<Rightarrow> Some (last l))"
proof (induction aces arbitrary: sel sf)
  case (Cons a aces)
  have step: "column_ace_step attr a (sel, sf) = (sel \<or> (ace_permits a attr \<and> acetype a \<noteq> ACE_self),
      if ace_permits a attr \<and> acetype a = ACE_self then Some a else sf)"
    by (auto simp: column_ace_step_def)
  show ?case by (auto simp: step Cons.IH split: list.split)
qed simp

lemma column_info_of_client:
  "column_info_of m t aces attributes tb col = Inr c \<Longrightarrow>
    ci_client_id_column c = (tb = t \<and> map_of (my_client_id_column m) t = Some col)"
  by (auto simp: column_info_of_def Let_def split: if_splits option.splits prod.splits)

lemma get_columns_entry:
  assumes "get_columns m (t # ts) aces attributes = Inr cols" "(attr, ci) \<in> set cols"
  shows "attr = column_to_attribute (ci_table ci) (ci_column ci) \<and> ci_table ci \<in> set (t # ts) \<and>
    (\<exists>flds. map_of (my_tables m) (ci_table ci) = Some flds \<and> ci_column ci \<in> set flds) \<and>
    column_info_of m t aces attributes (ci_table ci) (ci_column ci) = Inr ci"
proof -
  let ?P = "\<lambda>res. \<forall>(attr, ci) \<in> set res. attr = column_to_attribute (ci_table ci) (ci_column ci) \<and> ci_table ci \<in> set (t # ts) \<and>
    (\<exists>flds. map_of (my_tables m) (ci_table ci) = Some flds \<and> ci_column ci \<in> set flds) \<and>
    column_info_of m t aces attributes (ci_table ci) (ci_column ci) = Inr ci"
  have named: "ci_table c = tb \<and> ci_column c = col" if "column_info_of m t aces attributes tb col = Inr c" for tb col c
    using that by (auto simp: column_info_of_def Let_def split: if_splits option.splits prod.splits)
  have col: "?P res1"
    if step: "get_columns_col m t aces attributes tb col res = Inr res1" and "?P res" "tb \<in> set (t # ts)"
      "map_of (my_tables m) tb = Some flds" "col \<in> set flds" for tb col res res1 flds
  proof (cases "dict_has res (column_to_attribute tb col)")
    case True
    then show ?thesis using that by (simp add: get_columns_col_def)
  next
    case False
    then obtain c where c: "column_info_of m t aces attributes tb col = Inr c"
      "res1 = dict_set (column_to_attribute tb col) c res"
      using step by (auto simp: get_columns_col_def bind_res_Inr_iff)
    have "res1 = res @ [(column_to_attribute tb col, c)]"
      using c(2) False by (simp add: dict_set_fresh dict_has_iff)
    then show ?thesis using that named[OF c(1)] c(1) by auto
  qed
  have table: "?P res1"
    if "(case map_of (my_tables m) tb of None \<Rightarrow> Inl (KeyError tb)
        | Some cols \<Rightarrow> fold_res (get_columns_col m t aces attributes tb) cols res) = Inr res1"
      "?P res" "tb \<in> set (t # ts)" for tb res res1
  proof (cases "map_of (my_tables m) tb")
    case (Some flds)
    with that(1) have "fold_res (get_columns_col m t aces attributes tb) flds res = Inr res1" by simp
    from fold_res_invariant[where P = ?P, OF this that(2)] show ?thesis
      using col[OF _ _ that(3) Some] by blast
  qed (use that in simp)
  have "?P cols"
    using assms(1) unfolding get_columns_def list.case
    by (rule fold_res_invariant[where P = ?P]) (use table in auto)
  with assms(2) show ?thesis by blast
qed

lemma get_columns_distinct:
  assumes "get_columns m tables aces attributes = Inr cols"
  shows "distinct (map fst cols)"
proof -
  have col: "distinct (map fst res1)" if "get_columns_col m t aces attributes tb c res = Inr res1" "distinct (map fst res)" for t tb c res res1
    using that by (auto simp: get_columns_col_def bind_res_Inr_iff Let_def distinct_update split: if_splits)
  have table: "distinct (map fst res1)"
    if "(case map_of (my_tables m) tb of None \<Rightarrow> Inl (KeyError tb)
        | Some cs \<Rightarrow> fold_res (get_columns_col m t aces attributes tb) cs res) = Inr res1"
      "distinct (map fst res)" for t tb res res1
    using that by (cases "map_of (my_tables m) tb")
      (auto elim!: fold_res_invariant[where P = "\<lambda>r. distinct (map fst r)"] intro: col)
  show ?thesis
    using assms by (cases tables)
      (auto simp: get_columns_def simp del: fold_res.simps elim!: fold_res_invariant[where P = "\<lambda>r. distinct (map fst r)"] intro: table)
qed

lemma column_access:
  assumes "get_columns m (t # ts) aces attributes = Inr cols" "(attr, ci) \<in> set cols"
    and "attr \<noteq> ''type''" "attributes = [] \<or> attr \<in> set attributes"
    and "\<forall>a \<in> set aces. acetype a = ACE_self \<longrightarrow> ace_id a = Some own"
  shows "(ci_select ci \<noteq> None \<longleftrightarrow> aces = [] \<or> (\<exists>a \<in> set aces. ace_permits a attr)) \<and>
    (\<forall>e. ci_select ci = Some e \<longrightarrow> eval_expr eq r e =
      (if aces = [] \<or> (\<exists>a \<in> set aces. acetype a \<noteq> ACE_self \<and> ace_permits a attr) \<or>
          (\<exists>a \<in> set aces. acetype a = ACE_self \<and> ace_permits a attr) \<and>
          (\<exists>c. map_of (my_client_id_column m) t = Some c \<and> c \<noteq> [] \<and> eq (r t c) (SStr own))
       then r (ci_table ci) (ci_column ci) else SNone))"
proof -
  note entry = get_columns_entry[OF assms(1,2)]
  let ?l = "filter (\<lambda>a. ace_permits a attr \<and> acetype a = ACE_self) aces"
  let ?sel = "aces = [] \<or> (\<exists>a \<in> set aces. ace_permits a attr \<and> acetype a \<noteq> ACE_self)"
  have info: "column_info_of m t aces attributes (ci_table ci) (ci_column ci) = Inr ci"
    and attr: "column_to_attribute (ci_table ci) (ci_column ci) = attr" using entry by simp_all
  show ?thesis
  proof (cases ?l rule: rev_cases)
    case Nil
    then have none: "\<not> (\<exists>a \<in> set aces. ace_permits a attr \<and> acetype a = ACE_self)"
      by (simp add: filter_empty_conv)
    have "ci_select ci = (if ?sel then Some (ECol (ci_table ci) (ci_column ci)) else None)"
      using info assms(3,4) unfolding column_info_of_def attr Let_def column_ace_fold Nil
      by (auto split: if_splits dest!: arg_cong[where f = ci_select])
    then show ?thesis using none by auto
  next
    case (snoc l a)
    then have "a \<in> set ?l" by simp
    then have a: "a \<in> set aces" "ace_permits a attr" "acetype a = ACE_self" by simp_all
    then have id: "ace_id_text a = own" using assms(5) by (simp add: ace_id_text_def)
    have last: "(case ?l of [] \<Rightarrow> None | l \<Rightarrow> Some (last l)) = Some a"
      unfolding snoc by (cases l) auto
    obtain c where c: "map_of (my_client_id_column m) t = Some c"
      using info assms(3,4) unfolding column_info_of_def attr Let_def column_ace_fold last
      by (auto split: if_splits option.splits)
    have e: "ci_select ci = Some (if c \<noteq> [] then EIf t c own (ECol (ci_table ci) (ci_column ci))
          (if ?sel then ECol (ci_table ci) (ci_column ci) else ENull)
        else if ?sel then ECol (ci_table ci) (ci_column ci) else ENull)"
      using info assms(3,4) unfolding column_info_of_def attr Let_def column_ace_fold last c id[symmetric]
      by (auto split: if_splits dest!: arg_cong[where f = ci_select])
    show ?thesis
    proof (cases ?sel)
      case True
      then have "ci_select ci = Some (if c \<noteq> [] then EIf t c own (ECol (ci_table ci) (ci_column ci)) (ECol (ci_table ci) (ci_column ci))
          else ECol (ci_table ci) (ci_column ci))" unfolding e by simp
      then show ?thesis using True a by auto
    next
      case False
      then have "ci_select ci = Some (if c \<noteq> [] then EIf t c own (ECol (ci_table ci) (ci_column ci)) ENull else ENull)"
        unfolding e by simp
      then show ?thesis using False a c by auto
    qed
  qed
qed

section \<open>Properties\<close>


text \<open>The host table, read by a client that has a \<open>self\<close> entry and one for all hosts without the host key.\<close>

definition example_mysql :: mysql where
  "example_mysql = \<lparr>my_connected = True, my_tables = [(''HOST'', [''hostId'', ''type'', ''opsiHostKey''])],
     my_client_id_column = client_id_column0\<rparr>"

definition host_aces :: "string \<Rightarrow> rpcace list" where
  "host_aces own =
     [example_acl\<lparr>ace_id := Some own\<rparr>,
      example_acl\<lparr>acetype := ACE_opsi_client, denied_attributes := {''opsiHostKey''}\<rparr>]"

definition host_key_column :: "string \<Rightarrow> column_info" where
  "host_key_column own = \<lparr>ci_table = ''HOST'', ci_column = ''opsiHostKey'', ci_client_id_column = False,
     ci_select = Some (EIf ''HOST'' ''hostId'' own (ECol ''HOST'' ''opsiHostKey'') ENull)\<rparr>"

lemma example_columns:
  "get_columns example_mysql [''HOST''] (host_aces own) [] =
     Inr [(''id'', \<lparr>ci_table = ''HOST'', ci_column = ''hostId'', ci_client_id_column = True,
              ci_select = Some (EIf ''HOST'' ''hostId'' own (ECol ''HOST'' ''hostId'') (ECol ''HOST'' ''hostId''))\<rparr>),
          (''type'', \<lparr>ci_table = ''HOST'', ci_column = ''type'', ci_client_id_column = False,
              ci_select = Some (ECol ''HOST'' ''type'')\<rparr>),
          (''opsiHostKey'', host_key_column own)]"
  by code_simp


text \<open>
  The \<open>self\<close> branch of \<open>_get_ace\<close> is not atomic: calls run in a thread pool, and the id is
  written into the shared entry before the copy is made. If a call of another client writes its
  id in between, the caller's copy carries the other client's id, and the columns built from it
  deliver the other client's row (its host key, say) to the caller.
\<close>

theorem self_ace_race:
  assumes "i < length objs" "acetype (objs ! i) = ACE_self" "ace_permits (objs ! i) attr" "attr \<noteq> ''type''"
    and "a = self_ace_copy i (self_ace_bind other i (self_ace_bind caller i objs))"
    and "get_columns m (t # ts) [a, b] [] = Inr cols" "(attr, ci) \<in> set cols" "acetype b \<noteq> ACE_self"
    and "map_of (my_client_id_column m) t = Some c" "c \<noteq> []" "eq (r t c) (SStr (username other))"
  shows "ci_select ci \<noteq> None \<and> eval_expr eq r (the (ci_select ci)) = r (ci_table ci) (ci_column ci)"
proof -
  have a: "a = (objs ! i)\<lparr>ace_id := Some (username other)\<rparr>"
    using assms(1) by (simp add: assms(5) self_ace_copy_def self_ace_bind_def)
  then have "ace_permits a attr" "acetype a = ACE_self" using assms(2,3) by (simp_all add: ace_permits_def)
  moreover have "\<forall>x \<in> set [a, b]. acetype x = ACE_self \<longrightarrow> ace_id x = Some (username other)"
    using a assms(8) by simp
  ultimately show ?thesis
    using column_access[OF assms(6,7,4) _ \<open>\<forall>x \<in> set [a, b]. _ x\<close>, of eq r] assms(9-11) by auto
qed

theorem self_ace_race_witness:
  "eval_expr (=) (\<lambda>t c. if c = ''hostId'' then SStr ''d1.opsi.org'' else SStr ''secret'')
     (the (ci_select (host_key_column ''d1.opsi.org''))) = SStr ''secret''"
proof -
  have a: "example_acl\<lparr>ace_id := Some ''d1.opsi.org''\<rparr> =
      self_ace_copy 0 (self_ace_bind depot_session 0 (self_ace_bind client_session 0 [example_acl]))"
    "0 < length [example_acl]" "acetype ([example_acl] ! 0) = ACE_self" "ace_permits ([example_acl] ! 0) ''opsiHostKey''"
    by code_simp+
  let ?cols = "[(''id'', \<lparr>ci_table = ''HOST'', ci_column = ''hostId'', ci_client_id_column = True,
              ci_select = Some (EIf ''HOST'' ''hostId'' ''d1.opsi.org'' (ECol ''HOST'' ''hostId'') (ECol ''HOST'' ''hostId''))\<rparr>),
          (''type'', \<lparr>ci_table = ''HOST'', ci_column = ''type'', ci_client_id_column = False,
              ci_select = Some (ECol ''HOST'' ''type'')\<rparr>),
          (''opsiHostKey'', host_key_column ''d1.opsi.org'')]"
  have col: "(''opsiHostKey'', host_key_column ''d1.opsi.org'') \<in> set ?cols" by simp
  have client: "map_of (my_client_id_column example_mysql) ''HOST'' = Some ''hostId''" "''hostId'' \<noteq> []"
    by code_simp+
  have other: "username depot_session = ''d1.opsi.org''" by code_simp
  show ?thesis
    using self_ace_race[OF a(2-4) _ a(1) example_columns[of "''d1.opsi.org''", unfolded host_aces_def] col _ client,
        of "(=)" "\<lambda>t c. if c = ''hostId'' then SStr ''d1.opsi.org'' else SStr ''secret''"] other
    by (simp add: host_key_column_def)
qed

end
