(* ===== verification/Mysql_Query.thy ===== *)
theory Mysql_Query
  imports Mysql_Columns
begin

text \<open>
  The statements the database layer builds (\<open>opsiconfd/backend/mysql/__init__.py\<close>): the WHERE
  clause of a filter, the SELECT of \<open>get_objects\<close>, identifiers, INSERT, UPDATE and DELETE
  statements under access control, and the retries of \<open>MySQLSession.execute\<close>. Conditions are
  kept as terms beside the text, so that what the database selects (\<open>atom_holds\<close>, over its
  comparison operators as a parameter) can be stated. The objects of \<open>opsicommon\<close> enter as the
  dictionaries and identifying attributes the code takes from them.
\<close>

section \<open>The WHERE clause\<close>

text \<open>The value of a filter: nothing, a list, another sequence, or a single value.\<close>

datatype fval = FNone | FList "sqlval list" | FSeq "sqlval list" | FOne sqlval

datatype pval = PVal sqlval | PList "sqlval list"

record sql_atom =
  at_table :: string
  at_column :: string
  at_op :: string
  at_param :: string

definition show_atom :: "sql_atom \<Rightarrow> string" where
  "show_atom a = ''`'' @ at_table a @ ''`.`'' @ at_column a @ ''` '' @ at_op a @ '' :'' @ at_param a"

definition next_param :: "(string \<times> pval) list \<Rightarrow> string" where
  "next_param params = ''p'' @ str_of_nat (length params + 1)"

fun filter_values :: "fval \<Rightarrow> sqlval list" where
  "filter_values FNone = []"
| "filter_values (FList vs) = vs"
| "filter_values (FSeq vs) = vs"
| "filter_values (FOne v) = [v]"

definition with_configserver :: "string \<Rightarrow> sqlval list \<Rightarrow> sqlval list" where
  "with_configserver f_attr values =
     (if f_attr = ''type'' \<and> SStr ''OpsiDepotserver'' \<in> set values \<and> SStr ''OpsiConfigserver'' \<notin> set values
      then values @ [SStr ''OpsiConfigserver''] else values)"

fun filter_operator :: "sqlval \<Rightarrow> string \<times> sqlval" where
  "filter_operator SNone = (''IS'', SNone)"
| "filter_operator (SBool b) = (''='', SInt (if b then 1 else 0))"
| "filter_operator (SStr s) =
     (if CHR ''*'' \<in> set s then (''LIKE'', SStr (map (\<lambda>c. if c = CHR ''*'' then CHR ''%'' else c) s))
      else if s \<noteq> [] \<and> (hd s = CHR ''<'' \<or> hd s = CHR ''>'') then ([hd s], SStr (tl s))
      else (''='', SStr s))"
| "filter_operator (SInt i) = (''='', SInt i)"
| "filter_operator (SList l) = (''='', SList l)"

definition where_value :: "column_info \<Rightarrow> sqlval \<Rightarrow> sql_atom list \<times> (string \<times> pval) list \<Rightarrow> sql_atom list \<times> (string \<times> pval) list" where
  "where_value col v = (\<lambda>(cond, params).
     let (operator, w) = filter_operator v;
         param = next_param params
     in (cond @ [\<lparr>at_table = ci_table col, at_column = ci_column col, at_op = operator, at_param = param\<rparr>],
         dict_set param (PVal w) params))"

definition where_filter ::
  "(string \<times> column_info) list \<Rightarrow> string \<times> fval \<Rightarrow> sql_atom list list \<times> (string \<times> pval) list \<Rightarrow>
    (sql_atom list list \<times> (string \<times> pval) list) result" where
  "where_filter columns f = (\<lambda>(conditions, params).
     let (f_attr, f_val) = f;
         values = filter_values f_val
     in case map_of columns f_attr of
          None \<Rightarrow> if f_attr \<noteq> ''type'' then Inl (ValueError ''Invalid filter'') else Inr (conditions, params)
        | Some col \<Rightarrow>
            if values = [] then Inr (conditions, params)
            else
              let values = with_configserver f_attr values in
              if 10 < length values then
                let param = next_param params in
                Inr (conditions @ [[\<lparr>at_table = ci_table col, at_column = ci_column col, at_op = ''IN'', at_param = param\<rparr>]],
                     dict_set param (PList values) params)
              else
                let (cond, params) = fold (where_value col) values ([], params)
                in Inr (conditions @ [cond], params))"

definition where_client ::
  "(string \<times> column_info) list \<Rightarrow> string list option \<Rightarrow> sql_atom list list \<times> (string \<times> pval) list \<Rightarrow>
    sql_atom list list \<times> (string \<times> pval) list" where
  "where_client columns allowed = (\<lambda>(conditions, params).
     case allowed of
       None \<Rightarrow> (conditions, params)
     | Some ids \<Rightarrow>
         (case filter ci_client_id_column (map snd columns) of
            [] \<Rightarrow> (conditions, params)
          | col # _ \<Rightarrow>
              let param = next_param params in
              (conditions @ [[\<lparr>at_table = ci_table col, at_column = ci_column col, at_op = ''IN'', at_param = param\<rparr>]],
               dict_set param (PList (map SStr ids)) params)))"

definition where_conditions ::
  "(string \<times> column_info) list \<Rightarrow> string list option \<Rightarrow> (string \<times> fval) list \<Rightarrow>
    (sql_atom list list \<times> (string \<times> pval) list) result" where
  "where_conditions columns allowed flt =
     bind_res (fold_res (where_filter columns) flt ([], [])) (\<lambda>st. Inr (where_client columns allowed st))"

definition show_where :: "sql_atom list list \<Rightarrow> string" where
  "show_where conditions =
     ''WHERE '' @ py_join '' AND '' (map (\<lambda>cond. ''('' @ py_join '' OR '' (map show_atom cond) @ '')'') conditions)"

definition get_where ::
  "opsisession option \<Rightarrow> (string \<times> column_info) list \<Rightarrow> rpcace list \<Rightarrow> (string \<times> fval) list \<Rightarrow>
    (string \<times> (string \<times> pval) list) result" where
  "get_where session columns aces flt =
     bind_res (where_conditions columns (get_allowed_client_ids session None aces) flt)
       (\<lambda>(conditions, params).
          if conditions \<noteq> [] then Inr (show_where conditions, params) else Inr ([], []))"

section \<open>Identifiers and SELECT\<close>

datatype ident = IdDict "(string \<times> sqlval) list" | IdStr string | IdList "sqlval list" | IdTuple "sqlval list"

fun falsy :: "sqlval \<Rightarrow> bool" where
  "falsy SNone = True"
| "falsy (SBool b) = (\<not> b)"
| "falsy (SInt i) = (i = 0)"
| "falsy (SStr s) = (s = [])"
| "falsy (SList l) = (l = [])"

text \<open>\<open>str.join\<close> accepts strings only.\<close>

definition join_part :: "sqlval \<Rightarrow> string result" where
  "join_part v = (if falsy v then Inr [] else case v of SStr s \<Rightarrow> Inr s | _ \<Rightarrow> Inl TypeError)"

definition get_ident :: "(string \<times> sqlval) list \<Rightarrow> string list \<Rightarrow> string \<Rightarrow> ident result" where
  "get_ident data ident_attributes ident_type =
     bind_res (fold_res (\<lambda>a d. case map_of data a of None \<Rightarrow> Inl (KeyError a) | Some v \<Rightarrow> Inr (dict_set a v d)) ident_attributes [])
       (\<lambda>d. if ident_type = ''dict'' \<or> ident_type = ''hash'' then Inr (IdDict d)
            else if ident_type = ''unicode'' \<or> ident_type = ''str'' then
              bind_res (map_res join_part (map snd d)) (\<lambda>parts. Inr (IdStr (py_join '';'' parts)))
            else if ident_type = ''list'' then Inr (IdList (map snd d))
            else if ident_type = ''tuple'' then Inr (IdTuple (map snd d))
            else Inl (ValueError ''Invalid ident type''))"

text \<open>The regular expression of \<open>get_objects\<close> that finds the tables: \<open>FROM\<close> or \<open>JOIN\<close>, blanks, and
  a name of letters and underscores, in optional backticks. A match at the front of the text
  with what follows it, and the scan for all of them.\<close>

definition table_char :: "char \<Rightarrow> bool" where
  "table_char c = (let n = (of_char c :: nat) in (65 \<le> n \<and> n \<le> 90) \<or> (97 \<le> n \<and> n \<le> 122) \<or> c = CHR ''_'')"

definition skip_backtick :: "string \<Rightarrow> string" where
  "skip_backtick s = (case s of c # t \<Rightarrow> if c = CHR ''`'' then t else s | [] \<Rightarrow> [])"

definition match_table :: "string \<Rightarrow> (string \<times> string) option" where
  "match_table s =
     (if py_startswith s ''FROM'' \<or> py_startswith s ''JOIN'' then
        let rest = drop 4 s in
        if takeWhile py_space rest = [] then None
        else
          let rest = skip_backtick (dropWhile py_space rest);
              name = takeWhile table_char rest
          in if name = [] then None else Some (name, skip_backtick (dropWhile table_char rest))
      else None)"

lemma length_skip_backtick: "length (skip_backtick s) \<le> length s"
  by (cases s) (simp_all add: skip_backtick_def)

lemma match_table_shorter: "match_table s = Some (name, rest) \<Longrightarrow> length rest < length s"
proof -
  assume m: "match_table s = Some (name, rest)"
  let ?r = "skip_backtick (dropWhile py_space (drop 4 s))"
  from m have s: "py_startswith s ''FROM'' \<or> py_startswith s ''JOIN''" "rest = skip_backtick (dropWhile table_char ?r)"
    by (auto simp: match_table_def Let_def split: if_splits)
  have "length rest \<le> length (drop 4 s)"
    using s(2) length_skip_backtick length_dropWhile_le order_trans by metis
  moreover have "4 \<le> length s"
    using s(1) by (auto simp: py_startswith_def dest!: arg_cong[where f = length])
  ultimately show ?thesis by simp
qed

function find_tables :: "string \<Rightarrow> string list" where
  "find_tables s =
     (if s = [] then []
      else case match_table s of
             Some (name, rest) \<Rightarrow> name # find_tables rest
           | None \<Rightarrow> find_tables (tl s))"
  by pat_completeness auto
termination
  by (relation "measure length") (auto dest: match_table_shorter)

declare find_tables.simps [simp del]

definition table_clause :: "string \<Rightarrow> string" where
  "table_clause table =
     (if \<not> py_startswith (py_upper (py_lstrip table)) ''FROM'' then
        ''FROM '' @ (if CHR '' '' \<notin> set table then ''`'' @ table @ ''`'' else table)
      else table)"

definition wanted_attributes :: "bool \<Rightarrow> string list \<Rightarrow> string list \<Rightarrow> string list" where
  "wanted_attributes return_ident ident_attributes attributes =
     (if return_ident then ident_attributes
      else if attributes \<noteq> [] then
        fold (\<lambda>a l. if a \<notin> set l then l @ [a] else l) ident_attributes attributes
      else attributes)"

text \<open>The statement of \<open>get_objects\<close> with its parameters; \<open>idents\<close> are the identifying
  attributes of the object type.\<close>

definition get_objects_query ::
  "mysql \<Rightarrow> opsisession option \<Rightarrow> string \<Rightarrow> string list \<Rightarrow> bool \<Rightarrow> (string \<times> string) list \<Rightarrow> rpcace list \<Rightarrow>
    string list \<Rightarrow> (string \<times> fval) list \<Rightarrow> (string \<times> (string \<times> pval) list) result" where
  "get_objects_query m session table idents return_ident aggregates aces attributes flt =
     (if \<not> my_connected m then Inl (RuntimeError ''Not connected to MySQL server'')
      else
        let table = table_clause table;
            tables = find_tables table;
            ident_attributes = (if return_ident \<or> attributes \<noteq> [] \<or> aggregates \<noteq> [] then idents else []);
            attributes = wanted_attributes return_ident ident_attributes attributes
        in bind_res (get_columns m tables aces attributes) (\<lambda>columns.
             let aggs = map (\<lambda>(name, agg). agg @ '' AS `'' @ name @ ''`'') aggregates;
                 selects = map (\<lambda>(a, c). show_expr (the (ci_select c)) @ '' AS `'' @ a @ ''`'')
                             (filter (\<lambda>(a, c). ci_select c \<noteq> None) columns);
                 query = ''SELECT '' @ (if aggs \<noteq> [] then py_join '', '' aggs @ '', '' else []) @
                         py_join '', '' selects @ '' '' @ table
             in bind_res (get_where session columns aces flt) (\<lambda>(clause, params).
                  let group_by = (if aggregates \<noteq> [] then
                        ''GROUP BY '' @ py_join '', '' (map (\<lambda>(a, c). ''`'' @ hd tables @ ''`.`'' @ ci_column c @ ''`'')
                                          (filter (\<lambda>(a, c). a \<in> set ident_attributes) columns))
                      else [])
                  in Inr (query @ '' '' @ clause @ '' '' @ group_by, params))))"

definition get_idents ::
  "mysql \<Rightarrow> opsisession option \<Rightarrow> (string \<Rightarrow> (string \<times> pval) list \<Rightarrow> (string \<times> sqlval) list list) \<Rightarrow>
    string \<Rightarrow> string list \<Rightarrow> string \<Rightarrow> rpcace list \<Rightarrow> (string \<times> fval) list \<Rightarrow> ident list result" where
  "get_idents m session execute table idents ident_type aces flt =
     (if idents = [] then Inl (ValueError ''Failed to get ident attributes'')
      else bind_res (get_objects_query m session table idents True [] aces idents flt) (\<lambda>(query, params).
        map_res (\<lambda>row. get_ident row idents (if ident_type = [] then ''str'' else ident_type)) (execute query params)))"

section \<open>INSERT and UPDATE\<close>

record insert_state =
  ins_data :: "(string \<times> sqlval) list"
  ins_cols :: "string list"
  ins_vals :: "string list"
  ins_where :: "(string \<times> string) list"
  ins_updates :: "(string \<times> string) list"

text \<open>Assignments \<open>`column` = :attribute\<close>.\<close>

definition show_assign :: "string \<times> string \<Rightarrow> string" where
  "show_assign ca = ''`'' @ fst ca @ ''` = :'' @ snd ca"

definition abstract_types :: "string list" where
  "abstract_types = [''Host'', ''Config'', ''Product'', ''Group'', ''ProductProperty'']"

definition client_denied :: "string list option \<Rightarrow> column_info \<Rightarrow> sqlval \<Rightarrow> bool" where
  "client_denied allowed column v =
     (case allowed of
        None \<Rightarrow> False
      | Some ids \<Rightarrow> ids \<noteq> [] \<and> ci_client_id_column column \<and> v \<notin> SStr ` set ids)"

definition is_abstract_type :: "string \<Rightarrow> sqlval \<Rightarrow> bool" where
  "is_abstract_type attr v = (attr = ''type'' \<and> v \<in> SStr ` set abstract_types)"

definition blank_address :: "string \<Rightarrow> sqlval \<Rightarrow> bool" where
  "blank_address attr v = (attr \<in> {''systemUUID'', ''ipAddress'', ''hardwareAddress''} \<and> v = SStr [])"

definition insert_column ::
  "string list option \<Rightarrow> string list \<Rightarrow> (string \<Rightarrow> (sqlval \<Rightarrow> sqlval) option) \<Rightarrow> bool \<Rightarrow> string \<times> column_info \<Rightarrow>
    insert_state \<Rightarrow> insert_state result" where
  "insert_column allowed ident_attrs conversions set_null ac st =
     (let (attr, column) = ac in
      case map_of (ins_data st) attr of
        None \<Rightarrow> Inr st
      | Some v \<Rightarrow>
          if client_denied allowed column v then Inl (BackendPermissionDeniedError ''No permission'')
          else
            let st = (if attr \<in> set ident_attrs then st\<lparr>ins_where := ins_where st @ [(ci_column column, attr)]\<rparr> else st) in
            if is_abstract_type attr v then Inr st
            else
              let cleared = blank_address attr v;
                  v1 = (if cleared then SNone else v)
              in if \<not> cleared \<and> \<not> set_null \<and> v = SNone then Inr st
                 else
                   let v2 = (case conversions attr of None \<Rightarrow> v1 | Some f \<Rightarrow> f v1)
                   in Inr (st\<lparr>ins_data := dict_set attr v2 (ins_data st),
                             ins_cols := ins_cols st @ [ci_column column],
                             ins_vals := ins_vals st @ [attr],
                             ins_updates := ins_updates st @ [(ci_column column, attr)]\<rparr>))"

definition insert_additional :: "string \<times> sqlval \<Rightarrow> insert_state \<Rightarrow> insert_state" where
  "insert_additional cv st =
     st\<lparr>ins_data := dict_set (fst cv) (snd cv) (ins_data st),
        ins_cols := ins_cols st @ [fst cv],
        ins_vals := ins_vals st @ [fst cv],
        ins_updates := ins_updates st @ [(fst cv, fst cv)]\<rparr>"

text \<open>\<open>data\<close> is the hash of the object (after \<open>setDefaults\<close> when \<open>set_null\<close>), \<open>idents\<close> the keys of
  its identifier and \<open>conversions\<close> the write conversions of its type.\<close>

definition insert_plan ::
  "mysql \<Rightarrow> opsisession option \<Rightarrow> (string \<Rightarrow> (sqlval \<Rightarrow> sqlval) option) \<Rightarrow> string \<Rightarrow> (string \<times> sqlval) list \<Rightarrow> string list \<Rightarrow>
    rpcace list \<Rightarrow> bool \<Rightarrow> bool \<Rightarrow> (string \<times> sqlval) list \<Rightarrow> insert_state result" where
  "insert_plan m session conversions table data idents aces create set_null additional_data =
     (let ident_attrs = (if create then [] else idents) in
      bind_res (get_columns m [table] aces []) (\<lambda>columns.
      bind_res (fold_res (insert_column (get_allowed_client_ids session None aces) ident_attrs conversions set_null) columns
                 \<lparr>ins_data = data, ins_cols = [], ins_vals = [], ins_where = [], ins_updates = []\<rparr>)
        (\<lambda>st. Inr (fold insert_additional additional_data st))))"

definition insert_query ::
  "mysql \<Rightarrow> opsisession option \<Rightarrow> (string \<Rightarrow> (sqlval \<Rightarrow> sqlval) option) \<Rightarrow> string \<Rightarrow> (string \<times> sqlval) list \<Rightarrow> string list \<Rightarrow>
    rpcace list \<Rightarrow> bool \<Rightarrow> bool \<Rightarrow> (string \<times> sqlval) list \<Rightarrow> (string \<times> (string \<times> sqlval) list) result" where
  "insert_query m session conversions table data idents aces create set_null additional_data =
     bind_res (insert_plan m session conversions table data idents aces create set_null additional_data) (\<lambda>st.
       if ins_updates st = [] then Inr ([], [])
       else if create then
         Inr (''INSERT INTO `'' @ table @ ''` ('' @ py_join '','' (map (\<lambda>c. ''`'' @ c @ ''`'') (ins_cols st)) @ '') VALUES ('' @
              py_join '','' (map (\<lambda>a. CHR '':'' # a) (ins_vals st)) @ '') ON DUPLICATE KEY UPDATE '' @
              py_join '','' (map show_assign (ins_updates st)), ins_data st)
       else if ins_where st = [] then Inl (RuntimeError ''No where'')
       else
         Inr (''UPDATE `'' @ table @ ''` SET '' @ py_join '','' (map show_assign (ins_updates st)) @ '' WHERE '' @
              py_join '' AND '' (map show_assign (ins_where st)), ins_data st))"

text \<open>\<open>execute\<close> runs a statement in the database and gives the id of the last row.\<close>

definition insert_object ::
  "(string \<Rightarrow> (string \<times> sqlval) list \<Rightarrow> 'db \<Rightarrow> (int result \<times> 'db)) \<Rightarrow> mysql \<Rightarrow> opsisession option \<Rightarrow>
    (string \<Rightarrow> (sqlval \<Rightarrow> sqlval) option) \<Rightarrow> string \<Rightarrow> (string \<times> sqlval) list \<Rightarrow> string list \<Rightarrow> rpcace list \<Rightarrow> bool \<Rightarrow> bool \<Rightarrow>
    (string \<times> sqlval) list \<Rightarrow> ('db, int option) prog" where
  "insert_object execute m session conversions table data idents aces create set_null additional_data = (\<lambda>db.
     if \<not> my_connected m then (Inl (RuntimeError ''Not connected to MySQL server''), db)
     else case insert_query m session conversions table data idents aces create set_null additional_data of
       Inl e \<Rightarrow> (Inl e, db)
     | Inr (query, params) \<Rightarrow>
         if query \<noteq> [] then
           (case execute query params db of (res, db1) \<Rightarrow> (map_sum id Some res, db1))
         else (Inr None, db))"

text \<open>Insertion of many objects at once: no access control, one row of parameters per object.\<close>

definition bulk_insert_query ::
  "mysql \<Rightarrow> (string \<Rightarrow> (sqlval \<Rightarrow> sqlval) option) \<Rightarrow> string \<Rightarrow> (string \<times> sqlval) list list \<Rightarrow>
    (string \<times> (string \<times> sqlval) list list) result" where
  "bulk_insert_query m conversions table objs =
     (if \<not> my_connected m then Inl (RuntimeError ''Not connected to MySQL server'')
      else if objs = [] then Inl IndexError
      else bind_res (get_columns m [table] [] []) (\<lambda>columns.
        let row = (\<lambda>obj. map (\<lambda>attr.
                 let v = (case map_of obj attr of None \<Rightarrow> SNone | Some v \<Rightarrow> v) in
                 (attr, if v = SNone then SNone else case conversions attr of None \<Rightarrow> v | Some f \<Rightarrow> f v)) (dict_keys columns))
        in Inr (''INSERT INTO `'' @ table @ ''` ('' @ py_join '','' (map (\<lambda>c. ''`'' @ ci_column c @ ''`'') (map snd columns)) @
                '') VALUES ('' @ py_join '','' (map (\<lambda>a. CHR '':'' # a) (dict_keys columns)) @ '')'', map row objs)))"

section \<open>DELETE\<close>

text \<open>An object to delete: a dictionary, or an object of \<open>opsicommon\<close> with its attributes.\<close>

datatype del_entry = DelDict "(string \<times> sqlval) list" | DelObj "(string \<times> sqlval) list"

fun entry_value :: "del_entry \<Rightarrow> string \<Rightarrow> sqlval result" where
  "entry_value (DelDict d) attr = Inr (case map_of d attr of None \<Rightarrow> SNone | Some v \<Rightarrow> v)"
| "entry_value (DelObj d) attr = (case map_of d attr of None \<Rightarrow> Inl AttributeError | Some v \<Rightarrow> Inr v)"

record delete_state =
  del_cond :: "sql_atom list"
  del_ident :: "(string \<times> sqlval) list"
  del_params :: "(string \<times> pval) list"

fun delete_ident ::
  "(string \<times> column_info) list \<Rightarrow> string list option \<Rightarrow> del_entry \<Rightarrow> string list \<Rightarrow> delete_state \<Rightarrow> delete_state result" where
  "delete_ident columns allowed entry [] st = Inr st"
| "delete_ident columns allowed entry (attr # attrs) st =
     (case map_of columns attr of
        None \<Rightarrow> Inl (KeyError attr)
      | Some col \<Rightarrow>
          bind_res (entry_value entry attr) (\<lambda>v.
            if falsy v \<and> attr = ''type'' then delete_ident columns allowed entry attrs st
            else if v = SNone then Inl (ValueError ''No value for ident attribute'')
            else if ci_client_id_column col \<and> allowed \<noteq> None \<and> v \<notin> SStr ` set (the allowed) then Inr st
            else
              let param = next_param (del_params st)
              in delete_ident columns allowed entry attrs
                   \<lparr>del_cond = del_cond st @ [\<lparr>at_table = ci_table col, at_column = ci_column col, at_op = ''='', at_param = param\<rparr>],
                    del_ident = dict_set attr v (del_ident st),
                    del_params = dict_set param (PVal v) (del_params st)\<rparr>))"

record delete_plan =
  dp_conditions :: "sql_atom list list"
  dp_params :: "(string \<times> pval) list"
  dp_idents :: "(string \<times> sqlval) list list"

definition delete_entry ::
  "(string \<times> column_info) list \<Rightarrow> string list option \<Rightarrow> string list \<Rightarrow> del_entry \<Rightarrow> delete_plan \<Rightarrow> delete_plan result" where
  "delete_entry columns allowed ident_attributes entry p =
     bind_res (delete_ident columns allowed entry ident_attributes \<lparr>del_cond = [], del_ident = [], del_params = dp_params p\<rparr>)
       (\<lambda>st. if del_cond st \<noteq> [] \<and> del_ident st \<noteq> [] then
               Inr \<lparr>dp_conditions = dp_conditions p @ [del_cond st], dp_params = del_params st, dp_idents = dp_idents p @ [del_ident st]\<rparr>
             else Inr (p\<lparr>dp_params := del_params st\<rparr>))"

definition delete_conditions ::
  "mysql \<Rightarrow> opsisession option \<Rightarrow> string \<Rightarrow> string list \<Rightarrow> del_entry list \<Rightarrow> rpcace list \<Rightarrow> delete_plan result" where
  "delete_conditions m session table ident_attributes objs aces =
     bind_res (get_columns m [table] aces ident_attributes) (\<lambda>columns.
       if length columns < length ident_attributes then Inl (BackendPermissionDeniedError ''No permission'')
       else
         bind_res (fold_res (delete_entry columns (get_allowed_client_ids session None aces) ident_attributes) objs
                    \<lparr>dp_conditions = [], dp_params = [], dp_idents = []\<rparr>) (\<lambda>p.
           if dp_conditions p = [] then Inl (BackendPermissionDeniedError ''No objects to delete'') else Inr p))"

definition show_delete :: "string \<Rightarrow> delete_plan \<Rightarrow> string" where
  "show_delete table p =
     ''DELETE FROM `'' @ table @ ''` WHERE '' @
     py_join '' OR '' (map (\<lambda>cond. ''('' @ py_join '' AND '' (map (\<lambda>a. ''`'' @ at_column a @ ''` = :'' @ at_param a) cond) @ '')'')
       (dp_conditions p))"

definition delete_query ::
  "mysql \<Rightarrow> opsisession option \<Rightarrow> string \<Rightarrow> string list \<Rightarrow> del_entry list \<Rightarrow> rpcace list \<Rightarrow>
    (string \<times> (string \<times> pval) list \<times> (string \<times> sqlval) list list) result" where
  "delete_query m session table ident_attributes objs aces =
     bind_res (delete_conditions m session table ident_attributes objs aces)
       (\<lambda>p. Inr (show_delete table p, dp_params p, dp_idents p))"

definition delete_objects ::
  "(string \<Rightarrow> (string \<times> pval) list \<Rightarrow> 'db \<Rightarrow> (unit result \<times> 'db)) \<Rightarrow> mysql \<Rightarrow> opsisession option \<Rightarrow> string \<Rightarrow>
    string list \<Rightarrow> del_entry list \<Rightarrow> rpcace list \<Rightarrow> ('db, unit) prog" where
  "delete_objects execute m session table ident_attributes objs aces = (\<lambda>db.
     if \<not> my_connected m then (Inl (RuntimeError ''Not connected to MySQL server''), db)
     else case delete_query m session table ident_attributes objs aces of
       Inl e \<Rightarrow> (Inl e, db)
     | Inr (query, params, _) \<Rightarrow> execute query params db)"

section \<open>Statements and locks\<close>

definition retry_on_server_has_gone_away :: nat where
  "retry_on_server_has_gone_away = 3"

definition retry_on_deadlock :: nat where
  "retry_on_deadlock = 3"

text \<open>\<open>db n\<close> is what the n-th attempt meets: the message of a database error, or the result. The
  loop returns the outcome, the number of attempts and the number of rollbacks.\<close>

function execute_loop :: "(nat \<Rightarrow> string + 'r) \<Rightarrow> nat \<Rightarrow> nat \<Rightarrow> (string + 'r) \<times> nat \<times> nat" where
  "execute_loop db attempt rollbacks =
     (let attempt = attempt + 1 in
      case db attempt of
        Inr r \<Rightarrow> (Inr r, attempt, rollbacks)
      | Inl err \<Rightarrow>
          let str_err = py_lower err in
          if py_contains ''deadlock'' str_err then
            if retry_on_deadlock < attempt then (Inl err, attempt, rollbacks)
            else execute_loop db attempt rollbacks
          else if py_contains ''server has gone away'' str_err then
            if retry_on_server_has_gone_away < attempt then (Inl err, attempt, rollbacks)
            else execute_loop db attempt (rollbacks + 1)
          else (Inl err, attempt, rollbacks))"
  by pat_completeness auto
termination
  by (relation "measure (\<lambda>(db, attempt, rollbacks). 4 - attempt)")
    (auto simp: retry_on_deadlock_def retry_on_server_has_gone_away_def)

declare execute_loop.simps [simp del]

definition execute :: "(nat \<Rightarrow> string + 'r) \<Rightarrow> (string + 'r) \<times> nat \<times> nat" where
  "execute db = execute_loop db 0 0"

text \<open>\<open>table_lock\<close> around a body: the body runs only under the lock, and the lock is released
  whatever the body does. \<open>run\<close> executes one statement; an error of the release that only says
  that nothing was locked is dropped.\<close>

definition lock_clause :: "(string \<times> string) list \<Rightarrow> string list result" where
  "lock_clause locks =
     map_res (\<lambda>(table, lock).
        if py_upper lock \<notin> {''READ'', ''WRITE''} then Inl (ValueError ''Invalid lock'')
        else Inr (''`'' @ table @ ''` '' @ lock)) locks"

definition table_lock ::
  "(string \<Rightarrow> ('db, unit) prog) \<Rightarrow> (py_error \<Rightarrow> bool) \<Rightarrow> (string \<times> string) list \<Rightarrow> ('db, 'a) prog \<Rightarrow> ('db, 'a) prog" where
  "table_lock run not_locked locks body = (\<lambda>db.
     case lock_clause locks of
       Inl e \<Rightarrow> (Inl e, db)
     | Inr qlock \<Rightarrow>
         (case bind_prog (run (''LOCK TABLES '' @ py_join '', '' qlock)) (\<lambda>_. body) db of
            (res, db1) \<Rightarrow>
              (case run ''UNLOCK TABLES'' db1 of
                 (Inr _, db2) \<Rightarrow> (res, db2)
               | (Inl e, db2) \<Rightarrow> if not_locked e then (res, db2) else (Inl e, db2))))"

section \<open>What the clause selects\<close>

text \<open>\<open>cmp op x v\<close> is the database's comparison of a stored value with a bound parameter;
  \<open>IN\<close> is equality with one of the values.\<close>

type_synonym sql_cmp = "string \<Rightarrow> sqlval \<Rightarrow> sqlval \<Rightarrow> bool"

definition atom_holds :: "sql_cmp \<Rightarrow> (string \<times> pval) list \<Rightarrow> sql_row \<Rightarrow> sql_atom \<Rightarrow> bool" where
  "atom_holds cmp params r a =
     (case map_of params (at_param a) of
        None \<Rightarrow> False
      | Some (PVal v) \<Rightarrow> cmp (at_op a) (r (at_table a) (at_column a)) v
      | Some (PList vs) \<Rightarrow> at_op a = ''IN'' \<and> list_ex (cmp ''='' (r (at_table a) (at_column a))) vs)"

definition row_selected :: "sql_cmp \<Rightarrow> (string \<times> pval) list \<Rightarrow> sql_row \<Rightarrow> sql_atom list list \<Rightarrow> bool" where
  "row_selected cmp params r conditions = list_all (list_ex (atom_holds cmp params r)) conditions"

text \<open>What the atoms of one filter select, operator by operator, for an arbitrary comparison.\<close>

definition clause_matches :: "sql_cmp \<Rightarrow> (string \<times> column_info) list \<Rightarrow> sql_row \<Rightarrow> string \<times> fval \<Rightarrow> bool" where
  "clause_matches cmp columns r f =
     (let (attr, fv) = f; values = with_configserver attr (filter_values fv) in
      case map_of columns attr of
        None \<Rightarrow> True
      | Some col \<Rightarrow>
          let x = r (ci_table col) (ci_column col) in
          filter_values fv = [] \<or>
          (if 10 < length values then list_ex (cmp ''='' x) values
           else list_ex (\<lambda>v. cmp (fst (filter_operator v)) x (snd (filter_operator v))) values))"

definition client_matches :: "sql_cmp \<Rightarrow> (string \<times> column_info) list \<Rightarrow> string list option \<Rightarrow> sql_row \<Rightarrow> bool" where
  "client_matches cmp columns allowed r =
     (case allowed of
        None \<Rightarrow> True
      | Some ids \<Rightarrow>
          (case filter ci_client_id_column (map snd columns) of
             [] \<Rightarrow> True
           | col # _ \<Rightarrow> list_ex (\<lambda>i. cmp ''='' (r (ci_table col) (ci_column col)) (SStr i)) ids))"

text \<open>Parameters are numbered consecutively, so a new one never rebinds an old one.\<close>

definition params_ok :: "(string \<times> pval) list \<Rightarrow> bool" where
  "params_ok params = (dict_keys params = map (\<lambda>i. ''p'' @ str_of_nat (i + 1)) [0..<length params])"

definition atoms_bound :: "(string \<times> pval) list \<Rightarrow> sql_atom list \<Rightarrow> bool" where
  "atoms_bound params cond = list_all (\<lambda>a. dict_has params (at_param a)) cond"

lemma next_param_Nil: "next_param [] = ''p1''"
  by code_simp

lemma params_ok_fresh:
  assumes "params_ok params"
  shows "map_of params (next_param params) = None"
    and "dict_set (next_param params) v params = params @ [(next_param params, v)]"
    and "params_ok (dict_set (next_param params) v params)"
proof -
  have "next_param params \<notin> set (dict_keys params)"
    using assms by (auto simp: params_ok_def next_param_def)
  then show fresh: "map_of params (next_param params) = None"
    by (simp add: map_of_eq_None_iff dict_keys_def image_image)
  from dict_set_fresh[OF this] show "dict_set (next_param params) v params = params @ [(next_param params, v)]" .
  then show "params_ok (dict_set (next_param params) v params)"
    using assms by (simp add: params_ok_def dict_keys_def next_param_def)
qed

text \<open>The invariant of building a clause: parameters numbered, every atom bound, and the clause
  selects the rows \<open>P\<close> describes.\<close>

definition clause_inv :: "sql_cmp \<Rightarrow> sql_row \<Rightarrow> bool \<Rightarrow> sql_atom list list \<times> (string \<times> pval) list \<Rightarrow> bool" where
  "clause_inv cmp r P st =
     (params_ok (snd st) \<and> list_all (atoms_bound (snd st)) (fst st) \<and> row_selected cmp (snd st) r (fst st) = P)"

lemma atom_holds_extend:
  assumes "params_ok params" "dict_has params (at_param a)"
  shows "atom_holds cmp (dict_set (next_param params) v params) r a = atom_holds cmp params r a"
proof -
  have "at_param a \<noteq> next_param params"
    using assms(2) params_ok_fresh(1)[OF assms(1)] by (auto simp: dict_has_iff)
  then show ?thesis by (simp add: atom_holds_def)
qed

lemma cond_extend:
  assumes "params_ok params" "atoms_bound params cond"
  shows "atoms_bound (dict_set (next_param params) v params) cond"
    and "list_ex (atom_holds cmp (dict_set (next_param params) v params) r) cond = list_ex (atom_holds cmp params r) cond"
  using assms atom_holds_extend[OF assms(1)]
  by (auto simp: atoms_bound_def list_all_iff list_ex_iff dict_has_iff)

lemma clause_extend:
  assumes "clause_inv cmp r P (conds, params)"
  shows "clause_inv cmp r P (conds, dict_set (next_param params) v params)"
  using assms cond_extend params_ok_fresh(3)
  by (auto simp: clause_inv_def list_all_iff row_selected_def)

lemma clause_add:
  assumes "clause_inv cmp r P (conds, params)" "atoms_bound params cond"
    and "Q = list_ex (atom_holds cmp params r) cond"
  shows "clause_inv cmp r (P \<and> Q) (conds @ [cond], params)"
  using assms by (auto simp: clause_inv_def row_selected_def)

abbreviation value_matches :: "sql_cmp \<Rightarrow> sqlval \<Rightarrow> sqlval \<Rightarrow> bool" where
  "value_matches cmp x v \<equiv> cmp (fst (filter_operator v)) x (snd (filter_operator v))"

lemma where_values_spec:
  assumes "clause_inv cmp r P (conds, params)" "atoms_bound params cond"
    and "fold (where_value col) vs (cond, params) = (cond1, params1)"
  shows "clause_inv cmp r P (conds, params1) \<and> atoms_bound params1 cond1 \<and>
    list_ex (atom_holds cmp params1 r) cond1 =
      (list_ex (atom_holds cmp params r) cond \<or> list_ex (value_matches cmp (r (ci_table col) (ci_column col))) vs)"
  using assms
proof (induction vs arbitrary: cond params)
  case (Cons v vs)
  let ?a = "\<lparr>at_table = ci_table col, at_column = ci_column col, at_op = fst (filter_operator v), at_param = next_param params\<rparr>"
  let ?ps = "dict_set (next_param params) (PVal (snd (filter_operator v))) params"
  have ok: "params_ok params" using Cons.prems(1) by (simp add: clause_inv_def)
  have step: "where_value col v (cond, params) = (cond @ [?a], ?ps)"
    by (simp add: where_value_def split_beta Let_def)
  have bound: "atoms_bound ?ps (cond @ [?a])"
    using cond_extend(1)[OF ok Cons.prems(2)] by (simp add: atoms_bound_def dict_has_iff)
  have holds: "list_ex (atom_holds cmp ?ps r) (cond @ [?a]) =
      (list_ex (atom_holds cmp params r) cond \<or> value_matches cmp (r (ci_table col) (ci_column col)) v)"
    using cond_extend(2)[OF ok Cons.prems(2)] by (simp add: atom_holds_def)
  from Cons.prems(3) step have rest: "fold (where_value col) vs (cond @ [?a], ?ps) = (cond1, params1)" by simp
  show ?case
    using Cons.IH[OF clause_extend[OF Cons.prems(1)] bound rest] holds by auto
qed simp

lemma where_filter_spec:
  assumes "clause_inv cmp r P st" "where_filter columns f st = Inr st1"
  shows "clause_inv cmp r (P \<and> clause_matches cmp columns r f) st1"
proof -
  obtain conds params where st: "st = (conds, params)" by fastforce
  obtain attr fv where f: "f = (attr, fv)" by fastforce
  show ?thesis
  proof (cases "map_of columns attr")
    case None
    then show ?thesis
      using assms by (auto simp: where_filter_def clause_matches_def st f split: if_splits)
  next
    case (Some col)
    let ?x = "r (ci_table col) (ci_column col)" and ?vs = "with_configserver attr (filter_values fv)"
    consider (none) "filter_values fv = []" | (many) "filter_values fv \<noteq> []" "10 < length ?vs"
      | (few) "filter_values fv \<noteq> []" "\<not> 10 < length ?vs" by blast
    then show ?thesis
    proof cases
      case none
      then show ?thesis using assms Some by (simp add: where_filter_def clause_matches_def st f)
    next
      case many
      let ?ps = "dict_set (next_param params) (PList ?vs) params"
      let ?cond = "[\<lparr>at_table = ci_table col, at_column = ci_column col, at_op = ''IN'', at_param = next_param params\<rparr>]"
      have "st1 = (conds @ [?cond], ?ps)"
        using assms(2) many Some by (simp add: where_filter_def Let_def st f)
      moreover have "clause_inv cmp r (P \<and> list_ex (cmp ''='' ?x) ?vs) (conds @ [?cond], ?ps)"
        using assms(1) by (intro clause_add clause_extend) (simp_all add: st atoms_bound_def dict_has_iff atom_holds_def)
      ultimately show ?thesis using many Some by (simp add: clause_matches_def f Let_def)
    next
      case few
      obtain cond1 ps1 where fold: "fold (where_value col) ?vs ([], params) = (cond1, ps1)" by fastforce
      have "st1 = (conds @ [cond1], ps1)"
        using assms(2) few Some fold by (simp add: where_filter_def Let_def st f)
      moreover have "clause_inv cmp r P (conds, ps1) \<and> atoms_bound ps1 cond1 \<and>
          list_ex (atom_holds cmp ps1 r) cond1 = list_ex (value_matches cmp ?x) ?vs"
        using where_values_spec[OF assms(1)[unfolded st] _ fold] by (simp add: atoms_bound_def)
      then have "clause_inv cmp r (P \<and> list_ex (value_matches cmp ?x) ?vs) (conds @ [cond1], ps1)"
        using clause_add by blast
      ultimately show ?thesis using few Some by (simp add: clause_matches_def f Let_def)
    qed
  qed
qed

lemma where_filters_spec:
  assumes "clause_inv cmp r P st" "fold_res (where_filter columns) flt st = Inr st1"
  shows "clause_inv cmp r (P \<and> list_all (clause_matches cmp columns r) flt) st1"
  using assms
proof (induction flt arbitrary: P st)
  case (Cons f flt)
  from Cons.prems(2) obtain st' where st': "where_filter columns f st = Inr st'" "fold_res (where_filter columns) flt st' = Inr st1"
    by (auto simp: bind_res_Inr_iff)
  from Cons.IH[OF where_filter_spec[OF Cons.prems(1) st'(1)] st'(2)] show ?case by (simp add: conj_assoc)
qed simp

lemma where_client_spec:
  assumes "clause_inv cmp r P st"
  shows "clause_inv cmp r (P \<and> client_matches cmp columns allowed r) (where_client columns allowed st)"
proof -
  obtain conds params where st: "st = (conds, params)" by fastforce
  show ?thesis
  proof (cases "\<exists>ids col cols. allowed = Some ids \<and> filter ci_client_id_column (map snd columns) = col # cols")
    case True
    then obtain ids col cols where ids: "allowed = Some ids" "filter ci_client_id_column (map snd columns) = col # cols" by blast
    have "clause_inv cmp r (P \<and> list_ex (\<lambda>i. cmp ''='' (r (ci_table col) (ci_column col)) (SStr i)) ids)
       (conds @ [[\<lparr>at_table = ci_table col, at_column = ci_column col, at_op = ''IN'', at_param = next_param params\<rparr>]],
        dict_set (next_param params) (PList (map SStr ids)) params)"
      using assms by (intro clause_add clause_extend) (auto simp: st atoms_bound_def dict_has_iff atom_holds_def list_ex_iff)
    then show ?thesis using ids by (simp add: where_client_def client_matches_def st Let_def)
  next
    case False
    then have "where_client columns allowed st = st" "client_matches cmp columns allowed r"
      by (auto simp: where_client_def client_matches_def st split: option.split list.split)
    then show ?thesis using assms by simp
  qed
qed

lemma where_conditions_spec:
  assumes "where_conditions columns allowed flt = Inr (conditions, params)"
  shows "clause_inv cmp r (list_all (clause_matches cmp columns r) flt \<and> client_matches cmp columns allowed r) (conditions, params)"
proof -
  obtain st where st: "fold_res (where_filter columns) flt ([], []) = Inr st" "where_client columns allowed st = (conditions, params)"
    using assms by (auto simp: where_conditions_def bind_res_Inr_iff)
  have "clause_inv cmp r True ([], [])" by (simp add: clause_inv_def params_ok_def dict_keys_def row_selected_def)
  from where_client_spec[OF where_filters_spec[OF this st(1)], of columns allowed] show ?thesis by (simp add: st(2))
qed

section \<open>The meaning of a filter\<close>

text \<open>The comparison of the database. A collation decides equality and order of values that are not
  NULL, the text of a value and which characters are equal; NULL is equal to nothing and is found
  by \<open>IS\<close> only. In a pattern of \<open>LIKE\<close>, \<open>%\<close> stands for any text, \<open>_\<close> for any character, and a backslash
  takes the next character as it is.\<close>

record collation =
  co_eq :: "sqlval \<Rightarrow> sqlval \<Rightarrow> bool"
  co_less :: "sqlval \<Rightarrow> sqlval \<Rightarrow> bool"
  co_text :: "sqlval \<Rightarrow> string"
  co_char :: "char \<Rightarrow> char \<Rightarrow> bool"

function like_match :: "(char \<Rightarrow> char \<Rightarrow> bool) \<Rightarrow> string \<Rightarrow> string \<Rightarrow> bool" where
  "like_match ch x [] = (x = [])"
| "like_match ch x (c # pat) =
     (if c = CHR ''%'' then list_ex (\<lambda>n. like_match ch (drop n x) pat) [0..<Suc (length x)]
      else if c = CHR 0x5C \<and> pat \<noteq> [] then x \<noteq> [] \<and> ch (hd x) (hd pat) \<and> like_match ch (tl x) (tl pat)
      else x \<noteq> [] \<and> (c = CHR ''_'' \<or> ch (hd x) c) \<and> like_match ch (tl x) pat)"
  by pat_completeness auto
termination
  by (relation "measure (\<lambda>(ch, x, pat). length pat)") auto

definition sql_compare :: "collation \<Rightarrow> sql_cmp" where
  "sql_compare co op x v =
     (if op = ''IS'' then x = SNone \<and> v = SNone
      else x \<noteq> SNone \<and> v \<noteq> SNone \<and>
        (if op = ''='' then co_eq co x v
         else if op = ''<'' then co_less co x v
         else if op = ''>'' then co_less co v x
         else op = ''LIKE'' \<and> like_match (co_char co) (co_text co x) (co_text co v)))"

text \<open>What a wanted value means, without reference to the clause: in a pattern \<open>*\<close> stands for any text and
  every other character for itself.\<close>

inductive wildcard :: "(char \<Rightarrow> char \<Rightarrow> bool) \<Rightarrow> string \<Rightarrow> string \<Rightarrow> bool" for ch where
  wild_end: "wildcard ch [] []"
| wild_star: "wildcard ch x pat \<Longrightarrow> wildcard ch (y @ x) (CHR ''*'' # pat)"
| wild_char: "c \<noteq> CHR ''*'' \<Longrightarrow> ch d c \<Longrightarrow> wildcard ch x pat \<Longrightarrow> wildcard ch (d # x) (c # pat)"

inductive_simps wildcard_Nil: "wildcard ch x []"
inductive_simps wildcard_Cons: "wildcard ch x (c # pat)"

fun value_wanted :: "collation \<Rightarrow> sqlval \<Rightarrow> sqlval \<Rightarrow> bool" where
  "value_wanted co SNone v = (v = SNone)"
| "value_wanted co x SNone = False"
| "value_wanted co x (SBool b) = co_eq co x (SInt (if b then 1 else 0))"
| "value_wanted co x (SInt i) = co_eq co x (SInt i)"
| "value_wanted co x (SList l) = co_eq co x (SList l)"
| "value_wanted co x (SStr s) =
     (if CHR ''*'' \<in> set s then wildcard (co_char co) (co_text co x) s
      else case s of
        [] \<Rightarrow> co_eq co x (SStr [])
      | c # s1 \<Rightarrow>
          if c = CHR ''<'' then co_less co x (SStr s1)
          else if c = CHR ''>'' then co_less co (SStr s1) x
          else co_eq co x (SStr s))"

text \<open>A filter wants the rows with one of its values in the attribute; a filter for depot servers
  also wants the config server, which is one.\<close>

definition filter_meaning :: "collation \<Rightarrow> (string \<times> column_info) list \<Rightarrow> sql_row \<Rightarrow> string \<times> fval \<Rightarrow> bool" where
  "filter_meaning co columns r = (\<lambda>(attr, fv).
     case map_of columns attr of
       None \<Rightarrow> True
     | Some col \<Rightarrow>
         let x = r (ci_table col) (ci_column col); vs = filter_values fv in
         vs = [] \<or> (\<exists>v \<in> set vs. value_wanted co x v) \<or>
         (attr = ''type'' \<and> SStr ''OpsiDepotserver'' \<in> set vs \<and> value_wanted co x (SStr ''OpsiConfigserver'')))"

text \<open>The filters for which the clause means this: no character with a meaning for \<open>LIKE\<close> beside a \<open>*\<close>,
  and only plain numbers and strings where there are more values than the code looks at one by one.\<close>

fun plain_value :: "sqlval \<Rightarrow> bool" where
  "plain_value (SStr s) = (CHR ''*'' \<notin> set s \<and> (case s of [] \<Rightarrow> True | c # _ \<Rightarrow> c \<noteq> CHR ''<'' \<and> c \<noteq> CHR ''>''))"
| "plain_value (SInt i) = True"
| "plain_value v = False"

fun pattern_ok :: "sqlval \<Rightarrow> bool" where
  "pattern_ok (SStr s) = (CHR ''*'' \<in> set s \<longrightarrow> set s \<inter> {CHR ''%'', CHR ''_'', CHR 0x5C} = {})"
| "pattern_ok v = True"

definition filter_ok :: "string \<times> fval \<Rightarrow> bool" where
  "filter_ok = (\<lambda>(attr, fv). let vs = filter_values fv in
     list_all pattern_ok vs \<and> ((if attr = ''type'' then 9 else 10) < length vs \<longrightarrow> list_all plain_value vs))"

lemma like_match_wildcard:
  assumes "set pat \<inter> {CHR ''%'', CHR ''_'', CHR 0x5C} = {}"
  shows "like_match ch x (map (\<lambda>c. if c = CHR ''*'' then CHR ''%'' else c) pat) = wildcard ch x pat"
  using assms
proof (induction pat arbitrary: x)
  case (Cons c pat)
  have IH: "like_match ch y (map (\<lambda>c. if c = CHR ''*'' then CHR ''%'' else c) pat) = wildcard ch y pat" for y
    using Cons by simp
  show ?case
  proof (cases "c = CHR ''*''")
    case True
    have "(\<exists>n. n \<le> length x \<and> wildcard ch (drop n x) pat) = (\<exists>y z. x = y @ z \<and> wildcard ch z pat)"
      by (metis append_eq_conv_conj append_take_drop_id le_iff_add length_append)
    then show ?thesis
      by (auto simp: True IH wildcard_Cons list_ex_iff less_Suc_eq_le simp del: upt_Suc)
  next
    case False
    then show ?thesis using Cons.prems by (cases x) (auto simp: IH wildcard_Cons)
  qed
qed (simp add: wildcard_Nil)

lemma value_matches_wanted:
  assumes "pattern_ok v" "\<And>s. co_text co (SStr s) = s"
  shows "value_matches (sql_compare co) x v = value_wanted co x v"
  using assms
  by (cases v; cases x) (auto simp: sql_compare_def like_match_wildcard split: list.splits)

lemma plain_value_wanted: "plain_value v \<Longrightarrow> sql_compare co ''='' x v = value_wanted co x v"
  by (cases v; cases x) (auto simp: sql_compare_def split: list.splits)

lemma clause_matches_meaning:
  assumes ok: "filter_ok f" and tx: "\<And>s. co_text co (SStr s) = s"
  shows "clause_matches (sql_compare co) columns r f = filter_meaning co columns r f"
proof -
  obtain attr fv where f: "f = (attr, fv)" by fastforce
  show ?thesis
  proof (cases "map_of columns attr")
    case (Some col)
    let ?x = "r (ci_table col) (ci_column col)" and ?vs = "filter_values fv"
    let ?ws = "with_configserver attr ?vs"
    have ws: "(\<exists>v \<in> set ?ws. value_wanted co ?x v) = ((\<exists>v \<in> set ?vs. value_wanted co ?x v) \<or>
        (attr = ''type'' \<and> SStr ''OpsiDepotserver'' \<in> set ?vs \<and> value_wanted co ?x (SStr ''OpsiConfigserver'')))"
      by (auto simp: with_configserver_def)
    have "(if 10 < length ?ws then list_ex (sql_compare co ''='' ?x) ?ws else list_ex (value_matches (sql_compare co) ?x) ?ws) =
        (\<exists>v \<in> set ?ws. value_wanted co ?x v)"
    proof (cases "10 < length ?ws")
      case True
      then have "list_all plain_value ?vs"
        using ok by (auto simp: filter_ok_def f Let_def with_configserver_def split: if_splits)
      then have "list_all plain_value ?ws" by (auto simp: with_configserver_def)
      then show ?thesis using True plain_value_wanted by (simp add: list_ex_iff list_all_iff)
    next
      case False
      have "list_all pattern_ok ?ws"
        using ok by (auto simp: filter_ok_def f Let_def with_configserver_def)
      then show ?thesis using False value_matches_wanted[OF _ tx] by (simp add: list_ex_iff list_all_iff)
    qed
    with ws show ?thesis using Some by (auto simp: clause_matches_def filter_meaning_def f Let_def)
  qed (simp add: clause_matches_def filter_meaning_def f)
qed

section \<open>What a DELETE removes\<close>

definition row_deleted :: "sql_cmp \<Rightarrow> (string \<times> pval) list \<Rightarrow> sql_row \<Rightarrow> sql_atom list list \<Rightarrow> bool" where
  "row_deleted cmp params r conditions = list_ex (list_all (atom_holds cmp params r)) conditions"

text \<open>The identifying attributes an entry gives (an empty type is left out), and a row that has
  the values of the entry in all of them.\<close>

definition entry_keys :: "del_entry \<Rightarrow> string list \<Rightarrow> string list" where
  "entry_keys entry attrs = filter (\<lambda>a. \<not> (a = ''type'' \<and> (\<exists>v. entry_value entry a = Inr v \<and> falsy v))) attrs"

definition key_matches :: "sql_cmp \<Rightarrow> (string \<times> column_info) list \<Rightarrow> sql_row \<Rightarrow> del_entry \<Rightarrow> string \<Rightarrow> bool" where
  "key_matches cmp columns r entry a =
     (\<exists>col v. map_of columns a = Some col \<and> entry_value entry a = Inr v \<and> cmp ''='' (r (ci_table col) (ci_column col)) v)"

definition entry_matches :: "sql_cmp \<Rightarrow> (string \<times> column_info) list \<Rightarrow> string list \<Rightarrow> sql_row \<Rightarrow> del_entry \<Rightarrow> bool" where
  "entry_matches cmp columns attrs r entry =
     (entry_keys entry attrs \<noteq> [] \<and> (\<forall>a \<in> set (entry_keys entry attrs). key_matches cmp columns r entry a))"

definition extends :: "(string \<times> pval) list \<Rightarrow> (string \<times> pval) list \<Rightarrow> bool" where
  "extends ps ps' = (\<forall>k v. map_of ps k = Some v \<longrightarrow> map_of ps' k = Some v)"

lemma extends_refl [simp]: "extends ps ps"
  by (simp add: extends_def)

lemma extends_trans: "extends a b \<Longrightarrow> extends b c \<Longrightarrow> extends a c"
  by (simp add: extends_def)

lemma extends_next: "params_ok ps \<Longrightarrow> extends ps (dict_set (next_param ps) v ps)"
  using params_ok_fresh(1) by (auto simp: extends_def)

lemma extends_atoms:
  assumes "extends ps ps'" "atoms_bound ps cond"
  shows "atoms_bound ps' cond" "list_all (atom_holds cmp ps' r) cond = list_all (atom_holds cmp ps r) cond"
proof -
  have same: "map_of ps' (at_param a) = map_of ps (at_param a)" if "a \<in> set cond" for a
    using assms that by (auto simp: extends_def atoms_bound_def list_all_iff dict_has_iff)
  show "atoms_bound ps' cond"
    using assms(2) same by (simp add: atoms_bound_def list_all_iff dict_has_iff)
  show "list_all (atom_holds cmp ps' r) cond = list_all (atom_holds cmp ps r) cond"
    using same by (simp add: atom_holds_def list_all_iff)
qed

abbreviation del_ok :: "delete_state \<Rightarrow> bool" where
  "del_ok st \<equiv> params_ok (del_params st) \<and> atoms_bound (del_params st) (del_cond st)"

text \<open>One attribute: skipped, refused, or added to the condition.\<close>

definition del_add :: "column_info \<Rightarrow> string \<Rightarrow> sqlval \<Rightarrow> delete_state \<Rightarrow> delete_state" where
  "del_add col attr v st =
     \<lparr>del_cond = del_cond st @ [\<lparr>at_table = ci_table col, at_column = ci_column col, at_op = ''='', at_param = next_param (del_params st)\<rparr>],
      del_ident = dict_set attr v (del_ident st),
      del_params = dict_set (next_param (del_params st)) (PVal v) (del_params st)\<rparr>"

lemma delete_ident_step:
  "delete_ident columns allowed entry (attr # attrs) st = Inr st1 \<longleftrightarrow>
    (\<exists>col v. map_of columns attr = Some col \<and> entry_value entry attr = Inr v \<and>
      (if falsy v \<and> attr = ''type'' then delete_ident columns allowed entry attrs st = Inr st1
       else v \<noteq> SNone \<and>
         (if ci_client_id_column col \<and> allowed \<noteq> None \<and> v \<notin> SStr ` set (the allowed) then st1 = st
          else delete_ident columns allowed entry attrs (del_add col attr v st) = Inr st1)))"
  by (cases "map_of columns attr"; cases "entry_value entry attr")
    (auto simp: del_add_def[symmetric] Let_def)

lemma del_add_ok:
  assumes "del_ok st"
  shows "del_ok (del_add col attr v st)" "extends (del_params st) (del_params (del_add col attr v st))"
    and "list_all (atom_holds cmp (del_params (del_add col attr v st)) r) (del_cond (del_add col attr v st)) =
      (list_all (atom_holds cmp (del_params st) r) (del_cond st) \<and> cmp ''='' (r (ci_table col) (ci_column col)) v)"
proof -
  show ext: "extends (del_params st) (del_params (del_add col attr v st))"
    using assms extends_next by (simp add: del_add_def)
  note old = extends_atoms[OF ext, of "del_cond st"]
  show "del_ok (del_add col attr v st)"
    using assms old(1) params_ok_fresh(3) by (simp add: del_add_def atoms_bound_def dict_has_iff)
  show "list_all (atom_holds cmp (del_params (del_add col attr v st)) r) (del_cond (del_add col attr v st)) =
      (list_all (atom_holds cmp (del_params st) r) (del_cond st) \<and> cmp ''='' (r (ci_table col) (ci_column col)) v)"
    using assms old(2)[of cmp r] by (simp add: del_add_def atom_holds_def)
qed

lemma delete_ident_grows:
  assumes "delete_ident columns allowed entry attrs st = Inr st1" "del_ok st"
  shows "del_ok st1 \<and> extends (del_params st) (del_params st1) \<and> (\<exists>more. del_cond st1 = del_cond st @ more)"
  using assms
proof (induction attrs arbitrary: st)
  case (Cons a attrs)
  from Cons.prems(1)[unfolded delete_ident_step] obtain col v where
    cv: "if falsy v \<and> a = ''type'' then delete_ident columns allowed entry attrs st = Inr st1
       else v \<noteq> SNone \<and>
         (if ci_client_id_column col \<and> allowed \<noteq> None \<and> v \<notin> SStr ` set (the allowed) then st1 = st
          else delete_ident columns allowed entry attrs (del_add col a v st) = Inr st1)" by blast
  then consider (skip) "delete_ident columns allowed entry attrs st = Inr st1" | (brk) "st1 = st"
    | (add) "delete_ident columns allowed entry attrs (del_add col a v st) = Inr st1"
    by (auto split: if_splits)
  then show ?case
  proof cases
    case add
    note ok = del_add_ok[OF Cons.prems(2), where col = col and attr = a and v = v]
    from Cons.IH[OF add ok(1)] obtain more where "del_ok st1" "extends (del_params (del_add col a v st)) (del_params st1)"
      "del_cond st1 = del_cond (del_add col a v st) @ more" by blast
    then show ?thesis using extends_trans[OF ok(2)] by (simp add: del_add_def)
  qed (use Cons in auto)
qed simp

lemma delete_ident_exact:
  assumes "delete_ident columns None entry attrs st = Inr st1" "del_ok st"
  shows "list_all (atom_holds cmp (del_params st1) r) (del_cond st1) =
      (list_all (atom_holds cmp (del_params st) r) (del_cond st) \<and>
       (\<forall>a \<in> set (entry_keys entry attrs). key_matches cmp columns r entry a)) \<and>
    (del_cond st1 = [] \<longleftrightarrow> del_cond st = [] \<and> entry_keys entry attrs = []) \<and>
    (del_ident st1 = [] \<longleftrightarrow> del_ident st = [] \<and> entry_keys entry attrs = [])"
  using assms
proof (induction attrs arbitrary: st)
  case (Cons a attrs)
  from Cons.prems(1)[unfolded delete_ident_step] obtain col v where
    cv: "map_of columns a = Some col" "entry_value entry a = Inr v"
      "if falsy v \<and> a = ''type'' then delete_ident columns None entry attrs st = Inr st1
       else delete_ident columns None entry attrs (del_add col a v st) = Inr st1" by auto
  show ?case
  proof (cases "falsy v \<and> a = ''type''")
    case True
    then have "entry_keys entry (a # attrs) = entry_keys entry attrs"
      using cv(2) by (auto simp: entry_keys_def)
    then show ?thesis using Cons.IH[OF _ Cons.prems(2)] cv(3) True by simp
  next
    case False
    then have keys: "entry_keys entry (a # attrs) = a # entry_keys entry attrs"
      using cv(2) by (auto simp: entry_keys_def)
    have km: "key_matches cmp columns r entry a = cmp ''='' (r (ci_table col) (ci_column col)) v"
      using cv(1,2) by (simp add: key_matches_def)
    note ok = del_add_ok[OF Cons.prems(2), where col = col and attr = a and v = v]
    have IH: "delete_ident columns None entry attrs (del_add col a v st) = Inr st1" using cv(3) False by simp
    have ne: "del_cond (del_add col a v st) \<noteq> []" "del_ident (del_add col a v st) \<noteq> []"
      by (simp_all add: del_add_def)
    show ?thesis using Cons.IH[OF IH ok(1)] ok(3)[of cmp r] ne keys km by auto
  qed
qed (simp add: entry_keys_def)

text \<open>The invariant of the loop over the entries.\<close>

definition plan_ok :: "delete_plan \<Rightarrow> bool" where
  "plan_ok p = (params_ok (dp_params p) \<and> list_all (atoms_bound (dp_params p)) (dp_conditions p))"

lemma plan_extend:
  assumes "plan_ok p" "extends (dp_params p) ps"
  shows "list_all (atoms_bound ps) (dp_conditions p)"
    and "row_deleted cmp ps r (dp_conditions p) = row_deleted cmp (dp_params p) r (dp_conditions p)"
  using assms extends_atoms[OF assms(2)] by (auto simp: plan_ok_def list_all_iff row_deleted_def list_ex_iff)

lemma delete_entry_result:
  assumes "delete_entry columns allowed attrs entry p = Inr p1" "plan_ok p"
  obtains st where "delete_ident columns allowed entry attrs \<lparr>del_cond = [], del_ident = [], del_params = dp_params p\<rparr> = Inr st"
    and "del_ok st" "extends (dp_params p) (del_params st)" "plan_ok p1" "dp_params p1 = del_params st"
    and "dp_conditions p1 = dp_conditions p @ (if del_cond st \<noteq> [] \<and> del_ident st \<noteq> [] then [del_cond st] else [])"
proof -
  from assms(1) obtain st where
    st: "delete_ident columns allowed entry attrs \<lparr>del_cond = [], del_ident = [], del_params = dp_params p\<rparr> = Inr st"
    "p1 = (if del_cond st \<noteq> [] \<and> del_ident st \<noteq> [] then
        \<lparr>dp_conditions = dp_conditions p @ [del_cond st], dp_params = del_params st, dp_idents = dp_idents p @ [del_ident st]\<rparr>
      else p\<lparr>dp_params := del_params st\<rparr>)"
    by (auto simp: delete_entry_def bind_res_Inr_iff split: if_splits)
  have "del_ok st \<and> extends (dp_params p) (del_params st)"
    using delete_ident_grows[OF st(1)] assms(2) by (simp add: plan_ok_def atoms_bound_def)
  moreover from this have "plan_ok p1"
    using plan_extend(1)[OF assms(2)] by (auto simp: plan_ok_def st(2))
  ultimately show ?thesis using that[OF st(1)] st(2) by auto
qed

lemma delete_entries_exact:
  assumes "fold_res (delete_entry columns None attrs) objs p = Inr p1" "plan_ok p"
  shows "plan_ok p1 \<and> row_deleted cmp (dp_params p1) r (dp_conditions p1) =
    (row_deleted cmp (dp_params p) r (dp_conditions p) \<or> list_ex (entry_matches cmp columns attrs r) objs)"
  using assms
proof (induction objs arbitrary: p)
  case (Cons e objs)
  from Cons.prems(1) obtain p' where p': "delete_entry columns None attrs e p = Inr p'"
    "fold_res (delete_entry columns None attrs) objs p' = Inr p1" by (auto simp: bind_res_Inr_iff)
  obtain st where st: "delete_ident columns None e attrs \<lparr>del_cond = [], del_ident = [], del_params = dp_params p\<rparr> = Inr st"
    "del_ok st" "extends (dp_params p) (del_params st)" "plan_ok p'" "dp_params p' = del_params st"
    "dp_conditions p' = dp_conditions p @ (if del_cond st \<noteq> [] \<and> del_ident st \<noteq> [] then [del_cond st] else [])"
    by (rule delete_entry_result[OF p'(1) Cons.prems(2)])
  have "row_deleted cmp (dp_params p') r (dp_conditions p') =
      (row_deleted cmp (dp_params p) r (dp_conditions p) \<or> entry_matches cmp columns attrs r e)"
    using delete_ident_exact[OF st(1), of cmp r] plan_extend(2)[OF Cons.prems(2) st(3), of cmp r] Cons.prems(2)
    by (auto simp: st(5,6) row_deleted_def entry_matches_def plan_ok_def atoms_bound_def)
  then show ?case using Cons.IH[OF p'(2) st(4)] by auto
qed simp

lemma delete_entries_scope:
  assumes "fold_res (delete_entry columns (Some ids) (a # attrs)) objs p = Inr p1" "plan_ok p"
    and "map_of columns a = Some col" "ci_client_id_column col" "a \<noteq> ''type''"
    and "row_deleted cmp (dp_params p1) r (dp_conditions p1)"
  shows "row_deleted cmp (dp_params p) r (dp_conditions p) \<or>
    (\<exists>i \<in> set ids. cmp ''='' (r (ci_table col) (ci_column col)) (SStr i))"
  using assms(1,2,6)
proof (induction objs arbitrary: p)
  case (Cons e objs)
  from Cons.prems(1) obtain p' where p': "delete_entry columns (Some ids) (a # attrs) e p = Inr p'"
    "fold_res (delete_entry columns (Some ids) (a # attrs)) objs p' = Inr p1" by (auto simp: bind_res_Inr_iff)
  let ?st0 = "\<lparr>del_cond = [], del_ident = [], del_params = dp_params p\<rparr>"
  obtain st where st: "delete_ident columns (Some ids) e (a # attrs) ?st0 = Inr st"
    "del_ok st" "extends (dp_params p) (del_params st)" "plan_ok p'" "dp_params p' = del_params st"
    "dp_conditions p' = dp_conditions p @ (if del_cond st \<noteq> [] \<and> del_ident st \<noteq> [] then [del_cond st] else [])"
    by (rule delete_entry_result[OF p'(1) Cons.prems(2)])
  have st0: "del_ok ?st0" using Cons.prems(2) by (simp add: plan_ok_def atoms_bound_def)
  have new: "\<exists>i \<in> set ids. cmp ''='' (r (ci_table col) (ci_column col)) (SStr i)"
    if "list_all (atom_holds cmp (del_params st) r) (del_cond st)" "del_cond st \<noteq> []"
  proof -
    from st(1)[unfolded delete_ident_step] assms(3-5) obtain v where
      "if ci_client_id_column col \<and> v \<notin> SStr ` set ids then st = ?st0
       else delete_ident columns (Some ids) e attrs (del_add col a v ?st0) = Inr st" by auto
    with that(2) assms(4) have v: "v \<in> SStr ` set ids" "delete_ident columns (Some ids) e attrs (del_add col a v ?st0) = Inr st"
      by (auto split: if_splits)
    note ok = del_add_ok[OF st0, where col = col and attr = a and v = v]
    from delete_ident_grows[OF v(2) ok(1)] obtain more where
      ext: "extends (del_params (del_add col a v ?st0)) (del_params st)" "del_cond st = del_cond (del_add col a v ?st0) @ more"
      by blast
    have "list_all (atom_holds cmp (del_params (del_add col a v ?st0)) r) (del_cond (del_add col a v ?st0))"
      using that(1) extends_atoms(2)[OF ext(1), of _ cmp r] ok(1) ext(2) by simp
    with ok(3)[of cmp r] v(1) show ?thesis by auto
  qed
  show ?case
    using Cons.IH[OF p'(2) st(4) Cons.prems(3)] new plan_extend(2)[OF Cons.prems(2) st(3), of cmp r]
    by (auto simp: st(5,6) row_deleted_def split: if_splits)
qed simp

section \<open>Properties\<close>


text \<open>
  A client that reaches a table only through \<open>self\<close> entries reads no rows but its own:
  whatever filter it sends, every row its query selects has the client's own id in the client
  id column of the table.
\<close>

theorem self_reads_own_rows:
  assumes "get_columns m (t # ts) aces attributes = Inr columns"
    and "(a, ci) \<in> set columns" "ci_client_id_column ci"
    and "aces \<noteq> []" "\<forall>x \<in> set aces. acetype x = ACE_self" "session_host s = Some h"
    and "where_conditions columns (get_allowed_client_ids (Some s) None aces) flt = Inr (conditions, params)"
    and "row_selected cmp params r conditions"
  shows "\<exists>c. map_of (my_client_id_column m) t = Some c \<and> cmp ''='' (r t c) (SStr (host_id h))"
proof -
  have "get_allowed_client_ids (Some s) al aces = Some [host_id h]" if "aces \<noteq> [] \<or> al = Some [host_id h]" for al
    using that assms(5,6) by (induction aces arbitrary: al) auto
  then have allowed: "get_allowed_client_ids (Some s) None aces = Some [host_id h]" using assms(4) by blast
  obtain col cols where col: "filter ci_client_id_column (map snd columns) = col # cols"
    using assms(2,3) by (cases "filter ci_client_id_column (map snd columns)") (force simp: filter_empty_conv)+
  have "row_selected cmp params r conditions \<longrightarrow> client_matches cmp columns (Some [host_id h]) r"
    using where_conditions_spec[OF assms(7), of cmp r] allowed by (simp add: clause_inv_def)
  with assms(8) col have eq: "cmp ''='' (r (ci_table col) (ci_column col)) (SStr (host_id h))"
    by (simp add: client_matches_def)
  have "col \<in> set (filter ci_client_id_column (map snd columns))" unfolding col by simp
  then obtain b where b: "(b, col) \<in> set columns" "ci_client_id_column col" by auto
  have "column_info_of m t aces attributes (ci_table col) (ci_column col) = Inr col"
    using get_columns_entry[OF assms(1) b(1)] by blast
  then have "ci_client_id_column col = (ci_table col = t \<and> map_of (my_client_id_column m) t = Some (ci_column col))"
    by (rule column_info_of_client)
  with b(2) eq show ?thesis by auto
qed

text \<open>
  A caller to whom every row is open deletes exactly the objects it names: a row is removed
  exactly when it has, in all identifying attributes, the values of one of the given entries (an
  empty type counts as not given), and every entry names at least one attribute.
\<close>

theorem delete_removes_exactly:
  assumes "delete_conditions m session table idents objs aces = Inr p"
    and "get_allowed_client_ids session None aces = None"
    and "get_columns m [table] aces idents = Inr columns"
  shows "row_deleted cmp (dp_params p) r (dp_conditions p) = list_ex (entry_matches cmp columns idents r) objs \<and>
    dp_conditions p \<noteq> []"
proof -
  let ?p0 = "\<lparr>dp_conditions = [], dp_params = [], dp_idents = []\<rparr>"
  have p: "fold_res (delete_entry columns None idents) objs ?p0 = Inr p" "dp_conditions p \<noteq> []"
    using assms by (auto simp: delete_conditions_def bind_res_Inr_iff split: if_splits)
  have "plan_ok ?p0" by (simp add: plan_ok_def params_ok_def dict_keys_def)
  from delete_entries_exact[OF p(1) this, of cmp r] p(2) show ?thesis by (simp add: row_deleted_def)
qed

text \<open>
  Where the client id is the first identifying attribute of a table, a caller restricted to
  its own client deletes none but its own rows.
\<close>

theorem delete_own_rows:
  assumes "delete_conditions m session table (a # idents) objs aces = Inr p"
    and "get_allowed_client_ids session None aces = Some ids"
    and "get_columns m [table] aces (a # idents) = Inr columns"
    and "map_of columns a = Some col" "ci_client_id_column col" "a \<noteq> ''type''"
    and "row_deleted cmp (dp_params p) r (dp_conditions p)"
  shows "\<exists>i \<in> set ids. cmp ''='' (r (ci_table col) (ci_column col)) (SStr i)"
proof -
  let ?p0 = "\<lparr>dp_conditions = [], dp_params = [], dp_idents = []\<rparr>"
  have p: "fold_res (delete_entry columns (Some ids) (a # idents)) objs ?p0 = Inr p"
    using assms(1-3) by (auto simp: delete_conditions_def bind_res_Inr_iff split: if_splits)
  have "plan_ok ?p0" by (simp add: plan_ok_def params_ok_def dict_keys_def)
  from delete_entries_scope[OF p this assms(4-7)] show ?thesis by (simp add: row_deleted_def)
qed

definition config_state_mysql :: mysql where
  "config_state_mysql = \<lparr>my_connected = True, my_tables = [(''CONFIG_STATE'', [''configId'', ''objectId'', ''values''])],
     my_client_id_column = client_id_column0\<rparr>"

text \<open>
  Where the client id comes after another identifying attribute (a config state is
  identified by config id and object id), the refused attribute ends the loop but the condition
  built so far stays: asked by client c1 to delete the state of c2, the statement deletes the
  states of that config for every client, c1 being restricted to itself.
\<close>

theorem delete_escapes_own_client:
  "\<exists>p. delete_query config_state_mysql (Some client_session) ''CONFIG_STATE'' [''configId'', ''objectId'']
        [DelDict [(''configId'', SStr ''x''), (''objectId'', SStr ''c2.opsi.org'')]] [example_acl\<lparr>ace_id := Some ''c1.opsi.org''\<rparr>] =
      Inr (''DELETE FROM `CONFIG_STATE` WHERE (`configId` = :p1)'', dp_params p, [[(''configId'', SStr ''x'')]]) \<and>
    delete_conditions config_state_mysql (Some client_session) ''CONFIG_STATE'' [''configId'', ''objectId'']
        [DelDict [(''configId'', SStr ''x''), (''objectId'', SStr ''c2.opsi.org'')]] [example_acl\<lparr>ace_id := Some ''c1.opsi.org''\<rparr>] = Inr p \<and>
    get_allowed_client_ids (Some client_session) None [example_acl\<lparr>ace_id := Some ''c1.opsi.org''\<rparr>] = Some [''c1.opsi.org''] \<and>
    row_deleted cmp (dp_params p) r (dp_conditions p) = cmp ''='' (r ''CONFIG_STATE'' ''configId'') (SStr ''x'')"
proof -
  let ?p = "\<lparr>dp_conditions = [[\<lparr>at_table = ''CONFIG_STATE'', at_column = ''configId'', at_op = ''='', at_param = ''p1''\<rparr>]],
      dp_params = [(''p1'', PVal (SStr ''x''))], dp_idents = [[(''configId'', SStr ''x'')]]\<rparr>"
  have "delete_conditions config_state_mysql (Some client_session) ''CONFIG_STATE'' [''configId'', ''objectId'']
        [DelDict [(''configId'', SStr ''x''), (''objectId'', SStr ''c2.opsi.org'')]] [example_acl\<lparr>ace_id := Some ''c1.opsi.org''\<rparr>] = Inr ?p"
    "get_allowed_client_ids (Some client_session) None [example_acl\<lparr>ace_id := Some ''c1.opsi.org''\<rparr>] = Some [''c1.opsi.org'']"
    "show_delete ''CONFIG_STATE'' ?p = ''DELETE FROM `CONFIG_STATE` WHERE (`configId` = :p1)''"
    by code_simp+
  then show ?thesis
    by (intro exI[of _ ?p]) (simp add: delete_query_def row_deleted_def atom_holds_def)
qed

lemma insert_column_result:
  assumes "insert_column allowed idents conv set_null (a, col) st = Inr st1" "map_of (ins_data st) a = Some v"
  shows "\<not> client_denied allowed col v \<and>
    ins_where st1 = ins_where st @ (if a \<in> set idents then [(ci_column col, a)] else []) \<and>
    (ins_data st1 = ins_data st \<or> (\<exists>v2. ins_data st1 = dict_set a v2 (ins_data st)))"
  using assms unfolding insert_column_def Let_def prod.case
  by (auto split: if_splits)

lemma insert_column_data:
  assumes "insert_column allowed idents conv set_null (a, col) st = Inr st1"
  shows "ins_data st1 = ins_data st \<or> dict_has (ins_data st) a \<and> (\<exists>v2. ins_data st1 = dict_set a v2 (ins_data st))"
proof (cases "map_of (ins_data st) a")
  case None
  then show ?thesis using assms by (simp add: insert_column_def)
next
  case (Some v)
  then show ?thesis using insert_column_result[OF assms Some] by (simp add: dict_has_iff)
qed

lemma insert_column_keeps:
  assumes "insert_column allowed idents conv set_null (a, col) st = Inr st1"
  shows "dict_has (ins_data st1) b = dict_has (ins_data st) b"
    and "b \<noteq> a \<Longrightarrow> map_of (ins_data st1) b = map_of (ins_data st) b"
    and "ins_where st1 = ins_where st @ (if dict_has (ins_data st) a \<and> a \<in> set idents then [(ci_column col, a)] else [])"
proof -
  note data = insert_column_data[OF assms]
  from data show "b \<noteq> a \<Longrightarrow> map_of (ins_data st1) b = map_of (ins_data st) b" by (elim disjE conjE exE) simp_all
  from data show "dict_has (ins_data st1) b = dict_has (ins_data st) b"
    by (elim disjE conjE exE) (simp_all add: dict_has_iff)
  show "ins_where st1 = ins_where st @ (if dict_has (ins_data st) a \<and> a \<in> set idents then [(ci_column col, a)] else [])"
  proof (cases "map_of (ins_data st) a")
    case None
    then show ?thesis using assms by (simp add: insert_column_def dict_has_iff)
  next
    case (Some v)
    then show ?thesis using insert_column_result[OF assms Some] by (simp add: dict_has_iff)
  qed
qed

lemma insert_columns_spec:
  assumes "fold_res (insert_column allowed idents conv set_null) columns st = Inr st1" "distinct (map fst columns)"
  shows "(\<forall>(a, col) \<in> set columns. \<forall>v. map_of (ins_data st) a = Some v \<longrightarrow> \<not> client_denied allowed col v) \<and>
    ins_where st1 = ins_where st @ map (\<lambda>(a, col). (ci_column col, a))
      (filter (\<lambda>(a, col). dict_has (ins_data st) a \<and> a \<in> set idents) columns)"
  using assms
proof (induction columns arbitrary: st)
  case (Cons ac columns)
  obtain a col where ac: "ac = (a, col)" by fastforce
  from Cons.prems(1) obtain st' where st': "insert_column allowed idents conv set_null (a, col) st = Inr st'"
    "fold_res (insert_column allowed idents conv set_null) columns st' = Inr st1" by (auto simp: ac bind_res_Inr_iff)
  note k = insert_column_keeps[OF st'(1)]
  have others: "map_of (ins_data st') b = map_of (ins_data st) b" if "(b, c) \<in> set columns" for b c
    using k(2)[of b] Cons.prems(2) that by (force simp: ac)
  have IH: "(\<forall>(b, c) \<in> set columns. \<forall>v. map_of (ins_data st') b = Some v \<longrightarrow> \<not> client_denied allowed c v) \<and>
    ins_where st1 = ins_where st' @ map (\<lambda>(b, c). (ci_column c, b)) (filter (\<lambda>(b, c). dict_has (ins_data st') b \<and> b \<in> set idents) columns)"
    using Cons.IH[OF st'(2)] Cons.prems(2) by simp
  have "filter (\<lambda>(b, c). dict_has (ins_data st') b \<and> b \<in> set idents) columns =
      filter (\<lambda>(b, c). dict_has (ins_data st) b \<and> b \<in> set idents) columns"
    using k(1) by simp
  then show ?case using IH k(3) insert_column_result[OF st'(1)] others by (auto simp: ac)
qed simp

lemma insert_additional_where [simp]: "ins_where (fold insert_additional xs st) = ins_where st"
  by (induction xs arbitrary: st) (simp_all add: insert_additional_def)

lemma insert_columns_same:
  assumes "fold_res (insert_column allowed idents conv set_null) columns st = Inr st1"
    and "conv a = None" "\<And>v. map_of (ins_data st) a = Some v \<Longrightarrow> \<not> blank_address a v"
  shows "map_of (ins_data st1) a = map_of (ins_data st) a"
  using assms(1,3)
proof (induction columns arbitrary: st)
  case (Cons ac columns)
  obtain b col where ac: "ac = (b, col)" by fastforce
  from Cons.prems(1) obtain st' where st': "insert_column allowed idents conv set_null (b, col) st = Inr st'"
    "fold_res (insert_column allowed idents conv set_null) columns st' = Inr st1" by (auto simp: ac bind_res_Inr_iff)
  have "map_of (ins_data st') a = map_of (ins_data st) a"
  proof (cases "b = a")
    case True
    show ?thesis
    proof (cases "map_of (ins_data st) a")
      case None
      then show ?thesis using st'(1) True by (simp add: insert_column_def)
    next
      case (Some v)
      then show ?thesis using st'(1) True Cons.prems(2)[OF Some] assms(2) unfolding insert_column_def Let_def prod.case
        by (auto split: if_splits)
    qed
  qed (simp add: insert_column_keeps(2)[OF st'(1)])
  then show ?case using Cons.IH[OF st'(2)] Cons.prems(2) by simp
qed simp

lemma insert_columns_names:
  assumes "fold_res (insert_column allowed idents conv set_null) columns st = Inr st1" "map_of (ins_data st) a = None"
    and "a \<notin> set (ins_vals st)" "a \<notin> snd ` set (ins_updates st)"
  shows "a \<notin> set (ins_vals st1) \<and> a \<notin> snd ` set (ins_updates st1)"
  using assms
proof (induction columns arbitrary: st)
  case (Cons ac columns)
  obtain b col where ac: "ac = (b, col)" by fastforce
  from Cons.prems(1) obtain st' where st': "insert_column allowed idents conv set_null (b, col) st = Inr st'"
    "fold_res (insert_column allowed idents conv set_null) columns st' = Inr st1" by (auto simp: ac bind_res_Inr_iff)
  have "map_of (ins_data st') a = None"
    using insert_column_keeps(1)[OF st'(1), of a] Cons.prems(2) by (simp add: dict_has_iff)
  moreover have "a \<notin> set (ins_vals st') \<and> a \<notin> snd ` set (ins_updates st')"
  proof (cases "map_of (ins_data st) b")
    case None
    then show ?thesis using st'(1) Cons.prems(3,4) by (simp add: insert_column_def)
  next
    case (Some v)
    then have "b \<noteq> a" using Cons.prems(2) by auto
    then show ?thesis using st'(1) Some Cons.prems(3,4) unfolding insert_column_def Let_def prod.case
      by (auto split: if_splits)
  qed
  ultimately show ?case using Cons.IH[OF st'(2)] by simp
qed simp

lemma insert_additional_keeps:
  assumes "a \<notin> fst ` set xs"
  shows "map_of (ins_data (fold insert_additional xs st)) a = map_of (ins_data st) a"
    and "a \<in> set (ins_vals (fold insert_additional xs st)) \<longleftrightarrow> a \<in> set (ins_vals st)"
    and "a \<in> snd ` set (ins_updates (fold insert_additional xs st)) \<longleftrightarrow> a \<in> snd ` set (ins_updates st)"
  using assms by (induction xs arbitrary: st) (auto simp: insert_additional_def)

text \<open>
  C6. What an INSERT or UPDATE that is sent says about the client: for a caller restricted to a
  non-empty list of clients (with an empty list the code checks nothing), an attribute in the
  client id column that the object carries has one of these ids, and the parameter bound to it in
  the statement is that id; an attribute the object does not carry is neither written nor part of
  the WHERE. The WHERE of an UPDATE names exactly the columns of the identifying attributes given
  and is never empty. Hypotheses: the type has no write conversion for the attribute, the additional
  data do not replace it, and no allowed id is the empty string.
\<close>

theorem insert_own_rows:
  assumes "insert_query m session conversions table data idents aces create set_null additional_data = Inr (query, params)"
    and "query \<noteq> []" "get_columns m [table] aces [] = Inr columns"
    and "get_allowed_client_ids session None aces = Some ids" "ids \<noteq> []" "[] \<notin> set ids"
    and "(a, col) \<in> set columns" "ci_client_id_column col" "conversions a = None" "a \<notin> fst ` set additional_data"
  shows "\<exists>st. insert_plan m session conversions table data idents aces create set_null additional_data = Inr st \<and>
    params = ins_data st \<and>
    (case map_of data a of
       Some v \<Rightarrow> (\<exists>i \<in> set ids. v = SStr i) \<and> map_of params a = Some v
     | None \<Rightarrow> a \<notin> set (ins_vals st) \<and> a \<notin> snd ` set (ins_updates st) \<and> a \<notin> snd ` set (ins_where st)) \<and>
    (\<not> create \<longrightarrow> ins_where st \<noteq> [] \<and>
      ins_where st = map (\<lambda>(a, col). (ci_column col, a)) (filter (\<lambda>(a, col). dict_has data a \<and> a \<in> set idents) columns))"
proof -
  let ?st0 = "\<lparr>ins_data = data, ins_cols = [], ins_vals = [], ins_where = [], ins_updates = []\<rparr>"
  obtain st where st: "insert_plan m session conversions table data idents aces create set_null additional_data = Inr st"
    and params: "params = ins_data st" and wh: "\<not> create \<Longrightarrow> ins_where st \<noteq> []"
    using assms(1,2) by (auto simp: insert_query_def bind_res_Inr_iff split: if_splits)
  obtain st1 where st1: "fold_res (insert_column (Some ids) (if create then [] else idents) conversions set_null) columns ?st0 = Inr st1"
    "st = fold insert_additional additional_data st1"
    using st assms(3,4) by (auto simp: insert_plan_def bind_res_Inr_iff)
  note spec = insert_columns_spec[OF st1(1) get_columns_distinct[OF assms(3)]]
  have own: "\<exists>i \<in> set ids. v = SStr i" if "map_of data a = Some v" for v
  proof -
    have "\<not> client_denied (Some ids) col v" using spec that assms(7) by auto
    then show ?thesis using assms(5,8) by (auto simp: client_denied_def)
  qed
  then have "map_of (ins_data st1) a = map_of data a"
    using insert_columns_same[OF st1(1) assms(9)] assms(6) by (auto simp: blank_address_def)
  then have same: "map_of params a = map_of data a"
    by (simp add: params st1(2) insert_additional_keeps(1)[OF assms(10)])
  have absent: "a \<notin> set (ins_vals st) \<and> a \<notin> snd ` set (ins_updates st) \<and> a \<notin> snd ` set (ins_where st)" if "map_of data a = None"
  proof -
    have "a \<notin> set (ins_vals st1) \<and> a \<notin> snd ` set (ins_updates st1)"
      using insert_columns_names[OF st1(1), of a] that by simp
    moreover have "a \<notin> snd ` set (ins_where st1)"
      using spec that by (auto simp: dict_has_iff)
    ultimately show ?thesis by (simp add: st1(2) insert_additional_keeps[OF assms(10)])
  qed
  show ?thesis
    using st params own same absent wh spec by (intro exI[of _ st]) (auto simp: st1(2) split: option.split)
qed

text \<open>
  Only the \<open>*\<close> is translated: an underscore beside it stays a wildcard of LIKE, so the filter
  \<open>a_*\<close> also selects values that do not begin with \<open>a_\<close>.
\<close>

theorem underscore_is_a_wildcard:
  "filter_operator (SStr ''a_*'') = (''LIKE'', SStr ''a_%'') \<and>
   like_match (=) ''abc'' ''a_%'' \<and> \<not> wildcard (=) ''abc'' ''a_*''"
proof -
  have "filter_operator (SStr ''a_*'') = (''LIKE'', SStr ''a_%'')" "like_match (=) ''abc'' ''a_%''" by code_simp+
  moreover have "\<not> wildcard (=) ''abc'' ''a_*''" by (simp add: wildcard_Cons)
  ultimately show ?thesis by simp
qed

text \<open>
  A filter may name any attribute of the table, also one the caller may not read: for an
  attribute that the caller's entry denies, the column is left out of the SELECT, and yet a
  wildcard filter on it selects exactly the rows whose stored value matches. By asking for ever
  longer prefixes a client can read the denied value (the host keys of other hosts, say).
\<close>

theorem denied_attribute_can_be_probed:
  assumes "get_columns m [t] [b] [] = Inr columns" "map_of columns attr = Some ci"
    and "attr \<noteq> ''type''" "\<not> ace_permits b attr" "acetype b \<noteq> ACE_self"
  shows "ci_select ci = None \<and>
    (\<exists>conditions params. where_conditions columns (get_allowed_client_ids session None [b]) [(attr, FOne (SStr (key @ ''*'')))] =
        Inr (conditions, params) \<and>
      row_selected cmp params r conditions =
        cmp ''LIKE'' (r (ci_table ci) (ci_column ci)) (SStr (map (\<lambda>c. if c = CHR ''*'' then CHR ''%'' else c) key @ ''%'')))"
proof -
  have "(attr, ci) \<in> set columns" using assms(2) by (rule map_of_SomeD)
  from column_access[OF assms(1) this assms(3), of "[]"] assms(4,5) have "ci_select ci = None" by simp
  moreover have conds: "where_conditions columns (get_allowed_client_ids session None [b]) [(attr, FOne (SStr (key @ ''*'')))] =
      Inr ([[\<lparr>at_table = ci_table ci, at_column = ci_column ci, at_op = ''LIKE'', at_param = ''p1''\<rparr>]],
        [(''p1'', PVal (SStr (map (\<lambda>c. if c = CHR ''*'' then CHR ''%'' else c) key @ ''%'')))])"
    using assms(2,3,5) by (simp add: where_conditions_def where_filter_def with_configserver_def where_value_def where_client_def
        next_param_Nil Let_def)
  ultimately show ?thesis
    by (simp add: row_selected_def atom_holds_def)
qed

definition retryable :: "string + 'r \<Rightarrow> bool" where
  "retryable out = (case out of
     Inl err \<Rightarrow> py_contains ''deadlock'' (py_lower err) \<or> py_contains ''server has gone away'' (py_lower err)
   | Inr _ \<Rightarrow> False)"

definition gone_away :: "string + 'r \<Rightarrow> bool" where
  "gone_away out = (case out of
     Inl err \<Rightarrow> \<not> py_contains ''deadlock'' (py_lower err) \<and> py_contains ''server has gone away'' (py_lower err)
   | Inr _ \<Rightarrow> False)"

lemma execute_loop_step:
  "execute_loop db k rb =
     (if \<not> retryable (db (k + 1)) \<or> 3 < k + 1 then (db (k + 1), k + 1, rb)
      else execute_loop db (k + 1) (if gone_away (db (k + 1)) then rb + 1 else rb))"
  by (subst execute_loop.simps)
    (auto simp: Let_def retryable_def gone_away_def retry_on_deadlock_def retry_on_server_has_gone_away_def split: sum.split)

lemma execute_loop_spec:
  assumes "execute_loop db k rb = (out, n, rbs)" "k \<le> 3"
  shows "k < n \<and> n \<le> 4 \<and> out = db n \<and> (\<forall>i. k < i \<and> i < n \<longrightarrow> retryable (db i)) \<and> (n < 4 \<longrightarrow> \<not> retryable (db n)) \<and>
    rbs = rb + length (filter (\<lambda>i. gone_away (db i)) [Suc k..<n])"
  using assms
proof (induction "3 - k" arbitrary: k rb)
  case 0
  then show ?case by (subst (asm) execute_loop_step) (auto split: if_splits)
next
  case (Suc d)
  show ?case
  proof (cases "retryable (db (k + 1))")
    case False
    then show ?thesis using Suc.prems by (subst (asm) execute_loop_step) auto
  next
    case True
    have "\<not> 3 < k + 1" using Suc.hyps(2) by simp
    with True have "execute_loop db (k + 1) (if gone_away (db (k + 1)) then rb + 1 else rb) = (out, n, rbs)"
      using Suc.prems(1) execute_loop_step[of db k rb] by simp
    from Suc.hyps(1)[OF _ this] Suc.hyps(2)
    have IH: "k + 1 < n" "n \<le> 4" "out = db n" "\<forall>i. k + 1 < i \<and> i < n \<longrightarrow> retryable (db i)" "n < 4 \<longrightarrow> \<not> retryable (db n)"
      "rbs = (if gone_away (db (k + 1)) then rb + 1 else rb) + length (filter (\<lambda>i. gone_away (db i)) [Suc (k + 1)..<n])"
      by auto
    have "\<forall>i. k < i \<and> i < n \<longrightarrow> retryable (db i)"
      using IH(4) True by (metis Suc_eq_plus1 Suc_lessI)
    moreover have "[Suc k..<n] = Suc k # [Suc (Suc k)..<n]" using IH(1) by (simp add: upt_conv_Cons)
    ultimately show ?thesis using IH by auto
  qed
qed

text \<open>
  A statement is attempted at most four times. The outcome is that of the last attempt; all
  earlier ones failed with a deadlock or a lost server, each lost server was followed by a
  rollback, and the loop gives up early only on success or on another error.
\<close>

theorem execute_retries_bounded:
  "\<exists>n rbs. execute db = (db n, n, rbs) \<and> 1 \<le> n \<and> n \<le> 4 \<and> list_all (\<lambda>i. retryable (db i)) [1..<n] \<and>
    (if n < 4 then \<not> retryable (db n) else True) \<and> rbs = length (filter (\<lambda>i. gone_away (db i)) [1..<n])"
proof -
  obtain out n rbs where e: "execute_loop db 0 0 = (out, n, rbs)" by (cases "execute_loop db 0 0") auto
  from execute_loop_spec[OF this] have "0 < n" "n \<le> 4" "out = db n" "\<forall>i. 0 < i \<and> i < n \<longrightarrow> retryable (db i)"
    "n < 4 \<longrightarrow> \<not> retryable (db n)" "rbs = length (filter (\<lambda>i. gone_away (db i)) [Suc 0..<n])" by auto
  then show ?thesis using e by (intro exI[of _ n] exI[of _ rbs]) (auto simp: execute_def list_all_iff)
qed

text \<open>The witnesses: the host table of the earlier example.\<close>

abbreviation example_host_columns :: "(string \<times> column_info) list" where
  "example_host_columns \<equiv>
     [(''id'', \<lparr>ci_table = ''HOST'', ci_column = ''hostId'', ci_client_id_column = True,
        ci_select = Some (EIf ''HOST'' ''hostId'' ''c1.opsi.org'' (ECol ''HOST'' ''hostId'') ENull)\<rparr>),
      (''type'', \<lparr>ci_table = ''HOST'', ci_column = ''type'', ci_client_id_column = False, ci_select = Some (ECol ''HOST'' ''type'')\<rparr>),
      (''opsiHostKey'', host_key_column ''c1.opsi.org'')]"

abbreviation own_ace :: "rpcace list" where
  "own_ace \<equiv> [example_acl\<lparr>ace_id := Some ''c1.opsi.org''\<rparr>]"

lemma own_columns: "get_columns example_mysql [''HOST''] own_ace [] = Inr example_host_columns"
  by code_simp

lemma own_where:
  "where_conditions example_host_columns (get_allowed_client_ids (Some client_session) None own_ace) [(''type'', FOne (SStr ''OpsiDepotserver''))] =
    Inr ([[\<lparr>at_table = ''HOST'', at_column = ''type'', at_op = ''='', at_param = ''p1''\<rparr>,
           \<lparr>at_table = ''HOST'', at_column = ''type'', at_op = ''='', at_param = ''p2''\<rparr>],
          [\<lparr>at_table = ''HOST'', at_column = ''hostId'', at_op = ''IN'', at_param = ''p3''\<rparr>]],
         [(''p1'', PVal (SStr ''OpsiDepotserver'')), (''p2'', PVal (SStr ''OpsiConfigserver'')), (''p3'', PList [SStr ''c1.opsi.org''])])"
  by code_simp

definition plain_collation :: collation where
  "plain_collation = \<lparr>co_eq = (=), co_less = (\<lambda>x y. case (x, y) of (SInt i, SInt j) \<Rightarrow> i < j | _ \<Rightarrow> False),
     co_text = (\<lambda>x. case x of SStr s \<Rightarrow> s | _ \<Rightarrow> []), co_char = (=)\<rparr>"


theorem self_reads_own_rows_witness:
  "\<exists>c. map_of (my_client_id_column example_mysql) ''HOST'' = Some c \<and>
    SStr ''c1.opsi.org'' = SStr (host_id (the (session_host client_session)))"
proof -
  let ?r = "\<lambda>t c. if c = ''hostId'' then SStr ''c1.opsi.org'' else SStr ''OpsiConfigserver''"
  have sel: "row_selected (\<lambda>op. (=)) [(''p1'', PVal (SStr ''OpsiDepotserver'')), (''p2'', PVal (SStr ''OpsiConfigserver'')), (''p3'', PList [SStr ''c1.opsi.org''])] ?r
     [[\<lparr>at_table = ''HOST'', at_column = ''type'', at_op = ''='', at_param = ''p1''\<rparr>,
           \<lparr>at_table = ''HOST'', at_column = ''type'', at_op = ''='', at_param = ''p2''\<rparr>],
          [\<lparr>at_table = ''HOST'', at_column = ''hostId'', at_op = ''IN'', at_param = ''p3''\<rparr>]]"
    by code_simp
  have h: "session_host client_session = Some (the (session_host client_session))" by code_simp
  have self: "\<forall>x \<in> set own_ace. acetype x = ACE_self" by code_simp
  have map: "map_of (my_client_id_column example_mysql) ''HOST'' = Some ''hostId''" by code_simp
  have id: "(''id'', \<lparr>ci_table = ''HOST'', ci_column = ''hostId'', ci_client_id_column = True,
        ci_select = Some (EIf ''HOST'' ''hostId'' ''c1.opsi.org'' (ECol ''HOST'' ''hostId'') ENull)\<rparr>) \<in> set example_host_columns"
    "ci_client_id_column \<lparr>ci_table = ''HOST'', ci_column = ''hostId'', ci_client_id_column = True,
        ci_select = Some (EIf ''HOST'' ''hostId'' ''c1.opsi.org'' (ECol ''HOST'' ''hostId'') ENull)\<rparr>" by simp_all
  show ?thesis
    using self_reads_own_rows[OF own_columns id _ self h own_where sel] map by simp
qed

theorem delete_removes_exactly_witness:
  "\<exists>p. delete_conditions config_state_mysql (Some client_session) ''CONFIG_STATE'' [''configId'', ''objectId'']
      [DelDict [(''configId'', SStr ''x''), (''objectId'', SStr ''c2.opsi.org'')]] [RPCACE_ALLOW_ALL] = Inr p \<and>
    \<not> row_deleted (\<lambda>op. (=)) (dp_params p) (\<lambda>t c. if c = ''configId'' then SStr ''x'' else SStr ''c3.opsi.org'') (dp_conditions p)"
proof -
  let ?p = "\<lparr>dp_conditions = [[\<lparr>at_table = ''CONFIG_STATE'', at_column = ''configId'', at_op = ''='', at_param = ''p1''\<rparr>,
        \<lparr>at_table = ''CONFIG_STATE'', at_column = ''objectId'', at_op = ''='', at_param = ''p2''\<rparr>]],
      dp_params = [(''p1'', PVal (SStr ''x'')), (''p2'', PVal (SStr ''c2.opsi.org''))],
      dp_idents = [[(''configId'', SStr ''x''), (''objectId'', SStr ''c2.opsi.org'')]]\<rparr>"
  let ?cols = "[(''configId'', \<lparr>ci_table = ''CONFIG_STATE'', ci_column = ''configId'', ci_client_id_column = False, ci_select = Some (ECol ''CONFIG_STATE'' ''configId'')\<rparr>),
     (''objectId'', \<lparr>ci_table = ''CONFIG_STATE'', ci_column = ''objectId'', ci_client_id_column = True, ci_select = Some (ECol ''CONFIG_STATE'' ''objectId'')\<rparr>),
     (''values'', \<lparr>ci_table = ''CONFIG_STATE'', ci_column = ''values'', ci_client_id_column = False, ci_select = None\<rparr>)]"
  have d: "delete_conditions config_state_mysql (Some client_session) ''CONFIG_STATE'' [''configId'', ''objectId'']
      [DelDict [(''configId'', SStr ''x''), (''objectId'', SStr ''c2.opsi.org'')]] [RPCACE_ALLOW_ALL] = Inr ?p"
    "get_allowed_client_ids (Some client_session) None [RPCACE_ALLOW_ALL] = None"
    "get_columns config_state_mysql [''CONFIG_STATE''] [RPCACE_ALLOW_ALL] [''configId'', ''objectId''] = Inr ?cols"
    by code_simp+
  have "\<not> list_ex (entry_matches (\<lambda>op. (=)) ?cols [''configId'', ''objectId''] (\<lambda>t c. if c = ''configId'' then SStr ''x'' else SStr ''c3.opsi.org''))
      [DelDict [(''configId'', SStr ''x''), (''objectId'', SStr ''c2.opsi.org'')]]"
    by (simp add: entry_matches_def entry_keys_def key_matches_def)
  with delete_removes_exactly[OF d, of "\<lambda>op. (=)" "\<lambda>t c. if c = ''configId'' then SStr ''x'' else SStr ''c3.opsi.org''"] d(1)
  show ?thesis by blast
qed

theorem delete_own_rows_witness:
  "\<exists>p. delete_conditions example_mysql (Some client_session) ''HOST'' [''id''] [DelDict [(''id'', SStr ''c1.opsi.org'')]] own_ace = Inr p \<and>
    (\<exists>i \<in> set [''c1.opsi.org'']. SStr ''c1.opsi.org'' = SStr i)"
proof -
  let ?p = "\<lparr>dp_conditions = [[\<lparr>at_table = ''HOST'', at_column = ''hostId'', at_op = ''='', at_param = ''p1''\<rparr>]],
      dp_params = [(''p1'', PVal (SStr ''c1.opsi.org''))], dp_idents = [[(''id'', SStr ''c1.opsi.org'')]]\<rparr>"
  let ?id = "\<lparr>ci_table = ''HOST'', ci_column = ''hostId'', ci_client_id_column = True,
        ci_select = Some (EIf ''HOST'' ''hostId'' ''c1.opsi.org'' (ECol ''HOST'' ''hostId'') ENull)\<rparr>"
  let ?cols = "[(''id'', ?id),
     (''type'', \<lparr>ci_table = ''HOST'', ci_column = ''type'', ci_client_id_column = False, ci_select = Some (ECol ''HOST'' ''type'')\<rparr>),
     (''opsiHostKey'', \<lparr>ci_table = ''HOST'', ci_column = ''opsiHostKey'', ci_client_id_column = False, ci_select = None\<rparr>)]"
  have d: "delete_conditions example_mysql (Some client_session) ''HOST'' [''id''] [DelDict [(''id'', SStr ''c1.opsi.org'')]] own_ace = Inr ?p"
    "get_allowed_client_ids (Some client_session) None own_ace = Some [''c1.opsi.org'']"
    "get_columns example_mysql [''HOST''] own_ace [''id''] = Inr ?cols" "map_of ?cols ''id'' = Some ?id" "ci_client_id_column ?id"
    "row_deleted (\<lambda>op. (=)) (dp_params ?p) (\<lambda>t c. SStr ''c1.opsi.org'') (dp_conditions ?p)"
    by code_simp+
  from delete_own_rows[OF d(1-5) _ d(6)] d(1) show ?thesis by simp
qed

text \<open>A client updates its own host object.\<close>

theorem insert_own_rows_witness:
  "\<exists>params. insert_query example_mysql (Some client_session) (\<lambda>_. None) ''HOST''
      [(''id'', SStr ''c1.opsi.org''), (''opsiHostKey'', SStr ''k'')] [''id''] own_ace False False [] =
      Inr (''UPDATE `HOST` SET `hostId` = :id,`opsiHostKey` = :opsiHostKey WHERE `hostId` = :id'', params) \<and>
    map_of params ''id'' = Some (SStr ''c1.opsi.org'')"
proof -
  have q: "insert_query example_mysql (Some client_session) (\<lambda>_. None) ''HOST''
      [(''id'', SStr ''c1.opsi.org''), (''opsiHostKey'', SStr ''k'')] [''id''] own_ace False False [] =
      Inr (''UPDATE `HOST` SET `hostId` = :id,`opsiHostKey` = :opsiHostKey WHERE `hostId` = :id'',
        [(''id'', SStr ''c1.opsi.org''), (''opsiHostKey'', SStr ''k'')])"
    by code_simp
  have al: "get_allowed_client_ids (Some client_session) None own_ace = Some [''c1.opsi.org'']" by code_simp
  let ?id = "\<lparr>ci_table = ''HOST'', ci_column = ''hostId'', ci_client_id_column = True,
        ci_select = Some (EIf ''HOST'' ''hostId'' ''c1.opsi.org'' (ECol ''HOST'' ''hostId'') ENull)\<rparr>"
  have id: "(''id'', ?id) \<in> set example_host_columns" "ci_client_id_column ?id" by simp_all
  show ?thesis
    using insert_own_rows[OF q _ own_columns al _ _ id] q by auto
qed

theorem denied_attribute_can_be_probed_witness:
  "\<exists>conditions params. row_selected (\<lambda>op x v. op = ''LIKE'' \<and> x = SStr ''0123'' \<and> v = SStr ''01%'') params (\<lambda>t c. SStr ''0123'') conditions \<and> conditions \<noteq> []"
proof -
  let ?b = "example_acl\<lparr>acetype := ACE_opsi_client, denied_attributes := {''opsiHostKey''}\<rparr>"
  let ?key = "\<lparr>ci_table = ''HOST'', ci_column = ''opsiHostKey'', ci_client_id_column = False, ci_select = None\<rparr>"
  let ?cols = "[(''id'', \<lparr>ci_table = ''HOST'', ci_column = ''hostId'', ci_client_id_column = True, ci_select = Some (ECol ''HOST'' ''hostId'')\<rparr>),
     (''type'', \<lparr>ci_table = ''HOST'', ci_column = ''type'', ci_client_id_column = False, ci_select = Some (ECol ''HOST'' ''type'')\<rparr>),
     (''opsiHostKey'', ?key)]"
  have d: "get_columns example_mysql [''HOST''] [?b] [] = Inr ?cols" "map_of ?cols ''opsiHostKey'' = Some ?key"
    "''opsiHostKey'' \<noteq> ''type''" "\<not> ace_permits ?b ''opsiHostKey''" "acetype ?b \<noteq> ACE_self"
    by code_simp+
  let ?cmp = "\<lambda>op x v. op = ''LIKE'' \<and> x = SStr ''0123'' \<and> v = SStr ''01%''"
  obtain conditions params where c:
    "where_conditions ?cols (get_allowed_client_ids None None [?b]) [(''opsiHostKey'', FOne (SStr (''01'' @ ''*'')))] = Inr (conditions, params)"
    "row_selected ?cmp params (\<lambda>t c. SStr ''0123'') conditions"
    using denied_attribute_can_be_probed[OF d, of None "''01''" ?cmp "\<lambda>t c. SStr ''0123''"] by auto
  have "\<exists>cs ps. where_conditions ?cols (get_allowed_client_ids None None [?b]) [(''opsiHostKey'', FOne (SStr (''01'' @ ''*'')))] = Inr (cs, ps) \<and> cs \<noteq> []"
    by (rule exI, rule exI, rule conjI, code_simp, simp)
  with c show ?thesis by auto
qed

end
