(* ===== verification/Product_Sort.thy ===== *)
theory Product_Sort
  imports Py_Strings "HOL-Library.Product_Lexorder"
begin

text \<open>
  Ordering the actions of a group (\<open>opsiconfd/backend/rpc/obj_product_dependency.py\<close>, classes
  \<open>Action\<close> and \<open>ActionGroup\<close>): the priority of a group and the dependency sort. The main results:
  the sort permutes the actions, and for acyclic requirements within the group it ends with all
  of them met. The log of the sort is kept as values instead of texts.
\<close>

section \<open>Data\<close>

record product_on_client =
  poc_productId :: string
  poc_productType :: string
  poc_clientId :: string
  poc_installationStatus :: "string option"
  poc_actionRequest :: "string option"
  poc_productVersion :: "string option"
  poc_packageVersion :: "string option"
  poc_actionSequence :: int

record product_dependency =
  dep_productId :: string
  dep_productVersion :: string
  dep_packageVersion :: string
  dep_productAction :: string
  dep_requiredProductId :: string
  dep_requiredProductVersion :: "string option"
  dep_requiredPackageVersion :: "string option"
  dep_requiredAction :: "string option"
  dep_requiredInstallationStatus :: "string option"
  dep_requirementType :: "string option"

record action =
  ac_product_id :: string
  ac_product_type :: string
  ac_action :: string
  ac_priority :: int
  ac_product_on_client :: "product_on_client option"

datatype sort_log =
    Ordered "(string \<times> int) list"
  | Moved nat string int string int

record action_group =
  ag_priority :: int
  ag_actions :: "action list"
  ag_dependencies :: "(string \<times> product_dependency list) list"
  ag_sort_log :: "sort_log list"

definition new_group :: action_group where
  "new_group = \<lparr>ag_priority = 0, ag_actions = [], ag_dependencies = [], ag_sort_log = []\<rparr>"

section \<open>Sorting\<close>

text \<open>\<open>xs.pop(k)\<close>, also for negative indices; \<open>xs.insert\<close> is \<open>list_insert_at\<close>.\<close>

definition py_pop :: "int \<Rightarrow> 'a list \<Rightarrow> 'a \<times> 'a list" where
  "py_pop k xs = (let i = nat (if k < 0 then int (length xs) + k else k) in (xs ! i, list_pop i xs))"

definition move_action :: "int \<Rightarrow> int \<Rightarrow> action list \<Rightarrow> action list" where
  "move_action dst src actions = (let (a, rest) = py_pop src actions in list_insert_at (nat dst) a rest)"

fun sort_positions :: "string \<Rightarrow> string \<Rightarrow> action list \<Rightarrow> int \<Rightarrow> int \<Rightarrow> int \<Rightarrow> int \<times> int" where
  "sort_positions prd req [] idx pos_prd pos_req = (pos_prd, pos_req)"
| "sort_positions prd req (act # acts) idx pos_prd pos_req =
     (let (p, r) = (if ac_product_id act = prd then (idx, pos_req)
                    else if ac_product_id act = req then (pos_prd, idx)
                    else (pos_prd, pos_req))
      in if p > -1 \<and> r > -1 then (p, r) else sort_positions prd req acts (idx + 1) p r)"

definition sort_dependency :: "nat \<Rightarrow> action \<Rightarrow> product_dependency \<Rightarrow> action list \<times> sort_log list \<Rightarrow> action list \<times> sort_log list" where
  "sort_dependency run_number action dependency = (\<lambda>(actions, log).
     if dep_requirementType dependency \<notin> {Some ''before'', Some ''after''} then (actions, log)
     else
       let prd = ac_product_id action;
           req = dep_requiredProductId dependency;
           (pos_prd, pos_req) = sort_positions prd req actions 0 (-1) (-1)
       in if dep_requirementType dependency = Some ''before'' then
            (if pos_req > pos_prd then
               (move_action pos_req pos_prd actions, log @ [Moved run_number prd pos_prd req pos_req])
             else (actions, log))
          else
            (if pos_req < pos_prd then
               (move_action pos_prd pos_req actions, log @ [Moved run_number req pos_req prd pos_prd])
             else (actions, log)))"

definition action_dependencies :: "(string \<times> product_dependency list) list \<Rightarrow> action \<Rightarrow> product_dependency list" where
  "action_dependencies deps action = (case map_of deps (ac_product_id action) of None \<Rightarrow> [] | Some ds \<Rightarrow> ds)"

definition sort_run :: "(string \<times> product_dependency list) list \<Rightarrow> nat \<Rightarrow> action list \<times> sort_log list \<Rightarrow> action list \<times> sort_log list" where
  "sort_run deps run_number = (\<lambda>(actions, log).
     fold (\<lambda>action. fold (sort_dependency run_number action) (action_dependencies deps action)) actions (actions, log))"

text \<open>The while loop: the number of runs left is the length of the list, which no run changes,
  minus the runs made.\<close>

fun sort_runs :: "(string \<times> product_dependency list) list \<Rightarrow> nat \<Rightarrow> nat \<Rightarrow> action list \<times> sort_log list \<Rightarrow> action list \<times> sort_log list" where
  "sort_runs deps 0 run_number st = st"
| "sort_runs deps (Suc k) run_number st =
     (let st1 = sort_run deps (run_number + 1) st in
      if fst st1 = fst st then st1 else sort_runs deps k (run_number + 1) st1)"

definition sort_group :: "action_group \<Rightarrow> action_group" where
  "sort_group g =
     (let actions = sort_key (\<lambda>a. (ac_priority a * -1, ac_product_id a)) (ag_actions g);
          log = ag_sort_log g @ [Ordered (map (\<lambda>a. (ac_product_id a, ac_priority a)) actions)];
          (actions, log) = sort_runs (ag_dependencies g) (length actions) 0 (actions, log)
      in g\<lparr>ag_actions := actions, ag_sort_log := log\<rparr>)"

definition add_action :: "action \<Rightarrow> action_group \<Rightarrow> action_group" where
  "add_action a g =
     (let g = g\<lparr>ag_actions := ag_actions g @ [a]\<rparr> in
      if ac_action a = ''none'' then g
      else
        let max_priority = max (ag_priority g) (ac_priority a);
            min_priority = min (ag_priority g) (ac_priority a)
        in if max_priority > 0 then g\<lparr>ag_priority := max_priority\<rparr>
           else if min_priority < 0 then g\<lparr>ag_priority := min_priority\<rparr>
           else g)"

definition action_product_on_client :: "string \<Rightarrow> action \<Rightarrow> product_on_client" where
  "action_product_on_client client_id a =
     (case ac_product_on_client a of
        Some poc \<Rightarrow> poc
      | None \<Rightarrow> \<lparr>poc_productId = ac_product_id a, poc_productType = ac_product_type a, poc_clientId = client_id,
                 poc_installationStatus = None, poc_actionRequest = None, poc_productVersion = None,
                 poc_packageVersion = None, poc_actionSequence = -1\<rparr>)\<lparr>poc_actionRequest := Some (ac_action a)\<rparr>"

section \<open>Order in a list\<close>

definition before :: "'a list \<Rightarrow> 'a \<Rightarrow> 'a \<Rightarrow> bool" where
  "before xs u v = subseq [u, v] xs"

lemma before_filter: "P u \<Longrightarrow> P v \<Longrightarrow> before (filter P xs) u v = before xs u v"
proof (induction xs)
  case (Cons z zs)
  then show ?case by (auto simp: before_def subseq_singleton_left elim: list_emb.cases)
qed (simp add: before_def)

lemma before_Cons: "before (z # zs) u v \<longleftrightarrow> (u = z \<and> v \<in> set zs) \<or> before zs u v"
  by (auto simp: before_def subseq_singleton_left dest: subseq_Cons')

lemma before_Nil [simp]: "\<not> before [] u v"
  by (simp add: before_def)

lemma before_append:
  "before (xs @ ys) u v \<longleftrightarrow> before xs u v \<or> (u \<in> set xs \<and> v \<in> set ys) \<or> before ys u v"
  by (induction xs) (auto simp: before_Cons)

lemma before_set: "before xs u v \<Longrightarrow> u \<in> set xs \<and> v \<in> set xs"
  by (induction xs) (auto simp: before_Cons)

lemma before_distinct: "distinct xs \<Longrightarrow> before xs u v \<Longrightarrow> \<not> before xs v u \<and> u \<noteq> v"
  by (induction xs) (auto simp: before_Cons dest: before_set)

lemma before_total: "u \<in> set xs \<Longrightarrow> v \<in> set xs \<Longrightarrow> u \<noteq> v \<Longrightarrow> before xs u v \<or> before xs v u"
  by (induction xs) (auto simp: before_Cons)

lemma before_nth: "i < j \<Longrightarrow> j < length xs \<Longrightarrow> before xs (xs ! i) (xs ! j)"
proof (induction xs arbitrary: i j)
  case (Cons z zs)
  then show ?case by (cases i; cases j) (auto simp: before_Cons)
qed simp

section \<open>Moving an element behind another\<close>

definition move_behind :: "'a \<Rightarrow> 'a \<Rightarrow> 'a list \<Rightarrow> 'a list" where
  "move_behind x y xs = (let ws = filter (\<lambda>z. z \<noteq> y) xs in
     takeWhile (\<lambda>z. z \<noteq> x) ws @ x # y # tl (dropWhile (\<lambda>z. z \<noteq> x) ws))"

lemma move_behind_split:
  assumes "distinct (as @ y # bs @ x # cs)"
  shows "move_behind x y (as @ y # bs @ x # cs) = as @ bs @ x # y # cs"
proof -
  have f: "filter (\<lambda>z. z \<noteq> y) (as @ y # bs @ x # cs) = (as @ bs) @ x # cs"
  proof -
    have "filter (\<lambda>z. z \<noteq> y) l = l" if "y \<notin> set l" for l
      using that by (intro filter_True) auto
    then show ?thesis using assms by auto
  qed
  have "\<forall>z \<in> set (as @ bs). z \<noteq> x" using assms by auto
  then have "takeWhile (\<lambda>z. z \<noteq> x) ((as @ bs) @ x # cs) = as @ bs"
    "dropWhile (\<lambda>z. z \<noteq> x) ((as @ bs) @ x # cs) = x # cs"
    by (subst takeWhile_append2 dropWhile_append2; simp)+
  then show ?thesis unfolding move_behind_def f by simp
qed

lemma before_split:
  assumes "distinct xs" "before xs y x"
  obtains as bs cs where "xs = as @ y # bs @ x # cs"
proof -
  from before_set[OF assms(2)] obtain as zs where xs: "xs = as @ y # zs" by (meson split_list)
  then have "x \<in> set zs"
    using assms before_set by (fastforce simp: before_append before_Cons)
  then obtain bs cs where "zs = bs @ x # cs" by (meson split_list)
  then show ?thesis using that xs by simp
qed

lemma move_behind_spec:
  assumes "distinct xs" "before xs y x"
  shows "mset (move_behind x y xs) = mset xs" "before (move_behind x y xs) x y"
    and "u \<noteq> y \<Longrightarrow> v \<noteq> y \<Longrightarrow> before (move_behind x y xs) u v = before xs u v"
    and "before xs u y \<Longrightarrow> before (move_behind x y xs) u y"
proof -
  obtain as bs cs where xs: "xs = as @ y # bs @ x # cs" by (rule before_split[OF assms])
  have m: "move_behind x y xs = as @ bs @ x # y # cs"
    using assms(1) unfolding xs by (rule move_behind_split)
  show "mset (move_behind x y xs) = mset xs" unfolding m by (simp add: xs)
  show "before (move_behind x y xs) x y" unfolding m by (simp add: before_append before_Cons)
  have "filter (\<lambda>z. z \<noteq> y) (move_behind x y xs) = filter (\<lambda>z. z \<noteq> y) xs" unfolding m by (simp add: xs)
  then show "u \<noteq> y \<Longrightarrow> v \<noteq> y \<Longrightarrow> before (move_behind x y xs) u v = before xs u v"
    using before_filter[of "\<lambda>z. z \<noteq> y" u v] by metis
  show "before xs u y \<Longrightarrow> before (move_behind x y xs) u y"
    using assms(1) xs unfolding m by (auto simp: before_append before_Cons dest: before_set)
qed

section \<open>Convergence\<close>

text \<open>A constraint \<open>(x, y)\<close> asks for x before y. A step moves y behind x when they are in the wrong
  order; a run does so for a sequence of constraints.\<close>

definition order_step :: "'a \<times> 'a \<Rightarrow> 'a list \<Rightarrow> 'a list" where
  "order_step c xs = (if before xs (snd c) (fst c) then move_behind (fst c) (snd c) xs else xs)"

lemma order_step_mset [simp]: "distinct xs \<Longrightarrow> mset (order_step c xs) = mset xs"
  by (simp add: order_step_def move_behind_spec(1))

lemma order_step_distinct: "distinct xs \<Longrightarrow> distinct (order_step c xs)"
  by (metis order_step_mset mset_eq_imp_distinct_iff)

lemma order_step_set: "distinct xs \<Longrightarrow> set (order_step c xs) = set xs"
  by (metis order_step_mset mset_eq_setD)

lemma order_run_mset: "distinct xs \<Longrightarrow> mset (fold order_step cs xs) = mset xs"
  by (induction cs arbitrary: xs) (simp_all add: order_step_distinct)

text \<open>Constraints on elements of low rank that hold are never broken, and a run establishes the
  next rank.\<close>

definition settled :: "('a \<times> 'a) set \<Rightarrow> ('a \<Rightarrow> nat) \<Rightarrow> nat \<Rightarrow> 'a list \<Rightarrow> bool" where
  "settled K f k xs = (\<forall>(x, y) \<in> K. f y < k \<longrightarrow> before xs x y)"

definition ranked :: "('a \<times> 'a) set \<Rightarrow> ('a \<Rightarrow> nat) \<Rightarrow> 'a set \<Rightarrow> bool" where
  "ranked K f S = (\<forall>(x, y) \<in> K. f x < f y \<and> x \<in> S \<and> y \<in> S)"

lemma rankedD: "ranked K f S \<Longrightarrow> (x, y) \<in> K \<Longrightarrow> f x < f y \<and> x \<in> S \<and> y \<in> S"
  by (auto simp: ranked_def)

lemma order_step_keeps:
  assumes "ranked K f S" "distinct xs" "settled K f k xs" "c \<in> K" "(x, y) \<in> K" "f y \<le> k" "before xs x y"
  shows "before (order_step c xs) x y"
proof (cases "before xs (snd c) (fst c)")
  case True
  obtain x' y' where c: "c = (x', y')" by fastforce
  have "\<not> f y' < k"
    using assms(2-4) True before_distinct unfolding c settled_def by fastforce
  moreover have "f x < k" using rankedD[OF assms(1,5)] assms(6) by simp
  ultimately have "x \<noteq> y'" by auto
  then show ?thesis
    using move_behind_spec(3,4)[OF assms(2) True] assms(7) c
    by (cases "y = y'") (auto simp: order_step_def)
qed (use assms in \<open>simp add: order_step_def\<close>)

lemma order_step_settled:
  assumes "ranked K f S" "distinct xs" "settled K f k xs" "c \<in> K"
  shows "settled K f k (order_step c xs)"
  using order_step_keeps[OF assms] assms(3) unfolding settled_def by fastforce

lemma order_step_holds:
  assumes "ranked K f S" "distinct xs" "set xs = S" "(x, y) \<in> K"
  shows "before (order_step (x, y) xs) x y"
proof -
  have "x \<noteq> y" "x \<in> set xs" "y \<in> set xs" using rankedD[OF assms(1,4)] assms(3) by auto
  then show ?thesis
    using before_total[of x xs y] move_behind_spec(2)[OF assms(2)] by (auto simp: order_step_def)
qed

lemma order_run_settles:
  assumes "ranked K f S" "distinct xs" "set xs = S" "settled K f k xs" "set cs \<subseteq> K"
    and "\<forall>(x, y) \<in> D. (x, y) \<in> K \<and> f y \<le> k \<and> before xs x y"
  shows "settled K f k (fold order_step cs xs) \<and>
    (\<forall>(x, y) \<in> D \<union> {(x, y). (x, y) \<in> set cs \<and> f y \<le> k}. before (fold order_step cs xs) x y)"
  using assms(2-)
proof (induction cs arbitrary: xs D)
  case (Cons c cs)
  obtain x' y' where c: "c = (x', y')" by fastforce
  have cK: "c \<in> K" using Cons.prems(4) by simp
  let ?xs = "order_step c xs" and ?D = "D \<union> {(x, y). (x, y) = c \<and> f y \<le> k}"
  have "\<forall>(x, y) \<in> ?D. (x, y) \<in> K \<and> f y \<le> k \<and> before ?xs x y"
    using Cons.prems(5) cK order_step_keeps[OF assms(1) Cons.prems(1,3) cK] order_step_holds[OF assms(1) Cons.prems(1,2)]
    by (auto simp: c)
  from Cons.IH[OF order_step_distinct[OF Cons.prems(1)] _ order_step_settled[OF assms(1) Cons.prems(1,3) cK] _ this] Cons.prems(2,4)
  show ?case by (auto simp: order_step_set[OF Cons.prems(1)])
qed auto

lemma order_run_next:
  assumes "ranked K f S" "distinct xs" "set xs = S" "settled K f k xs" "set cs = K"
  shows "settled K f (Suc k) (fold order_step cs xs)"
  using order_run_settles[OF assms(1-4), of cs "{}"] assms(5) by (auto simp: settled_def less_Suc_eq_le)

lemma order_runs_settle:
  assumes "ranked K f S" "distinct xs" "set xs = S" "\<And>ys. mset ys = mset xs \<Longrightarrow> set (cs ys) = K"
  shows "settled K f k (((\<lambda>ys. fold order_step (cs ys) ys) ^^ k) xs) \<and>
    mset (((\<lambda>ys. fold order_step (cs ys) ys) ^^ k) xs) = mset xs"
proof (induction k)
  case (Suc k)
  let ?ys = "((\<lambda>ys. fold order_step (cs ys) ys) ^^ k) xs"
  have ys: "distinct ?ys" "set ?ys = S" "mset ?ys = mset xs"
    using Suc assms(2,3) by (metis mset_eq_imp_distinct_iff, metis mset_eq_setD, blast)
  from order_run_next[OF assms(1) ys(1,2) _ assms(4)[OF ys(3)]] Suc order_run_mset[OF ys(1)] ys(3)
  show ?case by simp
qed (simp add: settled_def)

section \<open>The sort is such a sequence of runs\<close>

abbreviation ids :: "action list \<Rightarrow> string list" where
  "ids \<equiv> map ac_product_id"

definition pos_of :: "'a \<Rightarrow> 'a list \<Rightarrow> int" where
  "pos_of x xs = (if x \<in> set xs then int (length (takeWhile (\<lambda>z. z \<noteq> x) xs)) else -1)"

lemma pos_of_nth: "x \<in> set xs \<Longrightarrow> nat (pos_of x xs) < length xs \<and> xs ! nat (pos_of x xs) = x"
proof -
  assume "x \<in> set xs"
  then have "length (takeWhile (\<lambda>z. z \<noteq> x) xs) < length xs"
    by (induction xs) auto
  then show ?thesis
    using \<open>x \<in> set xs\<close> nth_length_takeWhile[of "\<lambda>z. z \<noteq> x" xs] by (simp add: pos_of_def)
qed

lemma pos_of_split: "x \<notin> set as \<Longrightarrow> pos_of x (as @ x # bs) = int (length as)"
  by (auto simp: pos_of_def takeWhile_append)

lemma sort_positions_spec:
  assumes "distinct (ids acts)" "p = -1 \<or> p \<ge> 0 \<and> prd \<notin> set (ids acts)" "r = -1 \<or> r \<ge> 0 \<and> req \<notin> set (ids acts)"
    and "\<not> (p > -1 \<and> r > -1)" "prd \<noteq> req" "0 \<le> idx"
  shows "sort_positions prd req acts idx p r =
    (if prd \<in> set (ids acts) then idx + pos_of prd (ids acts) else p,
     if req \<in> set (ids acts) then idx + pos_of req (ids acts) else r)"
  using assms
proof (induction acts arbitrary: idx p r)
  case (Cons act acts)
  consider (prd) "ac_product_id act = prd" | (req) "ac_product_id act \<noteq> prd" "ac_product_id act = req"
    | (other) "ac_product_id act \<noteq> prd" "ac_product_id act \<noteq> req" by blast
  then show ?case
  proof cases
    case prd
    then have n: "prd \<notin> set (ids acts)" using Cons.prems(1) by auto
    show ?thesis
      using Cons.IH[of idx r "idx + 1"] Cons.prems prd n by (cases "r > -1") (auto simp: pos_of_def)
  next
    case req
    then have n: "req \<notin> set (ids acts)" using Cons.prems(1) by auto
    show ?thesis
      using Cons.IH[of p idx "idx + 1"] Cons.prems req n by (cases "p > -1") (auto simp: pos_of_def)
  next
    case other
    then show ?thesis
      using Cons.IH[of p r "idx + 1"] Cons.prems by (auto simp: pos_of_def)
  qed
qed simp

lemma sort_positions_found:
  assumes "distinct (ids acts)" "prd \<noteq> req"
  shows "sort_positions prd req acts 0 (-1) (-1) = (pos_of prd (ids acts), pos_of req (ids acts))"
  using sort_positions_spec[OF assms(1), of "-1" prd "-1" req 0] assms(2) by (simp add: pos_of_def)

lemma pos_of_before:
  assumes "distinct xs" "x \<in> set xs" "y \<in> set xs"
  shows "pos_of y xs < pos_of x xs \<longleftrightarrow> before xs y x"
proof
  assume "pos_of y xs < pos_of x xs"
  then have "nat (pos_of y xs) < nat (pos_of x xs)" using assms(3) by (simp add: pos_of_def split: if_splits)
  then show "before xs y x" using before_nth[of "nat (pos_of y xs)" "nat (pos_of x xs)" xs] pos_of_nth[OF assms(2)] pos_of_nth[OF assms(3)] by simp
next
  assume "before xs y x"
  then obtain as bs cs where xs: "xs = as @ y # bs @ x # cs" using before_split[OF assms(1)] by metis
  have "pos_of y xs = int (length as)" using assms(1) unfolding xs by (intro pos_of_split) simp
  moreover have "pos_of x xs = int (length (as @ y # bs))"
    using pos_of_split[of x "as @ y # bs" cs] assms(1) xs by auto
  ultimately show "pos_of y xs < pos_of x xs" by simp
qed

lemma ids_list_pop: "ids (list_pop i acts) = list_pop i (ids acts)"
  by (simp add: list_pop_def take_map drop_map)

lemma ids_list_insert_at: "ids (list_insert_at i a acts) = list_insert_at i (ac_product_id a) (ids acts)"
  by (simp add: list_insert_at_def take_map drop_map)

lemma move_action_ids:
  assumes "distinct (ids acts)" "before (ids acts) y x"
  shows "ids (move_action (pos_of x (ids acts)) (pos_of y (ids acts)) acts) = move_behind x y (ids acts)"
    and "mset (move_action (pos_of x (ids acts)) (pos_of y (ids acts)) acts) = mset acts"
proof -
  obtain as bs cs where xs: "ids acts = as @ y # bs @ x # cs" by (rule before_split[OF assms])
  have py: "pos_of y (ids acts) = int (length as)"
    using assms(1) unfolding xs by (intro pos_of_split) simp
  have px: "pos_of x (ids acts) = int (Suc (length as + length bs))"
    using pos_of_split[of x "as @ y # bs" cs] assms(1) xs by auto
  have len: "length as < length acts" using arg_cong[OF xs, of length] by simp
  have at: "ac_product_id (acts ! length as) = y"
    using len arg_cong[OF xs, of "\<lambda>l. l ! length as"] by simp
  have m: "move_action (pos_of x (ids acts)) (pos_of y (ids acts)) acts =
      list_insert_at (Suc (length as + length bs)) (acts ! length as) (list_pop (length as) acts)"
    unfolding move_action_def py_pop_def py px by (simp add: Let_def del: of_nat_add of_nat_Suc)
  show "mset (move_action (pos_of x (ids acts)) (pos_of y (ids acts)) acts) = mset acts"
    using mset_list_pop[OF len] by (simp add: m)
  have "ids (move_action (pos_of x (ids acts)) (pos_of y (ids acts)) acts) =
      list_insert_at (Suc (length as + length bs)) y (list_pop (length as) (as @ y # bs @ x # cs))"
    unfolding m by (simp add: ids_list_insert_at ids_list_pop at xs)
  also have "\<dots> = as @ bs @ x # y # cs" by (simp add: list_pop_def list_insert_at_def)
  finally show "ids (move_action (pos_of x (ids acts)) (pos_of y (ids acts)) acts) = move_behind x y (ids acts)"
    using move_behind_split assms(1) by (metis xs)
qed

text \<open>The constraints the dependencies of an action stand for, within the group.\<close>

definition dep_constraint :: "string \<Rightarrow> product_dependency \<Rightarrow> (string \<times> string) list" where
  "dep_constraint prd d =
     (if dep_requirementType d = Some ''before'' then [(dep_requiredProductId d, prd)]
      else if dep_requirementType d = Some ''after'' then [(prd, dep_requiredProductId d)]
      else [])"

definition group_constraints :: "(string \<times> product_dependency list) list \<Rightarrow> action list \<Rightarrow> (string \<times> string) list" where
  "group_constraints deps acts =
     filter (\<lambda>(x, y). x \<in> set (ids acts) \<and> y \<in> set (ids acts))
       (concat (map (\<lambda>a. concat (map (dep_constraint (ac_product_id a)) (action_dependencies deps a))) acts))"

text \<open>Every product that must come after another is part of the group.\<close>

definition after_present :: "(string \<times> product_dependency list) list \<Rightarrow> action list \<Rightarrow> bool" where
  "after_present deps acts =
     (\<forall>a \<in> set acts. \<forall>d \<in> set (action_dependencies deps a).
        dep_requirementType d = Some ''after'' \<longrightarrow> dep_requiredProductId d \<in> set (ids acts))"

definition no_self :: "(string \<times> product_dependency list) list \<Rightarrow> action list \<Rightarrow> bool" where
  "no_self deps acts = (\<forall>a \<in> set acts. \<forall>d \<in> set (action_dependencies deps a). 
       dep_requirementType d \<in> {Some ''before'', Some ''after''} \<longrightarrow> dep_requiredProductId d \<noteq> ac_product_id a)"

lemma sort_dependency_ids:
  assumes "distinct (ids acts)" "a \<in> set acts"
    and "dep_requirementType d \<in> {Some ''before'', Some ''after''} \<longrightarrow> dep_requiredProductId d \<noteq> ac_product_id a"
    and "dep_requirementType d = Some ''after'' \<longrightarrow> dep_requiredProductId d \<in> set (ids acts)"
    and "S = set (ids acts)"
  shows "ids (fst (sort_dependency n a d (acts, log))) =
      fold order_step (filter (\<lambda>(x, y). x \<in> S \<and> y \<in> S) (dep_constraint (ac_product_id a) d)) (ids acts) \<and>
    mset (fst (sort_dependency n a d (acts, log))) = mset acts"
proof -
  let ?p = "ac_product_id a" and ?r = "dep_requiredProductId d"
  have p: "?p \<in> set (ids acts)" using assms(2) by simp
  have pos: "sort_positions ?p ?r acts 0 (-1) (-1) = (pos_of ?p (ids acts), pos_of ?r (ids acts))"
    if "dep_requirementType d \<in> {Some ''before'', Some ''after''}"
    using sort_positions_found[OF assms(1)] assms(3) that by metis
  consider (b) "dep_requirementType d = Some ''before''" | (a) "dep_requirementType d = Some ''after''"
    | (none) "dep_requirementType d \<noteq> Some ''before''" "dep_requirementType d \<noteq> Some ''after''" by blast
  then show ?thesis
  proof cases
    case none
    then show ?thesis by (simp add: sort_dependency_def dep_constraint_def)
  next
    case b
    have s: "sort_dependency n a d (acts, log) =
        (if pos_of ?r (ids acts) > pos_of ?p (ids acts) then
           (move_action (pos_of ?r (ids acts)) (pos_of ?p (ids acts)) acts, log @ [Moved n ?p (pos_of ?p (ids acts)) ?r (pos_of ?r (ids acts))])
         else (acts, log))"
      using b by (simp add: sort_dependency_def pos Let_def)
    show ?thesis
    proof (cases "?r \<in> set (ids acts)")
      case True
      note pb = pos_of_before[OF assms(1) True p]
      show ?thesis
      proof (cases "before (ids acts) ?p ?r")
        case bf: True
        then show ?thesis
          using move_action_ids[OF assms(1) bf] pb True p b by (simp add: s assms(5) dep_constraint_def order_step_def)
      qed (use pb True p b in \<open>simp add: s assms(5) dep_constraint_def order_step_def\<close>)
    next
      case False
      then have "\<not> pos_of ?r (ids acts) > pos_of ?p (ids acts)" using p by (simp add: pos_of_def)
      then show ?thesis using False b by (simp add: s assms(5) dep_constraint_def)
    qed
  next
    case a
    then have r: "?r \<in> set (ids acts)" using assms(4) by simp
    have s: "sort_dependency n a d (acts, log) =
        (if pos_of ?r (ids acts) < pos_of ?p (ids acts) then
           (move_action (pos_of ?p (ids acts)) (pos_of ?r (ids acts)) acts, log @ [Moved n ?r (pos_of ?r (ids acts)) ?p (pos_of ?p (ids acts))])
         else (acts, log))"
      using a by (simp add: sort_dependency_def pos Let_def)
    note pb = pos_of_before[OF assms(1) p r]
    show ?thesis
    proof (cases "before (ids acts) ?r ?p")
      case bf: True
      then show ?thesis
        using move_action_ids[OF assms(1) bf] pb r p a by (simp add: s assms(5) dep_constraint_def order_step_def)
    qed (use pb r p a in \<open>simp add: s assms(5) dep_constraint_def order_step_def\<close>)
  qed
qed

lemma mset_ids:
  assumes "mset as = mset bs"
  shows "set (ids as) = set (ids bs)" "distinct (ids as) = distinct (ids bs)" "set as = set bs"
  using assms by (metis mset_map mset_eq_setD, metis mset_map mset_eq_imp_distinct_iff, metis mset_eq_setD)

text \<open>All dependencies of one action, then all actions of the snapshot.\<close>

lemma sort_dependencies_ids:
  assumes "distinct (ids acts)" "a \<in> set acts" "S = set (ids acts)"
    and "\<forall>d \<in> set ds. (dep_requirementType d \<in> {Some ''before'', Some ''after''} \<longrightarrow> dep_requiredProductId d \<noteq> ac_product_id a) \<and>
      (dep_requirementType d = Some ''after'' \<longrightarrow> dep_requiredProductId d \<in> S)"
  shows "ids (fst (fold (sort_dependency n a) ds (acts, log))) =
      fold order_step (filter (\<lambda>(x, y). x \<in> S \<and> y \<in> S) (concat (map (dep_constraint (ac_product_id a)) ds))) (ids acts) \<and>
    mset (fst (fold (sort_dependency n a) ds (acts, log))) = mset acts"
  using assms
proof (induction ds arbitrary: acts log)
  case (Cons d ds)
  obtain acts1 log1 where st: "sort_dependency n a d (acts, log) = (acts1, log1)" by fastforce
  have d: "ids acts1 = fold order_step (filter (\<lambda>(x, y). x \<in> S \<and> y \<in> S) (dep_constraint (ac_product_id a) d)) (ids acts)"
    "mset acts1 = mset acts"
    using sort_dependency_ids[OF Cons.prems(1,2), of d S n log] Cons.prems(3,4) by (simp_all add: st)
  note m = mset_ids[OF d(2)]
  have "distinct (ids acts1)" "a \<in> set acts1" "S = set (ids acts1)" using m Cons.prems(1-3) by auto
  from Cons.IH[OF this, of log1] Cons.prems(4) d show ?case by (simp add: st)
qed simp

lemma sort_snapshot_ids:
  assumes "distinct (ids acts)" "set snap \<subseteq> set acts" "S = set (ids acts)"
    and "\<forall>a \<in> set snap. \<forall>d \<in> set (action_dependencies deps a).
      (dep_requirementType d \<in> {Some ''before'', Some ''after''} \<longrightarrow> dep_requiredProductId d \<noteq> ac_product_id a) \<and>
      (dep_requirementType d = Some ''after'' \<longrightarrow> dep_requiredProductId d \<in> S)"
  shows "ids (fst (fold (\<lambda>action. fold (sort_dependency n action) (action_dependencies deps action)) snap (acts, log))) =
      fold order_step (filter (\<lambda>(x, y). x \<in> S \<and> y \<in> S)
        (concat (map (\<lambda>a. concat (map (dep_constraint (ac_product_id a)) (action_dependencies deps a))) snap))) (ids acts) \<and>
    mset (fst (fold (\<lambda>action. fold (sort_dependency n action) (action_dependencies deps action)) snap (acts, log))) = mset acts"
  using assms
proof (induction snap arbitrary: acts log)
  case (Cons a snap)
  obtain acts1 log1 where st: "fold (sort_dependency n a) (action_dependencies deps a) (acts, log) = (acts1, log1)" by fastforce
  have d: "ids acts1 = fold order_step (filter (\<lambda>(x, y). x \<in> S \<and> y \<in> S)
        (concat (map (dep_constraint (ac_product_id a)) (action_dependencies deps a)))) (ids acts)"
    "mset acts1 = mset acts"
    using sort_dependencies_ids[OF Cons.prems(1) _ Cons.prems(3), of a "action_dependencies deps a" n log] Cons.prems(2,4)
    by (simp_all add: st)
  note m = mset_ids[OF d(2)]
  have "distinct (ids acts1)" "set snap \<subseteq> set acts1" "S = set (ids acts1)" using m Cons.prems(1-3) by auto
  from Cons.IH[OF this, of log1] Cons.prems(4) d show ?case by (simp add: st)
qed simp

lemma sort_run_ids:
  assumes "distinct (ids acts)" "no_self deps acts" "after_present deps acts"
  shows "ids (fst (sort_run deps n (acts, log))) = fold order_step (group_constraints deps acts) (ids acts) \<and>
    mset (fst (sort_run deps n (acts, log))) = mset acts"
  using sort_snapshot_ids[OF assms(1) order_refl refl, of deps n log] assms(2,3)
  by (auto simp: sort_run_def group_constraints_def no_self_def after_present_def)

lemma group_invariants:
  assumes "mset acts = mset acts'"
  shows "no_self deps acts = no_self deps acts'" "after_present deps acts = after_present deps acts'"
    and "set (group_constraints deps acts) = set (group_constraints deps acts')"
  using mset_ids[OF assms] by (simp_all add: no_self_def after_present_def group_constraints_def)

text \<open>The run as a function of the order of the ids alone: the actions are determined by their ids.\<close>

definition actions_in_order :: "action list \<Rightarrow> string list \<Rightarrow> action list" where
  "actions_in_order acts js = map (\<lambda>i. the (find (\<lambda>a. ac_product_id a = i) acts)) js"

lemma mset_actions_in_order:
  "mset js = mset js' \<Longrightarrow> mset (actions_in_order acts js) = mset (actions_in_order acts js')"
  unfolding actions_in_order_def mset_map by simp

lemma find_id:
  assumes "distinct (ids acts)" "a \<in> set acts"
  shows "find (\<lambda>b. ac_product_id b = ac_product_id a) acts = Some a"
  using assms by (induction acts) auto

lemma actions_in_order:
  assumes "distinct (ids acts)" "mset acts' = mset acts"
  shows "actions_in_order acts (ids acts') = acts'"
proof -
  have "\<forall>a \<in> set acts'. the (find (\<lambda>b. ac_product_id b = ac_product_id a) acts) = a"
    using find_id[OF assms(1)] mset_ids(3)[OF assms(2)] by simp
  then show ?thesis by (simp add: actions_in_order_def map_idI)
qed

lemma sort_runs_fixpoint:
  assumes "distinct (ids acts)" "no_self deps acts" "after_present deps acts" "mset acts' = mset acts"
  defines "R \<equiv> (\<lambda>js. fold order_step (group_constraints deps (actions_in_order acts js)) js)"
  shows "ids (fst (sort_runs deps k n (acts', log))) = (R ^^ k) (ids acts') \<and>
    mset (fst (sort_runs deps k n (acts', log))) = mset acts"
  using assms(4)
proof (induction k arbitrary: n acts' log)
  case (Suc k)
  have ok: "distinct (ids acts')" "no_self deps acts'" "after_present deps acts'"
    using group_invariants[OF Suc.prems] mset_ids(2)[OF Suc.prems] assms(1-3) by auto
  obtain acts1 log1 where st: "sort_run deps (Suc n) (acts', log) = (acts1, log1)" by fastforce
  have run: "ids acts1 = R (ids acts')" "mset acts1 = mset acts"
    using sort_run_ids[OF ok, of "Suc n" log] Suc.prems actions_in_order[OF assms(1) Suc.prems] by (simp_all add: st R_def)
  show ?case
  proof (cases "acts1 = acts'")
    case True
    then have "R (ids acts') = ids acts'" using run by simp
    then have "(R ^^ Suc k) (ids acts') = ids acts'" by (induction k) (simp_all add: funpow_swap1)
    then show ?thesis using True run by (simp add: st)
  next
    case False
    then show ?thesis using Suc.IH[OF run(2), of "Suc n" log1] run(1) by (simp add: st funpow_swap1)
  qed
qed simp

text \<open>The length of the longest chain below an element is bounded by the number of elements.\<close>

lemma acyclic_ranked:
  assumes "finite S" "acyclic K" "K \<subseteq> S \<times> S"
  shows "\<exists>f. ranked K f S \<and> (\<forall>y \<in> S. f y < card S)"
proof -
  define f where "f = (\<lambda>y. card {x. (x, y) \<in> K\<^sup>+})"
  have sub: "{x. (x, y) \<in> K\<^sup>+} \<subseteq> S" for y
    using trancl_subset_Sigma[OF assms(3)] by auto
  have fin: "finite {x. (x, y) \<in> K\<^sup>+}" for y using finite_subset[OF sub assms(1)] .
  have "f x < f y" if "(x, y) \<in> K" for x y
  proof -
    have "{z. (z, x) \<in> K\<^sup>+} \<subset> {z. (z, y) \<in> K\<^sup>+}"
      using that assms(2) by (auto simp: acyclic_def intro: trancl_into_trancl)
    then show ?thesis unfolding f_def by (rule psubset_card_mono[OF fin])
  qed
  then have "ranked K f S" using assms(3) by (auto simp: ranked_def)
  moreover have "f y < card S" if "y \<in> S" for y
  proof -
    have "{x. (x, y) \<in> K\<^sup>+} \<subset> S" using sub that assms(2) by (auto simp: acyclic_def)
    then show ?thesis unfolding f_def by (rule psubset_card_mono[OF assms(1)])
  qed
  ultimately show ?thesis by blast
qed

lemma sort_group_actions:
  "ag_actions (sort_group g) = fst (sort_runs (ag_dependencies g) (length (ag_actions g)) 0
     (sort_key (\<lambda>a. (ac_priority a * -1, ac_product_id a)) (ag_actions g),
      ag_sort_log g @ [Ordered (map (\<lambda>a. (ac_product_id a, ac_priority a)) (sort_key (\<lambda>a. (ac_priority a * -1, ac_product_id a)) (ag_actions g)))]))"
  by (simp add: sort_group_def Let_def split_beta)

lemma sort_group_meets:
  assumes "distinct (ids (ag_actions g))" "acyclic (set (group_constraints (ag_dependencies g) (ag_actions g)))"
    and "no_self (ag_dependencies g) (ag_actions g)" "after_present (ag_dependencies g) (ag_actions g)"
  shows "mset (ag_actions (sort_group g)) = mset (ag_actions g) \<and>
    (\<forall>(x, y) \<in> set (group_constraints (ag_dependencies g) (ag_actions g)). before (ids (ag_actions (sort_group g))) x y)"
proof -
  let ?acts = "sort_key (\<lambda>a. (ac_priority a * -1, ac_product_id a)) (ag_actions g)"
  let ?deps = "ag_dependencies g" and ?S = "set (ids (ag_actions g))"
  let ?K = "set (group_constraints ?deps (ag_actions g))"
  let ?n = "length (ag_actions g)"
  have m: "mset ?acts = mset (ag_actions g)" by simp
  note inv = group_invariants[OF m] mset_ids[OF m]
  have ok: "distinct (ids ?acts)" "no_self ?deps ?acts" "after_present ?deps ?acts"
    using inv assms by auto
  have "?K \<subseteq> ?S \<times> ?S" by (auto simp: group_constraints_def)
  then obtain f where f: "ranked ?K f ?S" "\<forall>y \<in> ?S. f y < card ?S"
    using acyclic_ranked[OF _ assms(2)] by (metis List.finite_set)
  let ?cs = "\<lambda>js. group_constraints ?deps (actions_in_order ?acts js)"
  have cs: "set (?cs ys) = ?K" if "mset ys = mset (ids ?acts)" for ys
  proof -
    have "mset (actions_in_order ?acts ys) = mset (actions_in_order ?acts (ids ?acts))"
      using that by (rule mset_actions_in_order)
    then have "mset (actions_in_order ?acts ys) = mset (ag_actions g)"
      using actions_in_order[OF ok(1) refl] by simp
    then show ?thesis using group_invariants(3) by blast
  qed
  note sorted = sort_runs_fixpoint[OF ok refl, of ?n 0 "ag_sort_log g @ [Ordered (map (\<lambda>a. (ac_product_id a, ac_priority a)) ?acts)]"]
  have "settled ?K f ?n (((\<lambda>js. fold order_step (?cs js) js) ^^ ?n) (ids ?acts))"
    using order_runs_settle[where cs = ?cs and k = ?n, OF f(1) ok(1) inv(4) cs] by simp
  then have settled: "settled ?K f ?n (ids (ag_actions (sort_group g)))"
    using sorted by (simp add: sort_group_actions)
  moreover have "card ?S = ?n" using distinct_card[OF assms(1)] by simp
  ultimately have "\<forall>(x, y) \<in> ?K. before (ids (ag_actions (sort_group g))) x y"
    using f \<open>?K \<subseteq> ?S \<times> ?S\<close> unfolding settled_def by fastforce
  then show ?thesis using sorted by (simp add: sort_group_actions)
qed

section \<open>Permutation in every case\<close>

lemma sort_positions_bounds:
  assumes "-1 \<le> p" "p < idx + int (length acts)" "-1 \<le> r" "r < idx + int (length acts)" "0 \<le> idx"
    and "sort_positions prd req acts idx p r = (pos_prd, pos_req)"
  shows "-1 \<le> pos_prd \<and> pos_prd < idx + int (length acts) \<and> -1 \<le> pos_req \<and> pos_req < idx + int (length acts)"
  using assms
proof (induction acts arbitrary: idx p r)
  case (Cons act acts)
  obtain p' r' where pr: "(if ac_product_id act = prd then (idx, r) else if ac_product_id act = req then (p, idx) else (p, r)) = (p', r')"
    by fastforce
  then have b: "-1 \<le> p'" "p' < idx + int (length (act # acts))" "-1 \<le> r'" "r' < idx + int (length (act # acts))"
    using Cons.prems(1-5) by (auto split: if_splits)
  show ?case
  proof (cases "p' > -1 \<and> r' > -1")
    case True
    then show ?thesis using Cons.prems(6) b pr by (simp split: prod.splits)
  next
    case False
    then have "sort_positions prd req acts (idx + 1) p' r' = (pos_prd, pos_req)" using Cons.prems(6) pr by auto
    then show ?thesis using Cons.IH[of p' "idx + 1" r'] b Cons.prems(5) by (simp add: algebra_simps)
  qed
qed simp

lemma move_action_mset:
  assumes "-1 \<le> src" "src < int (length acts)" "acts \<noteq> []"
  shows "mset (move_action dst src acts) = mset acts"
proof -
  define i where "i = nat (if src < 0 then int (length acts) + src else src)"
  have "int i < int (length acts)" using assms by (cases "src < 0") (auto simp: i_def)
  then have "i < length acts" by simp
  from mset_list_pop[OF this] show ?thesis
    by (simp add: move_action_def py_pop_def Let_def flip: i_def)
qed

lemma sort_dependency_mset:
  assumes "acts \<noteq> []"
  shows "mset (fst (sort_dependency n a d (acts, log))) = mset acts"
proof -
  obtain p r where pr: "sort_positions (ac_product_id a) (dep_requiredProductId d) acts 0 (-1) (-1) = (p, r)" by fastforce
  have "-1 \<le> p \<and> p < int (length acts) \<and> -1 \<le> r \<and> r < int (length acts)"
    using sort_positions_bounds[OF _ _ _ _ _ pr] by simp
  then show ?thesis using assms by (simp add: sort_dependency_def pr Let_def move_action_mset)
qed

lemma fold_mset:
  assumes "\<And>x s. x \<in> set xs \<Longrightarrow> fst s \<noteq> [] \<Longrightarrow> mset (fst (f x s)) = mset (fst s)" "fst s \<noteq> []"
  shows "mset (fst (fold f xs s)) = mset (fst s)"
  using assms
proof (induction xs arbitrary: s)
  case (Cons x xs)
  have x: "mset (fst (f x s)) = mset (fst s)" using Cons.prems by simp
  then have "fst (f x s) \<noteq> []" using Cons.prems(2) by (metis mset_zero_iff_right)
  then show ?case using Cons.IH[of "f x s"] Cons.prems(1) x by simp
qed simp

lemma sort_run_mset: "fst st \<noteq> [] \<Longrightarrow> mset (fst (sort_run deps n st)) = mset (fst st)"
proof -
  assume ne: "fst st \<noteq> []"
  have d: "mset (fst (fold (sort_dependency n a) ds s)) = mset (fst s)" if "fst s \<noteq> []" for a ds s
    using that sort_dependency_mset by (intro fold_mset) (metis prod.collapse)+
  have "mset (fst (fold (\<lambda>a. fold (sort_dependency n a) (action_dependencies deps a)) xs st)) = mset (fst st)" for xs
    by (rule fold_mset) (use d ne in auto)
  then show ?thesis by (cases st) (simp add: sort_run_def)
qed

lemma sort_runs_mset: "fst st \<noteq> [] \<Longrightarrow> mset (fst (sort_runs deps k n st)) = mset (fst st)"
proof (induction k arbitrary: n st)
  case (Suc k)
  have m: "mset (fst (sort_run deps (n + 1) st)) = mset (fst st)" using sort_run_mset[OF Suc.prems] .
  then have "fst (sort_run deps (n + 1) st) \<noteq> []" using Suc.prems by (metis mset_zero_iff_right)
  from Suc.IH[OF this] m show ?case by (simp add: Let_def)
qed simp

section \<open>Properties\<close>

lemma sort_group_mset: "mset (ag_actions (sort_group g)) = mset (ag_actions g)"
proof (cases "ag_actions g = []")
  case True
  then show ?thesis by (simp add: sort_group_def Let_def)
next
  case False
  then have "sort_key (\<lambda>a. (ac_priority a * -1, ac_product_id a)) (ag_actions g) \<noteq> []"
    by (metis mset_sort mset_zero_iff_right)
  then show ?thesis unfolding sort_group_actions by (subst sort_runs_mset) simp_all
qed

text \<open>
  Sorting a group never loses, adds or changes an action, whatever the dependencies are
  (cyclic ones and ones on products outside the group included).
\<close>

theorem sort_group_permutes: "mset (ag_actions (sort_group g)) = mset (ag_actions g)"
  by (rule sort_group_mset)


definition example_dep :: "string \<Rightarrow> string \<Rightarrow> string \<Rightarrow> product_dependency" where
  "example_dep p r t = \<lparr>dep_productId = p, dep_productVersion = ''1'', dep_packageVersion = ''1'', dep_productAction = ''setup'',
     dep_requiredProductId = r, dep_requiredProductVersion = None, dep_requiredPackageVersion = None,
     dep_requiredAction = Some ''setup'', dep_requiredInstallationStatus = None, dep_requirementType = Some t\<rparr>"

definition example_action :: "string \<Rightarrow> int \<Rightarrow> action" where
  "example_action p prio = \<lparr>ac_product_id = p, ac_product_type = ''LocalbootProduct'', ac_action = ''setup'',
     ac_priority = prio, ac_product_on_client = None\<rparr>"

text \<open>
  When a product that is required to come after another is not part of the group (it is
  installed already, say), its position is taken to be -1, and the last action of the group is
  moved instead: with a requiring b before it and b requiring the absent x after it, the sort
  ends with a before b, against the requirement.
\<close>

theorem absent_after_requirement_breaks_order:
  "map ac_product_id (ag_actions (sort_group
      \<lparr>ag_priority = 0, ag_actions = [example_action ''a'' 0, example_action ''b'' 0],
       ag_dependencies = [(''a'', [example_dep ''a'' ''b'' ''before'']), (''b'', [example_dep ''b'' ''x'' ''after''])],
       ag_sort_log = []\<rparr>)) = [''a'', ''b''] \<and>
   map ac_product_id (ag_actions (sort_group
      \<lparr>ag_priority = 0, ag_actions = [example_action ''a'' 0, example_action ''b'' 0],
       ag_dependencies = [(''a'', [example_dep ''a'' ''b'' ''before''])], ag_sort_log = []\<rparr>)) = [''b'', ''a'']"
  by code_simp

definition example_group :: action_group where
  "example_group = \<lparr>ag_priority = 0, ag_actions = [example_action ''a'' 10, example_action ''b'' 0, example_action ''c'' 20],
     ag_dependencies = [(''a'', [example_dep ''a'' ''b'' ''before'']), (''c'', [example_dep ''c'' ''a'' ''before''])], ag_sort_log = []\<rparr>"


definition active_priorities :: "action list \<Rightarrow> int list" where
  "active_priorities acts = map ac_priority (filter (\<lambda>a. ac_action a \<noteq> ''none'') acts)"

definition group_priority :: "int list \<Rightarrow> int" where
  "group_priority ps = (let hi = fold max ps 0; lo = fold min ps 0 in if hi > 0 then hi else lo)"

lemma fold_max_ge: "(m::int) \<le> fold max ps m"
  by (simp add: Max.set_eq_fold[symmetric] del: Max_insert)

lemma group_priority_snoc:
  "group_priority (ps @ [p]) = (let q = group_priority ps in if max q p > 0 then max q p else if min q p < 0 then min q p else q)"
proof -
  have hi: "0 \<le> fold max ps 0" by (rule fold_max_ge)
  have lo: "fold min ps (0::int) \<le> 0"
    by (simp add: Min.set_eq_fold[symmetric] del: Min_insert)
  show ?thesis using hi lo by (auto simp: group_priority_def Let_def max_def min_def)
qed

lemma add_actions_fold:
  "ag_priority (fold add_action acts new_group) = group_priority (active_priorities acts) \<and>
   ag_actions (fold add_action acts new_group) = acts"
proof (induction acts rule: rev_induct)
  case Nil
  then show ?case by (simp add: new_group_def group_priority_def active_priorities_def)
next
  case (snoc a acts)
  then show ?case
    using group_priority_snoc[of "active_priorities acts" "ac_priority a"]
    by (auto simp: add_action_def active_priorities_def Let_def)
qed

lemma fold_max_mset: "mset ps = mset qs \<Longrightarrow> fold max ps (m::int) = fold max qs m"
  by (rule fold_permuted_eq) (auto simp: max.left_commute)

lemma fold_min_mset: "mset ps = mset qs \<Longrightarrow> fold min ps (m::int) = fold min qs m"
  by (rule fold_permuted_eq) (auto simp: min.left_commute)

text \<open>
  The priority of a group does not depend on the order in which its actions are added: it is
  the highest priority above zero of the actions that do something, failing that the lowest
  below zero, failing that zero.
\<close>

theorem group_priority_order_independent:
  assumes "mset acts = mset acts'"
  shows "ag_priority (fold add_action acts new_group) = ag_priority (fold add_action acts' new_group) \<and>
    ag_priority (fold add_action acts new_group) =
      (let ps = active_priorities acts; hi = Max (set (0 # ps)) in if hi > 0 then hi else Min (set (0 # ps)))"
proof -
  have ps: "mset (active_priorities acts) = mset (active_priorities acts')"
    using assms by (simp add: active_priorities_def)
  have "fold max ps m = Max (set (m # ps))" "fold min ps m = Min (set (m # ps))" for ps and m :: int
    by (rule Max.set_eq_fold[symmetric], rule Min.set_eq_fold[symmetric])
  then show ?thesis
    using add_actions_fold fold_max_mset[OF ps] fold_min_mset[OF ps] by (simp add: group_priority_def Let_def)
qed

theorem group_priority_order_independent_witness:
  "ag_priority (fold add_action [example_action ''a'' (-5), example_action ''b'' 10] new_group) = 10"
proof -
  have "mset [example_action ''a'' (-5), example_action ''b'' 10] = mset [example_action ''b'' 10, example_action ''a'' (-5)]" by simp
  from group_priority_order_independent[OF this] show ?thesis
    by (simp add: active_priorities_def example_action_def Let_def)
qed

end
