(* ===== verification/Product_Actions.thy ===== *)
theory Product_Actions
  imports Product_Sort
begin

text \<open>
  Which actions a client has to perform and in which order
  (\<open>opsiconfd/backend/rpc/obj_product_dependency.py\<close>, \<open>get_product_action_groups\<close> with its local
  class \<open>ActionSorter\<close>, and \<open>getProductOrdering\<close>). The tables the method reads are a record of
  lists; nothing writes to them during the call, so a look-up through one of the method's
  caches is the look-up itself. Sets of product ids are lists without duplicates in the order
  of insertion. The list \<open>dependency_path\<close> is one object that all nested calls append to, so it
  is part of the state that the recursion passes on.
\<close>

section \<open>Data\<close>

record product =
  pr_id :: string
  pr_productVersion :: string
  pr_packageVersion :: string
  pr_type :: string
  pr_priority :: "int option"
  pr_scripts :: "(string \<times> string) list"

record product_on_depot =
  pod_depotId :: string
  pod_productId :: string
  pod_productType :: string
  pod_productVersion :: string
  pod_packageVersion :: string

record product_db =
  db_products :: "product list"
  db_on_depots :: "product_on_depot list"
  db_on_clients :: "product_on_client list"
  db_dependencies :: "product_dependency list"
  db_client_to_depot :: "(string \<times> string) list"

section \<open>Look-ups\<close>

definition opt_truthy :: "string option \<Rightarrow> bool" where
  "opt_truthy x = (case x of None \<Rightarrow> False | Some s \<Rightarrow> s \<noteq> [])"

definition get_product :: "product_db \<Rightarrow> string \<Rightarrow> string \<Rightarrow> string \<Rightarrow> product result" where
  "get_product db product_id product_version package_version =
     (case find (\<lambda>p. pr_id p = product_id \<and> pr_productVersion p = product_version \<and> pr_packageVersion p = package_version)
             (db_products db) of
        None \<Rightarrow> Inl OpsiProductNotAvailableError
      | Some p \<Rightarrow> Inr p)"

definition get_product_on_depot :: "product_db \<Rightarrow> string \<Rightarrow> string \<Rightarrow> string option \<Rightarrow> string option \<Rightarrow> product_on_depot result" where
  "get_product_on_depot db depot_id product_id product_version package_version =
     (case find (\<lambda>p. pod_productId p = product_id \<and> pod_depotId p = depot_id) (db_on_depots db) of
        None \<Rightarrow> Inl OpsiProductNotAvailableOnDepotError
      | Some p \<Rightarrow>
          if (opt_truthy product_version \<and> Some (pod_productVersion p) \<noteq> product_version) \<or>
             (opt_truthy package_version \<and> Some (pod_packageVersion p) \<noteq> package_version)
          then Inl OpsiProductNotAvailableOnDepotError
          else Inr p)"

definition get_product_dependencies :: "product_db \<Rightarrow> string \<Rightarrow> string \<Rightarrow> string \<Rightarrow> product_dependency list" where
  "get_product_dependencies db product_id product_version package_version =
     filter (\<lambda>d. dep_productId d = product_id \<and> dep_productVersion d = product_version \<and> dep_packageVersion d = package_version)
       (db_dependencies db)"

definition default_product_on_client :: "string \<Rightarrow> string \<Rightarrow> string \<Rightarrow> product_on_client" where
  "default_product_on_client product_id product_type client_id =
     \<lparr>poc_productId = product_id, poc_productType = product_type, poc_clientId = client_id,
      poc_installationStatus = Some ''not_installed'', poc_actionRequest = Some ''none'',
      poc_productVersion = None, poc_packageVersion = None, poc_actionSequence = -1\<rparr>"

definition get_product_on_client :: "product_db \<Rightarrow> product_on_client list \<Rightarrow> string \<Rightarrow> string \<Rightarrow> string \<Rightarrow> product_on_client" where
  "get_product_on_client db pocs product_id product_type client_id =
     (case find (\<lambda>p. poc_productId p = product_id) pocs of
        Some p \<Rightarrow> p
      | None \<Rightarrow>
          (case find (\<lambda>p. poc_productId p = product_id \<and> poc_clientId p = client_id) (db_on_clients db) of
             Some p \<Rightarrow> p
           | None \<Rightarrow> default_product_on_client product_id product_type client_id))"

text \<open>Objects of \<open>opsicommon\<close> are equal when their identifying attributes are.\<close>

definition same_dependency :: "product_dependency \<Rightarrow> product_dependency \<Rightarrow> bool" where
  "same_dependency d e =
     (dep_productId d = dep_productId e \<and> dep_productVersion d = dep_productVersion e \<and>
      dep_packageVersion d = dep_packageVersion e \<and> dep_productAction d = dep_productAction e \<and>
      dep_requiredProductId d = dep_requiredProductId e)"

section \<open>The action sorter\<close>

record action_sorter =
  so_groups :: "action_group list"
  so_unsorted_actions :: "(string \<times> action list) list"
  so_product_id_groups :: "string list list"
  so_dependencies :: "(string \<times> product_dependency list) list"

record sorter_env =
  se_db :: product_db
  se_ignore_unavailable :: bool
  se_pocs :: "product_on_client list"
  se_client_id :: string
  se_depot_id :: string

definition new_sorter :: action_sorter where
  "new_sorter = \<lparr>so_groups = [], so_unsorted_actions = [], so_product_id_groups = [], so_dependencies = []\<rparr>"

text \<open>A \<open>defaultdict(list)\<close>: reading a missing key gives the empty list.\<close>

definition dd_get :: "(string \<times> 'a list) list \<Rightarrow> string \<Rightarrow> 'a list" where
  "dd_get d k = (case map_of d k of None \<Rightarrow> [] | Some l \<Rightarrow> l)"

definition dd_append :: "string \<Rightarrow> 'a \<Rightarrow> (string \<times> 'a list) list \<Rightarrow> (string \<times> 'a list) list" where
  "dd_append k x d = dict_set k (dd_get d k @ [x]) d"

definition set_add :: "'a \<Rightarrow> 'a list \<Rightarrow> 'a list" where
  "set_add x l = (if x \<in> set l then l else l @ [x])"

definition first_group :: "string \<Rightarrow> string list list \<Rightarrow> nat option" where
  "first_group p groups = (let n = length (takeWhile (\<lambda>g. p \<notin> set g) groups) in if n < length groups then Some n else None)"

definition join_group :: "string \<Rightarrow> string \<Rightarrow> string list list \<Rightarrow> string list list" where
  "join_group p q groups =
     (let add = (\<lambda>i gs. gs[i := set_add q (set_add p (gs ! i))]) in
      case (first_group p groups, first_group q groups) of
        (None, None) \<Rightarrow> groups @ [set_add q [p]]
      | (Some i, None) \<Rightarrow> add i groups
      | (None, Some j) \<Rightarrow> add j groups
      | (Some i, Some j) \<Rightarrow>
          if i = j then add i groups
          else
            let lo = min i j; hi = max i j
            in add lo (list_pop hi (groups[lo := fold set_add (groups ! hi) (groups ! lo)])))"

text \<open>Only \<open>hard\<close> requirements (those with a requirement type) affect the order of actions.\<close>

definition record_dependency :: "action \<Rightarrow> product \<Rightarrow> product \<Rightarrow> product_dependency \<Rightarrow> action_sorter \<Rightarrow> action_sorter" where
  "record_dependency action product dep_product d st =
     (if opt_truthy (dep_requirementType d) then
        (if list_ex (same_dependency d) (dd_get (so_dependencies st) (pr_id product))
         then st\<lparr>so_dependencies := dict_set (pr_id product) (dd_get (so_dependencies st) (pr_id product)) (so_dependencies st)\<rparr>
         else st\<lparr>so_dependencies := dd_append (pr_id product) d (so_dependencies st),
                 so_product_id_groups := join_group (ac_product_id action) (pr_id dep_product) (so_product_id_groups st)\<rparr>)
      else st)"

text \<open>\<open>None\<close>: the requirement is fulfilled.\<close>

definition required_action :: "product_dependency \<Rightarrow> product_on_client \<Rightarrow> string option result" where
  "required_action d poc =
     (if opt_truthy (dep_requiredAction d) then Inr (dep_requiredAction d)
      else if dep_requiredInstallationStatus d = poc_installationStatus poc \<and>
              (\<not> opt_truthy (dep_requiredProductVersion d) \<or> \<not> opt_truthy (poc_productVersion poc) \<or>
               dep_requiredProductVersion d = poc_productVersion poc) \<and>
              (\<not> opt_truthy (dep_requiredPackageVersion d) \<or> \<not> opt_truthy (poc_packageVersion poc) \<or>
               dep_requiredPackageVersion d = poc_packageVersion poc)
      then Inr None
      else if dep_requiredInstallationStatus d = Some ''installed'' then Inr (Some ''setup'')
      else if dep_requiredInstallationStatus d = Some ''not_installed'' then Inr (Some ''uninstall'')
      else Inl (ValueError ''Invalid requiredInstallationStatus''))"

definition product_script :: "product \<Rightarrow> string \<Rightarrow> string result" where
  "product_script p act = of_option (map_of (pr_scripts p) (act @ ''Script'')) AttributeError"

definition unavailable :: "py_error \<Rightarrow> bool" where
  "unavailable e = (e = OpsiProductNotAvailableError \<or> e = OpsiProductNotAvailableOnDepotError)"

definition depot_product :: "sorter_env \<Rightarrow> string \<Rightarrow> string option \<Rightarrow> string option \<Rightarrow> product result" where
  "depot_product E product_id product_version package_version =
     bind_res (get_product_on_depot (se_db E) (se_depot_id E) product_id product_version package_version) (\<lambda>pod.
       get_product (se_db E) product_id (pod_productVersion pod) (pod_packageVersion pod))"

text \<open>One dependency of the product of an action; \<open>rec\<close> is the recursive call.\<close>

definition process_dependency ::
  "sorter_env \<Rightarrow> (action \<Rightarrow> action_sorter \<times> string list \<Rightarrow> (action_sorter \<times> string list) result) \<Rightarrow> action \<Rightarrow> product \<Rightarrow>
    product_dependency \<Rightarrow> action_sorter \<times> string list \<Rightarrow> (action_sorter \<times> string list) result" where
  "process_dependency E rec action product d = (\<lambda>(st, path).
     if dep_productAction d \<noteq> ac_action action \<or> dep_requiredProductId d \<in> set path then Inr (st, path)
     else case depot_product E (dep_requiredProductId d) (dep_requiredProductVersion d) (dep_requiredPackageVersion d) of
       Inl e \<Rightarrow> if unavailable e \<and> se_ignore_unavailable E then Inr (st, path) else Inl e
     | Inr dep_product \<Rightarrow>
         let poc = get_product_on_client (se_db E) (se_pocs E) (pr_id dep_product) (pr_type dep_product) (se_client_id E);
             st = record_dependency action product dep_product d st
         in bind_res (required_action d poc) (\<lambda>ra.
              case ra of
                None \<Rightarrow> Inr (st, path)
              | Some act \<Rightarrow>
                  bind_res (product_script dep_product act) (\<lambda>script.
                    if script = [] then Inr (st, path)
                    else
                      let dep_action = \<lparr>ac_product_id = pr_id dep_product, ac_product_type = pr_type dep_product, ac_action = act,
                            ac_priority = (case pr_priority dep_product of None \<Rightarrow> 0 | Some p \<Rightarrow> p), ac_product_on_client = None\<rparr>
                      in rec dep_action
                           (st\<lparr>so_unsorted_actions := dd_append (pr_id dep_product) dep_action (so_unsorted_actions st)\<rparr>, path))))"

definition out_of_fuel :: py_error where
  "out_of_fuel = OtherError ''recursion too deep''"

fun process_dependencies ::
  "nat \<Rightarrow> sorter_env \<Rightarrow> action \<Rightarrow> action_sorter \<times> string list \<Rightarrow> (action_sorter \<times> string list) result" where
  "process_dependencies 0 E action st = Inl out_of_fuel"
| "process_dependencies (Suc k) E action (st, path) =
     (let path = path @ [ac_product_id action] in
      case depot_product E (ac_product_id action) None None of
        Inl e \<Rightarrow> if unavailable e \<and> se_ignore_unavailable E then Inr (st, path) else Inl e
      | Inr product \<Rightarrow>
          fold_res (process_dependency E (process_dependencies k E) action product)
            (get_product_dependencies (se_db E) (pr_id product) (pr_productVersion product) (pr_packageVersion product)) (st, path))"

definition add_product_on_client :: "sorter_env \<Rightarrow> product_on_client \<Rightarrow> action_sorter \<Rightarrow> action_sorter result" where
  "add_product_on_client E poc st =
     (case depot_product E (poc_productId poc) None None of
        Inl e \<Rightarrow> if unavailable e \<and> se_ignore_unavailable E then Inr st else Inl e
      | Inr product \<Rightarrow>
          let action = \<lparr>ac_product_id = poc_productId poc, ac_product_type = poc_productType poc,
                ac_action = (if opt_truthy (poc_actionRequest poc) then the (poc_actionRequest poc) else ''none''),
                ac_priority = (case pr_priority product of None \<Rightarrow> 0 | Some p \<Rightarrow> p), ac_product_on_client = Some poc\<rparr>
          in Inr (st\<lparr>so_unsorted_actions := dd_append (poc_productId poc) action (so_unsorted_actions st)\<rparr>))"

text \<open>The dependencies of the actions collected so far. The lists are read when their turn comes,
  so an action that an earlier one added is processed as well; an action never adds to the list
  of its own product.\<close>

definition sorter_fuel :: "sorter_env \<Rightarrow> nat" where
  "sorter_fuel E = length (db_on_depots (se_db E)) + 1"

definition process_product :: "sorter_env \<Rightarrow> string \<Rightarrow> action_sorter \<Rightarrow> action_sorter result" where
  "process_product E product_id st =
     fold_res (\<lambda>action st. bind_res (process_dependencies (sorter_fuel E) E action (st, [])) (\<lambda>(st, _). Inr st))
       (dd_get (so_unsorted_actions st) product_id) st"

definition merge_step :: "action \<Rightarrow> action \<times> product_on_client option \<Rightarrow> action \<times> product_on_client option" where
  "merge_step act = (\<lambda>(action, poc).
     let poc = (if poc = None \<and> ac_product_on_client act \<noteq> None then ac_product_on_client act else poc)
     in if ac_action act = [] \<or> ac_action act = ''none'' then (action, poc) else (act, poc))"

definition merge_actions :: "action list \<Rightarrow> action list" where
  "merge_actions actions =
     (if length actions \<le> 1 then actions
      else let (action, poc) = fold merge_step actions (hd actions, None)
           in [action\<lparr>ac_product_on_client := poc\<rparr>])"

definition add_group_product ::
  "(string \<times> product_dependency list) list \<Rightarrow> string \<Rightarrow> action_group \<times> (string \<times> action list) list \<Rightarrow> action_group \<times> (string \<times> action list) list" where
  "add_group_product deps product_id = (\<lambda>(group, unsorted).
     case dd_get unsorted product_id of
       [] \<Rightarrow> (group, dict_del product_id unsorted)
     | action # _ \<Rightarrow>
         let group = add_action action group;
             ds = dd_get deps (ac_product_id action)
         in (if ds \<noteq> [] then group\<lparr>ag_dependencies := dict_set (ac_product_id action) ds (ag_dependencies group)\<rparr> else group,
             dict_del product_id unsorted))"

definition build_group :: "string list \<Rightarrow> action_sorter \<Rightarrow> action_sorter" where
  "build_group product_ids st =
     (let (group, unsorted) = fold (add_group_product (so_dependencies st)) product_ids (new_group, so_unsorted_actions st)
      in st\<lparr>so_unsorted_actions := unsorted, so_groups := so_groups st @ [sort_group group]\<rparr>)"

definition arrange_groups :: "action_sorter \<Rightarrow> action_sorter" where
  "arrange_groups st =
     (let st = st\<lparr>so_unsorted_actions := map (\<lambda>(p, as). (p, merge_actions as)) (so_unsorted_actions st)\<rparr>;
          st = fold build_group (so_product_id_groups st) st;
          st = st\<lparr>so_groups := so_groups st @ map (\<lambda>(p, as). add_action (hd as) new_group) (so_unsorted_actions st)\<rparr>
      in st\<lparr>so_groups := sort_key (\<lambda>g. - ag_priority g) (so_groups st)\<rparr>)"

definition process_product_on_clients :: "sorter_env \<Rightarrow> action_sorter result" where
  "process_product_on_clients E =
     bind_res (fold_res (add_product_on_client E) (se_pocs E) new_sorter) (\<lambda>st.
     bind_res (fold_res (process_product E) (dict_keys (so_unsorted_actions st)) st) (\<lambda>st.
       Inr (arrange_groups st)))"

section \<open>The result\<close>

record product_action_group =
  pag_priority :: int
  pag_product_on_clients :: "product_on_client list"
  pag_priorities :: "(string \<times> int) list"
  pag_dependencies :: "(string \<times> product_dependency list) list"
  pag_sort_log :: "sort_log list"

definition number_action :: "string \<Rightarrow> action \<Rightarrow> product_action_group \<times> int \<Rightarrow> product_action_group \<times> int" where
  "number_action client_id action = (\<lambda>(group, seq).
     let poc = action_product_on_client client_id action;
         active = ac_action action \<noteq> [] \<and> ac_action action \<noteq> ''none'';
         poc = poc\<lparr>poc_actionSequence := (if active then seq else -1)\<rparr>
     in (group\<lparr>pag_priorities := dict_set (ac_product_id action) (ac_priority action) (pag_priorities group),
               pag_product_on_clients := pag_product_on_clients group @ [poc]\<rparr>,
         if active then seq + 1 else seq))"

definition number_group :: "string \<Rightarrow> action_group \<Rightarrow> product_action_group list \<times> int \<Rightarrow> product_action_group list \<times> int" where
  "number_group client_id g = (\<lambda>(groups, seq).
     let (group, seq) = fold (number_action client_id) (ag_actions g)
           (\<lparr>pag_priority = ag_priority g, pag_product_on_clients = [], pag_priorities = [],
             pag_dependencies = ag_dependencies g, pag_sort_log = ag_sort_log g\<rparr>, seq)
     in (groups @ [group], seq))"

definition client_action_groups :: "product_db \<Rightarrow> bool \<Rightarrow> string \<Rightarrow> product_on_client list \<Rightarrow> product_action_group list result" where
  "client_action_groups db ignore_unavailable client_id pocs =
     (let depot_id = (case map_of (db_client_to_depot db) client_id of None \<Rightarrow> client_id | Some d \<Rightarrow> d);
          E = \<lparr>se_db = db, se_ignore_unavailable = ignore_unavailable, se_pocs = pocs, se_client_id = client_id, se_depot_id = depot_id\<rparr>
      in bind_res (process_product_on_clients E) (\<lambda>st. Inr (fst (fold (number_group client_id) (so_groups st) ([], 0)))))"

definition by_client :: "product_on_client list \<Rightarrow> (string \<times> product_on_client list) list" where
  "by_client pocs = fold (\<lambda>poc d. dd_append (poc_clientId poc) poc d) pocs []"

definition get_product_action_groups ::
  "product_db \<Rightarrow> bool \<Rightarrow> product_on_client list \<Rightarrow> (string \<times> product_action_group list) list result" where
  "get_product_action_groups db ignore_unavailable pocs =
     map_res (\<lambda>(client_id, cpocs). bind_res (client_action_groups db ignore_unavailable client_id cpocs) (\<lambda>gs. Inr (client_id, gs)))
       (by_client pocs)"

definition ordering_actions :: "string list" where
  "ordering_actions = [''setup'', ''update'', ''always'', ''once'', ''custom'', ''uninstall'']"

definition ordering_product :: "product_db \<Rightarrow> product_on_depot \<Rightarrow> product option" where
  "ordering_product db pod =
     find (\<lambda>p. pr_type p = ''LocalbootProduct'' \<and> pr_id p = pod_productId pod \<and> pr_productVersion p = pod_productVersion pod \<and>
               pr_packageVersion p = pod_packageVersion pod) (rev (db_products db))"

definition ordering_poc :: "string \<Rightarrow> product_on_depot \<Rightarrow> product \<Rightarrow> product_on_client list" where
  "ordering_poc depotId pod p =
     (case filter (\<lambda>a. map_of (pr_scripts p) (a @ ''Script'') \<notin> {None, Some []}) ordering_actions of
        [] \<Rightarrow> []
      | a # _ \<Rightarrow> [\<lparr>poc_productId = pod_productId pod, poc_productType = pod_productType pod, poc_clientId = depotId,
                   poc_installationStatus = Some ''not_installed'', poc_actionRequest = Some a,
                   poc_productVersion = None, poc_packageVersion = None, poc_actionSequence = -1\<rparr>])"

definition getProductOrdering :: "product_db \<Rightarrow> string \<Rightarrow> string option \<Rightarrow> (string list \<times> string list) result" where
  "getProductOrdering db depotId sortAlgorithm =
     (if opt_truthy sortAlgorithm \<and> sortAlgorithm \<noteq> Some ''algorithm1'' then Inl (ValueError ''Invalid sort algorithm'')
      else
        let pods = filter (\<lambda>pod. pod_depotId pod = depotId \<and> pod_productType pod = ''LocalbootProduct'' \<and> ordering_product db pod \<noteq> None)
                     (db_on_depots db);
            product_ids = map (\<lambda>pod. pr_id (the (ordering_product db pod))) pods;
            pocs = concat (map (\<lambda>pod. ordering_poc depotId pod (the (ordering_product db pod))) pods)
        in bind_res (get_product_action_groups db True pocs) (\<lambda>groups.
             Inr (sort product_ids, concat (map (\<lambda>(c, gs). concat (map (\<lambda>g. map poc_productId (pag_product_on_clients g)) gs)) groups))))"

section \<open>The recursion\<close>

lemma depot_product_id:
  assumes "depot_product E pid pv pkv = Inr p"
  shows "pr_id p = pid \<and> pid \<in> pod_productId ` set (db_on_depots (se_db E))"
proof -
  from assms obtain pod where pod: "get_product_on_depot (se_db E) (se_depot_id E) pid pv pkv = Inr pod"
    "get_product (se_db E) pid (pod_productVersion pod) (pod_packageVersion pod) = Inr p"
    by (auto simp: depot_product_def bind_res_Inr_iff)
  have "pr_id p = pid"
    using pod(2) by (auto simp: get_product_def find_Some_iff split: option.splits)
  moreover have "\<exists>q \<in> set (db_on_depots (se_db E)). pod_productId q = pid"
    using pod(1) by (auto simp: get_product_on_depot_def find_Some_iff split: option.splits)
  ultimately show ?thesis by force
qed

text \<open>The three ways a dependency is dealt with: skipped, only recorded, or followed.\<close>

lemma process_dependency_cases:
  assumes "process_dependency E rec action product d (st, path) = Inr out"
  obtains (skip) "out = (st, path)"
  | (noted) q where "depot_product E (dep_requiredProductId d) (dep_requiredProductVersion d) (dep_requiredPackageVersion d) = Inr q"
      "dep_requiredProductId d \<notin> set path" "out = (record_dependency action product q d st, path)"
  | (follow) q act st' where "depot_product E (dep_requiredProductId d) (dep_requiredProductVersion d) (dep_requiredPackageVersion d) = Inr q"
      "dep_requiredProductId d \<notin> set path" "ac_product_id act = pr_id q" "ac_product_on_client act = None"
      "st' = record_dependency action product q d st"
      "rec act (st'\<lparr>so_unsorted_actions := dd_append (pr_id q) act (so_unsorted_actions st')\<rparr>, path) = Inr out"
proof (cases "dep_productAction d \<noteq> ac_action action \<or> dep_requiredProductId d \<in> set path")
  case True
  then show ?thesis using assms skip by (simp add: process_dependency_def)
next
  case False
  then show ?thesis
  proof (cases "depot_product E (dep_requiredProductId d) (dep_requiredProductVersion d) (dep_requiredPackageVersion d)")
    case (Inl e)
    then show ?thesis using assms skip False by (auto simp: process_dependency_def split: if_splits)
  next
    case (Inr q)
    let ?poc = "get_product_on_client (se_db E) (se_pocs E) (pr_id q) (pr_type q) (se_client_id E)"
    obtain ra where ra: "required_action d ?poc = Inr ra"
      using assms False Inr by (auto simp: process_dependency_def Let_def bind_res_Inr_iff)
    show ?thesis
    proof (cases ra)
      case None
      then show ?thesis using assms False Inr ra by (intro noted[OF Inr]) (auto simp: process_dependency_def Let_def)
    next
      case (Some a)
      then obtain script where s: "product_script q a = Inr script"
        using assms False Inr ra by (auto simp: process_dependency_def Let_def bind_res_Inr_iff)
      let ?act = "\<lparr>ac_product_id = pr_id q, ac_product_type = pr_type q, ac_action = a,
        ac_priority = (case pr_priority q of None \<Rightarrow> 0 | Some p \<Rightarrow> p), ac_product_on_client = None\<rparr>"
      show ?thesis
      proof (cases "script = []")
        case True
        then show ?thesis using assms False Inr ra Some s by (intro noted[OF Inr]) (auto simp: process_dependency_def Let_def)
      next
        case ne: False
        then show ?thesis using assms False Inr ra Some s
          by (intro follow[OF Inr _ _ _ refl, of ?act]) (auto simp: process_dependency_def Let_def)
      qed
    qed
  qed
qed

lemma process_dependencies_path:
  "process_dependencies k E a (st, path) = Inr (st1, path1) \<Longrightarrow> set (path @ [ac_product_id a]) \<subseteq> set path1"
proof (induction k arbitrary: a st path st1 path1)
  case (Suc k)
  let ?Q = "\<lambda>s. set (path @ [ac_product_id a]) \<subseteq> set (snd s)"
  show ?case
  proof (cases "depot_product E (ac_product_id a) None None")
    case (Inl e)
    then show ?thesis using Suc.prems by (auto split: if_splits)
  next
    case (Inr p)
    then have f: "fold_res (process_dependency E (process_dependencies k E) a p)
        (get_product_dependencies (se_db E) (pr_id p) (pr_productVersion p) (pr_packageVersion p)) (st, path @ [ac_product_id a]) = Inr (st1, path1)"
      using Suc.prems by (simp add: Let_def)
    have "?Q (st1, path1)"
    proof (rule fold_res_invariant[where P = ?Q, OF f])
      fix d s t
      assume s: "?Q s" "process_dependency E (process_dependencies k E) a p d s = Inr t"
      obtain st0 path0 where s0: "s = (st0, path0)" by fastforce
      show "?Q t"
        using s(2) unfolding s0
      proof (cases rule: process_dependency_cases)
        case (follow q act st')
        obtain st2 path2 where t: "t = (st2, path2)" by fastforce
        have "set path0 \<subseteq> set path2" using Suc.IH follow(6) unfolding t by fastforce
        then show ?thesis using s(1) by (auto simp: s0 t)
      qed (use s(1) in \<open>auto simp: s0\<close>)
    qed simp
    then show ?thesis by simp
  qed
qed simp

text \<open>The invariant rule: what recording a dependency and adding an action keep, the recursion keeps.\<close>

lemma process_dependencies_invariant:
  assumes "process_dependencies k E a (st, path) = Inr (st1, path1)" "P st (path @ [ac_product_id a])"
    and recd: "\<And>st path b p q d. P st path \<Longrightarrow> ac_product_id b \<in> set path \<Longrightarrow> pr_id p = ac_product_id b \<Longrightarrow>
      pr_id q = dep_requiredProductId d \<Longrightarrow> pr_id q \<notin> set path \<Longrightarrow> P (record_dependency b p q d st) path"
    and act: "\<And>st path b. P st path \<Longrightarrow> ac_product_id b \<notin> set path \<Longrightarrow> ac_product_on_client b = None \<Longrightarrow>
      P (st\<lparr>so_unsorted_actions := dd_append (ac_product_id b) b (so_unsorted_actions st)\<rparr>) (path @ [ac_product_id b])"
  shows "P st1 path1"
  using assms(1,2)
proof (induction k arbitrary: a st path st1 path1)
  case (Suc k)
  show ?case
  proof (cases "depot_product E (ac_product_id a) None None")
    case (Inl e)
    then show ?thesis using Suc.prems by (auto split: if_splits)
  next
    case (Inr p)
    let ?Q = "\<lambda>s. P (fst s) (snd s) \<and> ac_product_id a \<in> set (snd s)"
    have f: "fold_res (process_dependency E (process_dependencies k E) a p)
        (get_product_dependencies (se_db E) (pr_id p) (pr_productVersion p) (pr_packageVersion p)) (st, path @ [ac_product_id a]) = Inr (st1, path1)"
      using Suc.prems(1) Inr by (simp add: Let_def)
    have pid: "pr_id p = ac_product_id a" using depot_product_id[OF Inr] by simp
    have "?Q (st1, path1)"
    proof (rule fold_res_invariant[where P = ?Q, OF f])
      fix d s t
      assume s: "?Q s" "process_dependency E (process_dependencies k E) a p d s = Inr t"
      obtain st0 path0 where s0: "s = (st0, path0)" by fastforce
      show "?Q t"
        using s(2) unfolding s0
      proof (cases rule: process_dependency_cases)
        case (noted q)
        then show ?thesis using recd[OF _ _ pid, of st0 path0 q d] s(1) depot_product_id[OF noted(1)] by (simp add: s0)
      next
        case (follow q b st')
        obtain st2 path2 where t: "t = (st2, path2)" by fastforce
        have q: "pr_id q = dep_requiredProductId d" "pr_id q \<notin> set path0"
          using depot_product_id[OF follow(1)] follow(2) by auto
        have "P st' path0" using recd[OF _ _ pid q] s(1) follow(5) by (simp add: s0)
        then have "P (st'\<lparr>so_unsorted_actions := dd_append (pr_id q) b (so_unsorted_actions st')\<rparr>) (path0 @ [ac_product_id b])"
          using act[of st' path0 b] q(2) follow(3,4) by simp
        then have "P st2 path2" using Suc.IH[OF follow(6)[unfolded t]] by simp
        moreover have "set path0 \<subseteq> set path2" using process_dependencies_path follow(6) unfolding t by fastforce
        ultimately show ?thesis using s(1) by (auto simp: s0 t)
      qed (use s(1) in \<open>auto simp: s0\<close>)
    qed (use Suc.prems(2) in simp)
    then show ?thesis by simp
  qed
qed simp

lemma record_dependency_unsorted [simp]: "so_unsorted_actions (record_dependency a p q d st) = so_unsorted_actions st"
  by (simp add: record_dependency_def)

lemma record_dependency_groups_kept [simp]: "so_groups (record_dependency a p q d st) = so_groups st"
  by (simp add: record_dependency_def)

text \<open>The list of actions of a product is not changed while its own actions are processed.\<close>

lemma process_dependencies_own_list:
  assumes "process_dependencies k E a (st, path) = Inr (st1, path1)" "x \<in> set (path @ [ac_product_id a])"
  shows "dd_get (so_unsorted_actions st1) x = dd_get (so_unsorted_actions st) x"
proof -
  let ?P = "\<lambda>s p. x \<in> set p \<and> dd_get (so_unsorted_actions s) x = dd_get (so_unsorted_actions st) x"
  have "?P st1 path1"
    by (rule process_dependencies_invariant[where P = ?P, OF assms(1)])
      (use assms(2) in \<open>auto simp: dd_append_def dd_get_def split: option.split\<close>)
  then show ?thesis by simp
qed

text \<open>The number of products of the depot that are not on the path bounds the depth.\<close>

lemma not_out_of_fuel:
  "depot_product E pid pv pkv \<noteq> Inl out_of_fuel" "required_action d poc \<noteq> Inl out_of_fuel"
  "product_script q act \<noteq> Inl out_of_fuel"
  by (auto simp: depot_product_def get_product_on_depot_def get_product_def bind_res_Inl_iff out_of_fuel_def
      required_action_def product_script_def of_option_def split: option.splits if_splits)

lemma process_dependency_fuel:
  assumes "process_dependency E rec action product d (st, path) = Inl out_of_fuel"
  shows "dep_requiredProductId d \<notin> set path \<and>
    (\<exists>act st'. ac_product_id act = dep_requiredProductId d \<and> rec act (st', path) = Inl out_of_fuel)"
proof -
  have n: "dep_productAction d = ac_action action" "dep_requiredProductId d \<notin> set path"
    using assms by (auto simp: process_dependency_def split: if_splits)
  then obtain q where q: "depot_product E (dep_requiredProductId d) (dep_requiredProductVersion d) (dep_requiredPackageVersion d) = Inr q"
    using assms not_out_of_fuel(1)
    by (cases "depot_product E (dep_requiredProductId d) (dep_requiredProductVersion d) (dep_requiredPackageVersion d)")
      (auto simp: process_dependency_def split: if_splits)
  let ?poc = "get_product_on_client (se_db E) (se_pocs E) (pr_id q) (pr_type q) (se_client_id E)"
  obtain ra where ra: "required_action d ?poc = Inr ra"
    using assms n q not_out_of_fuel(2)[of d ?poc] by (cases "required_action d ?poc") (auto simp: process_dependency_def Let_def)
  obtain a where a: "ra = Some a" using assms n q ra by (cases ra) (auto simp: process_dependency_def Let_def)
  obtain script where s: "product_script q a = Inr script"
    using assms n q ra a not_out_of_fuel(3)[of q a] by (cases "product_script q a") (auto simp: process_dependency_def Let_def)
  show ?thesis
    using assms n q ra a s depot_product_id[OF q] by (auto simp: process_dependency_def Let_def split: if_splits) (metis action.select_convs(1))
qed

lemma process_dependencies_fuel:
  assumes "card (pod_productId ` set (db_on_depots (se_db E)) - set path) < k" "ac_product_id a \<notin> set path"
  shows "process_dependencies k E a (st, path) \<noteq> Inl out_of_fuel"
  using assms
proof (induction k arbitrary: a st path)
  case (Suc k)
  let ?U = "pod_productId ` set (db_on_depots (se_db E))"
  show ?case
  proof (cases "depot_product E (ac_product_id a) None None")
    case (Inl e)
    then have "e \<noteq> out_of_fuel" using not_out_of_fuel(1) by metis
    then show ?thesis using Inl by (auto simp: Let_def)
  next
    case (Inr p)
    have aU: "ac_product_id a \<in> ?U" using depot_product_id[OF Inr] by simp
    let ?Q = "\<lambda>s. set (path @ [ac_product_id a]) \<subseteq> set (snd s)"
    have ok: "process_dependency E (process_dependencies k E) a p d s \<noteq> Inl out_of_fuel" if "?Q s" for d s
    proof
      obtain st0 path0 where s0: "s = (st0, path0)" by fastforce
      assume fuel: "process_dependency E (process_dependencies k E) a p d s = Inl out_of_fuel"
      have "?U - set path0 \<subset> ?U - set path" using that aU Suc.prems(2) by (auto simp: s0)
      then have "card (?U - set path0) < card (?U - set path)" by (intro psubset_card_mono) auto
      then have c: "card (?U - set path0) < k" using Suc.prems(1) by simp
      from process_dependency_fuel[OF fuel[unfolded s0]] obtain b st' where
        b: "ac_product_id b = dep_requiredProductId d" "dep_requiredProductId d \<notin> set path0"
          "process_dependencies k E b (st', path0) = Inl out_of_fuel" by blast
      then show False using Suc.IH[OF c, of b st'] by simp
    qed
    have fr: "fold_res (process_dependency E (process_dependencies k E) a p) ds s \<noteq> Inl out_of_fuel" if "?Q s" for ds s
      using that
    proof (induction ds arbitrary: s)
      case (Cons d ds)
      have "?Q t" if t: "process_dependency E (process_dependencies k E) a p d s = Inr t" for t
      proof -
        obtain st0 path0 st1 path1 where s0: "s = (st0, path0)" "t = (st1, path1)" by (metis surj_pair)
        have "?Q (st1, path1)"
          using t[unfolded s0]
        proof (cases rule: process_dependency_cases)
          case (follow q b st')
          then have "set path0 \<subseteq> set path1" using process_dependencies_path by fastforce
          then show ?thesis using Cons.prems by (auto simp: s0)
        qed (use Cons.prems in \<open>auto simp: s0\<close>)
        then show ?thesis by (simp add: s0)
      qed
      then show ?case using ok[OF Cons.prems] Cons.IH by (auto simp: bind_res_Inl_iff)
    qed simp
    show ?thesis using fr[of "(st, path @ [ac_product_id a])"] Inr by (simp add: Let_def)
  qed
qed simp

section \<open>The actions collected\<close>

text \<open>Every list of the dictionary is non-empty and holds actions of its product.\<close>

definition action_ok :: "string \<Rightarrow> action \<Rightarrow> bool" where
  "action_ok p a = (ac_product_id a = p \<and> (\<forall>poc. ac_product_on_client a = Some poc \<longrightarrow> poc_productId poc = p))"

definition unsorted_ok :: "(string \<times> action list) list \<Rightarrow> bool" where
  "unsorted_ok u = (dict_wf u \<and> (\<forall>p as. map_of u p = Some as \<longrightarrow> as \<noteq> [] \<and> list_all (action_ok p) as))"

lemma unsorted_okD: "unsorted_ok u \<Longrightarrow> map_of u p = Some as \<Longrightarrow> as \<noteq> [] \<and> list_all (action_ok p) as"
  by (simp add: unsorted_ok_def)

lemma unsorted_ok_append:
  assumes "unsorted_ok u" "action_ok p a"
  shows "unsorted_ok (dd_append p a u)" "set (dict_keys (dd_append p a u)) = insert p (set (dict_keys u))"
proof -
  show "unsorted_ok (dd_append p a u)"
    using assms unfolding unsorted_ok_def dd_append_def
    by (auto simp: dd_get_def split: option.splits)
  show "set (dict_keys (dd_append p a u)) = insert p (set (dict_keys u))"
    by (simp add: dd_append_def dict_keys_set)
qed

lemma dict_keys_map_of: "p \<in> set (dict_keys u) \<longleftrightarrow> map_of u p \<noteq> None"
  by (auto simp: dict_keys_def map_of_eq_None_iff image_iff)

text \<open>What holds of the sorter while actions are collected: \<open>ks\<close> are keys that must stay.\<close>

definition collecting :: "string set \<Rightarrow> action_sorter \<Rightarrow> bool" where
  "collecting ks st = (unsorted_ok (so_unsorted_actions st) \<and> so_groups st = [] \<and> ks \<subseteq> set (dict_keys (so_unsorted_actions st)))"

lemma collecting_append:
  assumes "collecting ks st" "action_ok p a"
  shows "collecting (insert p ks) (st\<lparr>so_unsorted_actions := dd_append p a (so_unsorted_actions st)\<rparr>)"
  using assms unsorted_ok_append[OF _ assms(2), of "so_unsorted_actions st"] by (auto simp: collecting_def)

lemma collecting_mono: "collecting ks st \<Longrightarrow> ks' \<subseteq> ks \<Longrightarrow> collecting ks' st"
  by (auto simp: collecting_def)

lemma process_dependencies_collecting:
  assumes "process_dependencies k E a (st, path) = Inr (st1, path1)" "collecting ks st"
  shows "collecting ks st1"
proof (rule process_dependencies_invariant[where P = "\<lambda>s p. collecting ks s", OF assms(1,2)])
  show "collecting ks (record_dependency b p q d s)" if "collecting ks s" for s b p q d
    using that by (simp add: collecting_def)
  show "collecting ks (s\<lparr>so_unsorted_actions := dd_append (ac_product_id b) b (so_unsorted_actions s)\<rparr>)"
    if "collecting ks s" "ac_product_on_client b = None" for s b
    using collecting_append[OF that(1), of "ac_product_id b" b] that(2)
    by (auto simp: action_ok_def intro: collecting_mono)
qed

lemma process_product_collecting:
  assumes "process_product E pid st = Inr st1" "collecting ks st"
  shows "collecting ks st1"
  using assms unfolding process_product_def
  by (rule fold_res_invariant[where P = "collecting ks"])
    (auto simp: bind_res_Inr_iff intro: process_dependencies_collecting)

text \<open>The products whose actions are added at the start.\<close>

definition requested :: "sorter_env \<Rightarrow> string set" where
  "requested E = {poc_productId poc |poc. poc \<in> set (se_pocs E) \<and> (\<exists>p. depot_product E (poc_productId poc) None None = Inr p)}"

lemma add_products_collecting:
  assumes "fold_res (add_product_on_client E) pocs st = Inr st1" "collecting ks st"
  shows "collecting (ks \<union> {poc_productId poc |poc. poc \<in> set pocs \<and> (\<exists>p. depot_product E (poc_productId poc) None None = Inr p)}) st1"
  using assms
proof (induction pocs arbitrary: st ks)
  case (Cons poc pocs)
  from Cons.prems(1) obtain st' where st': "add_product_on_client E poc st = Inr st'" "fold_res (add_product_on_client E) pocs st' = Inr st1"
    by (auto simp: bind_res_Inr_iff)
  show ?case
  proof (cases "depot_product E (poc_productId poc) None None")
    case (Inl e)
    then have "st' = st" using st'(1) by (auto simp: add_product_on_client_def split: if_splits)
    then have "collecting (ks \<union> {poc_productId poc |poc. poc \<in> set pocs \<and> (\<exists>p. depot_product E (poc_productId poc) None None = Inr p)}) st1"
      using Cons.IH[OF st'(2)] Cons.prems(2) by blast
    then show ?thesis by (rule collecting_mono) (use Inl in auto)
  next
    case (Inr p)
    let ?a = "\<lparr>ac_product_id = poc_productId poc, ac_product_type = poc_productType poc,
        ac_action = (if opt_truthy (poc_actionRequest poc) then the (poc_actionRequest poc) else ''none''),
        ac_priority = (case pr_priority p of None \<Rightarrow> 0 | Some p \<Rightarrow> p), ac_product_on_client = Some poc\<rparr>"
    have "action_ok (poc_productId poc) ?a"
      "st' = st\<lparr>so_unsorted_actions := dd_append (poc_productId poc) ?a (so_unsorted_actions st)\<rparr>"
      using st'(1) Inr by (simp_all add: add_product_on_client_def Let_def action_ok_def)
    then have "collecting (insert (poc_productId poc) ks) st'" using collecting_append[OF Cons.prems(2)] by blast
    from Cons.IH[OF st'(2) this] show ?thesis by (rule collecting_mono) auto
  qed
qed simp

lemma collected:
  assumes "fold_res (add_product_on_client E) (se_pocs E) new_sorter = Inr st0"
    and "fold_res (process_product E) ps st0 = Inr st1"
  shows "collecting (requested E) st1"
proof -
  have "collecting {} new_sorter" by (simp add: collecting_def new_sorter_def unsorted_ok_def)
  from add_products_collecting[OF assms(1) this] have "collecting (requested E) st0" by (simp add: requested_def)
  with assms(2) show ?thesis
    by (rule fold_res_invariant) (auto intro: process_product_collecting)
qed

section \<open>Arranging the groups\<close>

lemma merge_fold_ok:
  assumes "list_all (action_ok p) as" "action_ok p a" "\<forall>q. poc = Some q \<longrightarrow> poc_productId q = p"
  shows "action_ok p (fst (fold merge_step as (a, poc))) \<and> (\<forall>q. snd (fold merge_step as (a, poc)) = Some q \<longrightarrow> poc_productId q = p)"
  using assms
proof (induction as arbitrary: a poc)
  case (Cons x xs)
  have "action_ok p (fst (merge_step x (a, poc)))" "\<forall>q. snd (merge_step x (a, poc)) = Some q \<longrightarrow> poc_productId q = p"
    using Cons.prems by (auto simp: merge_step_def action_ok_def Let_def split: if_splits)
  then show ?case using Cons.IH[of "fst (merge_step x (a, poc))" "snd (merge_step x (a, poc))"] Cons.prems(1) by simp
qed simp

lemma merge_actions_ok:
  assumes "as \<noteq> []" "list_all (action_ok p) as"
  shows "merge_actions as \<noteq> [] \<and> list_all (action_ok p) (merge_actions as)"
proof (cases "length as \<le> 1")
  case False
  have "action_ok p (hd as)" using assms by (cases as) auto
  from merge_fold_ok[OF assms(2) this, of None] show ?thesis
    using False by (auto simp: merge_actions_def action_ok_def split: prod.splits)
qed (use assms in \<open>simp add: merge_actions_def\<close>)

lemma unsorted_ok_merge:
  assumes "unsorted_ok u"
  shows "unsorted_ok (map (\<lambda>(p, as). (p, merge_actions as)) u) \<and> dict_keys (map (\<lambda>(p, as). (p, merge_actions as)) u) = dict_keys u"
proof -
  let ?u = "map (\<lambda>(p, as). (p, merge_actions as)) u"
  have lookup: "map_of ?u q = map_option merge_actions (map_of u q)" for q
    by (induction u) auto
  have keys: "map fst ?u = map fst u" by auto
  then have "dict_wf ?u" using assms unfolding unsorted_ok_def dict_wf_def by metis
  moreover have "bs \<noteq> [] \<and> list_all (action_ok q) bs" if "map_of ?u q = Some bs" for q bs
    using that lookup[of q] unsorted_okD[OF assms, of q] merge_actions_ok by (cases "map_of u q") auto
  ultimately have "unsorted_ok ?u" unfolding unsorted_ok_def by blast
  with keys show ?thesis unfolding dict_keys_def by metis
qed

lemma dict_keys_del: "dict_keys (dict_del k d) = filter (\<lambda>x. x \<noteq> k) (dict_keys d)"
  by (induction d) (auto simp: dict_keys_def)

lemma unsorted_ok_del: "unsorted_ok u \<Longrightarrow> unsorted_ok (dict_del k u)"
  by (auto simp: unsorted_ok_def)

lemma add_action_actions [simp]: "ag_actions (add_action a g) = ag_actions g @ [a]"
  by (simp add: add_action_def Let_def)

lemma add_action_dependencies [simp]: "ag_dependencies (add_action a g) = ag_dependencies g"
  by (simp add: add_action_def Let_def)

text \<open>Building a group takes the products of the list that have actions, in order.\<close>

lemma fold_add_group_product:
  assumes "unsorted_ok u" "fold (add_group_product deps) ps (g, u) = (g1, u1)" "distinct ps"
  shows "ids (ag_actions g1) = ids (ag_actions g) @ filter (\<lambda>p. p \<in> set (dict_keys u)) ps \<and> unsorted_ok u1 \<and>
    dict_keys u1 = filter (\<lambda>p. p \<notin> set ps) (dict_keys u) \<and>
    (\<forall>p. map_of (ag_dependencies g1) p =
      (if p \<in> set ps \<and> p \<in> set (dict_keys u) \<and> dd_get deps p \<noteq> [] then Some (dd_get deps p) else map_of (ag_dependencies g) p))"
  using assms
proof (induction ps arbitrary: g u)
  case (Cons p ps)
  obtain g' u' where s: "add_group_product deps p (g, u) = (g', u')" by fastforce
  have rest: "fold (add_group_product deps) ps (g', u') = (g1, u1)" using Cons.prems(2) s by simp
  have u': "u' = dict_del p u" using s by (auto simp: add_group_product_def Let_def split: list.splits)
  note IH = Cons.IH[OF unsorted_ok_del[OF Cons.prems(1), of p] rest[unfolded u']]
  have keys: "set (dict_keys u') = set (dict_keys u) - {p}" by (auto simp: u' dict_keys_del)
  have notin: "p \<notin> set ps" using Cons.prems(3) by simp
  show ?case
  proof (cases "map_of u p")
    case None
    then have "g' = g" using s by (simp add: add_group_product_def dd_get_def)
    moreover have "p \<notin> set (dict_keys u)" using None by (simp add: dict_keys_map_of)
    moreover have "filter (\<lambda>q. q \<in> set (dict_keys u')) ps = filter (\<lambda>q. q \<in> set (dict_keys u)) ps"
      using keys notin by (intro filter_cong) auto
    ultimately show ?thesis using IH Cons.prems(3) keys by (auto simp: u' dict_keys_del intro: filter_cong)
  next
    case (Some as)
    then obtain a as' where as: "as = a # as'" "ac_product_id a = p"
      using unsorted_okD[OF Cons.prems(1) Some] by (cases as) (auto simp: action_ok_def)
    have g': "ag_actions g' = ag_actions g @ [a]"
      "map_of (ag_dependencies g') q = (if q = p \<and> dd_get deps p \<noteq> [] then Some (dd_get deps p) else map_of (ag_dependencies g) q)" for q
      using s Some as by (auto simp: add_group_product_def dd_get_def Let_def split: if_splits)
    moreover have "p \<in> set (dict_keys u)" using Some by (simp add: dict_keys_map_of)
    moreover have "filter (\<lambda>q. q \<in> set (dict_keys u')) ps = filter (\<lambda>q. q \<in> set (dict_keys u)) ps"
      using keys notin by (intro filter_cong) auto
    ultimately show ?thesis using IH Cons.prems(3) keys as(2) by (auto simp: u' dict_keys_del intro: filter_cong)
  qed
qed (auto simp: intro: filter_True)

text \<open>The products of the groups and the products that are left make up the products at the start.\<close>

abbreviation group_ids :: "action_group list \<Rightarrow> string list" where
  "group_ids gs \<equiv> concat (map (\<lambda>g. ids (ag_actions g)) gs)"

lemma sort_group_ids: "mset (ids (ag_actions (sort_group g))) = mset (ids (ag_actions g))"
  by (metis mset_map sort_group_mset)

lemma sort_group_dependencies [simp]: "ag_dependencies (sort_group g) = ag_dependencies g"
  by (simp add: sort_group_def Let_def split_beta)

lemma mset_filter_split: "mset (filter P xs) + mset (filter (\<lambda>x. \<not> P x) xs) = mset xs"
  by (induction xs) auto

lemma build_group_spec:
  assumes "unsorted_ok (so_unsorted_actions st)" "distinct ps"
  shows "unsorted_ok (so_unsorted_actions (build_group ps st)) \<and>
    dict_keys (so_unsorted_actions (build_group ps st)) = filter (\<lambda>p. p \<notin> set ps) (dict_keys (so_unsorted_actions st)) \<and>
    so_dependencies (build_group ps st) = so_dependencies st \<and>
    (\<exists>g. so_groups (build_group ps st) = so_groups st @ [g] \<and>
      mset (ids (ag_actions g)) = mset (filter (\<lambda>p. p \<in> set (dict_keys (so_unsorted_actions st))) ps) \<and>
      (\<forall>p \<in> set (ids (ag_actions g)). dd_get (so_dependencies st) p \<noteq> [] \<longrightarrow>
        map_of (ag_dependencies g) p = Some (dd_get (so_dependencies st) p)))"
proof -
  obtain g u where f: "fold (add_group_product (so_dependencies st)) ps (new_group, so_unsorted_actions st) = (g, u)" by fastforce
  note spec = fold_add_group_product[OF assms(1) f assms(2)]
  have b: "build_group ps st = st\<lparr>so_unsorted_actions := u, so_groups := so_groups st @ [sort_group g]\<rparr>"
    by (simp add: build_group_def f)
  have m: "mset (ids (ag_actions (sort_group g))) = mset (filter (\<lambda>p. p \<in> set (dict_keys (so_unsorted_actions st))) ps)"
  proof -
    have "ids (ag_actions g) = filter (\<lambda>p. p \<in> set (dict_keys (so_unsorted_actions st))) ps"
      using spec by (simp add: new_group_def)
    then show ?thesis by (simp only: sort_group_ids)
  qed
  have sub: "set (ids (ag_actions (sort_group g))) = set (filter (\<lambda>p. p \<in> set (dict_keys (so_unsorted_actions st))) ps)"
    using m by (rule mset_eq_setD)
  have deps: "map_of (ag_dependencies (sort_group g)) p = Some (dd_get (so_dependencies st) p)"
    if "p \<in> set (ids (ag_actions (sort_group g)))" "dd_get (so_dependencies st) p \<noteq> []" for p
    using spec that unfolding sub by simp
  have rest: "unsorted_ok u" "dict_keys u = filter (\<lambda>p. p \<notin> set ps) (dict_keys (so_unsorted_actions st))"
    using spec by blast+
  show ?thesis
    unfolding b using m deps rest by simp
qed

lemma build_groups_ids:
  assumes "unsorted_ok (so_unsorted_actions st)" "list_all distinct pss"
  shows "unsorted_ok (so_unsorted_actions (fold build_group pss st)) \<and>
    mset (group_ids (so_groups (fold build_group pss st))) + mset (dict_keys (so_unsorted_actions (fold build_group pss st))) =
    mset (group_ids (so_groups st)) + mset (dict_keys (so_unsorted_actions st))"
  using assms
proof (induction pss arbitrary: st)
  case (Cons ps pss)
  have d: "distinct ps" using Cons.prems(2) by simp
  let ?k = "dict_keys (so_unsorted_actions st)"
  obtain g where spec: "unsorted_ok (so_unsorted_actions (build_group ps st))"
    "dict_keys (so_unsorted_actions (build_group ps st)) = filter (\<lambda>p. p \<notin> set ps) ?k"
    "so_groups (build_group ps st) = so_groups st @ [g]"
    "mset (ids (ag_actions g)) = mset (filter (\<lambda>p. p \<in> set ?k) ps)"
    using build_group_spec[OF Cons.prems(1) d] by blast
  have "distinct ?k" using Cons.prems(1) by (simp add: unsorted_ok_def dict_wf_def dict_keys_def)
  then have "mset (filter (\<lambda>p. p \<in> set ?k) ps) = mset (filter (\<lambda>p. p \<in> set ps) ?k)"
    using d by (intro set_eq_iff_mset_eq_distinct[THEN iffD1]) auto
  then have "mset (ids (ag_actions g)) + mset (filter (\<lambda>p. p \<notin> set ps) ?k) = mset ?k"
    using mset_filter_split[of "\<lambda>p. p \<in> set ps" ?k] spec(4) by simp
  then have "mset (group_ids (so_groups (build_group ps st))) + mset (dict_keys (so_unsorted_actions (build_group ps st))) =
      mset (group_ids (so_groups st)) + mset ?k"
    by (simp add: spec(2,3) ac_simps)
  then show ?case using Cons.IH[OF spec(1)] Cons.prems(2) by simp
qed simp

lemma single_group_ids:
  "\<forall>(p, as) \<in> set u. ids (ag_actions (add_action (hd as) new_group)) = [p] \<Longrightarrow>
    group_ids (map (\<lambda>(p, as). add_action (hd as) new_group) u) = map fst u"
  by (induction u) auto

lemma arrange_groups_ids:
  assumes "collecting ks st" "list_all distinct (so_product_id_groups st)"
  shows "mset (group_ids (so_groups (arrange_groups st))) = mset (dict_keys (so_unsorted_actions st)) \<and>
    sorted (map (\<lambda>g. - ag_priority g) (so_groups (arrange_groups st)))"
proof -
  let ?u = "map (\<lambda>(p, as). (p, merge_actions as)) (so_unsorted_actions st)"
  define st1 where "st1 = st\<lparr>so_unsorted_actions := ?u\<rparr>"
  define st2 where "st2 = fold build_group (so_product_id_groups st1) st1"
  define rest where "rest = map (\<lambda>(p, as). add_action (hd as) new_group) (so_unsorted_actions st2)"
  have u: "unsorted_ok ?u" "dict_keys ?u = dict_keys (so_unsorted_actions st)"
    using assms(1) unsorted_ok_merge by (auto simp: collecting_def)
  have st1: "unsorted_ok (so_unsorted_actions st1)" "list_all distinct (so_product_id_groups st1)" "so_groups st1 = []"
    "dict_keys (so_unsorted_actions st1) = dict_keys (so_unsorted_actions st)"
    using u assms by (simp_all add: st1_def collecting_def)
  have st2: "unsorted_ok (so_unsorted_actions st2)"
    "mset (group_ids (so_groups st2)) + mset (dict_keys (so_unsorted_actions st2)) = mset (dict_keys (so_unsorted_actions st))"
    using build_groups_ids[OF st1(1,2)] st1(3,4) by (simp_all add: st2_def)
  have "ids (ag_actions (add_action (hd as) new_group)) = [p]" if "(p, as) \<in> set (so_unsorted_actions st2)" for p as
  proof -
    have "map_of (so_unsorted_actions st2) p = Some as"
      using st2(1) that by (simp add: unsorted_ok_def dict_wf_def)
    from unsorted_okD[OF st2(1) this] show ?thesis by (cases as) (auto simp: new_group_def action_ok_def)
  qed
  then have "group_ids rest = dict_keys (so_unsorted_actions st2)"
    unfolding rest_def dict_keys_def by (intro single_group_ids) auto
  then have m: "mset (group_ids (so_groups st2 @ rest)) = mset (dict_keys (so_unsorted_actions st))" using st2(2) by simp
  have a: "so_groups (arrange_groups st) = sort_key (\<lambda>g. - ag_priority g) (so_groups st2 @ rest)"
    by (simp add: arrange_groups_def Let_def st1_def st2_def rest_def)
  have "mset (concat xs) = sum_mset (image_mset mset (mset xs))" for xs :: "string list list" by (induction xs) auto
  then have "mset (group_ids (so_groups (arrange_groups st))) = mset (group_ids (so_groups st2 @ rest))"
    by (simp add: a image_mset.compositionality comp_def)
  then show ?thesis using m by (simp add: a)
qed

section \<open>Groups of product ids\<close>

text \<open>The groups stay disjoint and free of duplicates, products that share a group go on sharing one,
  and the two products that are joined share one.\<close>

definition groups_ok :: "string list list \<Rightarrow> bool" where
  "groups_ok gs = distinct (concat gs)"

definition together :: "string list list \<Rightarrow> string \<Rightarrow> string \<Rightarrow> bool" where
  "together gs p q = (\<exists>g \<in> set gs. p \<in> set g \<and> q \<in> set g)"

lemma set_add_simps [simp]: "set (set_add x l) = insert x (set l)" "distinct (set_add x l) = distinct l"
  by (auto simp: set_add_def)

lemma set_fold_set_add [simp]: "set (fold set_add xs l) = set xs \<union> set l" "distinct (fold set_add xs l) = distinct l"
  by (induction xs arbitrary: l) auto

lemma first_group_None: "first_group p gs = None \<Longrightarrow> \<forall>g \<in> set gs. p \<notin> set g"
proof -
  assume "first_group p gs = None"
  then have "length (takeWhile (\<lambda>g. p \<notin> set g) gs) = length gs"
    using length_takeWhile_le[of "\<lambda>g. p \<notin> set g" gs] by (auto simp: first_group_def Let_def split: if_splits)
  then have "takeWhile (\<lambda>g. p \<notin> set g) gs = gs" by (metis takeWhile_eq_take take_all order_refl)
  then show ?thesis by (metis set_takeWhileD)
qed

lemma first_group_Some: "first_group p gs = Some i \<Longrightarrow> i < length gs \<and> p \<in> set (gs ! i)"
  using nth_length_takeWhile[of "\<lambda>g. p \<notin> set g" gs] by (auto simp: first_group_def Let_def split: if_splits)

text \<open>The outcome of a join: a group g0 is replaced by one that also holds both products and,
  possibly, all of a second group.\<close>

lemma join_keeps:
  assumes "groups_ok (as @ g # bs @ hs @ cs)" "hs \<in> {[], [h]}" "set g' = insert p (insert q (set g \<union> set (concat hs)))" "distinct g'"
    and "\<forall>k \<in> set as \<union> set bs \<union> set cs. p \<notin> set k \<and> q \<notin> set k"
  shows "groups_ok (as @ g' # bs @ cs) \<and> together (as @ g' # bs @ cs) p q \<and>
    (\<forall>x y. together (as @ g # bs @ hs @ cs) x y \<longrightarrow> together (as @ g' # bs @ cs) x y)"
  using assms by (auto simp: groups_ok_def together_def)

lemma join_one:
  assumes "groups_ok gs" "i < length gs"
    and "p \<in> set (gs ! i) \<or> (\<forall>g \<in> set gs. p \<notin> set g)" "q \<in> set (gs ! i) \<or> (\<forall>g \<in> set gs. q \<notin> set g)"
  defines "gs' \<equiv> gs[i := set_add q (set_add p (gs ! i))]"
  shows "groups_ok gs' \<and> together gs' p q \<and> (\<forall>x y. together gs x y \<longrightarrow> together gs' x y)"
proof -
  define as bs g where "as = take i gs" and "bs = drop (Suc i) gs" and "g = gs ! i"
  have gs: "gs = as @ g # bs @ [] @ []" using assms(2) by (simp add: as_def bs_def g_def id_take_nth_drop)
  have gs': "gs' = as @ set_add q (set_add p g) # bs @ []"
    using assms(2) by (simp add: gs'_def as_def bs_def g_def upd_conv_take_nth_drop)
  have ok: "groups_ok (as @ g # bs @ [] @ [])" using assms(1) gs by simp
  have other: "x \<notin> set k" if "x \<in> set g \<or> (\<forall>g \<in> set gs. x \<notin> set g)" "k \<in> set as \<union> set bs \<union> set []" for x k
  proof -
    have "k \<in> set gs" using that(2) gs by auto
    moreover have "set g \<inter> set k = {}" using ok that(2) by (auto simp: groups_ok_def)
    ultimately show ?thesis using that(1) by auto
  qed
  have d: "distinct (set_add q (set_add p g))" using ok by (simp add: groups_ok_def)
  have "\<forall>k \<in> set as \<union> set bs \<union> set []. p \<notin> set k \<and> q \<notin> set k"
    using other[of p] other[of q] assms(3,4) by (simp add: g_def)
  from join_keeps[OF ok _ _ d this] show ?thesis unfolding gs' using gs by auto
qed

text \<open>Two different groups are merged: the later one goes into the earlier one.\<close>

lemma join_two:
  assumes "groups_ok (as @ g # bs @ h # cs)" "p \<in> set g \<and> q \<in> set h \<or> q \<in> set g \<and> p \<in> set h"
    and "lo = length as" "hi = Suc (length as + length bs)"
  defines "gs \<equiv> as @ g # bs @ h # cs"
  defines "gs1 \<equiv> list_pop hi (gs[lo := fold set_add (gs ! hi) (gs ! lo)])"
  defines "gs' \<equiv> gs1[lo := set_add q (set_add p (gs1 ! lo))]"
  shows "groups_ok gs' \<and> together gs' p q \<and> (\<forall>x y. together gs x y \<longrightarrow> together gs' x y)"
proof -
  have "gs ! lo = g" "gs ! hi = h" by (simp_all add: gs_def assms(3,4) nth_append)
  then have "gs[lo := fold set_add (gs ! hi) (gs ! lo)] = (as @ fold set_add h g # bs) @ h # cs"
    by (simp add: gs_def assms(3) list_update_append)
  then have gs1: "gs1 = as @ fold set_add h g # bs @ cs"
    by (simp add: gs1_def list_pop_def assms(4))
  then have gs': "gs' = as @ set_add q (set_add p (fold set_add h g)) # bs @ cs"
    by (simp add: gs'_def assms(3) nth_append list_update_append)
  have d: "distinct (set_add q (set_add p (fold set_add h g)))" using assms(1) by (simp add: groups_ok_def)
  have "\<forall>k \<in> set as \<union> set bs \<union> set cs. p \<notin> set k \<and> q \<notin> set k"
    using assms(1,2) by (auto simp: groups_ok_def)
  from join_keeps[of as g bs "[h]" cs h, OF _ _ _ d this] assms(1) show ?thesis
    unfolding gs' gs_def by auto
qed

lemma nth_split2:
  assumes "lo < hi" "hi < length gs"
  obtains as bs cs where "gs = as @ gs ! lo # bs @ gs ! hi # cs" "lo = length as" "hi = Suc (length as + length bs)"
proof -
  have "drop (Suc lo) gs = take (hi - Suc lo) (drop (Suc lo) gs) @ gs ! hi # drop (Suc hi) gs"
    using assms id_take_nth_drop[of "hi - Suc lo" "drop (Suc lo) gs"] by (simp add: add.commute)
  then have "gs = take lo gs @ gs ! lo # take (hi - Suc lo) (drop (Suc lo) gs) @ gs ! hi # drop (Suc hi) gs"
    using id_take_nth_drop[of lo gs] assms by simp
  then show ?thesis by (rule that) (use assms in simp_all)
qed

lemma join_group_spec:
  assumes "groups_ok gs"
  shows "groups_ok (join_group p q gs) \<and> together (join_group p q gs) p q \<and> (\<forall>x y. together gs x y \<longrightarrow> together (join_group p q gs) x y)"
proof (cases "first_group p gs"; cases "first_group q gs")
  assume n: "first_group p gs = None" "first_group q gs = None"
  have "\<forall>g \<in> set gs. p \<notin> set g \<and> q \<notin> set g" using first_group_None[OF n(1)] first_group_None[OF n(2)] by simp
  then show ?thesis
    using assms n by (auto simp: join_group_def groups_ok_def together_def set_add_def)
next
  fix j
  assume n: "first_group p gs = None" "first_group q gs = Some j"
  have j: "j < length gs" "q \<in> set (gs ! j)" using first_group_Some[OF n(2)] by simp_all
  show ?thesis using join_one[OF assms j(1), of p q] j(2) first_group_None[OF n(1)] n by (simp add: join_group_def)
next
  fix i
  assume n: "first_group p gs = Some i" "first_group q gs = None"
  have i: "i < length gs" "p \<in> set (gs ! i)" using first_group_Some[OF n(1)] by simp_all
  show ?thesis using join_one[OF assms i(1), of p q] i(2) first_group_None[OF n(2)] n by (simp add: join_group_def)
next
  fix i j
  assume n: "first_group p gs = Some i" "first_group q gs = Some j"
  have i: "i < length gs" "p \<in> set (gs ! i)" using first_group_Some[OF n(1)] by simp_all
  have j: "j < length gs" "q \<in> set (gs ! j)" using first_group_Some[OF n(2)] by simp_all
  show ?thesis
  proof (cases "i = j")
    case True
    then show ?thesis using join_one[OF assms i(1), of p q] i(2) j(2) n by (simp add: join_group_def)
  next
    case False
    then have lh: "min i j < max i j" "max i j < length gs" using i(1) j(1) by (auto simp: min_def max_def)
    define g h where "g = gs ! min i j" and "h = gs ! max i j"
    obtain as bs cs where s: "gs = as @ g # bs @ h # cs" "min i j = length as" "max i j = Suc (length as + length bs)"
      unfolding g_def h_def by (rule nth_split2[OF lh])
    have "p \<in> set g \<and> q \<in> set h \<or> q \<in> set g \<and> p \<in> set h"
      using i(2) j(2) by (auto simp: g_def h_def min_def max_def)
    from join_two[OF assms[unfolded s(1)] this s(2,3), folded s(1)] False n show ?thesis
      by (simp add: join_group_def Let_def)
  qed
qed

text \<open>The invariant of the recursion: the groups are disjoint, and a recorded requirement has both its products in one group.\<close>

definition linked :: "action_sorter \<Rightarrow> bool" where
  "linked st = (groups_ok (so_product_id_groups st) \<and>
    (\<forall>p. \<forall>d \<in> set (dd_get (so_dependencies st) p). together (so_product_id_groups st) p (dep_requiredProductId d)))"

lemma dd_get_dict_set [simp]: "dd_get (dict_set k v d) j = (if j = k then v else dd_get d j)"
  by (simp add: dd_get_def)

lemma dd_get_append [simp]: "dd_get (dd_append k x d) j = (if j = k then dd_get d k @ [x] else dd_get d j)"
  by (simp add: dd_append_def)

lemma linked_record:
  assumes "linked st" "pr_id p = ac_product_id a" "pr_id q = dep_requiredProductId d"
  shows "linked (record_dependency a p q d st)"
  using assms join_group_spec[of "so_product_id_groups st" "ac_product_id a" "pr_id q"]
  by (auto simp: linked_def record_dependency_def)

lemma linked_unsorted [simp]: "linked (st\<lparr>so_unsorted_actions := u\<rparr>) = linked st"
  by (simp add: linked_def)

lemma process_dependencies_linked:
  assumes "process_dependencies k E a (st, path) = Inr (st1, path1)" "linked st"
  shows "linked st1"
  by (rule process_dependencies_invariant[where P = "\<lambda>s p. linked s", OF assms])
    (auto intro: linked_record)

lemma process_product_linked:
  assumes "process_product E pid st = Inr st1" "linked st"
  shows "linked st1"
  using assms unfolding process_product_def
  by (rule fold_res_invariant[where P = linked]) (auto simp: bind_res_Inr_iff intro: process_dependencies_linked)

lemma collected_linked:
  assumes "fold_res (add_product_on_client E) (se_pocs E) new_sorter = Inr st0"
    and "fold_res (process_product E) ps st0 = Inr st1"
  shows "linked st1"
proof -
  have "linked new_sorter" by (simp add: linked_def new_sorter_def groups_ok_def dd_get_def)
  moreover have "linked t" if "linked s" "add_product_on_client E poc s = Inr t" for s poc t
    using that by (auto simp: add_product_on_client_def Let_def split: sum.splits if_splits)
  ultimately have "linked st0" using fold_res_invariant[where P = linked, OF assms(1)] by blast
  with assms(2) show ?thesis by (rule fold_res_invariant) (auto intro: process_product_linked)
qed

lemma groups_ok_distinct: "groups_ok gs \<Longrightarrow> list_all distinct gs"
  by (induction gs) (auto simp: groups_ok_def)

section \<open>Requirements stay within their group\<close>

text \<open>Group \<open>g\<close> was built from the product ids \<open>ps\<close>.\<close>

definition built_from :: "string set \<Rightarrow> (string \<times> product_dependency list) list \<Rightarrow> string list \<Rightarrow> action_group \<Rightarrow> bool" where
  "built_from ks deps ps g = (set (ids (ag_actions g)) = set ps \<inter> ks \<and>
     (\<forall>p ds. map_of (ag_dependencies g) p = Some ds \<longrightarrow> p \<in> set ps \<and> ds = dd_get deps p))"

lemma build_group_built:
  assumes "unsorted_ok (so_unsorted_actions st)" "distinct ps"
  shows "\<exists>g. so_groups (build_group ps st) = so_groups st @ [g] \<and>
    built_from (set (dict_keys (so_unsorted_actions st))) (so_dependencies st) ps g"
proof -
  obtain g u where f: "fold (add_group_product (so_dependencies st)) ps (new_group, so_unsorted_actions st) = (g, u)" by fastforce
  note spec = fold_add_group_product[OF assms(1) f assms(2)]
  have "set (ids (ag_actions (sort_group g))) = set (ids (ag_actions g))" by (rule mset_eq_setD[OF sort_group_ids])
  moreover have "set (ids (ag_actions g)) = set ps \<inter> set (dict_keys (so_unsorted_actions st))"
    using spec by (auto simp: new_group_def)
  moreover have "p \<in> set ps \<and> ds = dd_get (so_dependencies st) p" if "map_of (ag_dependencies g) p = Some ds" for p ds
    using spec that by (auto simp: new_group_def split: if_splits)
  ultimately have "built_from (set (dict_keys (so_unsorted_actions st))) (so_dependencies st) ps (sort_group g)"
    by (simp add: built_from_def)
  then show ?thesis by (simp add: build_group_def f)
qed

lemma build_groups_built:
  assumes "unsorted_ok (so_unsorted_actions st)" "groups_ok pss"
    and "ks \<inter> set (concat pss) = set (dict_keys (so_unsorted_actions st)) \<inter> set (concat pss)"
  shows "\<exists>gs. so_groups (fold build_group pss st) = so_groups st @ gs \<and>
    list_all2 (built_from ks (so_dependencies st)) pss gs"
  using assms
proof (induction pss arbitrary: st)
  case (Cons ps pss)
  let ?st = "build_group ps st"
  have d: "distinct ps" "set ps \<inter> set (concat pss) = {}" using Cons.prems(2) by (auto simp: groups_ok_def)
  note spec = build_group_spec[OF Cons.prems(1) d(1)]
  obtain g where g: "so_groups ?st = so_groups st @ [g]"
    "built_from (set (dict_keys (so_unsorted_actions st))) (so_dependencies st) ps g"
    using build_group_built[OF Cons.prems(1) d(1)] by blast
  have "set ps \<inter> ks = set ps \<inter> set (dict_keys (so_unsorted_actions st))" using Cons.prems(3) by auto
  then have "built_from ks (so_dependencies st) ps g" using g(2) by (simp add: built_from_def)
  moreover have "ks \<inter> set (concat pss) = set (dict_keys (so_unsorted_actions ?st)) \<inter> set (concat pss)"
    using spec d(2) Cons.prems(3) by auto
  moreover have "unsorted_ok (so_unsorted_actions ?st)" "so_dependencies ?st = so_dependencies st" using spec by simp_all
  ultimately show ?case using Cons.IH[of ?st] Cons.prems(2) g(1) by (auto simp: groups_ok_def)
qed simp

lemma together_same_group:
  assumes "groups_ok pss" "together pss p q" "ps \<in> set pss" "p \<in> set ps"
  shows "q \<in> set ps"
proof -
  obtain g where g: "g \<in> set pss" "p \<in> set g" "q \<in> set g" using assms(2) by (auto simp: together_def)
  have "g = ps"
    using assms(1,3,4) g(1,2) unfolding groups_ok_def by (induction pss) auto
  then show ?thesis using g by simp
qed

text \<open>A group of actions is closed when the products its members require are members, if they are scheduled at all.\<close>

definition closed_group :: "string set \<Rightarrow> action_group \<Rightarrow> bool" where
  "closed_group ks g = (\<forall>p ds. map_of (ag_dependencies g) p = Some ds \<longrightarrow>
     (\<forall>d \<in> set ds. dep_requiredProductId d \<in> ks \<longrightarrow> dep_requiredProductId d \<in> set (ids (ag_actions g))))"

lemma arrange_groups_closed:
  assumes "collecting ks st" "linked st"
  shows "\<forall>g \<in> set (so_groups (arrange_groups st)). closed_group (set (dict_keys (so_unsorted_actions st))) g"
proof -
  let ?u = "map (\<lambda>(p, as). (p, merge_actions as)) (so_unsorted_actions st)"
  let ?ks = "set (dict_keys (so_unsorted_actions st))"
  define st1 where "st1 = st\<lparr>so_unsorted_actions := ?u\<rparr>"
  define st2 where "st2 = fold build_group (so_product_id_groups st1) st1"
  have u: "unsorted_ok (so_unsorted_actions st1)" "dict_keys (so_unsorted_actions st1) = dict_keys (so_unsorted_actions st)"
    "so_product_id_groups st1 = so_product_id_groups st" "so_dependencies st1 = so_dependencies st" "so_groups st1 = []"
    using assms(1) unsorted_ok_merge by (auto simp: collecting_def st1_def)
  have ok: "groups_ok (so_product_id_groups st)" using assms(2) by (simp add: linked_def)
  obtain gs where gs: "so_groups st2 = gs" "list_all2 (built_from ?ks (so_dependencies st)) (so_product_id_groups st) gs"
    using build_groups_built[OF u(1), of "so_product_id_groups st" ?ks] ok u by (auto simp: st2_def)
  have closed: "closed_group ?ks g" if g: "g \<in> set gs" for g
  proof -
    obtain i where i: "i < length gs" "g = gs ! i" using g by (auto simp: in_set_conv_nth)
    let ?ps = "so_product_id_groups st ! i"
    have b: "built_from ?ks (so_dependencies st) ?ps g" "?ps \<in> set (so_product_id_groups st)"
      using gs(2) i by (auto simp: list_all2_conv_all_nth)
    show ?thesis
      unfolding closed_group_def
    proof (intro allI impI ballI)
      fix p ds d
      assume d: "map_of (ag_dependencies g) p = Some ds" "d \<in> set ds" "dep_requiredProductId d \<in> ?ks"
      have "p \<in> set ?ps" "ds = dd_get (so_dependencies st) p" using b(1) d(1) by (auto simp: built_from_def)
      then have "dep_requiredProductId d \<in> set ?ps"
        using assms(2) d(2) together_same_group[OF ok _ b(2)] by (auto simp: linked_def)
      then show "dep_requiredProductId d \<in> set (ids (ag_actions g))" using b(1) d(3) by (simp add: built_from_def)
    qed
  qed
  have "so_groups (arrange_groups st) =
      sort_key (\<lambda>g. - ag_priority g) (gs @ map (\<lambda>(p, as). add_action (hd as) new_group) (so_unsorted_actions st2))"
    using gs(1) by (simp add: arrange_groups_def Let_def st1_def st2_def)
  then show ?thesis using closed by (auto simp: closed_group_def new_group_def)
qed

section \<open>Numbering\<close>

definition result_ids :: "product_action_group list \<Rightarrow> string list" where
  "result_ids gs = concat (map (\<lambda>g. map poc_productId (pag_product_on_clients g)) gs)"

definition active :: "action \<Rightarrow> bool" where
  "active a = (ac_action a \<noteq> [] \<and> ac_action a \<noteq> ''none'')"

text \<open>The sequence numbers of a list of actions, from \<open>seq\<close> on.\<close>

fun seq_numbers :: "action list \<Rightarrow> int \<Rightarrow> int list" where
  "seq_numbers [] seq = []"
| "seq_numbers (a # as) seq = (if active a then seq # seq_numbers as (seq + 1) else -1 # seq_numbers as seq)"

definition count_active :: "action list \<Rightarrow> int" where
  "count_active as = int (length (filter active as))"

lemma number_actions_fold:
  assumes "fold (number_action c) as (g, seq) = (g1, seq1)"
  shows "map poc_actionSequence (pag_product_on_clients g1) = map poc_actionSequence (pag_product_on_clients g) @ seq_numbers as seq \<and>
    map poc_actionRequest (pag_product_on_clients g1) = map poc_actionRequest (pag_product_on_clients g) @ map (\<lambda>a. Some (ac_action a)) as \<and>
    seq1 = seq + count_active as \<and> pag_priority g1 = pag_priority g \<and> pag_dependencies g1 = pag_dependencies g \<and>
    (list_all (\<lambda>a. action_ok (ac_product_id a) a) as \<longrightarrow>
      map poc_productId (pag_product_on_clients g1) = map poc_productId (pag_product_on_clients g) @ ids as)"
  using assms
proof (induction as arbitrary: g seq)
  case (Cons a as)
  have ok: "poc_productId (action_product_on_client c a) = ac_product_id a" if "action_ok (ac_product_id a) a"
    using that by (auto simp: action_product_on_client_def action_ok_def split: option.splits)
  obtain g2 seq2 where s: "number_action c a (g, seq) = (g2, seq2)" by fastforce
  have "map poc_actionSequence (pag_product_on_clients g2) = map poc_actionSequence (pag_product_on_clients g) @ [if active a then seq else -1]"
    "map poc_actionRequest (pag_product_on_clients g2) = map poc_actionRequest (pag_product_on_clients g) @ [Some (ac_action a)]"
    "seq2 = (if active a then seq + 1 else seq)" "pag_priority g2 = pag_priority g" "pag_dependencies g2 = pag_dependencies g"
    "action_ok (ac_product_id a) a \<Longrightarrow> map poc_productId (pag_product_on_clients g2) = map poc_productId (pag_product_on_clients g) @ [ac_product_id a]"
    using s ok by (auto simp: number_action_def Let_def active_def action_product_on_client_def)
  then show ?case using Cons.IH[of g2 seq2] Cons.prems s by (auto simp: count_active_def)
qed (simp add: count_active_def)

lemma seq_numbers_append: "seq_numbers (as @ bs) seq = seq_numbers as seq @ seq_numbers bs (seq + count_active as)"
  by (induction as arbitrary: seq) (auto simp: count_active_def algebra_simps)

text \<open>A product of the result that carries an action to perform.\<close>

abbreviation has_request :: "product_on_client \<Rightarrow> bool" where
  "has_request poc \<equiv> poc_actionRequest poc \<notin> {None, Some [], Some ''none''}"

lemma requests_numbered:
  assumes "map poc_actionSequence ps = seq_numbers as seq" "map poc_actionRequest ps = map (\<lambda>a. Some (ac_action a)) as"
  shows "map poc_actionSequence (filter has_request ps) = map (\<lambda>i. seq + int i) [0..<length (filter has_request ps)] \<and>
    (\<forall>p \<in> set ps. \<not> has_request p \<longrightarrow> poc_actionSequence p = -1)"
  using assms
proof (induction as arbitrary: seq ps)
  case (Cons a as)
  obtain p ps' where ps: "ps = p # ps'" using Cons.prems(2) by (auto simp: map_eq_Cons_conv)
  have r: "poc_actionRequest p = Some (ac_action a)" "map poc_actionRequest ps' = map (\<lambda>a. Some (ac_action a)) as"
    using Cons.prems(2) by (simp_all add: ps)
  have p: "has_request p = active a" by (simp add: r(1) active_def)
  show ?case
  proof (cases "active a")
    case True
    then have "poc_actionSequence p = seq" "map poc_actionSequence ps' = seq_numbers as (seq + 1)"
      using Cons.prems(1) by (simp_all add: ps)
    with Cons.IH[OF this(2) r(2)] p True show ?thesis unfolding ps
      by (simp add: upt_conv_Cons map_Suc_upt[symmetric] comp_def algebra_simps del: map_Suc_upt upt_Suc insert_iff)
  next
    case False
    then have "poc_actionSequence p = -1" "map poc_actionSequence ps' = seq_numbers as seq"
      using Cons.prems(1) by (simp_all add: ps)
    with Cons.IH[OF this(2) r(2)] p False show ?thesis unfolding ps by (simp del: insert_iff)
  qed
qed simp

lemma number_groups_fold:
  assumes "fold (number_group c) gs (out, seq) = (out1, seq1)"
  shows "\<exists>new. out1 = out @ new \<and>
    map poc_actionSequence (concat (map pag_product_on_clients new)) = seq_numbers (concat (map ag_actions gs)) seq \<and>
    map poc_actionRequest (concat (map pag_product_on_clients new)) = map (\<lambda>a. Some (ac_action a)) (concat (map ag_actions gs)) \<and>
    map pag_priority new = map ag_priority gs \<and> map pag_dependencies new = map ag_dependencies gs \<and>
    (list_all (\<lambda>g. list_all (\<lambda>a. action_ok (ac_product_id a) a) (ag_actions g)) gs \<longrightarrow>
      map (\<lambda>g. map poc_productId (pag_product_on_clients g)) new = map (\<lambda>g. ids (ag_actions g)) gs)"
  using assms
proof (induction gs arbitrary: out seq)
  case (Cons g gs)
  obtain r seq2 where f: "fold (number_action c) (ag_actions g)
      (\<lparr>pag_priority = ag_priority g, pag_product_on_clients = [], pag_priorities = [],
        pag_dependencies = ag_dependencies g, pag_sort_log = ag_sort_log g\<rparr>, seq) = (r, seq2)" by fastforce
  have step: "number_group c g (out, seq) = (out @ [r], seq2)" by (simp add: number_group_def f)
  note spec = number_actions_fold[OF f]
  obtain new where new: "out1 = (out @ [r]) @ new"
    "map poc_actionSequence (concat (map pag_product_on_clients new)) = seq_numbers (concat (map ag_actions gs)) seq2"
    "map poc_actionRequest (concat (map pag_product_on_clients new)) = map (\<lambda>a. Some (ac_action a)) (concat (map ag_actions gs))"
    "map pag_priority new = map ag_priority gs" "map pag_dependencies new = map ag_dependencies gs"
    "list_all (\<lambda>g. list_all (\<lambda>a. action_ok (ac_product_id a) a) (ag_actions g)) gs \<Longrightarrow>
      map (\<lambda>g. map poc_productId (pag_product_on_clients g)) new = map (\<lambda>g. ids (ag_actions g)) gs"
    using Cons.IH[of "out @ [r]" seq2] Cons.prems step by auto
  show ?case using new spec by (intro exI[of _ "r # new"]) (auto simp: seq_numbers_append)
qed simp

section \<open>The actions of the groups\<close>

abbreviation actions_ok :: "action_group \<Rightarrow> bool" where
  "actions_ok g \<equiv> list_all (\<lambda>a. action_ok (ac_product_id a) a) (ag_actions g)"

lemma add_group_product_ok:
  assumes "unsorted_ok u" "actions_ok g" "add_group_product deps p (g, u) = (g1, u1)"
  shows "unsorted_ok u1 \<and> actions_ok g1"
proof (cases "map_of u p")
  case (Some as)
  then obtain a as' where "as = a # as'" "action_ok p a"
    using unsorted_okD[OF assms(1) Some] by (cases as) auto
  then show ?thesis
    using assms Some unsorted_ok_del[OF assms(1)] by (auto simp: add_group_product_def dd_get_def Let_def action_ok_def split: if_splits)
qed (use assms unsorted_ok_del in \<open>auto simp: add_group_product_def dd_get_def\<close>)

lemma fold_add_group_product_ok:
  "unsorted_ok u \<Longrightarrow> actions_ok g \<Longrightarrow> fold (add_group_product deps) ps (g, u) = (g1, u1) \<Longrightarrow> unsorted_ok u1 \<and> actions_ok g1"
proof (induction ps arbitrary: g u)
  case (Cons p ps)
  obtain g' u' where s: "add_group_product deps p (g, u) = (g', u')" by fastforce
  then show ?case using Cons.IH[of u' g'] Cons.prems add_group_product_ok[OF Cons.prems(1,2) s] by simp
qed simp

lemma build_group_ok:
  assumes "unsorted_ok (so_unsorted_actions st)" "list_all actions_ok (so_groups st)"
  shows "unsorted_ok (so_unsorted_actions (build_group ps st)) \<and> list_all actions_ok (so_groups (build_group ps st))"
proof -
  obtain g u where f: "fold (add_group_product (so_dependencies st)) ps (new_group, so_unsorted_actions st) = (g, u)" by fastforce
  have ok: "unsorted_ok u" "actions_ok g" using fold_add_group_product_ok[OF assms(1) _ f] by (auto simp: new_group_def)
  have "set (ag_actions (sort_group g)) = set (ag_actions g)" by (rule mset_eq_setD[OF sort_group_mset])
  then show ?thesis using ok assms(2) by (auto simp: build_group_def f list_all_iff)
qed

lemma build_groups_ok:
  "unsorted_ok (so_unsorted_actions st) \<Longrightarrow> list_all actions_ok (so_groups st) \<Longrightarrow>
    unsorted_ok (so_unsorted_actions (fold build_group pss st)) \<and> list_all actions_ok (so_groups (fold build_group pss st))"
  by (induction pss arbitrary: st) (auto simp: build_group_ok)

lemma arrange_groups_ok:
  assumes "collecting ks st"
  shows "list_all actions_ok (so_groups (arrange_groups st))"
proof -
  let ?u = "map (\<lambda>(p, as). (p, merge_actions as)) (so_unsorted_actions st)"
  define st1 where "st1 = st\<lparr>so_unsorted_actions := ?u\<rparr>"
  define st2 where "st2 = fold build_group (so_product_id_groups st1) st1"
  have "unsorted_ok (so_unsorted_actions st1)" "so_groups st1 = []"
    using assms unsorted_ok_merge by (auto simp: collecting_def st1_def)
  then have st2: "unsorted_ok (so_unsorted_actions st2)" "list_all actions_ok (so_groups st2)"
    using build_groups_ok[of st1] by (auto simp: st2_def)
  have "actions_ok (add_action (hd as) new_group)" if "(p, as) \<in> set (so_unsorted_actions st2)" for p as
  proof -
    have "map_of (so_unsorted_actions st2) p = Some as" using st2(1) that by (simp add: unsorted_ok_def dict_wf_def)
    from unsorted_okD[OF st2(1) this] show ?thesis by (cases as) (auto simp: new_group_def action_ok_def)
  qed
  then show ?thesis
    using st2(2) by (auto simp: arrange_groups_def Let_def st1_def st2_def list_all_iff)
qed

section \<open>The whole function\<close>

text \<open>The environment of the sorter of a client.\<close>

abbreviation client_env :: "product_db \<Rightarrow> bool \<Rightarrow> string \<Rightarrow> product_on_client list \<Rightarrow> sorter_env" where
  "client_env db ign c pocs \<equiv> \<lparr>se_db = db, se_ignore_unavailable = ign, se_pocs = pocs, se_client_id = c,
     se_depot_id = (case map_of (db_client_to_depot db) c of None \<Rightarrow> c | Some d \<Rightarrow> d)\<rparr>"

lemma client_action_groups_run:
  assumes "client_action_groups db ign c pocs = Inr gs"
  obtains st where "collecting (requested (client_env db ign c pocs)) st" "linked st"
    "gs = fst (fold (number_group c) (so_groups (arrange_groups st)) ([], 0))"
proof -
  from assms obtain st0 st where
    st: "fold_res (add_product_on_client (client_env db ign c pocs)) (se_pocs (client_env db ign c pocs)) new_sorter = Inr st0"
    "fold_res (process_product (client_env db ign c pocs)) (dict_keys (so_unsorted_actions st0)) st0 = Inr st"
    "gs = fst (fold (number_group c) (so_groups (arrange_groups st)) ([], 0))"
    by (auto simp: client_action_groups_def process_product_on_clients_def Let_def bind_res_Inr_iff)
  show ?thesis by (rule that[OF collected[OF st(1,2)] collected_linked[OF st(1,2)] st(3)])
qed

lemma client_action_groups_shape:
  assumes "client_action_groups db ign c pocs = Inr gs"
  obtains st where "collecting (requested (client_env db ign c pocs)) st" "linked st"
    "map poc_actionSequence (concat (map pag_product_on_clients gs)) = seq_numbers (concat (map ag_actions (so_groups (arrange_groups st)))) 0"
    "map poc_actionRequest (concat (map pag_product_on_clients gs)) =
      map (\<lambda>a. Some (ac_action a)) (concat (map ag_actions (so_groups (arrange_groups st))))"
    "map pag_priority gs = map ag_priority (so_groups (arrange_groups st))"
    "map pag_dependencies gs = map ag_dependencies (so_groups (arrange_groups st))"
    "map (\<lambda>g. map poc_productId (pag_product_on_clients g)) gs = map (\<lambda>g. ids (ag_actions g)) (so_groups (arrange_groups st))"
proof -
  from assms obtain st where st: "collecting (requested (client_env db ign c pocs)) st" "linked st"
    "gs = fst (fold (number_group c) (so_groups (arrange_groups st)) ([], 0))" by (rule client_action_groups_run)
  obtain out seq where f: "fold (number_group c) (so_groups (arrange_groups st)) ([], 0) = (out, seq)" by fastforce
  have "out = gs" using st(3) f by simp
  with number_groups_fold[OF f] arrange_groups_ok[OF st(1)] show ?thesis using that[OF st(1,2)] by simp
qed

lemma fold_res_not_error:
  assumes "\<And>x s. f x s \<noteq> Inl e"
  shows "fold_res f xs s \<noteq> Inl e"
  using assms by (induction xs arbitrary: s) (auto simp: bind_res_Inl_iff)

lemma map_res_not_error: "(\<And>x. f x \<noteq> Inl e) \<Longrightarrow> map_res f xs \<noteq> Inl e"
  by (induction xs) (auto simp: bind_res_Inl_iff)

lemma sorter_fuel_enough: "process_dependencies (sorter_fuel E) E a (st, []) \<noteq> Inl out_of_fuel"
proof (rule process_dependencies_fuel)
  have "card (pod_productId ` set (db_on_depots (se_db E))) \<le> card (set (db_on_depots (se_db E)))" by (rule card_image_le) simp
  also have "\<dots> \<le> length (db_on_depots (se_db E))" by (rule card_length)
  finally show "card (pod_productId ` set (db_on_depots (se_db E)) - set []) < sorter_fuel E" by (simp add: sorter_fuel_def)
qed simp

lemma client_action_groups_fuel: "client_action_groups db ign c pocs \<noteq> Inl out_of_fuel"
proof -
  let ?E = "client_env db ign c pocs"
  have a: "add_product_on_client ?E poc st \<noteq> Inl out_of_fuel" for poc st
    using not_out_of_fuel(1) by (auto simp: add_product_on_client_def Let_def split: sum.splits if_splits)
  have b: "process_product ?E p st \<noteq> Inl out_of_fuel" for p st
    unfolding process_product_def
    by (rule fold_res_not_error) (use sorter_fuel_enough[of ?E] in \<open>auto simp: bind_res_Inl_iff\<close>)
  have "process_product_on_clients ?E \<noteq> Inl out_of_fuel"
    using fold_res_not_error[of "add_product_on_client ?E", OF a] fold_res_not_error[of "process_product ?E", OF b]
    by (auto simp: process_product_on_clients_def bind_res_Inl_iff)
  then show ?thesis by (auto simp: client_action_groups_def Let_def bind_res_Inl_iff)
qed

section \<open>Properties\<close>

text \<open>
  C11. Following the requirements of products ends, also when they form cycles: a product is not
  followed again while it is on the path, so the depth is bounded by the number of products of
  the depot, and the bound never cuts a computation off.
\<close>

theorem action_groups_terminate: "get_product_action_groups db ign pocs \<noteq> Inl out_of_fuel"
  unfolding get_product_action_groups_def
  by (rule map_res_not_error) (auto simp: bind_res_Inl_iff client_action_groups_fuel)

definition example_product :: "string \<Rightarrow> int \<Rightarrow> product" where
  "example_product p prio = \<lparr>pr_id = p, pr_productVersion = ''1'', pr_packageVersion = ''1'', pr_type = ''LocalbootProduct'',
     pr_priority = Some prio, pr_scripts = [(''setupScript'', ''setup.opsiscript''), (''noneScript'', [])]\<rparr>"

definition example_on_depot :: "string \<Rightarrow> product_on_depot" where
  "example_on_depot p = \<lparr>pod_depotId = ''depot'', pod_productId = p, pod_productType = ''LocalbootProduct'',
     pod_productVersion = ''1'', pod_packageVersion = ''1''\<rparr>"

definition example_db :: "product_dependency list \<Rightarrow> product_db" where
  "example_db deps = \<lparr>db_products = [example_product ''a'' 0, example_product ''b'' 0, example_product ''c'' 10],
     db_on_depots = map example_on_depot [''a'', ''b'', ''c''], db_on_clients = [], db_dependencies = deps,
     db_client_to_depot = [(''client'', ''depot'')]\<rparr>"

definition example_request :: "string \<Rightarrow> product_on_client" where
  "example_request p = (default_product_on_client p ''LocalbootProduct'' ''client'')\<lparr>poc_actionRequest := Some ''setup''\<rparr>"

definition example_groups_of :: "product_dependency list \<Rightarrow> product_action_group list result" where
  "example_groups_of deps = client_action_groups (example_db deps) True ''client'' [example_request ''a'', example_request ''c'']"

text \<open>
  C10. In the action groups of a client every product occurs exactly once, every requested
  product that the depot has occurs, and the groups are ordered by falling priority.
\<close>

theorem each_product_once:
  assumes "client_action_groups db ign c pocs = Inr gs"
  shows "distinct (result_ids gs) \<and> requested (client_env db ign c pocs) \<subseteq> set (result_ids gs) \<and>
    sorted (map (\<lambda>g. - pag_priority g) gs)"
proof -
  obtain st where st: "collecting (requested (client_env db ign c pocs)) st" "linked st"
    "map pag_priority gs = map ag_priority (so_groups (arrange_groups st))"
    "map (\<lambda>g. map poc_productId (pag_product_on_clients g)) gs = map (\<lambda>g. ids (ag_actions g)) (so_groups (arrange_groups st))"
    using assms by (rule client_action_groups_shape)
  have "list_all distinct (so_product_id_groups st)" using st(2) groups_ok_distinct by (simp add: linked_def)
  note arranged = arrange_groups_ids[OF st(1) this]
  have ids: "mset (result_ids gs) = mset (dict_keys (so_unsorted_actions st))"
    using arranged by (simp add: result_ids_def st(4))
  have "distinct (dict_keys (so_unsorted_actions st))" "requested (client_env db ign c pocs) \<subseteq> set (dict_keys (so_unsorted_actions st))"
    using st(1) by (auto simp: collecting_def unsorted_ok_def dict_wf_def dict_keys_def)
  then have "distinct (result_ids gs)" "requested (client_env db ign c pocs) \<subseteq> set (result_ids gs)"
    using ids by (metis mset_eq_imp_distinct_iff, metis mset_eq_setD)
  moreover have "map (\<lambda>g. - pag_priority g) gs = map (\<lambda>g. - ag_priority g) (so_groups (arrange_groups st))"
    using arg_cong[OF st(3), of "map uminus"] by (simp add: comp_def)
  ultimately show ?thesis using arranged by simp
qed

theorem each_product_once_witness:
  "distinct (result_ids (projr (example_groups_of [example_dep ''a'' ''b'' ''before''])))"
proof -
  have "client_action_groups (example_db [example_dep ''a'' ''b'' ''before'']) True ''client'' [example_request ''a'', example_request ''c''] =
      Inr (projr (example_groups_of [example_dep ''a'' ''b'' ''before'']))"
    by code_simp
  from each_product_once[OF this] show ?thesis by simp
qed

text \<open>
  C30. Take the products of all groups of a client in the order of the result.  Those that carry
  an action request other than \<open>none\<close> are numbered 0, 1, 2 and so on, without a gap; every
  product without one carries -1.
\<close>

theorem action_sequence_gapless:
  assumes "client_action_groups db ign c pocs = Inr gs"
  shows "let ps = concat (map pag_product_on_clients gs);
      todo = filter (\<lambda>p. poc_actionRequest p \<notin> {None, Some [], Some ''none''}) ps
    in map poc_actionSequence todo = map int [0..<length todo] \<and>
       (\<forall>p \<in> set ps. poc_actionRequest p \<in> {None, Some [], Some ''none''} \<longrightarrow> poc_actionSequence p = -1)"
proof -
  obtain as where "map poc_actionSequence (concat (map pag_product_on_clients gs)) = seq_numbers as 0"
    "map poc_actionRequest (concat (map pag_product_on_clients gs)) = map (\<lambda>a. Some (ac_action a)) as"
    using assms by (rule client_action_groups_shape)
  from requests_numbered[OF this] show ?thesis unfolding Let_def by simp
qed

theorem action_sequence_gapless_witness:
  "let ps = concat (map pag_product_on_clients (projr (example_groups_of [example_dep ''a'' ''b'' ''before''])));
      todo = filter (\<lambda>p. poc_actionRequest p \<notin> {None, Some [], Some ''none''}) ps
    in map poc_actionSequence todo = map int [0..<length todo] \<and>
       (\<forall>p \<in> set ps. poc_actionRequest p \<in> {None, Some [], Some ''none''} \<longrightarrow> poc_actionSequence p = -1)"
proof -
  have "client_action_groups (example_db [example_dep ''a'' ''b'' ''before'']) True ''client'' [example_request ''a'', example_request ''c''] =
      Inr (projr (example_groups_of [example_dep ''a'' ''b'' ''before'']))"
    by code_simp
  from action_sequence_gapless[OF this] show ?thesis .
qed

text \<open>
  Requirements never cross groups: if a group of the result carries a requirement of one of
  its products and the required product is scheduled at all, it is scheduled in the same group,
  where the dependency sort sees it.
\<close>

theorem requirements_within_group:
  assumes "client_action_groups db ign c pocs = Inr gs" "g \<in> set gs"
    and "map_of (pag_dependencies g) p = Some ds" "d \<in> set ds" "dep_requiredProductId d \<in> set (result_ids gs)"
  shows "dep_requiredProductId d \<in> set (map poc_productId (pag_product_on_clients g))"
proof -
  obtain st where st: "collecting (requested (client_env db ign c pocs)) st" "linked st"
    "map pag_dependencies gs = map ag_dependencies (so_groups (arrange_groups st))"
    "map (\<lambda>g. map poc_productId (pag_product_on_clients g)) gs = map (\<lambda>g. ids (ag_actions g)) (so_groups (arrange_groups st))"
    using assms(1) by (rule client_action_groups_shape)
  let ?gs = "so_groups (arrange_groups st)"
  have len: "length gs = length ?gs" using arg_cong[OF st(3), of length] by simp
  obtain i where i: "i < length gs" "g = gs ! i" using assms(2) by (auto simp: in_set_conv_nth)
  have nth: "pag_dependencies g = ag_dependencies (?gs ! i)" "map poc_productId (pag_product_on_clients g) = ids (ag_actions (?gs ! i))"
    using arg_cong[OF st(3), of "\<lambda>l. l ! i"] arg_cong[OF st(4), of "\<lambda>l. l ! i"] i len by simp_all
  have "list_all distinct (so_product_id_groups st)" using st(2) groups_ok_distinct by (simp add: linked_def)
  from arrange_groups_ids[OF st(1) this] have "mset (result_ids gs) = mset (dict_keys (so_unsorted_actions st))"
    by (simp add: result_ids_def st(4))
  then have keys: "set (result_ids gs) = set (dict_keys (so_unsorted_actions st))" by (rule mset_eq_setD)
  have "closed_group (set (dict_keys (so_unsorted_actions st))) (?gs ! i)"
    using arrange_groups_closed[OF st(1,2)] i len by simp
  then have "dep_requiredProductId d \<in> set (ids (ag_actions (?gs ! i)))"
    using assms(3-5) unfolding closed_group_def nth keys by blast
  then show ?thesis by (simp only: nth)
qed

theorem requirements_within_group_witness:
  "''b'' \<in> set (map poc_productId (pag_product_on_clients (projr (example_groups_of [example_dep ''a'' ''b'' ''before'']) ! 1)))"
proof -
  let ?gs = "projr (example_groups_of [example_dep ''a'' ''b'' ''before''])"
  have "client_action_groups (example_db [example_dep ''a'' ''b'' ''before'']) True ''client'' [example_request ''a'', example_request ''c''] = Inr ?gs"
    "map_of (pag_dependencies (?gs ! 1)) ''a'' = Some [example_dep ''a'' ''b'' ''before'']"
    "example_dep ''a'' ''b'' ''before'' \<in> set [example_dep ''a'' ''b'' ''before'']"
    "dep_requiredProductId (example_dep ''a'' ''b'' ''before'') \<in> set (result_ids ?gs)"
    by code_simp+
  moreover have "?gs ! 1 \<in> set ?gs" by code_simp
  ultimately have "dep_requiredProductId (example_dep ''a'' ''b'' ''before'') \<in> set (map poc_productId (pag_product_on_clients (?gs ! 1)))"
    using requirements_within_group by blast
  then show ?thesis by (simp add: example_dep_def)
qed

text \<open>
  The path of products is one list that all branches of the recursion share, so a product
  that any branch has reached counts as being on the path. When a requires b and c, and c
  requires b before it, the requirement of c is therefore dropped, and c, which has the higher
  priority, is scheduled before b; listing the requirement on c first gives the right order.
\<close>

theorem shared_path_drops_requirement:
  "map_sum id result_ids (client_action_groups (example_db
      [example_dep ''a'' ''b'' ''before'', example_dep ''a'' ''c'' ''before'', example_dep ''c'' ''b'' ''before''])
      True ''client'' [example_request ''a'']) = Inr [''c'', ''b'', ''a''] \<and>
   map_sum id result_ids (client_action_groups (example_db
      [example_dep ''a'' ''c'' ''before'', example_dep ''a'' ''b'' ''before'', example_dep ''c'' ''b'' ''before''])
      True ''client'' [example_request ''a'']) = Inr [''b'', ''c'', ''a'']"
  by code_simp

end
