(* ===== verification/Py_Values.thy ===== *)
theory Py_Values
  imports Py_Strings
begin

text \<open>
  The Python values that cross the RPC interface: what JSON and msgpack can express, and the opsi objects
  that opsicommon makes of dictionaries. Floating point numbers are kept as their text, they are never
  computed with.
\<close>

datatype py_val =
    JNull
  | JBool bool
  | JInt int
  | JFloat string
  | JStr string
  | JList "py_val list"
  | JDict "(string \<times> py_val) list"
  | JObj string "(string \<times> py_val) list"

fun py_true :: "py_val \<Rightarrow> bool" where
  "py_true JNull = False"
| "py_true (JBool b) = b"
| "py_true (JInt i) = (i \<noteq> 0)"
| "py_true (JFloat x) = (x \<notin> {''0.0'', ''-0.0''})"
| "py_true (JStr s) = (s \<noteq> [])"
| "py_true (JList xs) = (xs \<noteq> [])"
| "py_true (JDict d) = (d \<noteq> [])"
| "py_true (JObj c d) = True"

text \<open>\<open>x or y\<close>\<close>

definition py_or :: "py_val \<Rightarrow> py_val \<Rightarrow> py_val" where
  "py_or x y = (if py_true x then x else y)"

text \<open>\<open>data.get(key)\<close> and \<open>data[key]\<close>\<close>

fun py_get :: "string \<Rightarrow> py_val \<Rightarrow> py_val result" where
  "py_get k (JDict d) = Inr (case map_of d k of None \<Rightarrow> JNull | Some v \<Rightarrow> v)"
| "py_get k v = Inl AttributeError"

fun py_item :: "string \<Rightarrow> py_val \<Rightarrow> py_val result" where
  "py_item k (JDict d) = of_option (map_of d k) (KeyError k)"
| "py_item k v = Inl TypeError"

text \<open>\<open>len(v)\<close>, and the items of \<open>*v\<close> and \<open>**v\<close> in a call.\<close>

fun py_len :: "py_val \<Rightarrow> nat result" where
  "py_len (JStr s) = Inr (length s)"
| "py_len (JList xs) = Inr (length xs)"
| "py_len (JDict d) = Inr (length d)"
| "py_len v = Inl TypeError"

fun py_star :: "py_val \<Rightarrow> py_val list result" where
  "py_star (JStr s) = Inr (map (\<lambda>c. JStr [c]) s)"
| "py_star (JList xs) = Inr xs"
| "py_star (JDict d) = Inr (map (JStr \<circ> fst) d)"
| "py_star v = Inl TypeError"

fun py_starstar :: "py_val \<Rightarrow> (string \<times> py_val) list result" where
  "py_starstar (JDict d) = Inr d"
| "py_starstar v = Inl TypeError"

fun is_dict :: "py_val \<Rightarrow> bool" where
  "is_dict (JDict d) = True"
| "is_dict v = False"

lemma is_dict_iff: "is_dict v \<longleftrightarrow> (\<exists>d. v = JDict d)"
  by (cases v) auto

lemma py_or_true [simp]: "py_true y \<Longrightarrow> py_true (py_or x y)"
  by (simp add: py_or_def)

end
