(* ===== verification/Rpc_Method.thy ===== *)
theory Rpc_Method
  imports Access Py_Values
begin

text \<open>
  The decorator of the RPC methods and its cache (\<open>opsiconfd/backend/rpc/__init__.py\<close>,
  \<open>opsiconfd/backend/rpc/cache.py\<close>): the interface description of a method, the check of the access control
  list before the call, clearing and using the cache. The hash function and msgspec are parameters;
  redis keeps the cached results with the time at which they expire.
\<close>

section \<open>The interface of a method\<close>

record method_interface =
  mi_name :: string
  mi_params :: "string list"
  mi_args :: "string list"
  mi_varargs :: "string option"
  mi_keywords :: "string option"
  mi_defaults :: "py_val list option"
  mi_deprecated :: bool
  mi_drop_version :: "string option"
  mi_alternative_method :: "string option"
  mi_doc :: "string option"
  mi_annotations :: "(string \<times> string) list"

text \<open>What \<open>inspect\<close> tells about a function: \<open>fs_text\<close> is the text of each parameter.\<close>

record fun_spec =
  fs_name :: string
  fs_args :: "string list"
  fs_varargs :: "string option"
  fs_varkw :: "string option"
  fs_defaults :: "py_val list option"
  fs_doc :: "string option"
  fs_text :: "string \<Rightarrow> string"

text \<open>\<open>s.split(sep, 1)\<close> for a separator of several characters.\<close>

fun split_at :: "string \<Rightarrow> string \<Rightarrow> (string \<times> string) option" where
  "split_at sep [] = (if sep = [] then Some ([], []) else None)"
| "split_at sep (c # s) =
     (if py_startswith (c # s) sep then Some ([], drop (length sep) (c # s))
      else map_option (\<lambda>(a, b). (c # a, b)) (split_at sep s))"

definition param_annotation :: "(string \<Rightarrow> string) \<Rightarrow> string \<Rightarrow> string option" where
  "param_annotation complex_type_sub str_param =
     map_option (\<lambda>(_, b). complex_type_sub (case split_at '' = '' b of None \<Rightarrow> b | Some (a, _) \<Rightarrow> a)) (split_at '': '' str_param)"

text \<open>\<open>params[index]\<close> counts from the end for a negative index.\<close>

definition star_param :: "int \<Rightarrow> string list \<Rightarrow> string list result" where
  "star_param i ps =
     (let j = (if i < 0 then int (length ps) + i else i)
      in if j < 0 \<or> int (length ps) \<le> j then Inl IndexError else Inr (ps[nat j := CHR ''*'' # ps ! nat j]))"

definition star_defaults :: "string list \<Rightarrow> nat \<Rightarrow> string list result" where
  "star_defaults ps n = fold_res (\<lambda>i. star_param (int (length ps) - int n + int i)) [0..<n] ps"

definition get_method_interface ::
  "(string \<Rightarrow> string) \<Rightarrow> (string \<Rightarrow> string) \<Rightarrow> fun_spec \<Rightarrow> bool \<Rightarrow> string option \<Rightarrow> string option \<Rightarrow> method_interface result" where
  "get_method_interface complex_type_sub dedent spec deprecated drop_version alternative =
     (let params = filter (\<lambda>a. a \<noteq> ''self'') (fs_args spec);
          annotations = fold (\<lambda>p d. case param_annotation complex_type_sub (fs_text spec p) of None \<Rightarrow> d | Some a \<Rightarrow> dict_set p a d) params []
      in bind_res (case fs_defaults spec of None \<Rightarrow> Inr params | Some ds \<Rightarrow> star_defaults params (length ds)) (\<lambda>params.
           Inr \<lparr>mi_name = fs_name spec,
                mi_params = params @ (case fs_varargs spec of None \<Rightarrow> [] | Some v \<Rightarrow> [''*'' @ v]) @
                  (case fs_varkw spec of None \<Rightarrow> [] | Some v \<Rightarrow> [''**'' @ v]),
                mi_args = fs_args spec, mi_varargs = fs_varargs spec, mi_keywords = fs_varkw spec, mi_defaults = fs_defaults spec,
                mi_deprecated = (deprecated \<or> (case drop_version of None \<Rightarrow> False | Some v \<Rightarrow> v \<noteq> [])),
                mi_drop_version = drop_version, mi_alternative_method = alternative,
                mi_doc = (case fs_doc spec of None \<Rightarrow> None | Some d \<Rightarrow>
                  if d = [] then Some d else let d = py_lstrip (dedent d) in if d = [] then None else Some d),
                mi_annotations = annotations\<rparr>))"

section \<open>The cache\<close>

abbreviation CACHE_EXPIRATION :: int where "CACHE_EXPIRATION \<equiv> 24 * 3600"

record cache_env =
  co_prefix :: string
  co_encode :: "py_val \<Rightarrow> string result"
  co_decode :: "string \<Rightarrow> py_val result"
  co_sha256 :: "string \<Rightarrow> string"

text \<open>Cached results by key, with the second at which redis drops them.\<close>

type_synonym cache = "(string \<times> string \<times> int) list"

definition redis_key_for_params :: "cache_env \<Rightarrow> string \<Rightarrow> py_val list \<Rightarrow> (string \<times> py_val) list \<Rightarrow> string result" where
  "redis_key_for_params C cache_name args kwargs =
     bind_res (co_encode C (JList args)) (\<lambda>a.
     bind_res (co_encode C (JDict (sort_key fst kwargs))) (\<lambda>k.
       Inr (co_prefix C @ '':'' @ cache_name @ '':'' @ co_sha256 C (a @ k))))"

definition rpc_cache_store :: "cache_env \<Rightarrow> int \<Rightarrow> string \<Rightarrow> py_val \<Rightarrow> py_val list \<Rightarrow> (string \<times> py_val) list \<Rightarrow> (cache, unit) prog" where
  "rpc_cache_store C now cache_name v args kwargs = (\<lambda>ca.
     case bind_res (redis_key_for_params C cache_name args kwargs) (\<lambda>key. bind_res (co_encode C v) (\<lambda>data. Inr (key, data))) of
       Inl e \<Rightarrow> (Inl e, ca)
     | Inr (key, data) \<Rightarrow> (Inr (), dict_set key (data, now + CACHE_EXPIRATION) ca))"

definition cache_get :: "cache \<Rightarrow> int \<Rightarrow> string \<Rightarrow> string option" where
  "cache_get ca now key = (case map_of ca key of None \<Rightarrow> None | Some (data, ex) \<Rightarrow> if now < ex then Some data else None)"

definition rpc_cache_load :: "cache_env \<Rightarrow> int \<Rightarrow> string \<Rightarrow> py_val list \<Rightarrow> (string \<times> py_val) list \<Rightarrow> cache \<Rightarrow> py_val result" where
  "rpc_cache_load C now cache_name args kwargs ca =
     bind_res (redis_key_for_params C cache_name args kwargs) (\<lambda>key.
       case cache_get ca now key of
         None \<Rightarrow> Inr JNull
       | Some data \<Rightarrow> if data = [] then Inr JNull else co_decode C data)"

text \<open>\<open>delete_recursively\<close> removes the key and everything below it.\<close>

definition below_key :: "string \<Rightarrow> string \<Rightarrow> bool" where
  "below_key base key = (key = base \<or> py_startswith key (base @ '':''))"

definition rpc_cache_clear :: "cache_env \<Rightarrow> string option \<Rightarrow> cache \<Rightarrow> cache" where
  "rpc_cache_clear C cache_name ca =
     (let base = (case cache_name of None \<Rightarrow> co_prefix C | Some n \<Rightarrow> if n = [] then co_prefix C else co_prefix C @ '':'' @ n)
      in filter (\<lambda>(key, _). \<not> below_key base key) ca)"

definition rpc_cache_info :: "cache_env \<Rightarrow> cache \<Rightarrow> (string \<times> nat) list" where
  "rpc_cache_info C ca =
     (let prefix = co_prefix C @ '':''
      in fold (\<lambda>(key, _) info.
           case py_split1 CHR '':'' (drop (length prefix) key) of
             None \<Rightarrow> info
           | Some (name, _) \<Rightarrow> dict_set name (case map_of info name of None \<Rightarrow> 1 | Some n \<Rightarrow> Suc n) info)
         (filter (\<lambda>(key, _). py_startswith key prefix) ca) [])"

section \<open>The decorator\<close>

datatype acl_check = Acl_false | Acl_true | Acl_name string

record method_options =
  mo_name :: string
  mo_check_acl :: acl_check
  mo_use_cache :: string
  mo_clear_cache :: string

definition check_name :: "method_options \<Rightarrow> string option" where
  "check_name mo =
     (case mo_check_acl mo of
        Acl_false \<Rightarrow> None
      | Acl_true \<Rightarrow> Some (mo_name mo)
      | Acl_name n \<Rightarrow> if n = [] then None else Some n)"

text \<open>What a call works on: the access control lists of the backend, the cache, and the data.\<close>

record 'd rpc_world =
  rw_backend :: backend
  rw_cache :: cache
  rw_data :: 'd

definition on_backend :: "(backend, 'a) prog \<Rightarrow> ('d rpc_world, 'a) prog" where
  "on_backend p = (\<lambda>w. let (res, b) = p (rw_backend w) in (res, w\<lparr>rw_backend := b\<rparr>))"

definition on_cache :: "(cache, 'a) prog \<Rightarrow> ('d rpc_world, 'a) prog" where
  "on_cache p = (\<lambda>w. let (res, ca) = p (rw_cache w) in (res, w\<lparr>rw_cache := ca\<rparr>))"

type_synonym 'd rpc_function = "py_val list \<Rightarrow> (string \<times> py_val) list \<Rightarrow> ('d rpc_world, py_val) prog"

text \<open>The wrapper has two parts: what happens before the cache is looked at, and the rest. \<open>get_ace\<close> is that
  of the backend, for the session of the caller.\<close>

definition wrapper_prepare :: "cache_env \<Rightarrow> (string \<Rightarrow> (backend, rpcace list) prog) \<Rightarrow> method_options \<Rightarrow> ('d rpc_world, unit) prog" where
  "wrapper_prepare C ga mo =
     then_prog (case check_name mo of None \<Rightarrow> return_prog () | Some n \<Rightarrow> then_prog (on_backend (ga n)) (return_prog ()))
       (when_prog (mo_clear_cache mo \<noteq> []) (modify_prog (\<lambda>w. w\<lparr>rw_cache := rpc_cache_clear C (Some (mo_clear_cache mo)) (rw_cache w)\<rparr>)))"

definition wrapper_run :: "cache_env \<Rightarrow> int \<Rightarrow> method_options \<Rightarrow> 'd rpc_function \<Rightarrow> 'd rpc_function" where
  "wrapper_run C now mo func args kwargs =
     (if mo_use_cache mo = [] then func args kwargs
      else bind_prog (\<lambda>w. (rpc_cache_load C now (mo_use_cache mo) args kwargs (rw_cache w), w)) (\<lambda>cached.
             if cached \<noteq> JNull then return_prog cached
             else bind_prog (func args kwargs) (\<lambda>v.
                    then_prog (on_cache (rpc_cache_store C now (mo_use_cache mo) v args kwargs)) (return_prog v))))"

definition rpc_wrapper :: "cache_env \<Rightarrow> int \<Rightarrow> (string \<Rightarrow> (backend, rpcace list) prog) \<Rightarrow> method_options \<Rightarrow> 'd rpc_function \<Rightarrow> 'd rpc_function" where
  "rpc_wrapper C now ga mo func args kwargs = then_prog (wrapper_prepare C ga mo) (wrapper_run C now mo func args kwargs)"

section \<open>Running the wrapper\<close>

text \<open>Documented behaviour of msgspec: decoding gives back what was encoded, and no encoding is empty.\<close>

definition cache_laws :: "cache_env \<Rightarrow> bool" where
  "cache_laws C \<longleftrightarrow> (\<forall>v b. co_encode C v = Inr b \<longrightarrow> b \<noteq> [] \<and> co_decode C b = Inr v)"

lemma cache_laws_decode: "cache_laws C \<Longrightarrow> co_encode C v = Inr b \<Longrightarrow> b \<noteq> [] \<and> co_decode C b = Inr v"
  unfolding cache_laws_def by blast

text \<open>The keys are digests: a hash function is not injective, so that two of the calls \<open>A\<close> do not meet in one key
  is a hypothesis on these calls. The order of keyword arguments does not matter.\<close>

definition no_collision :: "cache_env \<Rightarrow> string \<Rightarrow> (py_val list \<times> (string \<times> py_val) list) set \<Rightarrow> bool" where
  "no_collision C c A \<longleftrightarrow>
     (\<forall>args kwargs args1 kwargs1 key. (args, kwargs) \<in> A \<longrightarrow> (args1, kwargs1) \<in> A \<longrightarrow>
        redis_key_for_params C c args kwargs = Inr key \<longrightarrow> redis_key_for_params C c args1 kwargs1 = Inr key \<longrightarrow>
        args1 = args \<and> sort_key fst kwargs1 = sort_key fst kwargs)"

lemma no_collisionD:
  "no_collision C c A \<Longrightarrow> (args, kwargs) \<in> A \<Longrightarrow> (args1, kwargs1) \<in> A \<Longrightarrow> redis_key_for_params C c args kwargs = Inr key \<Longrightarrow>
    redis_key_for_params C c args1 kwargs1 = Inr key \<Longrightarrow> args1 = args \<and> sort_key fst kwargs1 = sort_key fst kwargs"
  unfolding no_collision_def by blast

lemma map_of_cache_clear:
  "map_of (rpc_cache_clear C (Some c) ca) key =
     (if below_key (if c = [] then co_prefix C else co_prefix C @ '':'' @ c) key then None else map_of ca key)"
  by (induction ca) (auto simp: rpc_cache_clear_def Let_def)

lemma redis_key_below:
  "redis_key_for_params C c args kwargs = Inr key \<Longrightarrow> below_key (co_prefix C @ '':'' @ c) key"
  by (auto simp: redis_key_for_params_def bind_res_Inr_iff below_key_def py_startswith_def)

text \<open>A call that finds its result, and one that does not.\<close>

lemma wrapper_run_hit:
  assumes "cache_laws C" "mo_use_cache mo \<noteq> []" "redis_key_for_params C (mo_use_cache mo) args kwargs = Inr key"
    and "map_of (rw_cache w) key = Some (data, ex)" "now < ex" "co_encode C v = Inr data" "v \<noteq> JNull"
  shows "wrapper_run C now mo func args kwargs w = (Inr v, w)"
proof -
  have "data \<noteq> []" "co_decode C data = Inr v" using cache_laws_decode[OF assms(1,6)] by simp_all
  then show ?thesis
    using assms(2-5,7) by (simp add: wrapper_run_def bind_prog_run rpc_cache_load_def cache_get_def)
qed

lemma wrapper_run_miss:
  assumes "mo_use_cache mo \<noteq> []" "redis_key_for_params C (mo_use_cache mo) args kwargs = Inr key"
    and "rpc_cache_load C now (mo_use_cache mo) args kwargs (rw_cache w) = Inr JNull"
    and "func args kwargs w = (Inr v, w1)" "co_encode C v = Inr data"
  shows "wrapper_run C now mo func args kwargs w =
    (Inr v, w1\<lparr>rw_cache := dict_set key (data, now + CACHE_EXPIRATION) (rw_cache w1)\<rparr>)"
  using assms by (simp add: wrapper_run_def bind_prog_run on_cache_def rpc_cache_store_def)

lemma wrapper_prepare_free:
  "check_name mo = None \<Longrightarrow> mo_clear_cache mo = [] \<Longrightarrow> wrapper_prepare C ga mo w = (Inr (), w)"
  by (simp add: wrapper_prepare_def bind_prog_run)

lemma wrapper_prepare_cache:
  "wrapper_prepare C ga mo w = (res, w1) \<Longrightarrow> rw_data w1 = rw_data w \<and>
    (rw_cache w1 = rw_cache w \<or> mo_clear_cache mo \<noteq> [] \<and> rw_cache w1 = rpc_cache_clear C (Some (mo_clear_cache mo)) (rw_cache w))"
  by (auto simp: wrapper_prepare_def bind_prog_run on_backend_def split: option.splits sum.splits prod.splits if_splits)

lemma wrapper_prepare_clears:
  "wrapper_prepare C ga mo w = (Inr (), w1) \<Longrightarrow> mo_clear_cache mo \<noteq> [] \<Longrightarrow>
    rw_cache w1 = rpc_cache_clear C (Some (mo_clear_cache mo)) (rw_cache w)"
  by (auto simp: wrapper_prepare_def bind_prog_run on_backend_def split: option.splits sum.splits prod.splits if_splits)

section \<open>What a cached call returns\<close>

text \<open>A method that reads: its result is a function of the caller, the data and the arguments, where the order of
  keyword arguments does not matter. A method that changes the data.\<close>

type_synonym ('u, 'd) rpc_reader = "'u \<Rightarrow> 'd \<Rightarrow> py_val list \<Rightarrow> (string \<times> py_val) list \<Rightarrow> py_val result"

definition reading_function :: "('u, 'd) rpc_reader \<Rightarrow> 'u \<Rightarrow> 'd rpc_function" where
  "reading_function f u args kwargs = (\<lambda>w. (f u (rw_data w) args (sort_key fst kwargs), w))"

definition changing_function :: "(py_val list \<Rightarrow> (string \<times> py_val) list \<Rightarrow> ('d, py_val) prog) \<Rightarrow> 'd rpc_function" where
  "changing_function g args kwargs = (\<lambda>w. let (res, d) = g args kwargs (rw_data w) in (res, w\<lparr>rw_data := d\<rparr>))"

text \<open>What may happen between two calls, each call being completed before the next begins: cached calls with the
  arguments \<open>A\<close> by the callers \<open>U\<close>, calls of methods that clear the cache and change the data, and anything else
  (\<open>others\<close>).\<close>

inductive cache_step ::
  "cache_env \<Rightarrow> string \<Rightarrow> ('u, 'd) rpc_reader \<Rightarrow> 'u set \<Rightarrow> (py_val list \<times> (string \<times> py_val) list) set \<Rightarrow>
   ('d rpc_world \<Rightarrow> 'd rpc_world \<Rightarrow> bool) \<Rightarrow> 'd rpc_world \<Rightarrow> 'd rpc_world \<Rightarrow> bool"
  for C c f U A others where
  cached_call: "rpc_wrapper C now ga mo (reading_function f u) args kwargs w = (res, w1) \<Longrightarrow>
     mo_use_cache mo = c \<Longrightarrow> mo_clear_cache mo = [] \<Longrightarrow> u \<in> U \<Longrightarrow> (args, kwargs) \<in> A \<Longrightarrow> cache_step C c f U A others w w1"
| changing_call: "rpc_wrapper C now ga mo (changing_function g) args kwargs w = (res, w1) \<Longrightarrow>
     mo_use_cache mo = [] \<Longrightarrow> mo_clear_cache mo = c \<Longrightarrow> cache_step C c f U A others w w1"
| other_step: "others w w1 \<Longrightarrow> cache_step C c f U A others w w1"

text \<open>Steps that change nothing the cached method reads and leave its cache alone.\<close>

definition harmless :: "cache_env \<Rightarrow> string \<Rightarrow> ('u, 'd) rpc_reader \<Rightarrow> ('d rpc_world \<Rightarrow> 'd rpc_world \<Rightarrow> bool) \<Rightarrow> bool" where
  "harmless C c f others \<longleftrightarrow>
     (\<forall>w w1. others w w1 \<longrightarrow> (\<forall>u args kwargs. f u (rw_data w1) args kwargs = f u (rw_data w) args kwargs) \<and>
        (\<forall>key. below_key (co_prefix C @ '':'' @ c) key \<longrightarrow> map_of (rw_cache w1) key = map_of (rw_cache w) key))"

definition valid_cache ::
  "cache_env \<Rightarrow> string \<Rightarrow> ('u, 'd) rpc_reader \<Rightarrow> 'u set \<Rightarrow> (py_val list \<times> (string \<times> py_val) list) set \<Rightarrow> 'd rpc_world \<Rightarrow> bool" where
  "valid_cache C c f U A w \<longleftrightarrow>
     (\<forall>args kwargs key data ex. (args, kwargs) \<in> A \<longrightarrow> redis_key_for_params C c args kwargs = Inr key \<longrightarrow>
        map_of (rw_cache w) key = Some (data, ex) \<longrightarrow>
        (\<exists>u \<in> U. \<exists>v. f u (rw_data w) args (sort_key fst kwargs) = Inr v \<and> co_encode C v = Inr data))"

lemma valid_cacheD:
  "valid_cache C c f U A w \<Longrightarrow> (args, kwargs) \<in> A \<Longrightarrow> redis_key_for_params C c args kwargs = Inr key \<Longrightarrow>
    map_of (rw_cache w) key = Some (data, ex) \<Longrightarrow>
    \<exists>u \<in> U. \<exists>v. f u (rw_data w) args (sort_key fst kwargs) = Inr v \<and> co_encode C v = Inr data"
  unfolding valid_cache_def by blast

lemma valid_cache_agree:
  assumes "valid_cache C c f U A w" "\<And>u args kwargs. f u (rw_data w1) args kwargs = f u (rw_data w) args kwargs"
    and "\<And>key. below_key (co_prefix C @ '':'' @ c) key \<Longrightarrow> map_of (rw_cache w1) key = map_of (rw_cache w) key"
  shows "valid_cache C c f U A w1"
  unfolding valid_cache_def
proof (intro allI impI)
  fix args kwargs key data ex
  assume 1: "(args, kwargs) \<in> A" "redis_key_for_params C c args kwargs = Inr key" and 2: "map_of (rw_cache w1) key = Some (data, ex)"
  have "map_of (rw_cache w) key = Some (data, ex)" using 2 assms(3)[OF redis_key_below[OF 1(2)]] by simp
  from valid_cacheD[OF assms(1) 1 this]
  show "\<exists>u \<in> U. \<exists>v. f u (rw_data w1) args (sort_key fst kwargs) = Inr v \<and> co_encode C v = Inr data"
    unfolding assms(2) .
qed

lemma valid_cache_store:
  assumes "no_collision C c A" "valid_cache C c f U A w" "(args, kwargs) \<in> A" "redis_key_for_params C c args kwargs = Inr key"
    and "u \<in> U" "f u (rw_data w) args (sort_key fst kwargs) = Inr v" "co_encode C v = Inr data"
  shows "valid_cache C c f U A (w\<lparr>rw_cache := dict_set key (data, ex) (rw_cache w)\<rparr>)"
  unfolding valid_cache_def
proof (intro allI impI)
  fix args1 kwargs1 key1 data1 ex1
  assume 1: "(args1, kwargs1) \<in> A" "redis_key_for_params C c args1 kwargs1 = Inr key1"
    and 2: "map_of (rw_cache (w\<lparr>rw_cache := dict_set key (data, ex) (rw_cache w)\<rparr>)) key1 = Some (data1, ex1)"
  have "\<exists>u \<in> U. \<exists>v. f u (rw_data w) args1 (sort_key fst kwargs1) = Inr v \<and> co_encode C v = Inr data1"
  proof (cases "key1 = key")
    case True
    then have "args1 = args \<and> sort_key fst kwargs1 = sort_key fst kwargs"
      using no_collisionD[OF assms(1,3) 1(1) assms(4)] 1(2) by blast
    then show ?thesis using assms(5-7) 2 True by auto
  next
    case False
    then have "map_of (rw_cache w) key1 = Some (data1, ex1)" using 2 by simp
    then show ?thesis using valid_cacheD[OF assms(2) 1] by blast
  qed
  then show "\<exists>u \<in> U. \<exists>v. f u (rw_data (w\<lparr>rw_cache := dict_set key (data, ex) (rw_cache w)\<rparr>)) args1 (sort_key fst kwargs1) = Inr v \<and>
      co_encode C v = Inr data1" by simp
qed

text \<open>A cached call keeps the cache valid.\<close>

lemma cached_run:
  assumes "no_collision C c A" "valid_cache C c f U A w" "c \<noteq> []" "mo_use_cache mo = c" "u \<in> U" "(args, kwargs) \<in> A"
    and "wrapper_run C now mo (reading_function f u) args kwargs w = (res, w1)"
  shows "valid_cache C c f U A w1"
proof (cases "redis_key_for_params C c args kwargs")
  case (Inl e)
  then show ?thesis using assms by (auto simp: wrapper_run_def bind_prog_run rpc_cache_load_def)
next
  case key: (Inr key)
  show ?thesis
  proof (cases "rpc_cache_load C now c args kwargs (rw_cache w) = Inr JNull")
    case miss: True
    let ?f = "f u (rw_data w) args (sort_key fst kwargs)"
    show ?thesis
    proof (cases "\<exists>v data. ?f = Inr v \<and> co_encode C v = Inr data")
      case True
      then obtain v data where v: "?f = Inr v" "co_encode C v = Inr data" by blast
      have "w1 = w\<lparr>rw_cache := dict_set key (data, now + CACHE_EXPIRATION) (rw_cache w)\<rparr>"
        using wrapper_run_miss[of mo C args kwargs key now w "reading_function f u" v w data] assms(3,4,7) key miss v
        by (simp add: reading_function_def)
      then show ?thesis using valid_cache_store[OF assms(1,2,6) key assms(5) v] by simp
    next
      case False
      then have "w1 = w" using assms(3,4,7) key miss
        by (cases ?f; cases "co_encode C (projr ?f)")
          (auto simp: wrapper_run_def bind_prog_run reading_function_def on_cache_def rpc_cache_store_def)
      then show ?thesis using assms(2) by simp
    qed
  next
    case False
    then have "w1 = w" using assms(3,4,7)
      by (cases "rpc_cache_load C now c args kwargs (rw_cache w)") (auto simp: wrapper_run_def bind_prog_run)
    then show ?thesis using assms(2) by simp
  qed
qed

lemma valid_cache_cleared:
  assumes "c \<noteq> []" "rw_cache w1 = rpc_cache_clear C (Some c) ca"
  shows "valid_cache C c f U A w1"
  using assms by (auto simp: valid_cache_def map_of_cache_clear dest: redis_key_below)

lemma cache_step_valid:
  assumes "no_collision C c A" "harmless C c f others" "c \<noteq> []" "cache_step C c f U A others w w1" "valid_cache C c f U A w"
  shows "valid_cache C c f U A w1"
  using assms(4)
proof cases
  case (cached_call now ga mo u args kwargs res)
  obtain r0 w0 where p: "wrapper_prepare C ga mo w = (r0, w0)" by fastforce
  have "valid_cache C c f U A w0"
    using wrapper_prepare_cache[OF p] cached_call(3) valid_cache_agree[OF assms(5), of w0] by auto
  then show ?thesis
    using cached_call(1,2,4,5) p cached_run[OF assms(1) _ assms(3), of f U w0 mo u args kwargs now]
    by (cases r0) (auto simp: rpc_wrapper_def bind_prog_run)
next
  case (changing_call now ga mo g args kwargs res)
  obtain r0 w0 where p: "wrapper_prepare C ga mo w = (r0, w0)" by fastforce
  show ?thesis
  proof (cases r0)
    case (Inl e)
    then have w1: "w1 = w0" using changing_call(1) p by (simp add: rpc_wrapper_def bind_prog_run)
    have "valid_cache C c f U A w0"
    proof (cases "rw_cache w0 = rw_cache w")
      case True
      then show ?thesis using wrapper_prepare_cache[OF p] valid_cache_agree[OF assms(5), of w0] by simp
    next
      case False
      then show ?thesis using wrapper_prepare_cache[OF p] changing_call(3) valid_cache_cleared[OF assms(3)] by auto
    qed
    then show ?thesis by (simp add: w1)
  next
    case (Inr u)
    then have "rw_cache w0 = rpc_cache_clear C (Some c) (rw_cache w)"
      using wrapper_prepare_clears[of C ga mo w w0] p changing_call(3) assms(3) by simp
    moreover have "rw_cache w1 = rw_cache w0"
      using changing_call(1,2) p Inr by (auto simp: rpc_wrapper_def bind_prog_run wrapper_run_def changing_function_def split: prod.splits)
    ultimately show ?thesis using valid_cache_cleared[OF assms(3)] by simp
  qed
next
  case other_step
  then show ?thesis using assms(2) valid_cache_agree[OF assms(5), of w1] unfolding harmless_def by blast
qed

lemma cache_steps_valid:
  "(cache_step C c f U A others)\<^sup>*\<^sup>* w0 w \<Longrightarrow> no_collision C c A \<Longrightarrow> harmless C c f others \<Longrightarrow> c \<noteq> [] \<Longrightarrow> rw_cache w0 = [] \<Longrightarrow>
    valid_cache C c f U A w"
proof (induction rule: rtranclp_induct)
  case base
  then show ?case by (simp add: valid_cache_def)
next
  case (step y z)
  then show ?case using cache_step_valid by blast
qed

lemma cached_result:
  assumes "cache_laws C" "valid_cache C c f U A w" "c \<noteq> []" "mo_use_cache mo = c" "(args, kwargs) \<in> A"
    and "redis_key_for_params C c args kwargs = Inr key"
    and "\<forall>v. f u (rw_data w) args (sort_key fst kwargs) = Inr v \<longrightarrow> (\<exists>b. co_encode C v = Inr b)"
  shows "fst (wrapper_run C now mo (reading_function f u) args kwargs w) = f u (rw_data w) args (sort_key fst kwargs) \<or>
    (\<exists>u1 \<in> U. \<exists>v. f u1 (rw_data w) args (sort_key fst kwargs) = Inr v \<and>
      fst (wrapper_run C now mo (reading_function f u) args kwargs w) = Inr v)"
proof (cases "rpc_cache_load C now c args kwargs (rw_cache w) = Inr JNull")
  case True
  then show ?thesis
    using assms(3-7) by (cases "f u (rw_data w) args (sort_key fst kwargs)")
      (auto simp: wrapper_run_def bind_prog_run reading_function_def on_cache_def rpc_cache_store_def)
next
  case False
  then obtain data ex where e: "map_of (rw_cache w) key = Some (data, ex)" "now < ex" "data \<noteq> []"
    using assms(6) by (auto simp: rpc_cache_load_def cache_get_def split: option.splits if_splits)
  obtain u1 v where v: "u1 \<in> U" "f u1 (rw_data w) args (sort_key fst kwargs) = Inr v" "co_encode C v = Inr data"
    using valid_cacheD[OF assms(2,5,6) e(1)] by blast
  have "rpc_cache_load C now c args kwargs (rw_cache w) = Inr v"
    using assms(6) e cache_laws_decode[OF assms(1) v(3)] by (simp add: rpc_cache_load_def cache_get_def)
  then show ?thesis using False v(1,2) assms(3,4) by (auto simp: wrapper_run_def bind_prog_run)
qed

section \<open>A codec that meets the laws\<close>

definition sample_cache_env :: cache_env where
  "sample_cache_env =
     \<lparr>co_prefix = ''rpccache'',
      co_encode = (\<lambda>v. if v = JList [] then Inr ''a'' else if v = JDict [] then Inr ''d'' else if v = JInt 1 then Inr ''1''
        else if v = JInt 2 then Inr ''2'' else Inl TypeError),
      co_decode = (\<lambda>b. if b = ''a'' then Inr (JList []) else if b = ''d'' then Inr (JDict []) else if b = ''1'' then Inr (JInt 1)
        else if b = ''2'' then Inr (JInt 2) else Inl (ValueError ''msgpack'')),
      co_sha256 = (\<lambda>s. s)\<rparr>"

lemma sample_cache_laws: "cache_laws sample_cache_env"
  by (auto simp: cache_laws_def sample_cache_env_def split: if_splits)

definition sample_ordering :: "(unit, int) rpc_reader" where
  "sample_ordering u d args kwargs = Inr (JInt d)"

definition sample_world :: "int rpc_world" where
  "sample_world =
     \<lparr>rw_backend = \<lparr>be_objs = [], be_acl = [(''product_getObjects'', [])], be_interface = [''product_getObjects''], be_modules = []\<rparr>,
      rw_cache = [], rw_data = 1\<rparr>"

definition sample_reader_options :: method_options where
  "sample_reader_options = \<lparr>mo_name = ''getProductOrdering'', mo_check_acl = Acl_false, mo_use_cache = ''product_ordering'', mo_clear_cache = []\<rparr>"

definition sample_writer_options :: method_options where
  "sample_writer_options = \<lparr>mo_name = ''product_insertObject'', mo_check_acl = Acl_false, mo_use_cache = [], mo_clear_cache = ''product_ordering''\<rparr>"

lemma sample_key: "redis_key_for_params sample_cache_env ''product_ordering'' [] [] = Inr ''rpccache:product_ordering:ad''"
  by code_simp

section \<open>Properties\<close>



text \<open>The cache is cleared before a method changes the data, not after: a cached call that completes between the
  two leaves a result of the old data in the cache, and later calls return it until it expires.\<close>

theorem clear_before_change_goes_stale:
  assumes "cache_laws C" "mo_use_cache reader \<noteq> []" "mo_clear_cache reader = []" "check_name reader = None"
    and "mo_clear_cache writer = mo_use_cache reader" "mo_use_cache writer = []"
    and "wrapper_prepare C ga writer w = (Inr (), w1)"
    and "redis_key_for_params C (mo_use_cache reader) args kwargs = Inr key"
    and "f u (rw_data w) args (sort_key fst kwargs) = Inr v" "v \<noteq> JNull" "co_encode C v = Inr data"
    and "rpc_wrapper C now ga reader (reading_function f u) args kwargs w1 = (res, w2)"
    and "wrapper_run C now writer (changing_function g) args2 kwargs2 w2 = (res2, w3)"
    and "now2 < now + CACHE_EXPIRATION"
  shows "fst (rpc_wrapper C now2 ga reader (reading_function f u) args kwargs w3) = Inr v \<and> rw_data w3 = snd (g args2 kwargs2 (rw_data w))"
proof -
  have w1: "rw_data w1 = rw_data w" "map_of (rw_cache w1) key = None"
    using wrapper_prepare_cache[OF assms(7)] wrapper_prepare_clears[OF assms(7)] redis_key_below[OF assms(8)] assms(2,5)
    by (auto simp: map_of_cache_clear)
  have "w2 = w1\<lparr>rw_cache := dict_set key (data, now + CACHE_EXPIRATION) (rw_cache w1)\<rparr>"
    using assms(12) wrapper_run_miss[of reader C args kwargs key now w1 "reading_function f u" v w1 data] assms(2,8,9,11) w1
    by (simp add: rpc_wrapper_def bind_prog_run wrapper_prepare_free[OF assms(4,3)] rpc_cache_load_def cache_get_def reading_function_def)
  then have "rw_cache w3 = dict_set key (data, now + CACHE_EXPIRATION) (rw_cache w1)" "rw_data w3 = snd (g args2 kwargs2 (rw_data w))"
    using assms(6,13) w1(1) by (auto simp: wrapper_run_def changing_function_def split: prod.splits)
  then show ?thesis
    using wrapper_run_hit[OF assms(1,2,8) _ assms(14) assms(11,10), of w3 "reading_function f u"]
    by (simp add: rpc_wrapper_def bind_prog_run wrapper_prepare_free[OF assms(4,3)])
qed

theorem clear_before_change_goes_stale_witness:
  "\<exists>w3. rw_data w3 = 2 \<and> sample_ordering () (rw_data w3) [] [] = Inr (JInt 2) \<and>
     fst (rpc_wrapper sample_cache_env 5 (get_ace None) sample_reader_options (reading_function sample_ordering ()) [] [] w3) = Inr (JInt 1)"
proof -
  let ?ga = "get_ace None"
  obtain w1 where w1: "wrapper_prepare sample_cache_env ?ga sample_writer_options sample_world = (Inr (), w1)"
    by (simp add: wrapper_prepare_def sample_writer_options_def check_name_def bind_prog_run)
  obtain res w2 where w2: "rpc_wrapper sample_cache_env 0 ?ga sample_reader_options (reading_function sample_ordering ()) [] [] w1 = (res, w2)" by fastforce
  obtain res2 w3 where w3: "wrapper_run sample_cache_env 0 sample_writer_options (changing_function (\<lambda>_ _ d. (Inr JNull, 2))) [] [] w2 = (res2, w3)" by fastforce
  have "fst (rpc_wrapper sample_cache_env 5 ?ga sample_reader_options (reading_function sample_ordering ()) [] [] w3) = Inr (JInt 1) \<and>
      rw_data w3 = snd ((\<lambda>_ _ d. (Inr JNull, 2)) [] [] (rw_data sample_world) :: py_val result \<times> int)"
  proof (rule clear_before_change_goes_stale[OF sample_cache_laws _ _ _ _ _ w1 _ _ _ _ w2 w3, of "''rpccache:product_ordering:ad''" "JInt 1" "''1''" 5])
    show "co_encode sample_cache_env (JInt 1) = Inr ''1''" by (simp add: sample_cache_env_def)
  qed (simp_all add: sample_reader_options_def sample_writer_options_def check_name_def sample_key sample_ordering_def sample_world_def)
  then show ?thesis by (auto simp: sample_ordering_def)
qed

text \<open>A cached result is not bound to the permissions of the caller: \<open>getProductOrdering\<close> itself is not checked
  against the access control list, only the methods it calls are, so once somebody has filled the cache a
  caller who may not read products gets the result, although the method itself refuses him.\<close>

theorem cached_result_without_permission:
  assumes "cache_laws C" "mo_use_cache mo \<noteq> []" "mo_clear_cache mo = []" "check_name mo = None"
    and "rpc_wrapper C now ga mo func args kwargs w = (Inr v, w1)" "v \<noteq> JNull"
    and "map_of (rw_cache w) key = None" "redis_key_for_params C (mo_use_cache mo) args kwargs = Inr key"
    and "get_ace session method1 (rw_backend w1) = (Inl e, b)" "now2 < now + CACHE_EXPIRATION"
  shows "fst (then_prog (on_backend (get_ace session method1)) (func args kwargs) w1) = Inl e \<and>
    fst (rpc_wrapper C now2 (get_ace session) mo (\<lambda>args kwargs. then_prog (on_backend (get_ace session method1)) (func args kwargs)) args kwargs w1) = Inr v"
proof -
  have "rpc_cache_load C now (mo_use_cache mo) args kwargs (rw_cache w) = Inr JNull"
    using assms(7,8) by (simp add: rpc_cache_load_def cache_get_def)
  then obtain w0 where w0: "func args kwargs w = (Inr v, w0)" "rpc_cache_store C now (mo_use_cache mo) v args kwargs (rw_cache w0) = (Inr (), rw_cache w1)"
    using assms(2,5) wrapper_prepare_free[OF assms(4,3), of C ga w]
    by (auto simp: rpc_wrapper_def wrapper_run_def bind_prog_run on_cache_def split: sum.splits prod.splits)
  obtain data where data: "co_encode C v = Inr data" "rw_cache w1 = dict_set key (data, now + CACHE_EXPIRATION) (rw_cache w0)"
    using w0(2) assms(8) by (cases "co_encode C v") (simp_all add: rpc_cache_store_def)
  then have stored: "map_of (rw_cache w1) key = Some (data, now + CACHE_EXPIRATION)" by simp
  show ?thesis
    using wrapper_run_hit[OF assms(1,2,8) stored assms(10) data(1) assms(6)] assms(9)
    by (simp add: rpc_wrapper_def bind_prog_run wrapper_prepare_free[OF assms(4,3)] on_backend_def)
qed

theorem cached_result_without_permission_witness:
  "\<exists>w1. fst (then_prog (on_backend (get_ace None ''product_getObjects'')) (reading_function sample_ordering () [] []) w1) =
      Inl (BackendPermissionDeniedError ''Invalid session'') \<and>
    fst (rpc_wrapper sample_cache_env 5 (get_ace None) sample_reader_options
      (\<lambda>args kwargs. then_prog (on_backend (get_ace None ''product_getObjects'')) (reading_function sample_ordering () args kwargs)) [] [] w1) = Inr (JInt 1)"
proof -
  let ?r = "rpc_wrapper sample_cache_env 0 (get_ace None) sample_reader_options (reading_function sample_ordering ()) [] [] sample_world"
  obtain w1 where w1: "?r = (Inr (JInt 1), w1)" "rw_backend w1 = rw_backend sample_world"
  proof
    show "?r = (Inr (JInt 1), sample_world\<lparr>rw_cache := [(''rpccache:product_ordering:ad'', ''1'', 86400)]\<rparr>)" by code_simp
  qed simp
  then have "get_ace None ''product_getObjects'' (rw_backend w1) = (Inl (BackendPermissionDeniedError ''Invalid session''), rw_backend w1)"
    by (simp add: get_ace_def sample_world_def)
  from cached_result_without_permission[OF sample_cache_laws _ _ _ w1(1) _ _ _ this, of "''rpccache:product_ordering:ad''" 5]
  show ?thesis by (auto simp: sample_reader_options_def check_name_def sample_key sample_world_def)
qed

end
