(* ===== verification/Messagebus_Channels.thy ===== *)
theory Messagebus_Channels
  imports Py_Strings
begin

text \<open>
  The names of messagebus channels (\<open>opsiconfd/messagebus/__init__.py\<close>): user ids, the channel of
  the config service and the check of a channel name, which returns the name in normal form. The
  conversions of opsicommon (host ids, user ids, numbers, lower case) are parameters.
\<close>

section \<open>User ids\<close>

record channel_env =
  ce_force_host_id :: "string \<Rightarrow> string result"
  ce_force_user_id :: "string \<Rightarrow> string result"
  ce_force_string_lower :: "string \<Rightarrow> string"
  ce_force_unsigned_int :: "string \<Rightarrow> nat result"
  ce_configserver_id :: string

definition get_user_id_for_host :: "channel_env \<Rightarrow> string \<Rightarrow> string result" where
  "get_user_id_for_host E host_id = bind_res (ce_force_host_id E host_id) (\<lambda>i. Inr (''host:'' @ i))"

definition get_user_id_for_user :: "channel_env \<Rightarrow> string \<Rightarrow> string result" where
  "get_user_id_for_user E user_id = bind_res (ce_force_user_id E user_id) (\<lambda>i. Inr (''user:'' @ i))"

definition get_user_id_for_service_node :: "channel_env \<Rightarrow> string \<Rightarrow> string" where
  "get_user_id_for_service_node E node_name = ''service_node:'' @ ce_force_string_lower E node_name"

definition get_user_id_for_service_worker :: "channel_env \<Rightarrow> string \<Rightarrow> string" where
  "get_user_id_for_service_worker E worker_id = ''service_worker:'' @ ce_force_string_lower E worker_id"

definition get_messagebus_worker_id :: "channel_env \<Rightarrow> string \<Rightarrow> string \<Rightarrow> string" where
  "get_messagebus_worker_id E known worker_id = (if known = [] then get_user_id_for_service_worker E worker_id else known)"

definition get_config_service_channel :: "channel_env \<Rightarrow> string \<Rightarrow> string result" where
  "get_config_service_channel E channel =
     (if \<not> py_startswith channel ''service:config:'' then Inl (ValueError ''Invalid config service channel'')
      else Inr (py_replace ''service:config:'' (''service:depot:'' @ ce_configserver_id E @ '':'') channel))"

section \<open>Python's UUID\<close>

definition hex_val :: "char \<Rightarrow> nat option" where
  "hex_val c =
     (let n = (of_char c :: nat) in
      if 48 \<le> n \<and> n \<le> 57 then Some (n - 48)
      else if 97 \<le> n \<and> n \<le> 102 then Some (n - 87)
      else if 65 \<le> n \<and> n \<le> 70 then Some (n - 55)
      else None)"

text \<open>The digits of \<open>int(s, 16)\<close>: single underscores may stand between digits. The flag says that a digit
  must follow.\<close>

fun hex_digits :: "nat \<Rightarrow> bool \<Rightarrow> string \<Rightarrow> nat option" where
  "hex_digits acc need [] = (if need then None else Some acc)"
| "hex_digits acc need (c # cs) =
     (case hex_val c of
        Some d \<Rightarrow> hex_digits (16 * acc + d) False cs
      | None \<Rightarrow> if c = CHR ''_'' \<and> \<not> need then hex_digits acc True cs else None)"

definition int16 :: "string \<Rightarrow> nat option" where
  "int16 s =
     (let t = py_strip s;
          u = (if t \<noteq> [] \<and> hd t = CHR ''+'' then tl t else t)
      in if take 2 u \<in> {''0x'', ''0X''}
         then hex_digits 0 True (if take 1 (drop 2 u) = ''_'' then drop 3 u else drop 2 u)
         else hex_digits 0 True u)"

definition strip_braces :: "string \<Rightarrow> string" where
  "strip_braces s = rev (dropWhile (\<lambda>c. c \<in> {CHR ''{'', CHR ''}''}) (rev (dropWhile (\<lambda>c. c \<in> {CHR ''{'', CHR ''}''}) s)))"

definition uuid_int :: "string \<Rightarrow> nat result" where
  "uuid_int s =
     (let h = filter (\<lambda>c. c \<noteq> CHR ''-'') (strip_braces (py_replace ''uuid:'' [] (py_replace ''urn:'' [] s)))
      in if length h \<noteq> 32 then Inl (ValueError ''badly formed hexadecimal UUID string'')
         else of_option (int16 h) (ValueError ''invalid literal for int() with base 16''))"

definition hex_digit :: "nat \<Rightarrow> char" where
  "hex_digit d = char_of (if d < 10 then 48 + d else 87 + d)"

fun hex_str :: "nat \<Rightarrow> nat \<Rightarrow> string" where
  "hex_str 0 n = []"
| "hex_str (Suc k) n = hex_str k (n div 16) @ [hex_digit (n mod 16)]"

definition uuid_str :: "nat \<Rightarrow> string" where
  "uuid_str n =
     (let h = hex_str 32 n
      in take 8 h @ ''-'' @ take 4 (drop 8 h) @ ''-'' @ take 4 (drop 12 h) @ ''-'' @ take 4 (drop 16 h) @ ''-'' @ drop 20 h)"

section \<open>Checking a name\<close>

text \<open>\<open>forceNodename\<close> of \<open>opsiconfd/utils/__init__.py\<close>.\<close>

definition force_nodename :: "channel_env \<Rightarrow> string \<Rightarrow> string result" where
  "force_nodename E var =
     (let v = ce_force_string_lower E var;
          t = re_end v;
          start = (\<lambda>c. is_digit c \<or> (97 \<le> (of_char c :: nat) \<and> (of_char c :: nat) \<le> 122))
      in if t \<noteq> [] \<and> start (hd t) \<and> list_all (\<lambda>c. start c \<or> c = CHR ''-'' \<or> c = CHR ''_'') (tl t)
         then Inr v else Inl (ValueError ''Bad nodename''))"

text \<open>\<open>except ValueError\<close> around a conversion: the error becomes the one of the channel.\<close>

definition wrap_value_error :: "string \<Rightarrow> 'a result \<Rightarrow> 'a result" where
  "wrap_value_error msg r = (case r of Inl (ValueError _) \<Rightarrow> Inl (ValueError msg) | _ \<Rightarrow> r)"

definition check_session_channel :: "string \<Rightarrow> string result" where
  "check_session_channel channel =
     (let channel = py_lower channel;
          parts = py_split CHR '':'' channel
      in if length parts \<noteq> 2 then Inl (ValueError ''Invalid session channel'')
         else wrap_value_error ''Invalid session id'' (bind_res (uuid_int (last parts)) (\<lambda>_. Inr channel)))"

definition check_service_channel :: "channel_env \<Rightarrow> string \<Rightarrow> string result" where
  "check_service_channel E channel =
     (let channel = py_lower channel;
          parts = py_split CHR '':'' channel
      in if channel = ''service:messagebus'' then Inr channel
         else if py_startswith channel ''service:depot:'' then
           (if length parts \<noteq> 4 then Inl (ValueError ''Invalid service channel'')
            else if parts ! 3 \<notin> {''jsonrpc'', ''terminal'', ''process''} then Inl (ValueError ''Invalid service channel'')
            else wrap_value_error ''Invalid service channel''
                   (bind_res (ce_force_host_id E (parts ! 2)) (\<lambda>h. Inr (py_join '':'' (parts[2 := h])))))
         else Inl (ValueError ''Invalid service channel''))"

definition check_user_channel :: "(string \<Rightarrow> string result) \<Rightarrow> string \<Rightarrow> string \<Rightarrow> string result" where
  "check_user_channel force_id msg channel =
     (let parts = py_split CHR '':'' (py_lower channel)
      in if length parts < 2 then Inl (ValueError msg)
         else wrap_value_error msg (bind_res (force_id (parts ! 1)) (\<lambda>i. Inr (py_join '':'' (parts[1 := i])))))"

definition check_service_node_channel :: "channel_env \<Rightarrow> string \<Rightarrow> string result" where
  "check_service_node_channel E channel =
     (let parts = py_split CHR '':'' (py_lower channel)
      in if length parts \<noteq> 2 then Inl (ValueError ''Invalid service_node channel'')
         else wrap_value_error ''Invalid service_node channel''
                (bind_res (force_nodename E (parts ! 1)) (\<lambda>i. Inr (py_join '':'' (parts[1 := i])))))"

definition check_service_worker_channel :: "channel_env \<Rightarrow> string \<Rightarrow> string result" where
  "check_service_worker_channel E channel =
     (let parts = py_split CHR '':'' (py_lower channel)
      in if length parts < 3 then Inl (ValueError ''Invalid service_worker channel'')
         else wrap_value_error ''Invalid service_worker channel''
                (bind_res (force_nodename E (parts ! 1)) (\<lambda>i.
                 bind_res (ce_force_unsigned_int E (parts ! 2)) (\<lambda>n.
                   Inr (py_join '':'' (parts[1 := i, 2 := str_of_nat n]))))))"

definition event_names :: "string list" where
  "event_names =
     [''test'', ''app_state_changed'', ''config_created'', ''config_updated'', ''config_deleted'', ''configState_created'',
      ''configState_updated'', ''configState_deleted'', ''log_updated'', ''user_connected'', ''user_disconnected'', ''host_created'',
      ''host_updated'', ''host_deleted'', ''host_connected'', ''host_disconnected'', ''productOnClient_created'',
      ''productOnClient_updated'', ''productOnClient_deleted'']"

definition check_event_channel :: "string \<Rightarrow> string result" where
  "check_event_channel channel =
     (let parts = py_split CHR '':'' channel
      in if length parts = 2 \<and> last parts \<in> set event_names then Inr channel else Inl (ValueError ''Invalid event channel''))"

definition check_channel_name :: "channel_env \<Rightarrow> string \<Rightarrow> string result" where
  "check_channel_name E channel =
     (if py_startswith channel ''session:'' then check_session_channel channel
      else if py_startswith channel ''service:'' then check_service_channel E channel
      else if py_startswith channel ''host:'' then check_user_channel (ce_force_host_id E) ''Invalid host channel'' channel
      else if py_startswith channel ''user:'' then check_user_channel (ce_force_user_id E) ''Invalid user channel'' channel
      else if py_startswith channel ''service_node:'' then check_service_node_channel E channel
      else if py_startswith channel ''service_worker:'' then check_service_worker_channel E channel
      else if py_startswith channel ''event:'' then check_event_channel channel
      else Inl (ValueError ''Invalid channel''))"

end
