(* ===== verification/Messagebus_Redis.thy ===== *)
theory Messagebus_Redis
  imports Messagebus_Channels Session Py_Values
begin

text \<open>
  The messagebus on redis streams (\<open>opsiconfd/messagebus/redis.py\<close>): sending, session channels, the
  counts of connections, and the two readers. Redis is a parameter: \<open>stream_ops\<close> has one field for
  each command the code sends; the laws that the properties use are stated as \<open>stream_laws\<close>. The
  conversion of messages to and from bytes is a parameter too (opsicommon and msgspec).
\<close>

section \<open>Redis and messages\<close>

type_synonym stream_entry = "string \<times> (string \<times> string) list"

record 'r stream_ops =
  st_time :: "'r \<Rightarrow> nat \<times> nat"
  st_hget :: "'r \<Rightarrow> string \<Rightarrow> string \<Rightarrow> string option"
  st_hset :: "string \<Rightarrow> (string \<times> string) list \<Rightarrow> 'r \<Rightarrow> 'r"
  st_hincrby :: "string \<Rightarrow> string \<Rightarrow> int \<Rightarrow> 'r \<Rightarrow> 'r result"
  st_exists :: "'r \<Rightarrow> string \<Rightarrow> bool"
  st_unlink :: "string \<Rightarrow> 'r \<Rightarrow> 'r"
  st_scan :: "'r \<Rightarrow> string \<Rightarrow> string list"
  st_xadd :: "string \<Rightarrow> nat \<Rightarrow> (string \<times> string) list \<Rightarrow> 'r \<Rightarrow> 'r"
  st_xtrim :: "string \<Rightarrow> nat \<Rightarrow> 'r \<Rightarrow> 'r"
  st_xread :: "(string \<times> string) list \<Rightarrow> 'r \<Rightarrow> (string \<times> stream_entry list) list result"
  st_xgroup_create :: "string \<Rightarrow> string \<Rightarrow> 'r \<Rightarrow> unit result \<times> 'r"
  st_xautoclaim :: "string \<Rightarrow> string \<Rightarrow> string \<Rightarrow> string \<Rightarrow> 'r \<Rightarrow> unit result \<times> 'r"
  st_xreadgroup :: "string \<Rightarrow> string \<Rightarrow> (string \<times> string) list \<Rightarrow> 'r \<Rightarrow> (string \<times> stream_entry list) list result \<times> 'r"
  st_xack :: "string \<Rightarrow> string \<Rightarrow> string \<Rightarrow> 'r \<Rightarrow> 'r"

datatype subscription_operation = Op_add | Op_set | Op_remove | Op_other string

datatype message_body =
    Trace_request
  | Trace_response
  | Channel_subscription_request "string list" subscription_operation
  | Channel_subscription_event "string list" "string option"
  | General_error "string option" string "string option"
  | Event string "(string \<times> string) list"
  | Jsonrpc_request string string py_val
  | Jsonrpc_response string string py_val py_val
  | Other_body string

record message =
  mb_type :: string
  mb_id :: string
  mb_sender :: string
  mb_channel :: string
  mb_back_channel :: string
  mb_expires :: nat
  mb_trace :: "(string \<times> int) list"
  mb_body :: message_body

record 'r bus_env =
  be_channels :: channel_env
  be_redis :: "'r stream_ops"
  be_key :: string
  be_to_msgpack :: "message \<Rightarrow> string"
  be_from_msgpack :: "string \<Rightarrow> message result"
  be_encode_context :: "(string \<times> redis_val) list \<Rightarrow> string"
  be_decode_context :: "string \<Rightarrow> (string \<times> redis_val) list result"

definition is_trace :: "message \<Rightarrow> bool" where
  "is_trace m = (mb_body m = Trace_request \<or> mb_body m = Trace_response)"

definition add_trace :: "string \<Rightarrow> int \<Rightarrow> message \<Rightarrow> message" where
  "add_trace key now m = (if is_trace m then m\<lparr>mb_trace := dict_set key now (mb_trace m)\<rparr> else m)"

section \<open>Sending and channels\<close>

abbreviation MAX_STREAM_LENGTH :: nat where "MAX_STREAM_LENGTH \<equiv> 1000"
abbreviation TERMINAL_MAX_STREAM_LENGTH :: nat where "TERMINAL_MAX_STREAM_LENGTH \<equiv> 100"
abbreviation EVENT_MAX_STREAM_LENGTH :: nat where "EVENT_MAX_STREAM_LENGTH \<equiv> 10"
abbreviation CHANNEL_INFO_SUFFIX :: string where "CHANNEL_INFO_SUFFIX \<equiv> '':info''"

definition channel_key :: "'r bus_env \<Rightarrow> string \<Rightarrow> string" where
  "channel_key E channel = be_key E @ '':channels:'' @ channel"

definition prepare_send_message :: "'r bus_env \<Rightarrow> int \<Rightarrow> message \<Rightarrow> (string \<times> redis_val) list option \<Rightarrow> (string \<times> string) list" where
  "prepare_send_message E now m context =
     [(''message'', be_to_msgpack E (add_trace ''broker_redis_send'' now m))] @
     (case context of None \<Rightarrow> [] | Some c \<Rightarrow> if c = [] then [] else [(''context'', be_encode_context E c)])"

definition send_message :: "'r bus_env \<Rightarrow> int \<Rightarrow> message \<Rightarrow> (string \<times> redis_val) list option \<Rightarrow> 'r \<Rightarrow> 'r" where
  "send_message E now m context r =
     st_xadd (be_redis E) (channel_key E (mb_channel m)) MAX_STREAM_LENGTH (prepare_send_message E now m context) r"

definition create_messagebus_session_channel :: "'r bus_env \<Rightarrow> string \<Rightarrow> string \<Rightarrow> string option \<Rightarrow> bool \<Rightarrow> ('r, string) prog" where
  "create_messagebus_session_channel E new_uuid owner_id sid exists_ok = (\<lambda>r.
     case (case sid of
             None \<Rightarrow> Inr new_uuid
           | Some s \<Rightarrow> if s = [] then Inr new_uuid else bind_res (uuid_int s) (\<lambda>n. Inr (uuid_str n))) of
       Inl e \<Rightarrow> (Inl e, r)
     | Inr i \<Rightarrow>
         let channel = ''session:'' @ i;
             key = channel_key E channel
         in if st_exists (be_redis E) r key then
              (if exists_ok then (Inr channel, r) else (Inl (RuntimeError ''Already exists''), r))
            else (Inr channel, st_hset (be_redis E) (key @ CHANNEL_INFO_SUFFIX) [(''owner-id'', owner_id), (''reader-count'', ''0'')] r))"

definition delete_channel :: "'r bus_env \<Rightarrow> string \<Rightarrow> 'r \<Rightarrow> 'r" where
  "delete_channel E channel r = st_unlink (be_redis E) (channel_key E channel) r"

text \<open>The context manager \<open>session_channel\<close>: the channel is deleted however the body ends.\<close>

definition session_channel :: "'r bus_env \<Rightarrow> string \<Rightarrow> string \<Rightarrow> string option \<Rightarrow> bool \<Rightarrow> (string \<Rightarrow> ('r, 'a) prog) \<Rightarrow> ('r, 'a) prog" where
  "session_channel E new_uuid owner_id sid exists_ok body =
     bind_prog (create_messagebus_session_channel E new_uuid owner_id sid exists_ok)
       (\<lambda>channel r. let (res, r1) = body channel r in (res, delete_channel E channel r1))"

section \<open>Connected users\<close>

definition connection_key :: "'r bus_env \<Rightarrow> opsisession \<Rightarrow> string option" where
  "connection_key E s =
     (case session_host s of
        Some h \<Rightarrow>
          if host_type h = OpsiClient then Some (be_key E @ '':connections:clients:'' @ host_id h)
          else if host_type h = OpsiDepotserver then Some (be_key E @ '':connections:depots:'' @ host_id h)
          else None
      | None \<Rightarrow> Some (be_key E @ '':connections:users:'' @ username s))"

definition update_websocket_count :: "'r bus_env \<Rightarrow> opsisession \<Rightarrow> int \<Rightarrow> 'r \<Rightarrow> 'r" where
  "update_websocket_count E s increment r =
     (case connection_key E s of
        None \<Rightarrow> r
      | Some key \<Rightarrow> (case st_hincrby (be_redis E) key ''websocket_count'' increment r of Inl _ \<Rightarrow> r | Inr r1 \<Rightarrow> r1))"

definition websocket_count :: "'r bus_env \<Rightarrow> 'r \<Rightarrow> string \<Rightarrow> int result" where
  "websocket_count E r key =
     (case st_hget (be_redis E) r key ''websocket_count'' of None \<Rightarrow> Inr 0 | Some v \<Rightarrow> if v = [] then Inr 0 else py_int v)"

definition last_part :: "string \<Rightarrow> string" where
  "last_part key = (case py_rsplit1 CHR '':'' key of None \<Rightarrow> key | Some (_, b) \<Rightarrow> b)"

definition get_websocket_connected_users :: "'r bus_env \<Rightarrow> 'r \<Rightarrow> string list \<Rightarrow> string option \<Rightarrow> string list" where
  "get_websocket_connected_users E r user_ids user_type =
     (let base = be_key E @ '':connections'';
          keys = (case user_type of
                    None \<Rightarrow> st_scan (be_redis E) r (base @ '':*'')
                  | Some t \<Rightarrow>
                      if user_ids \<noteq> [] then map (\<lambda>i. base @ '':'' @ t @ ''s:'' @ i) user_ids
                      else st_scan (be_redis E) r (base @ '':'' @ t @ ''s:*''))
      in map last_part (filter (\<lambda>k. (user_ids = [] \<or> last_part k \<in> set user_ids) \<and>
           (case websocket_count E r k of Inr n \<Rightarrow> 0 < n | Inl _ \<Rightarrow> False)) keys))"

section \<open>Cleaning up\<close>

text \<open>Keys whose channel is not valid, or belongs to a host that does not exist, are removed; the streams of
  terminals and events are trimmed.\<close>

definition stale_channel :: "'r bus_env \<Rightarrow> string list \<Rightarrow> string \<Rightarrow> bool" where
  "stale_channel E host_channels channel =
     (case check_channel_name (be_channels E) channel of
        Inl _ \<Rightarrow> True
      | Inr _ \<Rightarrow> py_startswith channel ''host:'' \<and> py_join '':'' (take 2 (py_split CHR '':'' channel)) \<notin> set host_channels)"

definition valid_name :: "'r bus_env \<Rightarrow> string \<Rightarrow> bool" where
  "valid_name E channel = (case check_channel_name (be_channels E) channel of Inl _ \<Rightarrow> False | Inr _ \<Rightarrow> True)"

definition cleanup_channels :: "'r bus_env \<Rightarrow> (string \<Rightarrow> 'r \<Rightarrow> 'r) \<Rightarrow> string list \<Rightarrow> bool \<Rightarrow> 'r \<Rightarrow> 'r result" where
  "cleanup_channels E delete_recursively host_ids full r =
     (let prefix = channel_key E [];
          r1 = (if full then delete_recursively (prefix @ ''session'')
                  (delete_recursively (prefix @ ''service_node'') (delete_recursively (prefix @ ''service_worker'') r)) else r)
      in bind_res (map_res (get_user_id_for_host (be_channels E)) host_ids) (\<lambda>host_channels.
           let keys = st_scan (be_redis E) r1 (prefix @ ''*'');
               name = drop (length prefix);
               remove_keys = filter (\<lambda>k. stale_channel E host_channels (name k)) keys;
               terminal_keys = filter (\<lambda>k. valid_name E (name k) \<and> py_startswith (name k) ''service_worker:'' \<and> py_endswith (name k) '':terminal'') keys;
               event_keys = filter (\<lambda>k. valid_name E (name k) \<and> py_startswith (name k) ''event:'' \<and> \<not> py_endswith (name k) '':info'') keys
           in Inr (fold (\<lambda>k. st_xtrim (be_redis E) k EVENT_MAX_STREAM_LENGTH) event_keys
                  (fold (\<lambda>k. st_xtrim (be_redis E) k TERMINAL_MAX_STREAM_LENGTH) terminal_keys
                  (fold (st_unlink (be_redis E)) remove_keys r1)))))"

definition messagebus_cleanup :: "'r bus_env \<Rightarrow> (string \<Rightarrow> 'r \<Rightarrow> 'r) \<Rightarrow> string list \<Rightarrow> bool \<Rightarrow> 'r \<Rightarrow> 'r result" where
  "messagebus_cleanup E delete_recursively host_ids full r =
     cleanup_channels E delete_recursively host_ids full
       (if full then delete_recursively (be_key E @ '':connections'') r else r)"

section \<open>Readers\<close>

record reader =
  rd_id :: nat
  rd_group :: "(string \<times> string) option"
  rd_channels :: "(string \<times> string) list"
  rd_streams :: "(string \<times> string) list"
  rd_should_stop :: bool

definition message_reader :: "nat \<Rightarrow> reader" where
  "message_reader i = \<lparr>rd_id = i, rd_group = None, rd_channels = [], rd_streams = [], rd_should_stop = False\<rparr>"

definition consumer_group_message_reader :: "nat \<Rightarrow> string \<Rightarrow> string \<Rightarrow> reader" where
  "consumer_group_message_reader i consumer_group consumer_name = (message_reader i)\<lparr>rd_group := Some (consumer_group, consumer_name)\<rparr>"

text \<open>A reader at work: the object and redis.\<close>

record 'r bus =
  bu_reader :: reader
  bu_red :: 'r

definition put_stream :: "string \<Rightarrow> string \<Rightarrow> 'r bus \<Rightarrow> 'r bus" where
  "put_stream key i w = w\<lparr>bu_reader := (bu_reader w)\<lparr>rd_streams := dict_set key i (rd_streams (bu_reader w))\<rparr>\<rparr>"

definition del_stream :: "string \<Rightarrow> 'r bus \<Rightarrow> 'r bus" where
  "del_stream key w = w\<lparr>bu_reader := (bu_reader w)\<lparr>rd_streams := dict_del key (rd_streams (bu_reader w))\<rparr>\<rparr>"

definition count_reader :: "'r bus_env \<Rightarrow> string \<Rightarrow> int \<Rightarrow> ('r bus, unit) prog" where
  "count_reader E key n = (\<lambda>w.
     case st_hincrby (be_redis E) (key @ CHANNEL_INFO_SUFFIX) ''reader-count'' n (bu_red w) of
       Inl e \<Rightarrow> (Inl e, w)
     | Inr r \<Rightarrow> (Inr (), w\<lparr>bu_red := r\<rparr>))"

text \<open>The id after which a stream is read.\<close>

definition start_id :: "'r bus_env \<Rightarrow> 'r \<Rightarrow> string \<Rightarrow> string \<Rightarrow> string result" where
  "start_id E r key redis_msg_id =
     (if redis_msg_id = [] then Inl (ValueError ''Missing redis message id'')
      else if redis_msg_id = ''>'' then
        (case st_hget (be_redis E) r (key @ CHANNEL_INFO_SUFFIX) ''last-delivered-id'' of
           None \<Rightarrow> Inr ''0''
         | Some v \<Rightarrow> if v = [] then Inr ''0'' else utf8_decode v)
      else if redis_msg_id = ''$'' then
        Inr (str_of_nat (fst (st_time (be_redis E) r) * 1000 + snd (st_time (be_redis E) r) div 1000))
      else Inr redis_msg_id)"

definition add_stream :: "'r bus_env \<Rightarrow> string \<times> string \<Rightarrow> ('r bus, unit) prog" where
  "add_stream E = (\<lambda>(channel, redis_msg_id) w.
     let key = channel_key E channel
     in if dict_has (rd_streams (bu_reader w)) key then (Inr (), w)
        else bind_prog (lift_prog (start_id E (bu_red w) key redis_msg_id)) (\<lambda>i.
             then_prog (count_reader E key 1) (modify_prog (put_stream key i))) w)"

definition drop_stream :: "'r bus_env \<Rightarrow> string list \<Rightarrow> string \<Rightarrow> ('r bus, unit) prog" where
  "drop_stream E stream_keys key =
     when_prog (key \<notin> set stream_keys) (then_prog (count_reader E key (-1)) (modify_prog (del_stream key)))"

text \<open>A response of redis that is accepted: the group exists, the command is unknown to an old redis.\<close>

definition accept_response :: "(string \<Rightarrow> bool) \<Rightarrow> ('r \<Rightarrow> unit result \<times> 'r) \<Rightarrow> ('r bus, unit) prog" where
  "accept_response known f = (\<lambda>w.
     let (res, r) = f (bu_red w); w1 = w\<lparr>bu_red := r\<rparr>
     in case res of
          Inl (OtherError err) \<Rightarrow> if known err then (Inr (), w1) else (res, w1)
        | _ \<Rightarrow> (res, w1))"

definition add_group_stream :: "'r bus_env \<Rightarrow> string \<Rightarrow> string \<Rightarrow> string \<times> string \<Rightarrow> ('r bus, unit) prog" where
  "add_group_stream E consumer_group consumer_name = (\<lambda>(channel, redis_msg_id).
     let key = channel_key E channel;
         start = (if redis_msg_id = [] then ''0'' else redis_msg_id)
     in then_prog (accept_response (\<lambda>err. py_startswith err ''BUSYGROUP'') (st_xgroup_create (be_redis E) key consumer_group))
       (then_prog (modify_prog (put_stream key start))
          (accept_response (py_contains ''unknown command'') (st_xautoclaim (be_redis E) key consumer_group consumer_name start))))"

definition update_streams :: "'r bus_env \<Rightarrow> ('r bus, unit) prog" where
  "update_streams E = (\<lambda>w.
     let channels = rd_channels (bu_reader w);
         stream_keys = map (channel_key E \<circ> fst) channels
     in case rd_group (bu_reader w) of
          None \<Rightarrow>
            then_prog (iter_prog (add_stream E) channels)
              (\<lambda>w. iter_prog (drop_stream E stream_keys) (dict_keys (rd_streams (bu_reader w))) w) w
        | Some (consumer_group, consumer_name) \<Rightarrow>
            then_prog (iter_prog (add_group_stream E consumer_group consumer_name) channels)
              (\<lambda>w. iter_prog (\<lambda>key. when_prog (key \<notin> set stream_keys) (modify_prog (del_stream key)))
                 (dict_keys (rd_streams (bu_reader w))) w) w)"

definition get_channel_names :: "reader \<Rightarrow> string list" where
  "get_channel_names rd = dict_keys (rd_channels rd)"

definition on_channels :: "((string \<times> string) list \<Rightarrow> (string \<times> string) list) \<Rightarrow> 'r bus \<Rightarrow> 'r bus" where
  "on_channels f w = w\<lparr>bu_reader := (bu_reader w)\<lparr>rd_channels := f (rd_channels (bu_reader w))\<rparr>\<rparr>"

definition set_channels :: "'r bus_env \<Rightarrow> (string \<times> string) list \<Rightarrow> ('r bus, unit) prog" where
  "set_channels E channels = then_prog (modify_prog (on_channels (\<lambda>_. channels))) (update_streams E)"

definition add_channels :: "'r bus_env \<Rightarrow> (string \<times> string) list \<Rightarrow> ('r bus, unit) prog" where
  "add_channels E channels = then_prog (modify_prog (on_channels (fold (\<lambda>(c, i). dict_set c i) channels))) (update_streams E)"

definition remove_channels :: "'r bus_env \<Rightarrow> string list \<Rightarrow> ('r bus, unit) prog" where
  "remove_channels E channels = then_prog (modify_prog (on_channels (fold dict_del channels))) (update_streams E)"

section \<open>Reading\<close>

type_synonym delivery = "string \<times> message \<times> (string \<times> redis_val) list option"

definition entry_context :: "'r bus_env \<Rightarrow> (string \<times> string) list \<Rightarrow> (string \<times> redis_val) list option result" where
  "entry_context E d =
     (case map_of d ''context'' of
        None \<Rightarrow> Inr None
      | Some c \<Rightarrow> if c = [] then Inr None else bind_res (be_decode_context E c) (\<lambda>x. Inr (Some x)))"

text \<open>The messages of one stream: what is yielded, and the last id or the error that ends the pass.\<close>

fun read_messages :: "'r bus_env \<Rightarrow> nat \<Rightarrow> stream_entry list \<Rightarrow> string \<Rightarrow> delivery list \<times> string result" where
  "read_messages E now [] next_id = ([], Inr next_id)"
| "read_messages E now ((i, d) # entries) next_id =
     (case entry_context E d of
        Inl e \<Rightarrow> ([], Inl e)
      | Inr context \<Rightarrow>
          (case map_of d ''message'' of
             None \<Rightarrow> read_messages E now entries i
           | Some data \<Rightarrow>
               if data = [] then read_messages E now entries i
               else
                 (case be_from_msgpack E data of
                    Inl e \<Rightarrow> ([], Inl e)
                  | Inr m \<Rightarrow>
                      if mb_expires m \<noteq> 0 \<and> mb_expires m \<le> now then read_messages E now entries i
                      else let (ys, res) = read_messages E now entries i
                           in ((i, add_trace ''broker_redis_receive'' (int now) m, context) # ys, res))))"

text \<open>After the messages of a stream the reader notes the last id.\<close>

definition advance_stream :: "string \<Rightarrow> string \<Rightarrow> 'r bus \<Rightarrow> 'r bus" where
  "advance_stream key next_id w =
     (if next_id \<noteq> [] then put_stream key next_id w
      else if rd_group (bu_reader w) \<noteq> None then put_stream key ''>'' w
      else w)"

fun read_streams :: "'r bus_env \<Rightarrow> nat \<Rightarrow> (string \<times> stream_entry list) list \<Rightarrow> 'r bus \<Rightarrow> delivery list \<times> 'r bus" where
  "read_streams E now [] w = ([], w)"
| "read_streams E now ((key, entries) # rest) w =
     (case read_messages E now entries [] of
        (ys, Inl e) \<Rightarrow> (ys, w)
      | (ys, Inr next_id) \<Rightarrow>
          let (zs, w1) = read_streams E now rest (advance_stream key next_id w) in (ys @ zs, w1))"

definition get_stream_entries :: "'r bus_env \<Rightarrow> ('r bus, (string \<times> stream_entry list) list) prog" where
  "get_stream_entries E = (\<lambda>w.
     case rd_group (bu_reader w) of
       None \<Rightarrow> (st_xread (be_redis E) (rd_streams (bu_reader w)) (bu_red w), w)
     | Some (consumer_group, consumer_name) \<Rightarrow>
         let (res, r) = st_xreadgroup (be_redis E) consumer_group consumer_name (rd_streams (bu_reader w)) (bu_red w)
         in (res, w\<lparr>bu_red := r\<rparr>))"

text \<open>One turn of the loop in \<open>get_messages\<close>; an exception is logged and the turn ends. The flag says
  that redis had nothing.\<close>

definition read_pass :: "'r bus_env \<Rightarrow> nat \<Rightarrow> 'r bus \<Rightarrow> bool \<times> delivery list \<times> 'r bus" where
  "read_pass E now w =
     (case get_stream_entries E w of
        (Inl e, w1) \<Rightarrow> (False, [], w1)
      | (Inr entries, w1) \<Rightarrow> (entries = [], read_streams E now entries w1))"

definition end_reading :: "'r bus_env \<Rightarrow> ('r bus, unit) prog" where
  "end_reading E = (\<lambda>w.
     when_prog (rd_group (bu_reader w) = None)
       (iter_prog (\<lambda>key. count_reader E key (-1)) (dict_keys (rd_streams (bu_reader w)))) w)"

text \<open>The loop, over the times at which its turns take place; it ends when the reader is stopped or times out.\<close>

fun read_loop :: "'r bus_env \<Rightarrow> nat \<Rightarrow> nat list \<Rightarrow> 'r bus \<Rightarrow> delivery list \<times> 'r bus" where
  "read_loop E end_ts [] w = ([], w)"
| "read_loop E end_ts (now # ticks) w =
     (if rd_should_stop (bu_reader w) then ([], snd (end_reading E w))
      else
        let (nothing, ys, w1) = read_pass E now w
        in if nothing \<and> end_ts \<noteq> 0 \<and> end_ts < now then (ys, snd (end_reading E w1))
           else let (zs, w2) = read_loop E end_ts ticks w1 in (ys @ zs, w2))"

definition get_messages :: "'r bus_env \<Rightarrow> nat \<Rightarrow> nat \<Rightarrow> nat list \<Rightarrow> ('r bus, delivery list) prog" where
  "get_messages E start_ts timeout ticks = (\<lambda>w.
     if rd_channels (bu_reader w) = [] then (Inl (ValueError ''No channels to read from''), w)
     else let (ys, w1) = read_loop E (if timeout = 0 then 0 else start_ts + timeout) ticks w in (Inr ys, w1))"

definition ack_message :: "'r bus_env \<Rightarrow> string \<Rightarrow> string \<Rightarrow> ('r bus, unit) prog" where
  "ack_message E channel redis_msg_id = (\<lambda>w.
     let key = channel_key E channel
     in if \<not> dict_has (rd_streams (bu_reader w)) key then (Inl (ValueError ''Invalid channel''), w)
        else (Inr (),
          (case rd_group (bu_reader w) of
             None \<Rightarrow> w\<lparr>bu_red := st_hset (be_redis E) (key @ CHANNEL_INFO_SUFFIX) [(''last-delivered-id'', redis_msg_id)] (bu_red w)\<rparr>
           | Some (consumer_group, _) \<Rightarrow> w\<lparr>bu_red := st_xack (be_redis E) key consumer_group redis_msg_id (bu_red w)\<rparr>)))"

definition stop_reader :: "reader \<Rightarrow> reader" where
  "stop_reader rd = rd\<lparr>rd_should_stop := True\<rparr>"

section \<open>Laws of redis\<close>

definition hash_int :: "'r stream_ops \<Rightarrow> 'r \<Rightarrow> string \<Rightarrow> string \<Rightarrow> int result" where
  "hash_int ops r k f = (case st_hget ops r k f of None \<Rightarrow> Inr 0 | Some v \<Rightarrow> py_int v)"

text \<open>Fields that are set are read back and nothing else changes; counting adds; \<open>XREAD\<close> returns entries of
  the streams asked for, newer than the id given.\<close>

definition stream_laws :: "'r stream_ops \<Rightarrow> (string \<Rightarrow> string \<Rightarrow> bool) \<Rightarrow> bool" where
  "stream_laws ops newer \<longleftrightarrow>
     (\<forall>r k m j f. st_hget ops (st_hset ops k m r) j f =
        (if j = k then (case map_of m f of Some v \<Rightarrow> Some v | None \<Rightarrow> st_hget ops r k f) else st_hget ops r j f)) \<and>
     (\<forall>r k f n x. hash_int ops r k f = Inr x \<longrightarrow>
        (\<exists>r1. st_hincrby ops k f n r = Inr r1 \<and> hash_int ops r1 k f = Inr (x + n) \<and>
          (\<forall>j g. (j, g) \<noteq> (k, f) \<longrightarrow> st_hget ops r1 j g = st_hget ops r j g))) \<and>
     (\<forall>streams r es k ms i d. st_xread ops streams r = Inr es \<longrightarrow> (k, ms) \<in> set es \<longrightarrow> (i, d) \<in> set ms \<longrightarrow>
        (\<exists>start. (k, start) \<in> set streams \<and> newer start i))"

lemmas law_hset = stream_laws_def[THEN iffD1, THEN conjunct1, rule_format]
lemmas law_hincrby = stream_laws_def[THEN iffD1, THEN conjunct2, THEN conjunct1, rule_format]
lemmas law_xread = stream_laws_def[THEN iffD1, THEN conjunct2, THEN conjunct2, rule_format]

section \<open>The count of readers\<close>

lemma streams_simps [simp]:
  "bu_red (put_stream k i w) = bu_red w" "rd_group (bu_reader (put_stream k i w)) = rd_group (bu_reader w)"
  "rd_streams (bu_reader (put_stream k i w)) = dict_set k i (rd_streams (bu_reader w))"
  "bu_red (del_stream k w) = bu_red w" "rd_group (bu_reader (del_stream k w)) = rd_group (bu_reader w)"
  "rd_streams (bu_reader (del_stream k w)) = dict_del k (rd_streams (bu_reader w))"
  "bu_red (on_channels f w) = bu_red w" "rd_group (bu_reader (on_channels f w)) = rd_group (bu_reader w)"
  "rd_streams (bu_reader (on_channels f w)) = rd_streams (bu_reader w)"
  by (simp_all add: put_stream_def del_stream_def on_channels_def)

definition reader_count :: "'r bus_env \<Rightarrow> 'r \<Rightarrow> string \<Rightarrow> int result" where
  "reader_count E r k = hash_int (be_redis E) r (k @ CHANNEL_INFO_SUFFIX) ''reader-count''"

text \<open>Beyond the counts \<open>c\<close> of the other readers each stream of this reader counts once.\<close>

definition counted :: "'r bus_env \<Rightarrow> (string \<Rightarrow> int) \<Rightarrow> 'r bus \<Rightarrow> bool" where
  "counted E c w \<longleftrightarrow> rd_group (bu_reader w) = None \<and> dict_wf (rd_streams (bu_reader w)) \<and>
     (\<forall>k. reader_count E (bu_red w) k = Inr (c k + (if dict_has (rd_streams (bu_reader w)) k then 1 else 0)))"

lemma count_reader_run:
  assumes "stream_laws (be_redis E) newer" "reader_count E (bu_red w) k = Inr x"
  shows "\<exists>r. count_reader E k n w = (Inr (), w\<lparr>bu_red := r\<rparr>) \<and> reader_count E r k = Inr (x + n) \<and>
    (\<forall>j. j \<noteq> k \<longrightarrow> reader_count E r j = reader_count E (bu_red w) j)"
proof -
  obtain r where r: "st_hincrby (be_redis E) (k @ CHANNEL_INFO_SUFFIX) ''reader-count'' n (bu_red w) = Inr r"
    "hash_int (be_redis E) r (k @ CHANNEL_INFO_SUFFIX) ''reader-count'' = Inr (x + n)"
    "\<And>j g. (j, g) \<noteq> (k @ CHANNEL_INFO_SUFFIX, ''reader-count'') \<Longrightarrow> st_hget (be_redis E) r j g = st_hget (be_redis E) (bu_red w) j g"
    using law_hincrby[OF assms(1) assms(2)[unfolded reader_count_def], of n] by auto
  have "reader_count E r j = reader_count E (bu_red w) j" if "j \<noteq> k" for j
    unfolding reader_count_def hash_int_def using r(3)[of "j @ CHANNEL_INFO_SUFFIX" "''reader-count''"] that by simp
  then show ?thesis using r(1,2) by (intro exI[of _ r]) (simp add: count_reader_def reader_count_def)
qed

lemma counted_add_stream:
  assumes "stream_laws (be_redis E) newer"
  shows "keeps (counted E c) (add_stream E p)"
  unfolding keeps_def
proof (intro allI impI)
  fix w
  assume w: "counted E c w"
  obtain ch i where p: "p = (ch, i)" by fastforce
  let ?k = "channel_key E ch"
  show "counted E c (snd (add_stream E p w))"
  proof (cases "dict_has (rd_streams (bu_reader w)) ?k")
    case False
    then have k: "reader_count E (bu_red w) ?k = Inr (c ?k)" using w by (simp add: counted_def)
    obtain r where r: "count_reader E ?k 1 w = (Inr (), w\<lparr>bu_red := r\<rparr>)" "reader_count E r ?k = Inr (c ?k + 1)"
      "\<And>j. j \<noteq> ?k \<Longrightarrow> reader_count E r j = reader_count E (bu_red w) j"
      using count_reader_run[OF assms k, of 1] by blast
    show ?thesis
    proof (cases "start_id E (bu_red w) ?k i")
      case (Inr s)
      then have "snd (add_stream E p w) = put_stream ?k s (w\<lparr>bu_red := r\<rparr>)"
        using False r(1) by (simp add: p add_stream_def Let_def bind_prog_run)
      moreover have "reader_count E r j = Inr (c j + (if dict_has (dict_set ?k s (rd_streams (bu_reader w))) j then 1 else 0))" for j
        using w r(2,3) False by (cases "j = ?k") (auto simp: counted_def dict_has_iff)
      ultimately show ?thesis using w by (simp add: counted_def)
    qed (use False w in \<open>simp add: p add_stream_def Let_def bind_prog_run\<close>)
  qed (use w in \<open>simp add: p add_stream_def Let_def\<close>)
qed

lemma counted_drop_streams:
  assumes "stream_laws (be_redis E) newer" "counted E c w" "distinct ks" "set ks \<subseteq> set (dict_keys (rd_streams (bu_reader w)))"
  shows "counted E c (snd (iter_prog (drop_stream E stream_keys) ks w))"
  using assms(2-)
proof (induction ks arbitrary: w)
  case (Cons k ks)
  show ?case
  proof (cases "k \<in> set stream_keys")
    case True
    then show ?thesis using Cons by (simp add: drop_stream_def when_prog_def)
  next
    case False
    have has: "dict_has (rd_streams (bu_reader w)) k" using Cons.prems(3) by (simp add: dict_has_def dict_keys_def)
    then have k: "reader_count E (bu_red w) k = Inr (c k + 1)" using Cons.prems(1) by (simp add: counted_def)
    obtain r where r: "count_reader E k (-1) w = (Inr (), w\<lparr>bu_red := r\<rparr>)" "reader_count E r k = Inr (c k)"
      "\<And>j. j \<noteq> k \<Longrightarrow> reader_count E r j = reader_count E (bu_red w) j"
      using count_reader_run[OF assms(1) k, of "-1"] by auto
    let ?w = "del_stream k (w\<lparr>bu_red := r\<rparr>)"
    have "counted E c ?w"
      using Cons.prems(1) r(2,3) by (auto simp: counted_def dict_has_iff)
    moreover have "set ks \<subseteq> set (dict_keys (rd_streams (bu_reader ?w)))"
      using Cons.prems(2,3) by (auto simp: dict_keys_def delete_keys)
    moreover have "iter_prog (drop_stream E stream_keys) (k # ks) w = iter_prog (drop_stream E stream_keys) ks ?w"
      using False r(1) by (simp add: drop_stream_def bind_prog_run)
    ultimately show ?thesis using Cons.IH[of ?w] Cons.prems(2) by simp
  qed
qed simp

lemma counted_update_streams:
  assumes "stream_laws (be_redis E) newer"
  shows "keeps (counted E c) (update_streams E)"
  unfolding keeps_def
proof (intro allI impI)
  fix w
  assume w: "counted E c w"
  let ?keys = "map (channel_key E \<circ> fst) (rd_channels (bu_reader w))"
  obtain res w1 where 1: "iter_prog (add_stream E) (rd_channels (bu_reader w)) w = (res, w1)" by fastforce
  have w1: "counted E c w1"
    using keepsD[OF keeps_iter[OF counted_add_stream[OF assms]] w 1] .
  have plain: "rd_group (bu_reader w) = None" using w by (simp add: counted_def)
  show "counted E c (snd (update_streams E w))"
  proof (cases res)
    case (Inl e)
    then show ?thesis using 1 w1 plain by (simp add: update_streams_def bind_prog_run Let_def)
  next
    case (Inr u)
    have "distinct (dict_keys (rd_streams (bu_reader w1)))" using w1 by (simp add: counted_def dict_wf_def dict_keys_def)
    from counted_drop_streams[OF assms w1 this order_refl, of ?keys] show ?thesis
      using 1 Inr plain by (simp add: update_streams_def bind_prog_run Let_def)
  qed
qed

text \<open>What a reader is used for, one call after the other.\<close>

datatype reader_op =
    Set_channels "(string \<times> string) list"
  | Add_channels "(string \<times> string) list"
  | Remove_channels "string list"
  | Read nat
  | Ack string string

definition run_reader_op :: "'r bus_env \<Rightarrow> reader_op \<Rightarrow> 'r bus \<Rightarrow> 'r bus" where
  "run_reader_op E op w =
     (case op of
        Set_channels cs \<Rightarrow> snd (set_channels E cs w)
      | Add_channels cs \<Rightarrow> snd (add_channels E cs w)
      | Remove_channels cs \<Rightarrow> snd (remove_channels E cs w)
      | Read now \<Rightarrow> snd (snd (read_pass E now w))
      | Ack ch i \<Rightarrow> snd (ack_message E ch i w))"

lemma counted_on_channels: "counted E c (on_channels f w) = counted E c w"
  by (simp add: counted_def)

lemma read_messages_last: "read_messages E now entries i = (ys, Inr j) \<Longrightarrow> entries = [] \<Longrightarrow> j = i"
  by simp

lemma counted_advance: "counted E c w \<Longrightarrow> dict_has (rd_streams (bu_reader w)) k \<Longrightarrow> counted E c (put_stream k i w)"
  by (auto simp: counted_def dict_has_iff)

lemma counted_read_streams:
  assumes "counted E c w" "\<And>k ms. (k, ms) \<in> set es \<Longrightarrow> ms \<noteq> [] \<Longrightarrow> dict_has (rd_streams (bu_reader w)) k"
  shows "counted E c (snd (read_streams E now es w))"
  using assms
proof (induction es arbitrary: w)
  case (Cons e es)
  obtain k ms where e: "e = (k, ms)" by fastforce
  obtain ys res where r: "read_messages E now ms [] = (ys, res)" by fastforce
  show ?case
  proof (cases res)
    case (Inl err)
    then show ?thesis using Cons.prems(1) r by (simp add: e)
  next
    case (Inr j)
    have plain: "rd_group (bu_reader w) = None" using Cons.prems(1) by (simp add: counted_def)
    have "ms \<noteq> []" if "j \<noteq> []" using that r Inr by (cases ms) auto
    then have "counted E c (advance_stream k j w)"
      using Cons.prems plain by (auto simp: e advance_stream_def intro: counted_advance)
    moreover have "dict_has (rd_streams (bu_reader (advance_stream k j w))) k'" if "dict_has (rd_streams (bu_reader w)) k'" for k'
      using that plain by (auto simp: advance_stream_def dict_has_iff)
    ultimately have "counted E c (snd (read_streams E now es (advance_stream k j w)))"
      using Cons.prems(2) by (intro Cons.IH) (auto simp: e)
    then show ?thesis using r Inr by (simp add: e split_def Let_def)
  qed
qed simp

lemma counted_run:
  assumes laws: "stream_laws (be_redis E) newer" and w: "counted E c w"
  shows "counted E c (run_reader_op E op w)"
proof -
  have upd: "counted E c (snd (update_streams E v))" if "counted E c v" for v
    using counted_update_streams[OF laws] that by (simp add: keeps_def)
  have plain: "rd_group (bu_reader w) = None" using w by (simp add: counted_def)
  show ?thesis
  proof (cases op)
    case (Read now)
    have "dict_has (rd_streams (bu_reader w)) k" if es: "st_xread (be_redis E) (rd_streams (bu_reader w)) (bu_red w) = Inr es"
      "(k, ms) \<in> set es" "ms \<noteq> []" for es k ms
    proof -
      obtain i d where "(i, d) \<in> set ms" using es(3) by (cases ms) auto
      then obtain start where "(k, start) \<in> set (rd_streams (bu_reader w))" using law_xread[OF laws es(1,2)] by blast
      then show ?thesis by (force simp: dict_has_def)
    qed
    then have "counted E c (snd (snd (read_pass E now w)))"
      using w plain counted_read_streams[OF w]
      by (auto simp: read_pass_def get_stream_entries_def split: sum.splits)
    then show ?thesis by (simp add: Read run_reader_op_def)
  next
    case (Ack ch i)
    have "reader_count E (st_hset (be_redis E) k [(''last-delivered-id'', i)] r) j = reader_count E r j" for k r j
      by (simp add: reader_count_def hash_int_def law_hset[OF laws])
    then have "counted E c (w\<lparr>bu_red := st_hset (be_redis E) k [(''last-delivered-id'', i)] (bu_red w)\<rparr>)" for k
      using w by (simp add: counted_def)
    then show ?thesis using w plain by (simp add: Ack run_reader_op_def ack_message_def Let_def)
  qed (use w upd in \<open>simp_all add: run_reader_op_def set_channels_def add_channels_def remove_channels_def bind_prog_run counted_on_channels\<close>)
qed

lemma count_down:
  assumes "stream_laws (be_redis E) newer" "distinct ks"
    and "\<And>k. \<exists>x. reader_count E (bu_red w) k = Inr x"
  shows "reader_count E (bu_red (snd (iter_prog (\<lambda>key. count_reader E key (-1)) ks w))) k =
    bind_res (reader_count E (bu_red w) k) (\<lambda>x. Inr (if k \<in> set ks then x - 1 else x))"
  using assms(2-)
proof (induction ks arbitrary: w)
  case Nil
  then show ?case by (cases "reader_count E (bu_red w) k") auto
next
  case (Cons a ks)
  obtain x where x: "reader_count E (bu_red w) a = Inr x" using Cons.prems(2) by blast
  obtain r where r: "count_reader E a (-1) w = (Inr (), w\<lparr>bu_red := r\<rparr>)" "reader_count E r a = Inr (x - 1)"
    "\<And>j. j \<noteq> a \<Longrightarrow> reader_count E r j = reader_count E (bu_red w) j"
    using count_reader_run[OF assms(1) x, of "-1"] by auto
  have "\<exists>y. reader_count E (bu_red (w\<lparr>bu_red := r\<rparr>)) j = Inr y" for j
    using r(2) r(3)[of j] Cons.prems(2)[of j] by (cases "j = a") auto
  note IH = Cons.IH[OF _ this]
  then show ?case
    using Cons.prems(1) r x by (cases "k = a") (auto simp: bind_prog_run)
qed

lemma end_reading_counts:
  assumes "stream_laws (be_redis E) newer" "counted E c w"
  shows "reader_count E (bu_red (snd (end_reading E w))) k = Inr (c k)"
proof -
  have "distinct (dict_keys (rd_streams (bu_reader w)))" using assms(2) by (simp add: counted_def dict_wf_def dict_keys_def)
  moreover have "\<exists>x. reader_count E (bu_red w) j = Inr x" for j using assms(2) by (simp add: counted_def)
  ultimately show ?thesis
    using count_down[OF assms(1), of "dict_keys (rd_streams (bu_reader w))" w k] assms(2)
    by (simp add: end_reading_def counted_def dict_has_def dict_keys_def)
qed

lemma counted_steps:
  assumes "stream_laws (be_redis E) newer" "counted E c w"
  shows "counted E c (fold (run_reader_op E) ops w)"
  using assms(2) by (induction ops arbitrary: w) (auto intro: counted_run[OF assms(1)])

section \<open>Acknowledged messages\<close>

lemma read_messages_ids: "(j, x) \<in> set (fst (read_messages E now entries i)) \<Longrightarrow> \<exists>d. (j, d) \<in> set entries"
  by (induction E now entries i rule: read_messages.induct) (fastforce split: sum.splits option.splits if_splits prod.splits)+

lemma read_streams_ids: "(j, x) \<in> set (fst (read_streams E now es w)) \<Longrightarrow> \<exists>k ms d. (k, ms) \<in> set es \<and> (j, d) \<in> set ms"
proof (induction es arbitrary: w)
  case (Cons s rest)
  obtain k entries where s: "s = (k, entries)" by fastforce
  obtain ys res where r: "read_messages E now entries [] = (ys, res)" by fastforce
  have ys: "\<exists>d. (j, d) \<in> set entries" if "(j, x) \<in> set ys" using that read_messages_ids[of j x E now entries "[]"] r by simp
  show ?case
  proof (cases res)
    case (Inl e)
    then show ?thesis using Cons.prems ys by (auto simp: r s)
  next
    case (Inr i)
    then have "(j, x) \<in> set ys \<or> (j, x) \<in> set (fst (read_streams E now rest (advance_stream k i w)))"
      using Cons.prems by (auto simp: r s split_def Let_def)
    then show ?thesis using ys Cons.IH[of "advance_stream k i w"] by (auto simp: s)
  qed
qed simp

text \<open>A new reader of a channel that asks for undelivered messages starts after the acknowledged id.\<close>

lemma resume_stream:
  assumes "st_hget (be_redis E) r (channel_key E ch @ CHANNEL_INFO_SUFFIX) ''last-delivered-id'' = Some i" "i \<noteq> []" "utf8_decode i = Inr i"
    and new: "set_channels E [(ch, ''>'')] \<lparr>bu_reader = message_reader n, bu_red = r\<rparr> = (Inr (), w2)"
  shows "rd_streams (bu_reader w2) = [(channel_key E ch, i)] \<and> rd_group (bu_reader w2) = None"
proof -
  let ?k = "channel_key E ch" and ?w = "\<lparr>bu_reader = (message_reader n)\<lparr>rd_channels := [(ch, ''>'')]\<rparr>, bu_red = r\<rparr>"
  have start: "start_id E r ?k ''>'' = Inr i" using assms(1-3) by (simp add: start_id_def)
  have "update_streams E ?w = (Inr (), w2)"
    using new by (simp add: set_channels_def bind_prog_run on_channels_def message_reader_def)
  then obtain w3 where w3: "add_stream E (ch, ''>'') ?w = (Inr (), w3)"
    "iter_prog (drop_stream E [?k]) (dict_keys (rd_streams (bu_reader w3))) w3 = (Inr (), w2)"
    by (auto simp: update_streams_def message_reader_def Let_def bind_prog_Inr)
  have "rd_streams (bu_reader w3) = [(?k, i)] \<and> rd_group (bu_reader w3) = None"
    using w3(1) start by (auto simp: add_stream_def message_reader_def dict_has_def bind_prog_Inr count_reader_def Let_def put_stream_def split: sum.splits)
  then show ?thesis using w3(2) by (auto simp: dict_keys_def drop_stream_def when_prog_def)
qed

text \<open>The life of a reader: passes, changes of redis by others (new messages, trimming, acknowledgements by other
  readers), and changes of its channels that leave it the channel \<open>ch\<close>.\<close>

inductive reading :: "'r bus_env \<Rightarrow> string \<Rightarrow> 'r bus \<Rightarrow> 'r bus \<Rightarrow> bool" for E ch where
  pass: "read_pass E now w = (nothing, ys, w1) \<Longrightarrow> reading E ch w w1"
| others: "reading E ch w (w\<lparr>bu_red := r\<rparr>)"
| channels: "then_prog (modify_prog (on_channels f)) (update_streams E) w = (res, w1) \<Longrightarrow>
    dict_has (f (rd_channels (bu_reader w))) ch \<Longrightarrow> reading E ch w w1"

definition resumed :: "'r bus_env \<Rightarrow> (string \<Rightarrow> string \<Rightarrow> bool) \<Rightarrow> string \<Rightarrow> string \<Rightarrow> 'r bus \<Rightarrow> bool" where
  "resumed E newer ch i w \<longleftrightarrow> rd_group (bu_reader w) = None \<and> dict_wf (rd_streams (bu_reader w)) \<and>
     (\<exists>c. map_of (rd_streams (bu_reader w)) (channel_key E ch) = Some c \<and> (c = i \<or> newer i c))"

lemma resumed_bus [simp]:
  "resumed E newer ch i (w\<lparr>bu_red := r\<rparr>) = resumed E newer ch i w"
  "resumed E newer ch i (on_channels f w) = resumed E newer ch i w"
  by (simp_all add: resumed_def)

lemma resumed_put: "resumed E newer ch i w \<Longrightarrow> (k = channel_key E ch \<Longrightarrow> c = i \<or> newer i c) \<Longrightarrow> resumed E newer ch i (put_stream k c w)"
  by (auto simp: resumed_def)

lemma count_reader_bus: "count_reader E key n w = (res, w1) \<Longrightarrow> \<exists>r. w1 = w\<lparr>bu_red := r\<rparr>"
  by (auto simp: count_reader_def split: sum.splits intro: exI[of _ "bu_red w"])

lemma resumed_add_stream: "keeps (resumed E newer ch i) (add_stream E p)"
  unfolding keeps_def
proof (intro allI impI)
  fix w
  assume w: "resumed E newer ch i w"
  obtain channel mid where p: "p = (channel, mid)" by fastforce
  let ?k = "channel_key E channel"
  show "resumed E newer ch i (snd (add_stream E p w))"
  proof (cases "dict_has (rd_streams (bu_reader w)) ?k")
    case False
    obtain res w1 where c: "count_reader E ?k 1 w = (res, w1)" by fastforce
    obtain r where r: "w1 = w\<lparr>bu_red := r\<rparr>" using count_reader_bus[OF c] by blast
    have "?k \<noteq> channel_key E ch" using False w by (auto simp: resumed_def dict_has_iff)
    then have "resumed E newer ch i (put_stream ?k s w1)" for s using w r by (auto intro: resumed_put)
    then show ?thesis using False w c r
      by (cases "start_id E (bu_red w) ?k mid"; cases res) (simp_all add: p add_stream_def Let_def bind_prog_run)
  qed (use w in \<open>simp add: p add_stream_def Let_def\<close>)
qed

lemma resumed_drop_stream:
  assumes "channel_key E ch \<in> set ks"
  shows "keeps (resumed E newer ch i) (drop_stream E ks key)"
  unfolding keeps_def
proof (intro allI impI)
  fix w
  assume w: "resumed E newer ch i w"
  show "resumed E newer ch i (snd (drop_stream E ks key w))"
  proof (cases "key \<in> set ks")
    case False
    obtain res w1 where c: "count_reader E key (-1) w = (res, w1)" by fastforce
    obtain r where r: "w1 = w\<lparr>bu_red := r\<rparr>" using count_reader_bus[OF c] by blast
    have "key \<noteq> channel_key E ch" using False assms by auto
    then have "resumed E newer ch i (del_stream key w1)" using w r by (auto simp: resumed_def)
    then show ?thesis using False w c r by (cases res) (simp_all add: drop_stream_def when_prog_def bind_prog_run)
  qed (use w in \<open>simp add: drop_stream_def when_prog_def\<close>)
qed

lemma resumed_update_streams:
  assumes "resumed E newer ch i w" "dict_has (rd_channels (bu_reader w)) ch"
  shows "resumed E newer ch i (snd (update_streams E w))"
proof -
  let ?ks = "map (channel_key E \<circ> fst) (rd_channels (bu_reader w))"
  have mem: "channel_key E ch \<in> set ?ks" using assms(2) by (force simp: dict_has_def)
  obtain res w1 where 1: "iter_prog (add_stream E) (rd_channels (bu_reader w)) w = (res, w1)" by fastforce
  have w1: "resumed E newer ch i w1" using keepsD[OF keeps_iter[OF resumed_add_stream] assms(1) 1] .
  have "resumed E newer ch i (snd (iter_prog (drop_stream E ?ks) (dict_keys (rd_streams (bu_reader w1))) w1))"
    using keeps_iter[of "resumed E newer ch i" "drop_stream E ?ks", OF resumed_drop_stream[OF mem]] w1
    unfolding keeps_def by blast
  moreover have "rd_group (bu_reader w) = None" using assms(1) by (simp add: resumed_def)
  ultimately show ?thesis using 1 w1 by (cases res) (simp_all add: update_streams_def bind_prog_run Let_def)
qed

lemma read_messages_end: "read_messages E now entries i = (ys, Inr j) \<Longrightarrow> j = i \<or> (\<exists>d. (j, d) \<in> set entries)"
proof (induction entries arbitrary: i ys)
  case (Cons e entries)
  obtain k d where e: "e = (k, d)" by fastforce
  from Cons.prems obtain zs where "read_messages E now entries k = (zs, Inr j)"
    by (auto simp: e Let_def split: sum.splits option.splits if_splits prod.splits)
  from Cons.IH[OF this] show ?case by (auto simp: e)
qed simp

lemma resumed_read_streams:
  assumes "resumed E newer ch i w" "\<And>ms j d. (channel_key E ch, ms) \<in> set es \<Longrightarrow> (j, d) \<in> set ms \<Longrightarrow> newer i j"
  shows "resumed E newer ch i (snd (read_streams E now es w))"
  using assms
proof (induction es arbitrary: w)
  case (Cons e es)
  obtain k ms where e: "e = (k, ms)" by fastforce
  obtain ys res where r: "read_messages E now ms [] = (ys, res)" by fastforce
  show ?case
  proof (cases res)
    case (Inl err)
    then show ?thesis using Cons.prems(1) r by (simp add: e)
  next
    case (Inr j)
    have "newer i j" if "k = channel_key E ch" "j \<noteq> []"
      using read_messages_end[of E now ms "[]" ys j] r Inr that Cons.prems(2)[of ms j] by (auto simp: e)
    moreover have "rd_group (bu_reader w) = None" using Cons.prems(1) by (simp add: resumed_def)
    ultimately have "resumed E newer ch i (advance_stream k j w)"
      using Cons.prems(1) by (auto simp: advance_stream_def intro: resumed_put)
    then have "resumed E newer ch i (snd (read_streams E now es (advance_stream k j w)))"
      using Cons.prems(2) by (intro Cons.IH) (auto simp: e)
    then show ?thesis using r Inr by (simp add: e split_def Let_def)
  qed
qed simp

lemma resumed_entries:
  assumes "stream_laws (be_redis E) newer" "transp newer" "resumed E newer ch i w"
    and "get_stream_entries E w = (Inr es, w1)" "(channel_key E ch, ms) \<in> set es" "(j, d) \<in> set ms"
  shows "newer i j"
proof -
  have es: "st_xread (be_redis E) (rd_streams (bu_reader w)) (bu_red w) = Inr es"
    using assms(3,4) by (auto simp: get_stream_entries_def resumed_def)
  obtain c where "(channel_key E ch, c) \<in> set (rd_streams (bu_reader w))" "newer c j"
    using law_xread[OF assms(1) es assms(5,6)] by blast
  moreover from this(1) have "c = i \<or> newer i c" using assms(3) by (auto simp: resumed_def dict_wf_def)
  ultimately show ?thesis using assms(2) by (auto dest: transpD)
qed

lemma resumed_reading:
  assumes "stream_laws (be_redis E) newer" "transp newer"
  shows "reading E ch w w1 \<Longrightarrow> resumed E newer ch i w \<Longrightarrow> resumed E newer ch i w1"
proof (induction rule: reading.induct)
  case (pass now w nothing ys w1)
  obtain res w2 where g: "get_stream_entries E w = (res, w2)" by fastforce
  have "w2 = w" using g pass(2) by (simp add: get_stream_entries_def resumed_def)
  then show ?case
  proof (cases res)
    case (Inr es)
    have "resumed E newer ch i (snd (read_streams E now es w))"
      using resumed_read_streams[OF pass(2)] resumed_entries[OF assms pass(2) g[unfolded Inr]] by blast
    then show ?thesis using pass(1) g Inr \<open>w2 = w\<close> by (auto simp: read_pass_def)
  qed (use pass g in \<open>auto simp: read_pass_def\<close>)
next
  case (channels f w res w1)
  have "resumed E newer ch i (snd (update_streams E (on_channels f w)))"
    using channels(2,3) by (intro resumed_update_streams) (simp_all add: on_channels_def[of f w] resumed_def)
  then show ?case using channels(1) by (auto simp: bind_prog_run dest: arg_cong[where f = snd])
qed simp

section \<open>A redis of lists\<close>

record list_redis =
  lr_hashes :: "(string \<times> (string \<times> string) list) list"
  lr_streams :: "(string \<times> stream_entry list) list"

definition lr_hget :: "list_redis \<Rightarrow> string \<Rightarrow> string \<Rightarrow> string option" where
  "lr_hget r k f = (case map_of (lr_hashes r) k of None \<Rightarrow> None | Some d \<Rightarrow> map_of d f)"

definition lr_hset :: "string \<Rightarrow> (string \<times> string) list \<Rightarrow> list_redis \<Rightarrow> list_redis" where
  "lr_hset k m r = r\<lparr>lr_hashes := dict_set k (m @ (case map_of (lr_hashes r) k of None \<Rightarrow> [] | Some d \<Rightarrow> d)) (lr_hashes r)\<rparr>"

definition lr_newer :: "string \<Rightarrow> string \<Rightarrow> bool" where
  "lr_newer a b = (case (py_int a, py_int b) of (Inr x, Inr y) \<Rightarrow> x < y | _ \<Rightarrow> False)"

definition lr_entries :: "list_redis \<Rightarrow> string \<Rightarrow> stream_entry list" where
  "lr_entries r k = (case map_of (lr_streams r) k of None \<Rightarrow> [] | Some es \<Rightarrow> es)"

definition lr_xread :: "(string \<times> string) list \<Rightarrow> list_redis \<Rightarrow> (string \<times> stream_entry list) list" where
  "lr_xread streams r =
     filter (\<lambda>(k, ms). ms \<noteq> []) (map (\<lambda>(k, start). (k, filter (\<lambda>(i, d). lr_newer start i) (lr_entries r k))) streams)"

definition lr_hincrby :: "string \<Rightarrow> string \<Rightarrow> int \<Rightarrow> list_redis \<Rightarrow> list_redis result" where
  "lr_hincrby k f n r =
     bind_res (case lr_hget r k f of None \<Rightarrow> Inr 0 | Some v \<Rightarrow> py_int v) (\<lambda>x. Inr (lr_hset k [(f, str_of_int (x + n))] r))"

definition list_stream_ops :: "list_redis stream_ops" where
  "list_stream_ops =
     \<lparr>st_time = (\<lambda>_. (0, 0)), st_hget = lr_hget, st_hset = lr_hset, st_hincrby = lr_hincrby,
      st_exists = (\<lambda>r k. dict_has (lr_streams r) k \<or> dict_has (lr_hashes r) k),
      st_unlink = (\<lambda>k r. r\<lparr>lr_hashes := dict_del k (lr_hashes r), lr_streams := dict_del k (lr_streams r)\<rparr>),
      st_scan = (\<lambda>r p. filter (\<lambda>k. py_startswith k (butlast p)) (dict_keys (lr_hashes r) @ dict_keys (lr_streams r))),
      st_xadd = (\<lambda>k n d r. r\<lparr>lr_streams := dict_set k (lr_entries r k @ [(str_of_nat (Suc (length (lr_entries r k))), d)]) (lr_streams r)\<rparr>),
      st_xtrim = (\<lambda>k n r. r), st_xread = (\<lambda>streams r. Inr (lr_xread streams r)),
      st_xgroup_create = (\<lambda>k g r. (Inr (), r)), st_xautoclaim = (\<lambda>k g c i r. (Inr (), r)),
      st_xreadgroup = (\<lambda>g c streams r. (Inr [], r)), st_xack = (\<lambda>k g i r. r)\<rparr>"

lemma lr_hget_hset: "lr_hget (lr_hset k m r) j f =
    (if j = k then (case map_of m f of Some v \<Rightarrow> Some v | None \<Rightarrow> lr_hget r k f) else lr_hget r j f)"
  by (auto simp: lr_hget_def lr_hset_def map_add_def split: option.splits)

lemma list_stream_laws: "stream_laws list_stream_ops lr_newer"
  unfolding stream_laws_def
proof (intro conjI allI impI)
  fix r k f n x
  assume "hash_int list_stream_ops r k f = Inr x"
  then have "lr_hincrby k f n r = Inr (lr_hset k [(f, str_of_int (x + n))] r)"
    by (simp add: lr_hincrby_def hash_int_def list_stream_ops_def)
  then show "\<exists>r1. st_hincrby list_stream_ops k f n r = Inr r1 \<and> hash_int list_stream_ops r1 k f = Inr (x + n) \<and>
      (\<forall>j g. (j, g) \<noteq> (k, f) \<longrightarrow> st_hget list_stream_ops r1 j g = st_hget list_stream_ops r j g)"
    by (auto simp: list_stream_ops_def hash_int_def lr_hget_hset py_int_str_of_int)
next
  fix streams r es k ms i d
  assume "st_xread list_stream_ops streams r = Inr es" "(k, ms) \<in> set es" "(i, d) \<in> set ms"
  then show "\<exists>start. (k, start) \<in> set streams \<and> lr_newer start i"
    unfolding list_stream_ops_def lr_xread_def by auto blast
qed (simp add: list_stream_ops_def lr_hget_hset split: option.split)

definition sample_message :: "string \<Rightarrow> message" where
  "sample_message t = \<lparr>mb_type = t, mb_id = ''1'', mb_sender = ''host:pc1'', mb_channel = ''host:pc2'', mb_back_channel = [],
     mb_expires = 0, mb_trace = [], mb_body = Other_body []\<rparr>"

definition sample_bus_env :: "list_redis bus_env" where
  "sample_bus_env =
     \<lparr>be_channels = \<lparr>ce_force_host_id = Inr, ce_force_user_id = Inr, ce_force_string_lower = py_lower, ce_force_unsigned_int = (\<lambda>_. Inr 1),
        ce_configserver_id = ''server''\<rparr>,
      be_redis = list_stream_ops, be_key = ''mb'', be_to_msgpack = mb_type,
      be_from_msgpack = (\<lambda>d. if d = ''bad'' then Inl (ValueError ''msgpack'') else Inr (sample_message d)),
      be_encode_context = (\<lambda>_. ''c''), be_decode_context = (\<lambda>_. Inr [])\<rparr>"

definition sample_bus :: "list_redis bus" where
  "sample_bus =
     \<lparr>bu_reader = message_reader 0,
      bu_red = \<lparr>lr_hashes = [], lr_streams =
        [(''mb:channels:host:pc2'', [(''1'', [(''message'', ''a'')]), (''2'', [(''message'', ''bad'')]), (''3'', [(''message'', ''c'')])])]\<rparr>\<rparr>"

section \<open>Properties\<close>

text \<open>C25. The number of readers that redis holds for a channel is kept exactly: whatever channels a reader is
  given, adds or gives up, and however often it reads and acknowledges, each of its streams counts once
  beside the other readers, and when it ends every count is what it was before.\<close>

theorem reader_counts_balanced:
  assumes "stream_laws (be_redis E) newer" "\<forall>k. reader_count E (bu_red w) k = Inr (c k)" "bu_reader w = message_reader n"
  shows "reader_count E (bu_red (fold (run_reader_op E) ops w)) k =
      Inr (c k + (if dict_has (rd_streams (bu_reader (fold (run_reader_op E) ops w))) k then 1 else 0)) \<and>
    reader_count E (bu_red (snd (end_reading E (fold (run_reader_op E) ops w)))) k = Inr (c k)"
proof -
  have "counted E c w" using assms(2,3) by (simp add: counted_def message_reader_def dict_has_def)
  from counted_steps[OF assms(1) this] have "counted E c (fold (run_reader_op E) ops w)" .
  then show ?thesis using end_reading_counts[OF assms(1)] by (simp add: counted_def)
qed

theorem reader_counts_balanced_witness:
  "reader_count sample_bus_env (bu_red (snd (end_reading sample_bus_env
     (fold (run_reader_op sample_bus_env) [Set_channels [(''host:pc2'', ''>'')], Read 5, Remove_channels [''host:pc2'']] sample_bus))))
     ''mb:channels:host:pc2'' = Inr 0"
proof -
  have "stream_laws (be_redis sample_bus_env) lr_newer" by (simp add: sample_bus_env_def list_stream_laws)
  moreover have "\<forall>k. reader_count sample_bus_env (bu_red sample_bus) k = Inr ((\<lambda>_. 0) k)"
    by (simp add: reader_count_def hash_int_def sample_bus_env_def list_stream_ops_def lr_hget_def sample_bus_def)
  moreover have "bu_reader sample_bus = message_reader 0" by (simp add: sample_bus_def)
  ultimately show ?thesis by (rule reader_counts_balanced[THEN conjunct2])
qed



text \<open>Two ways in which a reader goes wrong. A message that cannot be decoded ends the pass before the reader
  has moved on: the messages before it are delivered again in every pass and those behind it never. And
  a channel that is given up while a message of it is being processed comes back: the reader notes
  the id of the message in its streams afterwards and goes on reading the channel, and its next update
  takes the count of readers below zero.\<close>

theorem reader_defects:
  "let w = snd (set_channels sample_bus_env [(''host:pc2'', ''>'')] sample_bus)
   in map fst (fst (read_loop sample_bus_env 0 [1, 2, 3] w)) = [''1'', ''1'', ''1''] \<and>
      (let w1 = advance_stream ''mb:channels:host:pc2'' ''1'' (snd (remove_channels sample_bus_env [''host:pc2''] w))
       in rd_channels (bu_reader w1) = [] \<and> map fst (rd_streams (bu_reader w1)) = [''mb:channels:host:pc2''] \<and>
          reader_count sample_bus_env (bu_red (snd (update_streams sample_bus_env w1))) ''mb:channels:host:pc2'' = Inr (-1))"
  by code_simp

end
