(* ===== verification/Messagebus_Websocket.thy ===== *)
theory Messagebus_Websocket
  imports Messagebus_Redis
begin

text \<open>
  A websocket connection to the messagebus (\<open>opsiconfd/messagebus/websocket.py\<close>): who may read and
  write which channel, subscriptions, received messages, connecting and disconnecting. The state
  of a connection holds its readers and redis; what is sent to the websocket is a list. Decompressing,
  decoding and building messages (opsicommon, msgspec) are parameters, as are the two aliases for the own channels,
  which are constants of opsicommon.
\<close>

section \<open>The connection\<close>

datatype msg_value = MV_str string | MV_other string

datatype decoded = D_dict "(string \<times> msg_value) list" | D_other

record 'r ws_env =
  we_bus :: "'r bus_env"
  we_worker_id :: string
  we_session :: opsisession
  we_codec :: codec
  we_modules :: "string list"
  we_user_alias :: string
  we_session_alias :: string
  we_decode :: "string \<Rightarrow> decoded result"
  we_from_dict :: "(string \<times> msg_value) list \<Rightarrow> message result"
  we_error_text :: "py_error \<Rightarrow> string"
  we_traceback :: "py_error \<Rightarrow> string"
  we_new_id :: "nat \<Rightarrow> string"

record 'r connection =
  mc_user_id :: string
  mc_session_channel :: string
  mc_readers :: "reader list"
  mc_stopped :: "reader list"
  mc_next :: nat
  mc_red :: 'r
  mc_out :: "message list"
  mc_connected :: bool
  mc_received :: nat
  mc_sent :: nat

definition worker_user_id :: "'r ws_env \<Rightarrow> string" where
  "worker_user_id E = get_user_id_for_service_worker (be_channels (we_bus E)) (we_worker_id E)"

definition check_authorization :: "opsisession option \<Rightarrow> unit result" where
  "check_authorization s =
     (case s of
        None \<Rightarrow> Inl (HTTPException 401 ''Access to messagebus denied, no valid session found'')
      | Some s \<Rightarrow> if authenticated s then Inr () else Inl (HTTPException 401 ''Access to messagebus denied, not authenticated''))"

definition send_message_to_websocket :: "int \<Rightarrow> message \<Rightarrow> 'r connection \<Rightarrow> 'r connection" where
  "send_message_to_websocket now m c =
     (if mc_connected c then c\<lparr>mc_out := mc_out c @ [add_trace ''broker_ws_send'' now m], mc_sent := Suc (mc_sent c)\<rparr> else c)"

definition broker_message :: "'r ws_env \<Rightarrow> string \<Rightarrow> message_body \<Rightarrow> message" where
  "broker_message E channel body =
     \<lparr>mb_type = [], mb_id = [], mb_sender = worker_user_id E, mb_channel = channel, mb_back_channel = [], mb_expires = 0,
      mb_trace = [], mb_body = body\<rparr>"

section \<open>Access\<close>

datatype channel_operation = Access_read | Access_write

definition check_channel_access :: "'r ws_env \<Rightarrow> 'r connection \<Rightarrow> string \<Rightarrow> channel_operation \<Rightarrow> bool result" where
  "check_channel_access E c channel operation =
     bind_res (check_channel_name (be_channels (we_bus E)) channel) (\<lambda>channel.
       Inr (py_startswith channel ''session:'' \<or> channel = mc_user_id c \<or>
            (py_startswith channel ''service:'' \<and> (py_endswith channel '':messagebus'' \<or> py_endswith channel '':jsonrpc'') \<and>
             operation = Access_write) \<or>
            is_admin (we_session E)))"

definition restricted_message_types :: "(string \<times> string) list" where
  "restricted_message_types = [(''process_start_request'', ''vpn'')]"

definition check_message_type_access :: "'r ws_env \<Rightarrow> string \<Rightarrow> bool" where
  "check_message_type_access E t =
     (case map_of restricted_message_types t of None \<Rightarrow> True | Some module \<Rightarrow> module \<in> set (we_modules E))"

section \<open>Subscriptions\<close>

definition get_subscribed_channels :: "'r connection \<Rightarrow> (string \<times> nat) list" where
  "get_subscribed_channels c =
     fold (\<lambda>rd d. fold (\<lambda>ch. dict_set ch (rd_id rd)) (get_channel_names rd) d) (mc_readers c) []"

text \<open>Running an operation of a reader: the object in the list is the one that changes.\<close>

definition on_reader :: "reader \<Rightarrow> ('r bus, 'a) prog \<Rightarrow> ('r connection, 'a \<times> reader) prog" where
  "on_reader rd p = (\<lambda>c.
     let (res, w) = p \<lparr>bu_reader = rd, bu_red = mc_red c\<rparr>;
         c1 = c\<lparr>mc_red := bu_red w,
                mc_readers := map (\<lambda>x. if rd_id x = rd_id rd then bu_reader w else x) (mc_readers c)\<rparr>
     in case res of Inl e \<Rightarrow> (Inl e, c1) | Inr x \<Rightarrow> (Inr (x, bu_reader w), c1))"

definition append_reader :: "reader \<Rightarrow> 'r connection \<Rightarrow> 'r connection" where
  "append_reader rd c = c\<lparr>mc_readers := mc_readers c @ [rd], mc_next := Suc (mc_next c)\<rparr>"

definition resolve_channel :: "'r ws_env \<Rightarrow> 'r connection \<Rightarrow> string \<Rightarrow> string result" where
  "resolve_channel E c channel =
     (let channel = py_strip channel
      in if channel = we_user_alias E then Inr (mc_user_id c)
         else if channel = we_session_alias E then Inr (mc_session_channel c)
         else if py_startswith channel ''service:config:'' then get_config_service_channel (be_channels (we_bus E)) channel
         else Inr channel)"

definition channels_to_remove :: "'r connection \<Rightarrow> subscription_operation \<Rightarrow> string list \<Rightarrow> (string \<times> nat) list \<Rightarrow> string list" where
  "channels_to_remove c operation channels subscribed =
     (if operation = Op_remove then filter (\<lambda>ch. ch \<noteq> mc_session_channel c \<and> dict_has subscribed ch) channels
      else if operation = Op_set then filter (\<lambda>ch. ch \<noteq> mc_session_channel c \<and> ch \<notin> set channels) (dict_keys subscribed)
      else [])"

definition remove_by_reader :: "(string \<times> nat) list \<Rightarrow> string list \<Rightarrow> (nat \<times> string list) list" where
  "remove_by_reader subscribed chans =
     fold (\<lambda>ch d. case map_of subscribed ch of
         None \<Rightarrow> d
       | Some i \<Rightarrow> dict_set i ((case map_of d i of None \<Rightarrow> [] | Some xs \<Rightarrow> xs) @ [ch]) d) chans []"

definition find_reader :: "'r connection \<Rightarrow> nat \<Rightarrow> reader option" where
  "find_reader c i = find (\<lambda>rd. rd_id rd = i) (mc_readers c)"

definition remove_from_reader :: "'r ws_env \<Rightarrow> nat \<times> string list \<Rightarrow> ('r connection, unit) prog" where
  "remove_from_reader E = (\<lambda>(i, chans) c.
     case find_reader c i of
       None \<Rightarrow> (Inr (), c)
     | Some rd \<Rightarrow>
         if sort chans = sort (get_channel_names rd)
         then (Inr (), c\<lparr>mc_readers := filter (\<lambda>x. rd_id x \<noteq> i) (mc_readers c), mc_stopped := mc_stopped c @ [stop_reader rd]\<rparr>)
         else bind_prog (on_reader rd (remove_channels (we_bus E) chans)) (\<lambda>_. return_prog ()) c)"

definition subscribe_service :: "'r ws_env \<Rightarrow> string \<Rightarrow> ('r connection, unit) prog" where
  "subscribe_service E channel = (\<lambda>c.
     case py_split1 CHR '':'' (mc_session_channel c) of
       None \<Rightarrow> (Inl IndexError, c)
     | Some (_, sid) \<Rightarrow>
         bind_prog (on_reader (consumer_group_message_reader (mc_next c) channel (mc_user_id c @ '':'' @ sid))
             (set_channels (we_bus E) [(channel, ''0'')]))
           (\<lambda>(_, rd). modify_prog (append_reader rd)) c)"

definition create_other_session :: "'r ws_env \<Rightarrow> string \<Rightarrow> ('r connection, unit) prog" where
  "create_other_session E channel = (\<lambda>c.
     let (res, r) = create_messagebus_session_channel (we_bus E) [] (mc_user_id c) (Some (py_split CHR '':'' channel ! 1)) True (mc_red c)
     in (case res of Inl e \<Rightarrow> Inl e | Inr _ \<Rightarrow> Inr (), c\<lparr>mc_red := r\<rparr>))"

text \<open>The loop over the channels to add. \<open>None\<close> stands for the early return after a refused channel;
  otherwise the channels for the common reader.\<close>

fun subscribe_channels :: "'r ws_env \<Rightarrow> int \<Rightarrow> message \<Rightarrow> string list \<Rightarrow> (string \<times> string) list \<Rightarrow>
    ('r connection, (string \<times> string) list option) prog" where
  "subscribe_channels E now event [] mrc = return_prog (Some mrc)"
| "subscribe_channels E now event (channel # channels) mrc =
     bind_prog (\<lambda>c. (check_channel_access E c channel Access_read, c)) (\<lambda>access.
       if \<not> access then
         then_prog (modify_prog (send_message_to_websocket now
             (event\<lparr>mb_body := Channel_subscription_event [] (Some (''Write access to channel '' @ channel @ '' denied''))\<rparr>)))
           (return_prog None)
       else if py_startswith channel ''service:'' then
         then_prog (subscribe_service E channel) (subscribe_channels E now event channels mrc)
       else
         then_prog (\<lambda>c. (if py_startswith channel ''session:'' \<and> channel \<noteq> mc_session_channel c
                         then create_other_session E channel else return_prog ()) c)
           (subscribe_channels E now event channels
             (dict_set channel (if py_startswith channel ''event:'' \<or> py_startswith channel ''session:'' then ''$'' else ''>'') mrc)))"

definition subscribe_common :: "'r ws_env \<Rightarrow> (string \<times> string) list \<Rightarrow> ('r connection, unit) prog" where
  "subscribe_common E mrc = (\<lambda>c.
     if mrc = [] then (Inr (), c)
     else (case find (\<lambda>rd. rd_group rd = None) (mc_readers c) of
         Some rd \<Rightarrow> bind_prog (on_reader rd (add_channels (we_bus E) mrc)) (\<lambda>_. return_prog ()) c
       | None \<Rightarrow>
           bind_prog (on_reader (message_reader (mc_next c)) (set_channels (we_bus E) mrc))
             (\<lambda>(_, rd). modify_prog (append_reader rd)) c))"

definition is_operation :: "subscription_operation \<Rightarrow> bool" where
  "is_operation operation = (operation \<in> {Op_add, Op_set, Op_remove})"

definition process_channel_subscription ::
  "'r ws_env \<Rightarrow> int \<Rightarrow> string list \<Rightarrow> (string \<times> subscription_operation) option \<Rightarrow> ('r connection, unit) prog" where
  "process_channel_subscription E now channels request = (\<lambda>c.
     let back_channel = (case request of None \<Rightarrow> [] | Some (b, _) \<Rightarrow> b);
         operation = (case request of None \<Rightarrow> Op_add | Some (_, op) \<Rightarrow> op);
         event = broker_message E (if back_channel = [] then mc_session_channel c else back_channel) (Channel_subscription_event [] None)
     in if \<not> is_operation operation then
          (if request = None then (Inl (ValueError ''Invalid operation''), c)
           else (Inr (), send_message_to_websocket now (event\<lparr>mb_body := Channel_subscription_event [] (Some ''Invalid operation'')\<rparr>) c))
        else
          bind_prog (lift_prog (map_res (resolve_channel E c) channels)) (\<lambda>channels.
          let subscribed = get_subscribed_channels c;
              removals = remove_by_reader subscribed (channels_to_remove c operation channels subscribed)
          in then_prog (iter_prog (remove_from_reader E) removals)
            (bind_prog (if operation = Op_remove then return_prog (Some []) else subscribe_channels E now event channels []) (\<lambda>mrc.
               case mrc of
                 None \<Rightarrow> return_prog ()
               | Some mrc \<Rightarrow>
                   then_prog (subscribe_common E mrc)
                     (modify_prog (\<lambda>c. send_message_to_websocket now
                        (event\<lparr>mb_body := Channel_subscription_event (dict_keys (get_subscribed_channels c)) None\<rparr>) c))))) c)"

section \<open>Received messages\<close>

definition resolve_own :: "'r ws_env \<Rightarrow> 'r connection \<Rightarrow> message \<Rightarrow> message result" where
  "resolve_own E c m =
     (let m = (if mb_back_channel m = [] \<or> mb_back_channel m = we_session_alias E then m\<lparr>mb_back_channel := mc_session_channel c\<rparr>
               else if mb_back_channel m = we_user_alias E then m\<lparr>mb_back_channel := mc_user_id c\<rparr> else m)
      in if mb_channel m = we_session_alias E then Inr (m\<lparr>mb_channel := mc_session_channel c\<rparr>)
         else if mb_channel m = we_user_alias E then Inr (m\<lparr>mb_channel := mc_user_id c\<rparr>)
         else if py_startswith (mb_channel m) ''service:config:''
         then bind_res (get_config_service_channel (be_channels (we_bus E)) (mb_channel m)) (\<lambda>ch. Inr (m\<lparr>mb_channel := ch\<rparr>))
         else Inr m)"

definition decode_message :: "'r ws_env \<Rightarrow> string \<Rightarrow> (string \<times> msg_value) list result" where
  "decode_message E data =
     bind_res (we_decode E data) (\<lambda>d. case d of D_dict m \<Rightarrow> Inr m | D_other \<Rightarrow> Inl (ValueError ''Invalid message received''))"

definition message_id :: "'r ws_env \<Rightarrow> string \<Rightarrow> msg_value option" where
  "message_id E data = (case decode_message E data of Inl _ \<Rightarrow> None | Inr d \<Rightarrow> map_of d ''id'')"

text \<open>The message as the broker takes it: the sender is set, the aliases are resolved, access is checked.\<close>

definition accept_message :: "'r ws_env \<Rightarrow> 'r connection \<Rightarrow> string \<Rightarrow> message result" where
  "accept_message E c data =
     bind_res (decode_message E data) (\<lambda>d.
     bind_res (of_option (map_of d ''id'') (KeyError ''id'')) (\<lambda>_.
     bind_res (we_from_dict E (dict_set ''sender'' (MV_str (mc_user_id c)) d)) (\<lambda>m.
     bind_res (resolve_own E c m) (\<lambda>m.
     bind_res (check_channel_access E c (mb_channel m) Access_write) (\<lambda>ok.
     bind_res (if ok then check_channel_access E c (mb_back_channel m) Access_write else Inr False) (\<lambda>ok.
       if \<not> ok then Inl (RuntimeError ''Read access to channel denied'')
       else if \<not> check_message_type_access E (mb_type m) then Inl (RuntimeError ''Access to message type denied - check license'')
       else Inr m))))))"

definition dispatch_message :: "'r ws_env \<Rightarrow> int \<Rightarrow> message \<Rightarrow> ('r connection, unit) prog" where
  "dispatch_message E now m =
     (case mb_body m of
        Channel_subscription_request channels operation \<Rightarrow>
          process_channel_subscription E now channels (Some (mb_back_channel m, operation))
      | _ \<Rightarrow>
          modify_prog (\<lambda>c. c\<lparr>mc_red := send_message (we_bus E) now (add_trace ''broker_ws_receive'' now m)
            (Some (serialize (we_codec E) (we_session E))) (mc_red c)\<rparr>))"

definition error_message :: "'r ws_env \<Rightarrow> 'r connection \<Rightarrow> string option \<Rightarrow> py_error \<Rightarrow> message" where
  "error_message E c ref_id err =
     broker_message E (mc_session_channel c)
       (General_error ref_id (we_error_text E err) (if is_admin (we_session E) then Some (we_traceback E err) else None))"

definition on_receive :: "'r ws_env \<Rightarrow> int \<Rightarrow> string \<Rightarrow> 'r connection \<Rightarrow> 'r connection" where
  "on_receive E now data c =
     (let (res, c1) = bind_prog (\<lambda>c. (accept_message E c data, c)) (\<lambda>m.
            then_prog (modify_prog (\<lambda>c. c\<lparr>mc_received := Suc (mc_received c)\<rparr>)) (dispatch_message E now m)) c
      in case res of
           Inr _ \<Rightarrow> c1
         | Inl err \<Rightarrow>
             send_message_to_websocket now (error_message E c1
               (case message_id E data of Some (MV_str i) \<Rightarrow> Some i | Some (MV_other i) \<Rightarrow> Some i | None \<Rightarrow> None) err) c1)"

section \<open>Connecting\<close>

definition host_kind :: "host \<Rightarrow> string" where
  "host_kind h = (if host_type h = OpsiClient then ''client'' else ''depot'')"

definition type_name :: "host_type \<Rightarrow> string" where
  "type_name t = (case t of OpsiClient \<Rightarrow> ''OpsiClient'' | OpsiDepotserver \<Rightarrow> ''OpsiDepotserver'' | OpsiConfigserver \<Rightarrow> ''OpsiConfigserver'')"

text \<open>The event of a connection that opens or closes; it has a channel only if the user has no other connection.\<close>

definition connection_event :: "'r ws_env \<Rightarrow> string \<Rightarrow> 'r \<Rightarrow> message" where
  "connection_event E what r =
     (let s = we_session E;
          base = [(''client_address'', client_addr s), (''worker'', we_worker_id E)];
          none = broker_message E [] (Event [] base)
      in case session_host s of
           Some h \<Rightarrow>
             if get_websocket_connected_users (we_bus E) r [host_id h] (Some (host_kind h)) \<noteq> [] then none
             else broker_message E (''event:host_'' @ what) (Event (''host_'' @ what)
                    (base @ [(''host.type'', type_name (host_type h)), (''host.id'', host_id h)]))
         | None \<Rightarrow>
             if get_websocket_connected_users (we_bus E) r [username s] (Some ''user'') \<noteq> [] then none
             else broker_message E (''event:user_'' @ what) (Event (''user_'' @ what)
                    (base @ [(''user.id'', username s), (''user.username'', username s)])))"

definition connection_user_id :: "'r ws_env \<Rightarrow> string result" where
  "connection_user_id E =
     (let s = we_session E
      in case session_host s of
           Some h \<Rightarrow> get_user_id_for_host (be_channels (we_bus E)) (host_id h)
         | None \<Rightarrow>
             if username s \<noteq> [] \<and> is_admin s then get_user_id_for_user (be_channels (we_bus E)) (username s)
             else Inl (HTTPException 403 ''Invalid session''))"

definition on_connect :: "'r ws_env \<Rightarrow> int \<Rightarrow> ('r connection, unit) prog" where
  "on_connect E now = (\<lambda>c.
     case connection_user_id E of
       Inl e \<Rightarrow> (Inl e, c)
     | Inr user_id \<Rightarrow>
         let event = connection_event E ''connected'' (mc_red c);
             c1 = c\<lparr>mc_user_id := user_id, mc_red := update_websocket_count (we_bus E) (we_session E) 1 (mc_red c)\<rparr>;
             (res, r) = create_messagebus_session_channel (we_bus E) (we_new_id E (mc_next c)) user_id None True (mc_red c1);
             c2 = c1\<lparr>mc_red := r\<rparr>
         in case res of
              Inl e \<Rightarrow> (Inl e, c2)
            | Inr channel \<Rightarrow>
                then_prog (process_channel_subscription E now [user_id, channel] None)
                  (modify_prog (\<lambda>c. c\<lparr>mc_red := send_message (we_bus E) now event None (mc_red c)\<rparr>))
                  (c2\<lparr>mc_session_channel := channel\<rparr>))"

definition on_disconnect :: "'r ws_env \<Rightarrow> int \<Rightarrow> 'r connection \<Rightarrow> 'r connection" where
  "on_disconnect E now c =
     (let c1 = c\<lparr>mc_readers := map stop_reader (mc_readers c)\<rparr>;
          r1 = delete_channel (we_bus E) (mc_session_channel c1) (update_websocket_count (we_bus E) (we_session E) (-1) (mc_red c1));
          event = connection_event E ''disconnected'' r1
      in if mb_channel event = [] \<or> (session_host (we_session E) = None \<and> username (we_session E) = []) then c1\<lparr>mc_red := r1\<rparr>
         else c1\<lparr>mc_red := send_message (we_bus E) now event None r1\<rparr>)"

datatype ws_input = Ws_receive string | Ws_disconnect | Ws_other

text \<open>The messages of the websocket up to the disconnection.\<close>

fun receive_loop :: "'r ws_env \<Rightarrow> int \<Rightarrow> ws_input list \<Rightarrow> 'r connection \<Rightarrow> 'r connection" where
  "receive_loop E now [] c = c"
| "receive_loop E now (Ws_receive data # inputs) c = receive_loop E now inputs (on_receive E now data c)"
| "receive_loop E now (Ws_other # inputs) c = receive_loop E now inputs c"
| "receive_loop E now (Ws_disconnect # inputs) c = c"

definition new_connection :: "'r \<Rightarrow> 'r connection" where
  "new_connection r =
     \<lparr>mc_user_id = [], mc_session_channel = [], mc_readers = [], mc_stopped = [], mc_next = 0, mc_red = r, mc_out = [],
      mc_connected = True, mc_received = 0, mc_sent = 0\<rparr>"

text \<open>The whole life of a connection; a failing \<open>on_connect\<close> ends it without \<open>on_disconnect\<close>.\<close>

definition dispatch :: "'r ws_env \<Rightarrow> int \<Rightarrow> opsisession option \<Rightarrow> string \<Rightarrow> ws_input list \<Rightarrow> ('r connection, unit) prog" where
  "dispatch E now session compression inputs = (\<lambda>c.
     case check_authorization session of
       Inl e \<Rightarrow> (Inl e, c)
     | Inr _ \<Rightarrow>
         if compression \<noteq> [] \<and> compression \<notin> {''lz4'', ''gzip''} then (Inl (HTTPException 400 ''Invalid compression''), c)
         else
           let E = E\<lparr>we_session := update_messagebus_last_used now (the session)\<rparr>
           in bind_prog (on_connect E now) (\<lambda>_. modify_prog (\<lambda>c. on_disconnect E now (receive_loop E now inputs c))) c)"

text \<open>Messages of a reader to the websocket: the user channel and consumer groups are acknowledged.\<close>

definition deliver :: "'r ws_env \<Rightarrow> int \<Rightarrow> reader \<Rightarrow> delivery \<Rightarrow> ('r connection, unit) prog" where
  "deliver E now rd = (\<lambda>(redis_id, m, context).
     then_prog (modify_prog (send_message_to_websocket now m))
       (\<lambda>c. when_prog (rd_group rd \<noteq> None \<or> mb_channel m = mc_user_id c)
              (bind_prog (on_reader (case find_reader c (rd_id rd) of Some x \<Rightarrow> x | None \<Rightarrow> rd) (ack_message (we_bus E) (mb_channel m) redis_id)) (\<lambda>_. return_prog ())) c))"

definition message_reader_task :: "'r ws_env \<Rightarrow> int \<Rightarrow> reader \<Rightarrow> delivery list \<Rightarrow> 'r connection \<Rightarrow> 'r connection" where
  "message_reader_task E now rd ds c = snd (iter_prog (deliver E now rd) ds c)"

text \<open>One turn of the manager task: the session is refreshed every thirty seconds, a deleted session closes the connection.\<close>

definition manager_turn :: "'r ws_env \<Rightarrow> int \<Rightarrow> int \<times> opsisession \<times> 'r connection \<Rightarrow> int \<times> opsisession \<times> 'r connection" where
  "manager_turn E now = (\<lambda>(update_time, s, c).
     if mc_connected c \<and> update_time + 30 * usec \<le> now then
       (if deleted s then
          (update_time, s, (send_message_to_websocket now
             (broker_message E (mc_session_channel c) (General_error None ''Session deleted'' None)) c)\<lparr>mc_connected := False\<rparr>)
        else (now, update_messagebus_last_used now s, c))
     else (update_time, s, c))"

section \<open>Readers and their channels\<close>

text \<open>Updating the streams changes neither the channels nor the identity of a reader.\<close>

definition same_channels :: "reader \<Rightarrow> 'r bus \<Rightarrow> bool" where
  "same_channels rd w \<longleftrightarrow> rd_channels (bu_reader w) = rd_channels rd \<and> rd_id (bu_reader w) = rd_id rd \<and> rd_group (bu_reader w) = rd_group rd"

lemma same_channels_streams [simp]:
  "same_channels rd (put_stream k i w) = same_channels rd w" "same_channels rd (del_stream k w) = same_channels rd w"
  "same_channels rd (w\<lparr>bu_red := r\<rparr>) = same_channels rd w"
  by (simp_all add: same_channels_def put_stream_def del_stream_def)

lemma keeps_count [keeps_intros]: "keeps (same_channels rd) (count_reader E k n)"
  by (auto simp: keeps_def count_reader_def split: sum.splits)

lemma keeps_add_stream [keeps_intros]:
  fixes E :: "'r bus_env"
  shows "keeps (same_channels rd) (add_stream E x)"
  unfolding keeps_def
proof (intro allI impI)
  fix w :: "'r bus"
  assume w: "same_channels rd w"
  obtain ch i where x: "x = (ch, i)" by fastforce
  have "keeps (same_channels rd) (bind_prog (lift_prog (start_id E (bu_red w) (channel_key E ch) i)) (\<lambda>j.
      then_prog (count_reader E (channel_key E ch) 1) (modify_prog (put_stream (channel_key E ch) j))))"
    by (intro keeps_intros) simp
  then show "same_channels rd (snd (add_stream E x w))" using w by (simp add: x add_stream_def Let_def keeps_def)
qed

lemma keeps_drop_stream [keeps_intros]: "keeps (same_channels rd) (drop_stream E ks k)"
  unfolding drop_stream_def by (intro keeps_intros) simp

lemma keeps_drop_streams: "keeps (same_channels rd) (iter_prog (drop_stream E ks) xs)"
  by (intro keeps_intros)

lemma keeps_accept [keeps_intros]: "keeps (same_channels rd) (accept_response known f)"
  by (auto simp: keeps_def accept_response_def Let_def split: prod.splits sum.splits py_error.splits)

lemma keeps_group_stream [keeps_intros]: "keeps (same_channels rd) (add_group_stream E g n x)"
  unfolding add_group_stream_def split_def Let_def by (intro keeps_intros) simp

lemma keeps_del_streams: "keeps (same_channels rd) (iter_prog (\<lambda>key. when_prog (key \<notin> set ks) (modify_prog (del_stream key))) xs)"
  by (intro keeps_intros) simp

lemma update_streams_channels:
  fixes w :: "'r bus"
  assumes w: "same_channels rd w"
  shows "same_channels rd (snd (update_streams E w))"
proof -
  show ?thesis
  proof (cases "rd_group (bu_reader w)")
    case None
    have "keeps (same_channels rd) (then_prog (iter_prog (add_stream E) cs) (\<lambda>w. iter_prog (drop_stream E ks) (dict_keys (rd_streams (bu_reader w))) w))"
      for cs ks
      using keeps_drop_streams[of rd E ks] by (intro keeps_bind keeps_iter keeps_add_stream) (simp add: keeps_def)
    then show ?thesis using w None by (simp add: update_streams_def Let_def keeps_def)
  next
    case (Some gn)
    obtain g n where gn: "gn = (g, n)" by fastforce
    have "keeps (same_channels rd) (then_prog (iter_prog (add_group_stream E g n) cs)
        (\<lambda>w. iter_prog (\<lambda>key. when_prog (key \<notin> set ks) (modify_prog (del_stream key))) (dict_keys (rd_streams (bu_reader w))) w))"
      for cs ks
    proof (intro keeps_bind keeps_iter keeps_group_stream)
      have "keeps (same_channels rd :: 'r bus \<Rightarrow> bool) (iter_prog (\<lambda>key. when_prog (key \<notin> set ks) (modify_prog (del_stream key))) xs)" for xs
        by (rule keeps_del_streams)
      then show "keeps (same_channels rd :: 'r bus \<Rightarrow> bool)
          (\<lambda>w. iter_prog (\<lambda>key. when_prog (key \<notin> set ks) (modify_prog (del_stream key))) (dict_keys (rd_streams (bu_reader w))) w)"
        by (simp add: keeps_def)
    qed
    then show ?thesis using w unfolding update_streams_def Let_def Some gn option.case prod.case keeps_def by blast
  qed
qed

lemma change_channels:
  assumes "(res, w1) = then_prog (modify_prog (on_channels f)) (update_streams E) w"
  shows "rd_channels (bu_reader w1) = f (rd_channels (bu_reader w)) \<and> rd_id (bu_reader w1) = rd_id (bu_reader w) \<and>
    rd_group (bu_reader w1) = rd_group (bu_reader w)"
  using update_streams_channels[of "bu_reader (on_channels f w)" "on_channels f w" E] assms
  by (auto simp: bind_prog_run same_channels_def on_channels_def dest: arg_cong[of _ _ snd])

lemma on_reader_channels:
  assumes "on_reader rd (then_prog (modify_prog (on_channels f)) (update_streams E)) c = (res, c1)"
  shows "\<exists>rd1. rd_channels rd1 = f (rd_channels rd) \<and> rd_id rd1 = rd_id rd \<and> rd_group rd1 = rd_group rd \<and>
    mc_readers c1 = map (\<lambda>x. if rd_id x = rd_id rd then rd1 else x) (mc_readers c) \<and>
    (\<exists>r. c1 = c\<lparr>mc_red := r, mc_readers := mc_readers c1\<rparr>) \<and> (\<forall>y. res = Inr y \<longrightarrow> y = ((), rd1))"
proof -
  obtain q w where q: "then_prog (modify_prog (on_channels f)) (update_streams E) \<lparr>bu_reader = rd, bu_red = mc_red c\<rparr> = (q, w)" by fastforce
  note r = assms[unfolded on_reader_def q Let_def prod.case]
  from change_channels[OF q[symmetric]] r show ?thesis
    by (intro exI[of _ "bu_reader w"]) (auto split: sum.splits)
qed

text \<open>Which reader reads which channel, and the channels that are read at all.\<close>

definition assigned :: "'r connection \<Rightarrow> (nat \<times> string) set" where
  "assigned c = {(rd_id rd, ch) | rd ch. rd \<in> set (mc_readers c) \<and> ch \<in> set (get_channel_names rd)}"

definition subscribed_names :: "'r connection \<Rightarrow> string set" where
  "subscribed_names c = snd ` assigned c"

lemma assigned_iff: "(i, ch) \<in> assigned c \<longleftrightarrow> (\<exists>rd \<in> set (mc_readers c). rd_id rd = i \<and> ch \<in> set (get_channel_names rd))"
  by (auto simp: assigned_def)

text \<open>Readers are distinct objects; a channel can have more than one of them.\<close>

definition readers_ok :: "'r connection \<Rightarrow> bool" where
  "readers_ok c \<longleftrightarrow> distinct (map rd_id (mc_readers c)) \<and> (\<forall>rd \<in> set (mc_readers c). rd_id rd < mc_next c)"

definition doubled :: "'r connection \<Rightarrow> string set" where
  "doubled c = {ch. \<exists>i j. i \<noteq> j \<and> (i, ch) \<in> assigned c \<and> (j, ch) \<in> assigned c}"

text \<open>The parts of a connection that no subscription changes.\<close>

definition same_connection :: "'r connection \<Rightarrow> 'r connection \<Rightarrow> bool" where
  "same_connection c1 c \<longleftrightarrow> mc_user_id c1 = mc_user_id c \<and> mc_session_channel c1 = mc_session_channel c"

lemma same_connection_refl [simp]: "same_connection c c"
  by (simp add: same_connection_def)

lemma same_connection_trans: "same_connection c2 c1 \<Longrightarrow> same_connection c1 c \<Longrightarrow> same_connection c2 c"
  by (simp add: same_connection_def)

lemma websocket_send_simps [simp]:
  "mc_readers (send_message_to_websocket now m c) = mc_readers c" "mc_red (send_message_to_websocket now m c) = mc_red c"
  "mc_next (send_message_to_websocket now m c) = mc_next c" "mc_user_id (send_message_to_websocket now m c) = mc_user_id c"
  "mc_session_channel (send_message_to_websocket now m c) = mc_session_channel c"
  "assigned (send_message_to_websocket now m c) = assigned c" "readers_ok (send_message_to_websocket now m c) = readers_ok c"
  by (simp_all add: send_message_to_websocket_def assigned_def readers_ok_def)

lemma dict_keys_del_set: "set (dict_keys (dict_del k d)) = set (dict_keys d) - {k}"
  unfolding dict_keys_def delete_keys by auto

lemma dict_keys_fold_del: "set (dict_keys (fold dict_del ks d)) = set (dict_keys d) - set ks"
  by (induction ks arbitrary: d) (auto simp: dict_keys_del_set)

lemma dict_keys_fold_set: "set (dict_keys (fold (\<lambda>(k, v). dict_set k v) kvs d)) = set (dict_keys d) \<union> set (dict_keys kvs)"
proof (induction kvs arbitrary: d)
  case (Cons x kvs)
  then show ?case by (cases x) (auto simp: dict_keys_set, auto simp: dict_keys_def)
qed (simp add: dict_keys_def)

lemma on_reader_assigned:
  assumes "on_reader rd (then_prog (modify_prog (on_channels f)) (update_streams E)) c = (res, c1)" "readers_ok c"
  shows "readers_ok c1 \<and> same_connection c1 c \<and> mc_next c1 = mc_next c \<and>
    (rd \<in> set (mc_readers c) \<longrightarrow>
      assigned c1 = {(i, ch). (i \<noteq> rd_id rd \<and> (i, ch) \<in> assigned c) \<or> (i = rd_id rd \<and> ch \<in> set (dict_keys (f (rd_channels rd))))}) \<and>
    (rd_id rd = mc_next c \<longrightarrow> mc_readers c1 = mc_readers c)"
proof -
  obtain rd1 r where rd1: "rd_channels rd1 = f (rd_channels rd)" "rd_id rd1 = rd_id rd"
    "mc_readers c1 = map (\<lambda>x. if rd_id x = rd_id rd then rd1 else x) (mc_readers c)" "c1 = c\<lparr>mc_red := r, mc_readers := mc_readers c1\<rparr>"
    using on_reader_channels[OF assms(1)] by blast
  have nx: "mc_next c1 = mc_next c" "mc_user_id c1 = mc_user_id c" "mc_session_channel c1 = mc_session_channel c"
    using arg_cong[OF rd1(4), of mc_next] arg_cong[OF rd1(4), of mc_user_id] arg_cong[OF rd1(4), of mc_session_channel] by simp_all
  have ids: "map rd_id (mc_readers c1) = map rd_id (mc_readers c)" unfolding rd1(3) by (auto simp: rd1(2))
  have lt: "\<forall>x \<in> set (mc_readers c1). rd_id x < mc_next c"
    using assms(2) by (auto simp: rd1(3) rd1(2) readers_ok_def)
  have "readers_ok c1" using assms(2) ids lt nx(1) by (simp add: readers_ok_def)
  moreover have "assigned c1 = {(i, ch). (i \<noteq> rd_id rd \<and> (i, ch) \<in> assigned c) \<or> (i = rd_id rd \<and> ch \<in> set (dict_keys (f (rd_channels rd))))}"
    if "rd \<in> set (mc_readers c)"
  proof -
    have "set (mc_readers c1) = insert rd1 {x \<in> set (mc_readers c). rd_id x \<noteq> rd_id rd}" unfolding rd1(3) using that by auto
    then show ?thesis using rd1(1,2) by (auto simp: assigned_iff get_channel_names_def)
  qed
  moreover have "mc_readers c1 = mc_readers c" if "rd_id rd = mc_next c"
    unfolding rd1(3) using assms(2) that by (auto simp: readers_ok_def intro!: map_idI)
  ultimately show ?thesis using nx by (simp add: same_connection_def)
qed

lemma remove_from_reader_assigned:
  assumes "remove_from_reader E (i, chans) c = (Inr (), c1)" "readers_ok c"
  shows "readers_ok c1 \<and> same_connection c1 c \<and> assigned c1 = assigned c - {i} \<times> set chans"
proof (cases "find_reader c i")
  case None
  then have "\<forall>rd \<in> set (mc_readers c). rd_id rd \<noteq> i" by (auto simp: find_reader_def find_None_iff)
  then have "assigned c = assigned c - {i} \<times> set chans" by (auto simp: assigned_def)
  then show ?thesis using None assms by (simp add: remove_from_reader_def)
next
  case (Some rd)
  then have rd: "rd \<in> set (mc_readers c)" "rd_id rd = i" by (auto simp: find_reader_def find_Some_iff)
  have unique: "x = rd" if "x \<in> set (mc_readers c)" "rd_id x = i" for x
    using assms(2) rd that by (auto simp: readers_ok_def distinct_map inj_on_def)
  have own: "(i, ch) \<in> assigned c \<longleftrightarrow> ch \<in> set (get_channel_names rd)" for ch
    using rd unique unfolding assigned_def by blast
  show ?thesis
  proof (cases "sort chans = sort (get_channel_names rd)")
    case True
    then have c1: "c1 = c\<lparr>mc_readers := filter (\<lambda>x. rd_id x \<noteq> i) (mc_readers c), mc_stopped := mc_stopped c @ [stop_reader rd]\<rparr>"
      using assms(1) Some by (simp add: remove_from_reader_def)
    have "set chans = set (get_channel_names rd)" using True by (metis set_sort)
    moreover have "(j, ch) \<in> assigned c1 \<longleftrightarrow> j \<noteq> i \<and> (j, ch) \<in> assigned c" for j ch by (auto simp: c1 assigned_iff)
    ultimately have "assigned c1 = assigned c - {i} \<times> set chans" using own by auto
    then show ?thesis using assms(2) by (auto simp: c1 readers_ok_def same_connection_def distinct_map_filter)
  next
    case False
    then obtain y where "on_reader rd (remove_channels (we_bus E) chans) c = (Inr y, c1)"
      using assms(1) Some by (auto simp: remove_from_reader_def bind_prog_Inr)
    from on_reader_assigned[OF this[unfolded remove_channels_def] assms(2)] rd own
    show ?thesis by (auto simp: dict_keys_fold_del get_channel_names_def)
  qed
qed

lemma remove_all_assigned:
  assumes "iter_prog (remove_from_reader E) removals c = (Inr (), c1)" "readers_ok c"
  shows "readers_ok c1 \<and> same_connection c1 c \<and> assigned c1 = assigned c - {(i, ch). \<exists>chans. (i, chans) \<in> set removals \<and> ch \<in> set chans}"
  using assms
proof (induction removals arbitrary: c)
  case (Cons x removals)
  obtain i chans where x: "x = (i, chans)" by fastforce
  obtain c2 where c2: "remove_from_reader E (i, chans) c = (Inr (), c2)" "iter_prog (remove_from_reader E) removals c2 = (Inr (), c1)"
    using Cons.prems(1) by (auto simp: x bind_prog_Inr)
  note one = remove_from_reader_assigned[OF c2(1) Cons.prems(2)]
  then show ?case using Cons.IH[OF c2(2)] by (auto simp: x intro: same_connection_trans)
qed simp

text \<open>The dictionary of subscribed channels.\<close>

lemma fold_names: "map_of (fold (\<lambda>ch. dict_set ch i) names d) ch = (if ch \<in> set names then Some i else map_of d ch)"
  by (induction names arbitrary: d) auto

lemma subscribed_fold:
  fixes rds :: "reader list" and d :: "(string \<times> nat) list"
  defines "f \<equiv> \<lambda>rd d. fold (\<lambda>ch. dict_set ch (rd_id rd)) (get_channel_names rd) d"
  shows "map_of (fold f rds d) ch = Some i \<Longrightarrow> map_of d ch = Some i \<or> (\<exists>rd \<in> set rds. rd_id rd = i \<and> ch \<in> set (get_channel_names rd))"
    and "map_of (fold f rds d) ch = None \<longleftrightarrow> map_of d ch = None \<and> (\<forall>rd \<in> set rds. ch \<notin> set (get_channel_names rd))"
proof (induction rds arbitrary: d)
  case (Cons rd rds)
  case 1
  then have "map_of (f rd d) ch = Some i \<or> (\<exists>rd \<in> set rds. rd_id rd = i \<and> ch \<in> set (get_channel_names rd))"
    using Cons(1)[of "f rd d"] by simp
  then show ?case by (auto simp: f_def fold_names split: if_splits)
next
  case (Cons rd rds)
  case 2
  show ?case using Cons(2)[of "f rd d"] by (auto simp: f_def fold_names)
qed simp_all

lemma get_subscribed_channels_iff:
  "map_of (get_subscribed_channels c) ch = Some i \<Longrightarrow> (i, ch) \<in> assigned c"
  "dict_has (get_subscribed_channels c) ch \<longleftrightarrow> ch \<in> subscribed_names c"
proof -
  show "(i, ch) \<in> assigned c" if "map_of (get_subscribed_channels c) ch = Some i"
    using subscribed_fold(1)[of "mc_readers c" "[]" ch i] that by (simp add: get_subscribed_channels_def assigned_iff)
  have "map_of (get_subscribed_channels c) ch = None \<longleftrightarrow> (\<forall>rd \<in> set (mc_readers c). ch \<notin> set (get_channel_names rd))"
    using subscribed_fold(2)[of "mc_readers c" "[]" ch] by (simp add: get_subscribed_channels_def)
  then show "dict_has (get_subscribed_channels c) ch \<longleftrightarrow> ch \<in> subscribed_names c"
    by (force simp: dict_has_iff subscribed_names_def assigned_def image_iff)
qed

lemma remove_by_reader_lookup:
  "map_of (remove_by_reader sub chans) i =
     (if filter (\<lambda>ch. map_of sub ch = Some i) chans = [] then None else Some (filter (\<lambda>ch. map_of sub ch = Some i) chans))"
proof -
  let ?f = "\<lambda>ch d. case map_of sub ch of None \<Rightarrow> d | Some i \<Rightarrow> dict_set i ((case map_of d i of None \<Rightarrow> [] | Some xs \<Rightarrow> xs) @ [ch]) d"
  have "map_of (fold ?f chans d) i = (let new = filter (\<lambda>ch. map_of sub ch = Some i) chans
      in if new = [] then map_of d i else Some ((case map_of d i of None \<Rightarrow> [] | Some xs \<Rightarrow> xs) @ new))" for d
    by (induction chans arbitrary: d) (auto simp: Let_def split: option.splits)
  from this[of "[]"] show ?thesis by (simp add: remove_by_reader_def Let_def)
qed

lemma remove_by_reader_wf: "dict_wf (remove_by_reader sub chans)"
proof -
  let ?f = "\<lambda>ch d. case map_of sub ch of None \<Rightarrow> d | Some i \<Rightarrow> dict_set i ((case map_of d i of None \<Rightarrow> [] | Some xs \<Rightarrow> xs) @ [ch]) d"
  have "dict_wf d \<Longrightarrow> dict_wf (fold ?f chans d)" for d
    by (induction chans arbitrary: d) (auto split: option.splits)
  then show ?thesis by (simp add: remove_by_reader_def)
qed

lemma remove_by_reader_pairs:
  "(\<exists>xs. (i, xs) \<in> set (remove_by_reader sub chans) \<and> ch \<in> set xs) \<longleftrightarrow> ch \<in> set chans \<and> map_of sub ch = Some i"
proof -
  have "(i, xs) \<in> set (remove_by_reader sub chans) \<longleftrightarrow> map_of (remove_by_reader sub chans) i = Some xs" for xs
    using remove_by_reader_wf[of sub chans] by (simp add: dict_wf_def)
  then show ?thesis by (auto simp: remove_by_reader_lookup filter_empty_conv split: if_splits)
qed

text \<open>The channels that remain: of a channel with several readers one is removed, the others go on.\<close>

lemma removal_phase:
  assumes "iter_prog (remove_from_reader E) (remove_by_reader (get_subscribed_channels c) chans) c = (Inr (), c1)" "readers_ok c"
  shows "readers_ok c1 \<and> same_connection c1 c \<and> subscribed_names c1 = subscribed_names c - (set chans - doubled c)"
proof -
  let ?sub = "get_subscribed_channels c"
  have run: "readers_ok c1 \<and> same_connection c1 c"
    and rest: "(i, ch) \<in> assigned c1 \<longleftrightarrow> (i, ch) \<in> assigned c \<and> \<not> (ch \<in> set chans \<and> map_of ?sub ch = Some i)" for i ch
    using remove_all_assigned[OF assms] by (auto simp: remove_by_reader_pairs)
  have "ch \<in> subscribed_names c1 \<longleftrightarrow> ch \<in> subscribed_names c - (set chans - doubled c)" for ch
  proof -
    have names: "ch \<in> subscribed_names x \<longleftrightarrow> (\<exists>i. (i, ch) \<in> assigned x)" for x :: "'a connection"
      by (force simp: subscribed_names_def)
    show ?thesis
    proof (cases "ch \<in> set chans \<and> ch \<in> subscribed_names c")
      case True
      then obtain j where j: "map_of ?sub ch = Some j"
        using get_subscribed_channels_iff(2)[of c ch] by (auto simp: dict_has_iff)
      note aj = get_subscribed_channels_iff(1)[OF j]
      have "ch \<in> subscribed_names c1 \<longleftrightarrow> (\<exists>i. (i, ch) \<in> assigned c \<and> i \<noteq> j)"
        using True j by (auto simp: names rest)
      also have "\<dots> \<longleftrightarrow> ch \<in> doubled c" using aj by (auto simp: doubled_def)
      finally show ?thesis using True by simp
    next
      case False
      then show ?thesis by (auto simp: names rest)
    qed
  qed
  then show ?thesis using run by blast
qed

text \<open>Adding a reader, and adding channels.\<close>

lemma new_reader_assigned:
  assumes "bind_prog (on_reader rd (set_channels B mrc)) (\<lambda>(_, rd). modify_prog (append_reader rd)) c = (Inr (), c1)"
    and "rd_id rd = mc_next c" "readers_ok c"
  shows "readers_ok c1 \<and> same_connection c1 c \<and> assigned c1 = assigned c \<union> {mc_next c} \<times> set (dict_keys mrc)"
proof -
  obtain y rd1 c2 where o: "on_reader rd (set_channels B mrc) c = (Inr (y, rd1), c2)" "c1 = append_reader rd1 c2"
    using assms(1) by (auto simp: bind_prog_Inr)
  have rd1: "rd_channels rd1 = mrc" "rd_id rd1 = mc_next c"
    using on_reader_channels[OF o(1)[unfolded set_channels_def]] assms(2) by auto
  have c2: "readers_ok c2" "same_connection c2 c" "mc_next c2 = mc_next c" "mc_readers c2 = mc_readers c"
    using on_reader_assigned[OF o(1)[unfolded set_channels_def] assms(3)] assms(2) by auto
  have "readers_ok c1"
    using assms(3) rd1(2) c2(3,4) by (auto simp: o(2) append_reader_def readers_ok_def)
  moreover have "(i, ch) \<in> assigned c1 \<longleftrightarrow> (i, ch) \<in> assigned c \<union> {mc_next c} \<times> set (dict_keys mrc)" for i ch
    using rd1 c2(4) by (auto simp: o(2) append_reader_def assigned_iff get_channel_names_def)
  ultimately show ?thesis using c2(2) by (auto simp: o(2) append_reader_def same_connection_def)
qed

lemma subscribe_service_assigned:
  assumes "subscribe_service E channel c = (Inr (), c1)" "readers_ok c"
  shows "readers_ok c1 \<and> same_connection c1 c \<and> assigned c1 = assigned c \<union> {(mc_next c, channel)}"
proof -
  obtain a sid where "py_split1 CHR '':'' (mc_session_channel c) = Some (a, sid)"
    using assms(1) by (auto simp: subscribe_service_def split: option.splits)
  then have "bind_prog (on_reader (consumer_group_message_reader (mc_next c) channel (mc_user_id c @ '':'' @ sid))
      (set_channels (we_bus E) [(channel, ''0'')])) (\<lambda>(_, rd). modify_prog (append_reader rd)) c = (Inr (), c1)"
    using assms(1) by (simp add: subscribe_service_def)
  from new_reader_assigned[OF this _ assms(2)] show ?thesis
    by (auto simp: consumer_group_message_reader_def message_reader_def dict_keys_def)
qed

lemma check_channel_access_same: "same_connection c1 c \<Longrightarrow> check_channel_access E c1 ch op = check_channel_access E c ch op"
  by (simp add: check_channel_access_def same_connection_def)

lemma create_other_session_run: "create_other_session E channel c = (r, c1) \<Longrightarrow> \<exists>x. c1 = c\<lparr>mc_red := x\<rparr>"
  by (auto simp: create_other_session_def Let_def split: prod.splits)

lemma red_simps [simp]:
  "readers_ok (c\<lparr>mc_red := x\<rparr>) = readers_ok c" "assigned (c\<lparr>mc_red := x\<rparr>) = assigned c" "same_connection (c\<lparr>mc_red := x\<rparr>) c0 = same_connection c c0"
  by (simp_all add: readers_ok_def assigned_def same_connection_def)

lemma subscribe_channels_assigned:
  assumes "subscribe_channels E now event chs mrc c = (Inr res, c1)" "readers_ok c"
    and "\<forall>ch \<in> set chs. check_channel_access E c ch Access_read = Inr True"
  shows "\<exists>mrc1. res = Some mrc1 \<and> readers_ok c1 \<and> same_connection c1 c \<and>
    subscribed_names c1 = subscribed_names c \<union> {ch \<in> set chs. py_startswith ch ''service:''} \<and>
    set (dict_keys mrc1) = set (dict_keys mrc) \<union> {ch \<in> set chs. \<not> py_startswith ch ''service:''}"
  using assms
proof (induction chs arbitrary: mrc c)
  case (Cons ch chs)
  have access: "check_channel_access E c ch Access_read = Inr True" using Cons.prems(3) by simp
  show ?case
  proof (cases "py_startswith ch ''service:''")
    case True
    obtain c2 where c2: "subscribe_service E ch c = (Inr (), c2)" "subscribe_channels E now event chs mrc c2 = (Inr res, c1)"
      using Cons.prems(1) access True by (auto simp: bind_prog_Inr)
    note one = subscribe_service_assigned[OF c2(1) Cons.prems(2)]
    have "\<forall>x \<in> set chs. check_channel_access E c2 x Access_read = Inr True"
      using Cons.prems(3) one check_channel_access_same[of c2 c E] by simp
    from Cons.IH[OF c2(2) _ this] one True show ?thesis
      by (auto simp: subscribed_names_def intro: same_connection_trans)
  next
    case False
    let ?mrc = "dict_set ch (if py_startswith ch ''event:'' \<or> py_startswith ch ''session:'' then ''$'' else ''>'') mrc"
    have eq: "subscribe_channels E now event (ch # chs) mrc c =
        then_prog (\<lambda>c. (if py_startswith ch ''session:'' \<and> ch \<noteq> mc_session_channel c then create_other_session E ch else return_prog ()) c)
          (subscribe_channels E now event chs ?mrc) c"
      using access False by (simp add: bind_prog_run)
    obtain c2 where c2: "(if py_startswith ch ''session:'' \<and> ch \<noteq> mc_session_channel c then create_other_session E ch else return_prog ()) c = (Inr (), c2)"
      "subscribe_channels E now event chs ?mrc c2 = (Inr res, c1)"
      using Cons.prems(1) unfolding eq bind_prog_Inr by auto
    obtain x where x: "c2 = c \<or> c2 = c\<lparr>mc_red := x\<rparr>" using c2(1) create_other_session_run[of E ch c] by (auto split: if_splits)
    then have same: "readers_ok c2" "same_connection c2 c" "assigned c2 = assigned c" using Cons.prems(2) by auto
    have "\<forall>x \<in> set chs. check_channel_access E c2 x Access_read = Inr True"
      using Cons.prems(3) same(2) check_channel_access_same[of c2 c E] by simp
    from Cons.IH[OF c2(2) same(1) this] same False show ?thesis
      by (auto simp: subscribed_names_def dict_keys_set intro: same_connection_trans)
  qed
qed auto

lemma subscribe_common_assigned:
  assumes "subscribe_common E mrc c = (Inr (), c1)" "readers_ok c"
  shows "subscribed_names c1 = subscribed_names c \<union> set (dict_keys mrc)"
proof (cases "mrc = []")
  case True
  then show ?thesis using assms(1) by (auto simp: subscribe_common_def dict_keys_def)
next
  case False
  show ?thesis
  proof (cases "find (\<lambda>rd. rd_group rd = None) (mc_readers c)")
    case None
    then have "bind_prog (on_reader (message_reader (mc_next c)) (set_channels (we_bus E) mrc)) (\<lambda>(_, rd). modify_prog (append_reader rd)) c = (Inr (), c1)"
      using assms(1) False by (simp add: subscribe_common_def)
    from new_reader_assigned[OF this _ assms(2)] show ?thesis by (force simp: message_reader_def subscribed_names_def)
  next
    case (Some rd)
    then have rd: "rd \<in> set (mc_readers c)" by (auto simp: find_Some_iff)
    obtain y where "on_reader rd (add_channels (we_bus E) mrc) c = (Inr y, c1)"
      using assms(1) False Some by (auto simp: subscribe_common_def bind_prog_Inr)
    from on_reader_assigned[OF this[unfolded add_channels_def] assms(2)] rd
    have a: "assigned c1 = {(i, ch). (i \<noteq> rd_id rd \<and> (i, ch) \<in> assigned c) \<or>
        (i = rd_id rd \<and> ch \<in> set (dict_keys (rd_channels rd)) \<union> set (dict_keys mrc))}"
      by (simp add: dict_keys_fold_set)
    have unique: "x = rd" if "x \<in> set (mc_readers c)" "rd_id x = rd_id rd" for x
      using assms(2) rd that by (auto simp: readers_ok_def distinct_map inj_on_def)
    have "(rd_id rd, ch) \<in> assigned c \<longleftrightarrow> ch \<in> set (dict_keys (rd_channels rd))" for ch
      unfolding assigned_iff using rd unique get_channel_names_def by metis
    then have "assigned c1 = assigned c \<union> {rd_id rd} \<times> set (dict_keys mrc)" unfolding a by auto
    then show ?thesis by (force simp: subscribed_names_def)
  qed
qed

section \<open>Subscriptions as sets of channels\<close>

text \<open>The operations on the set \<open>S\<close> of channels that are read; \<open>D\<close> are the channels that are read twice.\<close>

definition subscription_spec :: "subscription_operation \<Rightarrow> string \<Rightarrow> string set \<Rightarrow> string set \<Rightarrow> string set \<Rightarrow> string set" where
  "subscription_spec operation session C D S =
     (case operation of
        Op_add \<Rightarrow> S \<union> C
      | Op_set \<Rightarrow> C \<union> (S \<inter> insert session D)
      | Op_remove \<Rightarrow> S - (C - insert session D)
      | Op_other _ \<Rightarrow> S)"

lemma process_steps:
  assumes "process_channel_subscription E now channels (Some (back, operation)) c = (Inr (), c1)" "is_operation operation"
    and "map_res (resolve_channel E c) channels = Inr C"
  obtains c2 event mrc c3 where
    "iter_prog (remove_from_reader E)
       (remove_by_reader (get_subscribed_channels c) (channels_to_remove c operation C (get_subscribed_channels c))) c = (Inr (), c2)"
    "(if operation = Op_remove then return_prog (Some []) else subscribe_channels E now event C []) c2 = (Inr mrc, c3)"
    "mrc \<noteq> None \<longrightarrow> (\<exists>c4. subscribe_common E (the mrc) c3 = (Inr (), c4) \<and> assigned c1 = assigned c4 \<and> readers_ok c1 = readers_ok c4)"
proof -
  let ?event = "broker_message E (if back = [] then mc_session_channel c else back) (Channel_subscription_event [] None)"
  let ?rem = "remove_by_reader (get_subscribed_channels c) (channels_to_remove c operation C (get_subscribed_channels c))"
  obtain c2 mrc c3 where s: "iter_prog (remove_from_reader E) ?rem c = (Inr (), c2)"
    "(if operation = Op_remove then return_prog (Some []) else subscribe_channels E now ?event C []) c2 = (Inr mrc, c3)"
    "(case mrc of None \<Rightarrow> return_prog () | Some mrc \<Rightarrow>
        then_prog (subscribe_common E mrc) (modify_prog (\<lambda>c. send_message_to_websocket now
          (?event\<lparr>mb_body := Channel_subscription_event (dict_keys (get_subscribed_channels c)) None\<rparr>) c))) c3 = (Inr (), c1)"
    using assms by (auto simp: process_channel_subscription_def Let_def bind_prog_Inr)
  have "mrc \<noteq> None \<longrightarrow> (\<exists>c4. subscribe_common E (the mrc) c3 = (Inr (), c4) \<and> assigned c1 = assigned c4 \<and> readers_ok c1 = readers_ok c4)"
    using s(3) by (auto simp: bind_prog_Inr)
  then show thesis by (rule that[OF s(1,2)])
qed

lemma subscription_refines_spec:
  assumes "process_channel_subscription E now channels (Some (back, operation)) c = (Inr (), c1)" "is_operation operation"
    and "map_res (resolve_channel E c) channels = Inr C"
    and "operation \<noteq> Op_remove \<longrightarrow> (\<forall>ch \<in> set C. check_channel_access E c ch Access_read = Inr True)"
    and ok: "readers_ok c"
  shows "subscribed_names c1 = subscription_spec operation (mc_session_channel c) (set C) (doubled c) (subscribed_names c)"
proof -
  let ?rem = "channels_to_remove c operation C (get_subscribed_channels c)"
  obtain c2 event mrc c3 where c2: "iter_prog (remove_from_reader E) (remove_by_reader (get_subscribed_channels c) ?rem) c = (Inr (), c2)"
    and add: "(if operation = Op_remove then return_prog (Some []) else subscribe_channels E now event C []) c2 = (Inr mrc, c3)"
    and common: "mrc \<noteq> None \<longrightarrow> (\<exists>c4. subscribe_common E (the mrc) c3 = (Inr (), c4) \<and> assigned c1 = assigned c4 \<and> readers_ok c1 = readers_ok c4)"
    by (rule process_steps[OF assms(1-3)])
  note rem = removal_phase[OF c2 ok]
  have names2: "subscribed_names c2 = subscribed_names c - (set ?rem - doubled c)" using rem by simp
  have access: "operation \<noteq> Op_remove \<Longrightarrow> \<forall>ch \<in> set C. check_channel_access E c2 ch Access_read = Inr True"
    using assms(4) rem check_channel_access_same[of c2 c E] by simp
  have "\<exists>m. mrc = Some m \<and> readers_ok c3 \<and>
      subscribed_names c3 \<union> set (dict_keys m) = subscribed_names c2 \<union> (if operation = Op_remove then {} else set C)"
  proof (cases "operation = Op_remove")
    case True
    then show ?thesis using add rem by (auto simp: dict_keys_def)
  next
    case False
    then have "subscribe_channels E now event C [] c2 = (Inr mrc, c3)" using add by simp
    from subscribe_channels_assigned[OF this _ access[OF False]] rem False show ?thesis by (auto simp: dict_keys_def)
  qed
  then have "subscribed_names c1 = subscribed_names c2 \<union> (if operation = Op_remove then {} else set C)"
    using common subscribe_common_assigned[of E _ c3] by (fastforce simp: subscribed_names_def)
  moreover have "set (dict_keys (get_subscribed_channels c)) = subscribed_names c"
    using get_subscribed_channels_iff(2)[of c] by (auto simp: dict_has_def dict_keys_def)
  ultimately show ?thesis
    using assms(2) unfolding names2
    by (auto simp: subscription_spec_def channels_to_remove_def is_operation_def get_subscribed_channels_iff(2))
qed

text \<open>Adding a service channel makes a reader, whether the channel is read already or not.\<close>

lemma subscribe_again:
  assumes "process_channel_subscription E now [ch] (Some (back, Op_add)) c = (Inr (), c1)" "resolve_channel E c ch = Inr ch"
    and "py_startswith ch ''service:''" "check_channel_access E c ch Access_read = Inr True" "readers_ok c"
  shows "assigned c1 = assigned c \<union> {(mc_next c, ch)} \<and> readers_ok c1"
proof -
  obtain d event mrc d1 where d: "iter_prog (remove_from_reader E)
      (remove_by_reader (get_subscribed_channels c) (channels_to_remove c Op_add [ch] (get_subscribed_channels c))) c = (Inr (), d)"
    "(if Op_add = Op_remove then return_prog (Some []) else subscribe_channels E now event [ch] []) d = (Inr mrc, d1)"
    "mrc \<noteq> None \<longrightarrow> (\<exists>c4. subscribe_common E (the mrc) d1 = (Inr (), c4) \<and> assigned c1 = assigned c4 \<and> readers_ok c1 = readers_ok c4)"
    by (rule process_steps[OF assms(1)]) (use assms(2) in \<open>auto simp: is_operation_def\<close>)
  have "d = c" using d(1) by (simp add: channels_to_remove_def remove_by_reader_def)
  then have "subscribe_service E ch c = (Inr (), d1) \<and> mrc = Some []" using d(2) assms(3,4) by (auto simp: bind_prog_Inr)
  then show ?thesis using d(3) subscribe_service_assigned[of E ch c d1] assms(5) by (auto simp: subscribe_common_def)
qed

section \<open>Only permitted channels are read\<close>

definition may_access :: "'r ws_env \<Rightarrow> string \<Rightarrow> channel_operation \<Rightarrow> string \<Rightarrow> bool" where
  "may_access E user_id operation ch \<longleftrightarrow>
     (\<exists>n. check_channel_name (be_channels (we_bus E)) ch = Inr n \<and>
        (py_startswith n ''session:'' \<or> n = user_id \<or>
         (py_startswith n ''service:'' \<and> (py_endswith n '':messagebus'' \<or> py_endswith n '':jsonrpc'') \<and> operation = Access_write) \<or>
         is_admin (we_session E)))"

lemma check_channel_access_iff: "check_channel_access E c ch op = Inr True \<longleftrightarrow> may_access E (mc_user_id c) op ch"
  by (auto simp: check_channel_access_def may_access_def bind_res_Inr_iff)

definition reads_permitted :: "'r ws_env \<Rightarrow> string \<Rightarrow> 'r connection \<Rightarrow> bool" where
  "reads_permitted E u c \<longleftrightarrow> mc_user_id c = u \<and> (\<forall>rd \<in> set (mc_readers c). \<forall>ch \<in> set (get_channel_names rd). may_access E u Access_read ch)"

lemma reads_permitted_red [simp]:
  "reads_permitted E u (c\<lparr>mc_red := r\<rparr>) = reads_permitted E u c" "reads_permitted E u (c\<lparr>mc_received := n\<rparr>) = reads_permitted E u c"
  "reads_permitted E u (send_message_to_websocket now m c) = reads_permitted E u c"
  by (simp_all add: reads_permitted_def)

lemma reads_permitted_on_reader:
  assumes "on_reader rd (then_prog (modify_prog (on_channels f)) (update_streams B)) c = (res, c1)" "reads_permitted E u c"
    and "\<forall>ch \<in> set (dict_keys (f (rd_channels rd))). may_access E u Access_read ch"
  shows "reads_permitted E u c1"
proof -
  obtain rd1 r where rd1: "rd_channels rd1 = f (rd_channels rd)"
    "mc_readers c1 = map (\<lambda>x. if rd_id x = rd_id rd then rd1 else x) (mc_readers c)" "c1 = c\<lparr>mc_red := r, mc_readers := mc_readers c1\<rparr>"
    using on_reader_channels[OF assms(1)] by blast
  have "mc_user_id c1 = mc_user_id c" using arg_cong[OF rd1(3), of mc_user_id] by simp
  moreover have "\<forall>ch \<in> set (get_channel_names rd1). may_access E u Access_read ch" using assms(3) rd1(1) by (simp add: get_channel_names_def)
  ultimately show ?thesis using assms(2) by (auto simp: reads_permitted_def rd1(2))
qed

lemma reads_permitted_new:
  assumes "bind_prog (on_reader rd (set_channels B mrc)) (\<lambda>(_, rd). modify_prog (append_reader rd)) c = (res, c1)" "reads_permitted E u c"
    and "\<forall>ch \<in> set (dict_keys mrc). may_access E u Access_read ch"
  shows "reads_permitted E u c1"
proof -
  obtain q c2 where q: "on_reader rd (set_channels B mrc) c = (q, c2)" by fastforce
  have c2: "reads_permitted E u c2"
    using reads_permitted_on_reader[OF q[unfolded set_channels_def] assms(2)] assms(3) by simp
  show ?thesis
  proof (cases q)
    case (Inl e)
    then show ?thesis using assms(1) q c2 by (simp add: bind_prog_run)
  next
    case (Inr y)
    have "rd_channels (snd y) = mrc" using on_reader_channels[OF q[unfolded set_channels_def]] Inr by auto
    then have "reads_permitted E u (append_reader (snd y) c2)"
      using c2 assms(3) by (auto simp: reads_permitted_def append_reader_def get_channel_names_def)
    then show ?thesis using assms(1) q Inr by (auto simp: bind_prog_run split_def)
  qed
qed

lemma remove_from_reader_permitted: "keeps (reads_permitted E u) (remove_from_reader E x)"
  unfolding keeps_def
proof (intro allI impI)
  fix c
  assume c: "reads_permitted E u c"
  obtain i chans where x: "x = (i, chans)" by fastforce
  show "reads_permitted E u (snd (remove_from_reader E x c))"
  proof (cases "find_reader c i")
    case (Some rd)
    then have rd: "rd \<in> set (mc_readers c)" by (auto simp: find_reader_def find_Some_iff)
    show ?thesis
    proof (cases "sort chans = sort (get_channel_names rd)")
      case False
      obtain q c2 where q: "on_reader rd (remove_channels (we_bus E) chans) c = (q, c2)" by fastforce
      have "\<forall>ch \<in> set (dict_keys (fold dict_del chans (rd_channels rd))). may_access E u Access_read ch"
        using c rd by (auto simp: dict_keys_fold_del reads_permitted_def get_channel_names_def)
      from reads_permitted_on_reader[OF q[unfolded remove_channels_def] c this] show ?thesis
        using Some False q by (cases q) (auto simp: x remove_from_reader_def bind_prog_run)
    qed (use c Some in \<open>auto simp: x remove_from_reader_def reads_permitted_def\<close>)
  qed (use c in \<open>simp add: x remove_from_reader_def\<close>)
qed

lemma subscribe_service_permitted:
  assumes "subscribe_service E ch c = (res, c1)" "reads_permitted E u c" "may_access E u Access_read ch"
  shows "reads_permitted E u c1"
proof (cases "py_split1 CHR '':'' (mc_session_channel c)")
  case None
  then show ?thesis using assms by (simp add: subscribe_service_def)
next
  case (Some p)
  then obtain a sid where "py_split1 CHR '':'' (mc_session_channel c) = Some (a, sid)" by (cases p) auto
  then have "bind_prog (on_reader (consumer_group_message_reader (mc_next c) ch (mc_user_id c @ '':'' @ sid))
      (set_channels (we_bus E) [(ch, ''0'')])) (\<lambda>(_, rd). modify_prog (append_reader rd)) c = (res, c1)"
    using assms(1) by (simp add: subscribe_service_def)
  from reads_permitted_new[OF this assms(2)] assms(3) show ?thesis by (simp add: dict_keys_def)
qed

lemma subscribe_channels_permitted:
  assumes "subscribe_channels E now event chs mrc c = (res, c1)" "reads_permitted E u c"
    and "\<forall>ch \<in> set (dict_keys mrc). may_access E u Access_read ch"
  shows "reads_permitted E u c1 \<and> (\<forall>m. res = Inr (Some m) \<longrightarrow> (\<forall>ch \<in> set (dict_keys m). may_access E u Access_read ch))"
  using assms
proof (induction chs arbitrary: mrc c)
  case (Cons ch chs)
  have u: "mc_user_id c = u" using Cons.prems(2) by (simp add: reads_permitted_def)
  show ?case
  proof (cases "check_channel_access E c ch Access_read")
    case (Inl e)
    then show ?thesis using Cons.prems by (auto simp: bind_prog_run)
  next
    case (Inr access)
    show ?thesis
    proof (cases access)
      case False
      then show ?thesis using Cons.prems Inr by (auto simp: bind_prog_run)
    next
      case True
      then have may: "may_access E u Access_read ch" using Inr check_channel_access_iff[of E c ch] u by simp
      show ?thesis
      proof (cases "py_startswith ch ''service:''")
        case service: True
        obtain q c2 where q: "subscribe_service E ch c = (q, c2)" by fastforce
        have c2: "reads_permitted E u c2" by (rule subscribe_service_permitted[OF q Cons.prems(2) may])
        have "subscribe_channels E now event (ch # chs) mrc c = then_prog (subscribe_service E ch) (subscribe_channels E now event chs mrc) c"
          using Inr True service by (simp add: bind_prog_run)
        then show ?thesis using Cons.prems(1,3) q c2 Cons.IH[OF _ c2] by (cases q) (auto simp: bind_prog_run)
      next
        case common: False
        let ?mrc = "dict_set ch (if py_startswith ch ''event:'' \<or> py_startswith ch ''session:'' then ''$'' else ''>'') mrc"
        let ?create = "\<lambda>c. (if py_startswith ch ''session:'' \<and> ch \<noteq> mc_session_channel c then create_other_session E ch else return_prog ()) c"
        obtain q c2 where q: "?create c = (q, c2)" by fastforce
        then obtain x where "c2 = c \<or> c2 = c\<lparr>mc_red := x\<rparr>" using create_other_session_run[of E ch c] by (auto split: if_splits)
        then have c2: "reads_permitted E u c2" using Cons.prems(2) by auto
        have keys: "\<forall>x \<in> set (dict_keys ?mrc). may_access E u Access_read x" using Cons.prems(3) may by (auto simp: dict_keys_set)
        have eq: "subscribe_channels E now event (ch # chs) mrc c = then_prog ?create (subscribe_channels E now event chs ?mrc) c"
          using Inr True common by (simp add: bind_prog_run)
        show ?thesis
        proof (cases q)
          case (Inl e)
          then show ?thesis using Cons.prems(1) c2 unfolding eq bind_prog_run q by auto
        next
          case (Inr y)
          then have "subscribe_channels E now event chs ?mrc c2 = (res, c1)" using Cons.prems(1) unfolding eq bind_prog_run q by simp
          then show ?thesis using Cons.IH[OF _ c2 keys] by blast
        qed
      qed
    qed
  qed
qed auto

lemma subscribe_common_permitted:
  assumes "reads_permitted E u c" "\<forall>ch \<in> set (dict_keys mrc). may_access E u Access_read ch"
  shows "reads_permitted E u (snd (subscribe_common E mrc c))"
proof (cases "mrc = []")
  case False
  show ?thesis
  proof (cases "find (\<lambda>rd. rd_group rd = None) (mc_readers c)")
    case None
    obtain res c1 where r: "bind_prog (on_reader (message_reader (mc_next c)) (set_channels (we_bus E) mrc))
        (\<lambda>(_, rd). modify_prog (append_reader rd)) c = (res, c1)" by fastforce
    from reads_permitted_new[OF this assms] show ?thesis using None False r by (simp add: subscribe_common_def)
  next
    case (Some rd)
    then have rd: "rd \<in> set (mc_readers c)" by (auto simp: find_Some_iff)
    obtain q c2 where q: "on_reader rd (add_channels (we_bus E) mrc) c = (q, c2)" by fastforce
    have "\<forall>ch \<in> set (dict_keys (fold (\<lambda>(c, i). dict_set c i) mrc (rd_channels rd))). may_access E u Access_read ch"
      using assms rd by (auto simp: dict_keys_fold_set reads_permitted_def get_channel_names_def)
    from reads_permitted_on_reader[OF q[unfolded add_channels_def] assms(1) this] show ?thesis
      using Some False q by (cases q) (auto simp: subscribe_common_def bind_prog_run)
  qed
qed (use assms in \<open>simp add: subscribe_common_def\<close>)

lemma process_subscription_permitted: "keeps (reads_permitted E u) (process_channel_subscription E now channels request)"
  unfolding keeps_def
proof (intro allI impI)
  fix c
  assume c: "reads_permitted E u c"
  let ?op = "case request of None \<Rightarrow> Op_add | Some (_, op) \<Rightarrow> op"
  have rem: "keeps (reads_permitted E u) (iter_prog (remove_from_reader E) xs)" for xs
    by (rule keeps_iter[OF remove_from_reader_permitted])
  have add: "keeps (reads_permitted E u)
      (bind_prog (if ?op = Op_remove then return_prog (Some []) else subscribe_channels E now event C []) (\<lambda>mrc.
         case mrc of None \<Rightarrow> return_prog ()
         | Some mrc \<Rightarrow> then_prog (subscribe_common E mrc) (modify_prog (\<lambda>c. send_message_to_websocket now (ev c) c))))" for event C ev
    unfolding keeps_def
  proof (intro allI impI)
    fix c2
    assume c2: "reads_permitted E u c2"
    obtain q c3 where q: "(if ?op = Op_remove then return_prog (Some []) else subscribe_channels E now event C []) c2 = (q, c3)" by fastforce
    have post: "reads_permitted E u c3 \<and> (\<forall>m. q = Inr (Some m) \<longrightarrow> (\<forall>ch \<in> set (dict_keys m). may_access E u Access_read ch))"
      using q c2 subscribe_channels_permitted[of E now event C "[]" c2 q c3 u] by (auto simp: dict_keys_def split: if_splits)
    show "reads_permitted E u (snd (bind_prog (if ?op = Op_remove then return_prog (Some []) else subscribe_channels E now event C []) (\<lambda>mrc.
         case mrc of None \<Rightarrow> return_prog ()
         | Some mrc \<Rightarrow> then_prog (subscribe_common E mrc) (modify_prog (\<lambda>c. send_message_to_websocket now (ev c) c))) c2))"
    proof (cases q)
      case (Inr mrc)
      show ?thesis
      proof (cases mrc)
        case None
        then show ?thesis using post Inr unfolding bind_prog_run q by simp
      next
        case (Some a)
        obtain p c4 where p: "subscribe_common E a c3 = (p, c4)" by fastforce
        have "reads_permitted E u c4" using subscribe_common_permitted[of E u c3 a] post Inr Some p by simp
        then show ?thesis using Inr Some p unfolding bind_prog_run q by (cases p) (simp_all add: bind_prog_run)
      qed
    qed (use post in \<open>simp add: bind_prog_run q\<close>)
  qed
  show "reads_permitted E u (snd (process_channel_subscription E now channels request c))"
  proof (cases "is_operation ?op")
    case op: True
    show ?thesis
    proof (cases "map_res (resolve_channel E c) channels")
      case (Inr C)
      let ?event = "broker_message E (if (case request of None \<Rightarrow> [] | Some (b, _) \<Rightarrow> b) = [] then mc_session_channel c
          else (case request of None \<Rightarrow> [] | Some (b, _) \<Rightarrow> b)) (Channel_subscription_event [] None)"
      let ?sub = "get_subscribed_channels c"
      have "process_channel_subscription E now channels request c =
          then_prog (iter_prog (remove_from_reader E) (remove_by_reader ?sub (channels_to_remove c ?op C ?sub)))
            (bind_prog (if ?op = Op_remove then return_prog (Some []) else subscribe_channels E now ?event C []) (\<lambda>mrc.
               case mrc of None \<Rightarrow> return_prog ()
               | Some mrc \<Rightarrow> then_prog (subscribe_common E mrc) (modify_prog (\<lambda>c. send_message_to_websocket now
                   (?event\<lparr>mb_body := Channel_subscription_event (dict_keys (get_subscribed_channels c)) None\<rparr>) c)))) c"
        using op Inr by (simp add: process_channel_subscription_def Let_def)
      then show ?thesis using keeps_bind[OF rem add, unfolded keeps_def, rule_format, OF c] by (rule ssubst)
    qed (use c op in \<open>simp add: process_channel_subscription_def Let_def\<close>)
  qed (use c in \<open>simp add: process_channel_subscription_def Let_def\<close>)
qed

lemma dispatch_permitted: "keeps (reads_permitted E u) (dispatch_message E now m)"
  unfolding dispatch_message_def
  by (cases "mb_body m") (auto intro!: keeps_modify process_subscription_permitted)

lemma on_receive_permitted:
  assumes "reads_permitted E u c"
  shows "reads_permitted E u (on_receive E now data c)"
proof -
  have "keeps (reads_permitted E u) (\<lambda>c. (accept_message E c data, c))" by (simp add: keeps_def)
  then have "keeps (reads_permitted E u) (bind_prog (\<lambda>c. (accept_message E c data, c)) (\<lambda>m.
      then_prog (modify_prog (\<lambda>c. c\<lparr>mc_received := Suc (mc_received c)\<rparr>)) (dispatch_message E now m)))"
    by (intro keeps_bind keeps_modify dispatch_permitted) auto
  then have "reads_permitted E u (snd (bind_prog (\<lambda>c. (accept_message E c data, c)) (\<lambda>m.
      then_prog (modify_prog (\<lambda>c. c\<lparr>mc_received := Suc (mc_received c)\<rparr>)) (dispatch_message E now m)) c))"
    using assms unfolding keeps_def by blast
  then show ?thesis unfolding on_receive_def Let_def by (auto split: prod.splits sum.splits)
qed

lemma receive_loop_permitted: "reads_permitted E u c \<Longrightarrow> reads_permitted E u (receive_loop E now inputs c)"
  by (induction E now inputs c rule: receive_loop.induct) (auto intro: on_receive_permitted)

lemma on_connect_permitted:
  assumes "on_connect E now (new_connection r) = (res, c)"
  shows "mc_readers c = [] \<or> (\<exists>u. connection_user_id E = Inr u \<and> reads_permitted E u c)"
proof (cases "connection_user_id E")
  case (Inl e)
  then show ?thesis using assms by (auto simp: on_connect_def new_connection_def)
next
  case (Inr u)
  let ?c1 = "(new_connection r)\<lparr>mc_user_id := u, mc_red := update_websocket_count (we_bus E) (we_session E) 1 r\<rparr>"
  obtain q r2 where q: "create_messagebus_session_channel (we_bus E) (we_new_id E 0) u None True (mc_red ?c1) = (q, r2)" by fastforce
  show ?thesis
  proof (cases q)
    case (Inl e)
    then show ?thesis using assms Inr q by (auto simp: on_connect_def new_connection_def Let_def)
  next
    case (Inr ch)
    have 1: "reads_permitted E u ((?c1\<lparr>mc_red := r2\<rparr>)\<lparr>mc_session_channel := ch\<rparr>)" by (simp add: reads_permitted_def new_connection_def)
    have 2: "keeps (reads_permitted E u) (then_prog (process_channel_subscription E now [u, ch] None)
        (modify_prog (\<lambda>c. c\<lparr>mc_red := send_message (we_bus E) now ev None (mc_red c)\<rparr>)))" for ev
      by (intro keeps_bind keeps_modify process_subscription_permitted) auto
    have 3: "then_prog (process_channel_subscription E now [u, ch] None)
        (modify_prog (\<lambda>c. c\<lparr>mc_red := send_message (we_bus E) now (connection_event E ''connected'' r) None (mc_red c)\<rparr>))
        ((?c1\<lparr>mc_red := r2\<rparr>)\<lparr>mc_session_channel := ch\<rparr>) = (res, c)"
      using assms \<open>connection_user_id E = Inr u\<close> q Inr by (simp add: on_connect_def new_connection_def Let_def)
    have "reads_permitted E u c" by (rule keepsD[OF 2 1 3])
    then show ?thesis using \<open>connection_user_id E = Inr u\<close> by blast
  qed
qed

section \<open>What is sent\<close>

definition sender_law :: "'r ws_env \<Rightarrow> bool" where
  "sender_law E \<longleftrightarrow> (\<forall>d m s. we_from_dict E d = Inr m \<longrightarrow> map_of d ''sender'' = Some (MV_str s) \<longrightarrow> mb_sender m = s)"

lemma resolve_own_sender: "resolve_own E c m = Inr m1 \<Longrightarrow> mb_sender m1 = mb_sender m"
  by (auto simp: resolve_own_def Let_def bind_res_Inr_iff split: if_splits)

lemma accept_message_post:
  assumes "accept_message E c data = Inr m" "sender_law E"
  shows "mb_sender m = mc_user_id c \<and> may_access E (mc_user_id c) Access_write (mb_channel m) \<and>
    may_access E (mc_user_id c) Access_write (mb_back_channel m) \<and> check_message_type_access E (mb_type m)"
proof -
  obtain d m0 ok1 ok2 where s: "we_from_dict E (dict_set ''sender'' (MV_str (mc_user_id c)) d) = Inr m0" "resolve_own E c m0 = Inr m"
    "check_channel_access E c (mb_channel m) Access_write = Inr ok1"
    "(if ok1 then check_channel_access E c (mb_back_channel m) Access_write else Inr False) = Inr ok2" "ok2" "check_message_type_access E (mb_type m)"
    using assms(1) by (auto simp: accept_message_def bind_res_Inr_iff split: if_splits)
  have "map_of (dict_set ''sender'' (MV_str (mc_user_id c)) d) ''sender'' = Some (MV_str (mc_user_id c))" by simp
  then have "mb_sender m0 = mc_user_id c" using assms(2) s(1) unfolding sender_law_def by blast
  then show ?thesis
    using s(3-6) resolve_own_sender[OF s(2)] check_channel_access_iff[of E c] by (auto split: if_splits)
qed

lemma on_receive_red:
  "mc_red (on_receive E now data c) =
     (case accept_message E c data of
        Inl e \<Rightarrow> mc_red c
      | Inr m \<Rightarrow> mc_red (snd (dispatch_message E now m (c\<lparr>mc_received := Suc (mc_received c)\<rparr>))))"
  by (auto simp: on_receive_def bind_prog_run Let_def split: sum.splits prod.splits)

lemma dispatch_sends:
  assumes "\<forall>cs op. mb_body m \<noteq> Channel_subscription_request cs op"
  shows "mc_red (snd (dispatch_message E now m c)) =
    send_message (we_bus E) now (add_trace ''broker_ws_receive'' now m) (Some (serialize (we_codec E) (we_session E))) (mc_red c)"
  using assms by (cases "mb_body m") (auto simp: dispatch_message_def)

text \<open>Nothing happens on a connection without an authenticated session of a host or an administrator.\<close>

lemma dispatch_authenticated:
  assumes "snd (dispatch E now session compression inputs c) \<noteq> c"
  obtains s where "session = Some s" "authenticated s" "session_host s \<noteq> None \<or> (username s \<noteq> [] \<and> is_admin s)"
proof -
  obtain s where s: "session = Some s" "authenticated s"
    using assms by (auto simp: dispatch_def check_authorization_def split: option.splits if_splits)
  let ?E = "E\<lparr>we_session := update_messagebus_last_used now s\<rparr>"
  have "connection_user_id ?E \<noteq> Inl (HTTPException 403 ''Invalid session'')"
    using assms s by (auto simp: dispatch_def check_authorization_def on_connect_def bind_prog_run split: if_splits)
  then show thesis using that s
    by (auto simp: connection_user_id_def Let_def update_messagebus_last_used_def set_last_used_def set_messagebus_last_used_def set_modified_def
        split: option.splits if_splits)
qed

text \<open>When the user of a connection is connected already, the event of the new connection has no channel and is
  sent nevertheless.\<close>

lemma second_connection_nameless_event:
  assumes "session_host (we_session E) = Some h" "get_websocket_connected_users (we_bus E) r [host_id h] (Some (host_kind h)) \<noteq> []"
    and "on_connect E now (new_connection r) = (Inr (), c)"
  shows "\<exists>r1 event. mb_channel event = [] \<and> mc_red c = send_message (we_bus E) now event None r1"
  using assms by (auto simp: on_connect_def connection_event_def broker_message_def new_connection_def Let_def bind_prog_Inr
      split: sum.splits prod.splits) (rule exI, rule exI, rule conjI[rotated], rule refl, simp)

text \<open>A service channel that is subscribed twice cannot be given up: the second request makes a second reader,
  the request to remove the channel stops only one of the two, and the channel is still read.\<close>

lemma duplicate_subscription_survives:
  assumes "process_channel_subscription E now [ch] (Some (back, Op_add)) c = (Inr (), c1)"
    and "process_channel_subscription E now [ch] (Some (back, Op_remove)) c1 = (Inr (), c2)"
    and "resolve_channel E c ch = Inr ch" "resolve_channel E c1 ch = Inr ch" "py_startswith ch ''service:''"
    and "check_channel_access E c ch Access_read = Inr True" "readers_ok c" "(i, ch) \<in> assigned c"
  shows "ch \<in> subscribed_names c2"
proof -
  have add: "assigned c1 = assigned c \<union> {(mc_next c, ch)}" "readers_ok c1"
    using subscribe_again[OF assms(1,3,5,6,7)] by auto
  have op: "is_operation Op_remove" by (simp add: is_operation_def)
  have mr: "map_res (resolve_channel E c1) [ch] = Inr [ch]" using assms(4) by simp
  obtain d event mrc d1 where d: "iter_prog (remove_from_reader E)
      (remove_by_reader (get_subscribed_channels c1) (channels_to_remove c1 Op_remove [ch] (get_subscribed_channels c1))) c1 = (Inr (), d)"
    "(if Op_remove = Op_remove then return_prog (Some []) else subscribe_channels E now event [ch] []) d = (Inr mrc, d1)"
    "mrc \<noteq> None \<longrightarrow> (\<exists>c4. subscribe_common E (the mrc) d1 = (Inr (), c4) \<and> assigned c2 = assigned c4 \<and> readers_ok c2 = readers_ok c4)"
    by (rule process_steps[OF assms(2) op mr])
  have "mrc = Some []" "d1 = d" using d(2) by simp_all
  then have c2: "assigned c2 = assigned d" using d(3) by (simp add: subscribe_common_def)
  have "i < mc_next c" using assms(7,8) by (auto simp: readers_ok_def assigned_iff)
  moreover have "(j, ch) \<in> assigned d" if "(j, ch) \<in> assigned c1" "map_of (get_subscribed_channels c1) ch \<noteq> Some j" for j
    using that remove_all_assigned[OF d(1) add(2)] unfolding remove_by_reader_pairs by blast
  moreover have "(i, ch) \<in> assigned c1" "(mc_next c, ch) \<in> assigned c1" using add(1) assms(8) by auto
  ultimately have "(i, ch) \<in> assigned d \<or> (mc_next c, ch) \<in> assigned d"
    by (metis less_irrefl option.inject)
  then show ?thesis unfolding subscribed_names_def c2 by force
qed

section \<open>A connection of an administrator\<close>

definition sample_session :: opsisession where
  "sample_session = (new_session \<lparr>session_lifetime = 120, max_session_per_ip = 25, max_sessions_excludes = [], redis_prefix = ''opsi''\<rparr>
     0 ''10.0.0.1'' [] None)\<lparr>username := ''adm'', authenticated := True, is_admin := True\<rparr>"

definition sample_ws_env :: "list_redis ws_env" where
  "sample_ws_env = \<lparr>we_bus = sample_bus_env, we_worker_id = ''w1'', we_session = sample_session,
     we_codec = \<lparr>pack_host = (\<lambda>_. []), unpack_host = (\<lambda>_. None), pack_groups = (\<lambda>_. []), unpack_groups = (\<lambda>_. None),
       pack_methods = (\<lambda>_. []), unpack_methods = (\<lambda>_. None)\<rparr>,
     we_modules = [], we_user_alias = ''@'', we_session_alias = ''$'',
     we_decode = (\<lambda>d. Inr (D_dict [(''id'', MV_str d)])),
     we_from_dict = (\<lambda>d. Inr ((sample_message ''x'')\<lparr>mb_sender := (case map_of d ''sender'' of Some (MV_str s) \<Rightarrow> s | _ \<Rightarrow> []),
       mb_channel := ''service:messagebus'', mb_back_channel := ''service:messagebus''\<rparr>)), we_error_text = (\<lambda>_. ''error''), we_traceback = (\<lambda>_. ''trace''),
     we_new_id = (\<lambda>_. ''00000000-0000-4000-8000-000000000001'')\<rparr>"

definition sample_reader :: reader where
  "sample_reader = (consumer_group_message_reader 0 ''service:messagebus'' ''user:adm:1'')\<lparr>rd_channels := [(''service:messagebus'', ''0'')]\<rparr>"

definition sample_connection :: "list_redis connection" where
  "sample_connection = (new_connection \<lparr>lr_hashes = [], lr_streams = []\<rparr>)\<lparr>mc_user_id := ''user:adm'',
     mc_session_channel := ''session:00000000-0000-4000-8000-000000000001'', mc_readers := [sample_reader], mc_next := 1\<rparr>"

lemma sample_resolve: "resolve_channel sample_ws_env sample_connection ''service:messagebus'' = Inr ''service:messagebus''"
  by code_simp

lemma sample_pieces:
  "map_res (resolve_channel sample_ws_env sample_connection) [''service:messagebus''] = Inr [''service:messagebus'']"
  "get_subscribed_channels sample_connection = [(''service:messagebus'', 0)]"
  "check_channel_access sample_ws_env sample_connection ''service:messagebus'' Access_read = Inr True"
  "readers_ok sample_connection"
  by (code_simp, code_simp, code_simp, simp add: readers_ok_def sample_connection_def sample_reader_def consumer_group_message_reader_def message_reader_def)

lemma sample_one_reader: "doubled sample_connection = {}"
  by (auto simp: doubled_def assigned_iff sample_connection_def)

lemma sample_remove:
  "fst (process_channel_subscription sample_ws_env 0 [''service:messagebus''] (Some ([], Op_remove)) sample_connection) = Inr () \<and>
   mc_readers (snd (process_channel_subscription sample_ws_env 0 [''service:messagebus''] (Some ([], Op_remove)) sample_connection)) = []"
proof -
  let ?sub = "get_subscribed_channels sample_connection"
  have rem: "channels_to_remove sample_connection Op_remove [''service:messagebus''] ?sub = [''service:messagebus'']" by code_simp
  have by_reader: "remove_by_reader ?sub [''service:messagebus''] = [(0, [''service:messagebus''])]" by code_simp
  obtain c1 where c1: "remove_from_reader sample_ws_env (0, [''service:messagebus'']) sample_connection = (Inr (), c1)" "mc_readers c1 = []"
  proof
    show "remove_from_reader sample_ws_env (0, [''service:messagebus'']) sample_connection =
        (Inr (), sample_connection\<lparr>mc_readers := [], mc_stopped := [stop_reader sample_reader]\<rparr>)" by code_simp
  qed simp
  show ?thesis
    using c1 by (simp add: process_channel_subscription_def is_operation_def sample_resolve rem by_reader Let_def bind_prog_run subscribe_common_def)
qed

definition sample_accepted :: message where
  "sample_accepted = (sample_message ''x'')\<lparr>mb_sender := ''user:adm'', mb_channel := ''service:messagebus'',
     mb_back_channel := ''service:messagebus''\<rparr>"

lemma sample_resolve_own:
  "resolve_own sample_ws_env sample_connection sample_accepted = Inr sample_accepted"
  by (simp add: resolve_own_def Let_def sample_message_def sample_ws_env_def sample_connection_def sample_accepted_def py_startswith_def)

lemma sample_accept: "accept_message sample_ws_env sample_connection ''1'' = Inr sample_accepted"
proof -
  have "decode_message sample_ws_env ''1'' = Inr [(''id'', MV_str ''1'')]" by code_simp
  moreover have "we_from_dict sample_ws_env (dict_set ''sender'' (MV_str (mc_user_id sample_connection)) [(''id'', MV_str ''1'')]) =
      Inr sample_accepted"
    by (simp add: sample_ws_env_def sample_connection_def sample_accepted_def sample_message_def)
  moreover have "check_channel_access sample_ws_env sample_connection (mb_channel sample_accepted) Access_write = Inr True" by code_simp
  moreover have "check_channel_access sample_ws_env sample_connection (mb_back_channel sample_accepted) Access_write = Inr True" by code_simp
  moreover have "check_message_type_access sample_ws_env (mb_type sample_accepted)" by code_simp
  ultimately show ?thesis by (simp add: accept_message_def of_option_def sample_resolve_own)
qed

section \<open>Properties\<close>

text \<open>C8. The broker never lets a connection speak for someone else or into a channel it may not write: whenever a
  received message changes redis, it was accepted with the user id of the connection as its sender,
  for a channel and a back channel that the connection may write (session channels, its own user
  channel, the messagebus and jsonrpc services, everything for administrators) and of a type that
  is licensed; anything but a subscription is put into the stream of that channel, with the session
  as its context. The message class keeps the sender it is given.\<close>

theorem received_messages_authorized:
  assumes "sender_law E" "mc_red (on_receive E now data c) \<noteq> mc_red c"
  shows "\<exists>m. accept_message E c data = Inr m \<and> mb_sender m = mc_user_id c \<and>
    may_access E (mc_user_id c) Access_write (mb_channel m) \<and> may_access E (mc_user_id c) Access_write (mb_back_channel m) \<and>
    check_message_type_access E (mb_type m) \<and>
    ((\<exists>cs op. mb_body m = Channel_subscription_request cs op) \<or>
     mc_red (on_receive E now data c) = send_message (we_bus E) now (add_trace ''broker_ws_receive'' now m)
       (Some (serialize (we_codec E) (we_session E))) (mc_red c))"
proof -
  obtain m where m: "accept_message E c data = Inr m" using assms(2) by (auto simp: on_receive_red split: sum.splits)
  then show ?thesis
    using accept_message_post[OF m assms(1)] dispatch_sends[of m E now "c\<lparr>mc_received := Suc (mc_received c)\<rparr>"]
    by (auto simp: on_receive_red)
qed

theorem received_messages_authorized_witness:
  "\<exists>m. accept_message sample_ws_env sample_connection ''1'' = Inr m \<and> mb_sender m = ''user:adm'' \<and> mb_channel m = ''service:messagebus''"
proof -
  let ?m = sample_accepted
  have law: "sender_law sample_ws_env" by (auto simp: sender_law_def sample_ws_env_def)
  note m = sample_accept
  have "\<forall>cs op. mb_body ?m \<noteq> Channel_subscription_request cs op" by (simp add: sample_accepted_def sample_message_def)
  then have "mc_red (on_receive sample_ws_env 0 ''1'' sample_connection) = send_message (we_bus sample_ws_env) 0 (add_trace ''broker_ws_receive'' 0 ?m)
      (Some (serialize (we_codec sample_ws_env) (we_session sample_ws_env))) (mc_red sample_connection)"
    using dispatch_sends[of sample_accepted sample_ws_env 0] by (simp add: on_receive_red m)
  also have "\<dots> \<noteq> mc_red sample_connection"
    by (simp add: send_message_def sample_ws_env_def sample_bus_env_def list_stream_ops_def sample_connection_def new_connection_def)
  finally obtain m where "accept_message sample_ws_env sample_connection ''1'' = Inr m" "mb_sender m = mc_user_id sample_connection"
    using received_messages_authorized[OF law] by blast
  then show ?thesis using m by (auto simp: sample_connection_def sample_accepted_def)
qed

text \<open>C14. A connection reads only channels it may read: after connecting and any number of received messages,
  with whatever subscriptions they ask for, every channel of every reader has a valid name and is a session
  channel, the user channel of the connection, or the session is an administrator's.\<close>

theorem subscriptions_permitted:
  "let c = receive_loop E now inputs (snd (on_connect E now (new_connection r)))
   in list_all (\<lambda>rd. list_all (may_access E (mc_user_id c) Access_read) (get_channel_names rd)) (mc_readers c)"
proof -
  obtain res c0 where c0: "on_connect E now (new_connection r) = (res, c0)" by fastforce
  have "reads_permitted E (mc_user_id c0) c0" using on_connect_permitted[OF c0] by (auto simp: reads_permitted_def)
  from receive_loop_permitted[OF this, of now inputs] show ?thesis
    by (simp add: c0 Let_def reads_permitted_def list_all_iff)
qed



end
