(* ===== verification/Jsonrpc.thy ===== *)
theory Jsonrpc
  imports Rpc_Method Messagebus_Websocket Session_Store
begin

text \<open>
  The JSON-RPC interface (\<open>opsiconfd/application/jsonrpc.py\<close>): requests over HTTP and over the messagebus, calling
  the methods of the backend, responses and statistics. The backend is a parameter (the functions it offers to
  a session), so are the conversions of opsicommon, msgspec and the compression. Times and the debug log are
  left out.
\<close>

section \<open>Requests and responses\<close>

record rpc_request =
  jr_20 :: bool
  jr_id :: py_val
  jr_method :: py_val
  jr_params :: py_val
  jr_client :: string
  jr_deprecated :: bool

text \<open>Protocol version 2.0 or not, id, and the result, or message, class and details of the error.\<close>

datatype rpc_response =
    Rpc_response bool py_val py_val
  | Rpc_error bool py_val string string "string option"

datatype rpc_payload = Single rpc_response | Batch "rpc_response list"

fun response_id :: "rpc_response \<Rightarrow> py_val" where
  "response_id (Rpc_response v i r) = i"
| "response_id (Rpc_error v i m c d) = i"

fun response_20 :: "rpc_response \<Rightarrow> bool" where
  "response_20 (Rpc_response v i r) = v"
| "response_20 (Rpc_error v i m c d) = v"

fun is_error :: "rpc_response \<Rightarrow> bool" where
  "is_error (Rpc_response v i r) = False"
| "is_error (Rpc_error v i m c d) = True"

record rpc_info =
  ri_num :: nat
  ri_method :: py_val
  ri_deprecated :: bool
  ri_num_params :: nat
  ri_client :: string
  ri_error :: bool
  ri_num_results :: nat

record rpc_stats =
  rs_num :: nat
  rs_rpcs :: "rpc_info list"
  rs_methods :: "string list"
  rs_counts :: "(string \<times> nat) list"
  rs_clients :: "(string \<times> string list) list"

record 'w server =
  sv_world :: 'w
  sv_stats :: rpc_stats

record 'w rpc_env =
  re_interface :: "(string \<times> method_interface) list"
  re_function :: "opsisession option \<Rightarrow> string \<Rightarrow> (py_val list \<Rightarrow> (string \<times> py_val) list \<Rightarrow> ('w, py_val) prog) option"
  re_deserialize :: "py_val \<Rightarrow> py_val result"
  re_serialize :: "py_val \<Rightarrow> py_val result"
  re_error_text :: "py_error \<Rightarrow> string"
  re_error_class :: "py_error \<Rightarrow> string"
  re_traceback :: "py_error \<Rightarrow> string"
  re_add_metric :: "string \<Rightarrow> nat \<Rightarrow> ('w, unit) prog"
  re_backend :: "unit result"
  re_decode :: "string \<Rightarrow> string \<Rightarrow> py_val result"
  re_encode :: "string \<Rightarrow> rpc_payload \<Rightarrow> string result"
  re_compress :: "string \<Rightarrow> bool \<Rightarrow> string \<Rightarrow> string"
  re_decompress :: "string \<Rightarrow> string \<Rightarrow> string result"

section \<open>Headers\<close>

record http_request =
  hq_header :: "string \<Rightarrow> string option"
  hq_body :: "string result"
  hq_query :: string

record http_response =
  hs_status :: nat
  hs_content_type :: string
  hs_content_encoding :: "string option"
  hs_content_length :: nat
  hs_body :: string

definition header_or_empty :: "http_request \<Rightarrow> string \<Rightarrow> string" where
  "header_or_empty hq name = (case hq_header hq name of None \<Rightarrow> [] | Some v \<Rightarrow> v)"

definition get_compression :: "string \<Rightarrow> string option result" where
  "get_compression content_encoding =
     (if content_encoding = [] then Inr None
      else let content_encoding = py_lower content_encoding
           in if content_encoding = ''identity'' then Inr None
              else if py_contains ''lz4'' content_encoding then Inr (Some ''lz4'')
              else if py_contains ''deflate'' content_encoding then Inr (Some ''deflate'')
              else if py_contains ''gzip'' content_encoding then Inr (Some ''gzip'')
              else Inl (ValueError ''Unhandled Content-Encoding''))"

definition get_request_compression :: "http_request \<Rightarrow> string option result" where
  "get_request_compression hq = get_compression (header_or_empty hq ''content-encoding'')"

definition get_response_compression :: "http_request \<Rightarrow> string option result" where
  "get_response_compression hq = get_compression (header_or_empty hq ''accept-encoding'')"

definition header_serialization :: "string \<Rightarrow> string option" where
  "header_serialization value =
     (if value = [] then None
      else if py_contains ''msgpack'' (py_lower value) then Some ''msgpack''
      else if py_contains ''json'' (py_lower value) then Some ''json''
      else None)"

definition get_request_serialization :: "http_request \<Rightarrow> string option" where
  "get_request_serialization hq = header_serialization (header_or_empty hq ''content-type'')"

definition get_response_serialization :: "http_request \<Rightarrow> string option" where
  "get_response_serialization hq = header_serialization (header_or_empty hq ''accept'')"

section \<open>Parsing requests\<close>

definition jsonrpc_request_from_dict :: "string \<Rightarrow> py_val \<Rightarrow> rpc_request result" where
  "jsonrpc_request_from_dict client data =
     bind_res (py_get ''jsonrpc'' data) (\<lambda>version.
     bind_res (py_get ''id'' data) (\<lambda>i.
     bind_res (py_item ''method'' data) (\<lambda>m.
     bind_res (py_get ''params'' data) (\<lambda>params.
       Inr \<lparr>jr_20 = (version = JStr ''2.0''), jr_id = py_or i (JInt 0), jr_method = m, jr_params = py_or params (JList []),
            jr_client = client, jr_deprecated = False\<rparr>))))"

definition deserialize_data :: "'w rpc_env \<Rightarrow> string \<Rightarrow> string \<Rightarrow> py_val result" where
  "deserialize_data E data serialization =
     (if serialization \<in> {''msgpack'', ''json''} then re_decode E serialization data
      else Inl (ValueError ''Unhandled serialization''))"

definition serialize_data :: "'w rpc_env \<Rightarrow> rpc_payload \<Rightarrow> string \<Rightarrow> string result" where
  "serialize_data E data serialization =
     (if serialization \<in> {''msgpack'', ''json''} then re_encode E serialization data
      else Inl (ValueError ''Unhandled serialization''))"

definition jsonrpc_request_from_data :: "'w rpc_env \<Rightarrow> string \<Rightarrow> string \<Rightarrow> string \<Rightarrow> rpc_request list result" where
  "jsonrpc_request_from_data E data serialization client =
     bind_res (deserialize_data E data serialization) (\<lambda>dat.
       case dat of
         JList ds \<Rightarrow> map_res (jsonrpc_request_from_dict client) ds
       | _ \<Rightarrow> bind_res (jsonrpc_request_from_dict client dat) (\<lambda>r. Inr [r]))"

section \<open>Calling a method\<close>

definition lookup_interface :: "'w rpc_env \<Rightarrow> py_val \<Rightarrow> (string \<times> method_interface) result" where
  "lookup_interface E m =
     (case m of
        JStr name \<Rightarrow> (case map_of (re_interface E) name of None \<Rightarrow> Inl (ValueError ''Invalid method'') | Some mi \<Rightarrow> Inr (name, mi))
      | JList _ \<Rightarrow> Inl TypeError
      | JDict _ \<Rightarrow> Inl TypeError
      | _ \<Rightarrow> Inl (ValueError ''Invalid method''))"

text \<open>\<open>varargs\<close> is the name of the parameter, so its length counts.\<close>

definition parameter_count :: "method_interface \<Rightarrow> nat" where
  "parameter_count mi = length (mi_args mi) + (case mi_varargs mi of None \<Rightarrow> 0 | Some name \<Rightarrow> length name)"

text \<open>\<open>params[-1]\<close> and \<open>params[:-1]\<close> of something that has a length.\<close>

fun last_param :: "py_val \<Rightarrow> py_val result" where
  "last_param (JList xs) = (if xs = [] then Inl IndexError else Inr (last xs))"
| "last_param (JStr s) = (if s = [] then Inl IndexError else Inr (JStr [last s]))"
| "last_param v = Inl TypeError"

fun init_params :: "py_val \<Rightarrow> py_val" where
  "init_params (JList xs) = JList (butlast xs)"
| "init_params (JStr s) = JStr (butlast s)"
| "init_params v = v"

text \<open>Positional and keyword arguments of the call.\<close>

definition call_arguments :: "'w rpc_env \<Rightarrow> method_interface \<Rightarrow> py_val \<Rightarrow> (py_val \<times> py_val) result" where
  "call_arguments E mi params =
     (if is_dict params then bind_res (re_deserialize E params) (\<lambda>keywords. Inr (JList [], keywords))
      else
        bind_res
          (if mi_keywords mi = None then Inr (params, [])
           else bind_res (py_len params) (\<lambda>n.
             if n < parameter_count mi then Inr (params, [])
             else bind_res (last_param params) (\<lambda>kwargs.
               case kwargs of
                 JDict d \<Rightarrow> bind_res (map_res (\<lambda>(k, v). bind_res (re_deserialize E v) (\<lambda>v. Inr (k, v))) d) (\<lambda>keywords. Inr (init_params params, keywords))
               | _ \<Rightarrow> Inl TypeError)))
          (\<lambda>(params, keywords). bind_res (re_deserialize E params) (\<lambda>params. Inr (params, JDict keywords))))"

definition execute_rpc :: "'w rpc_env \<Rightarrow> opsisession option \<Rightarrow> rpc_request \<Rightarrow> ('w, py_val) prog" where
  "execute_rpc E session req =
     bind_prog (lift_prog (lookup_interface E (jr_method req))) (\<lambda>(name, mi).
     bind_prog (lift_prog (call_arguments E mi (jr_params req))) (\<lambda>(params, keywords).
       case re_function E session name of
         None \<Rightarrow> raise_prog AttributeError
       | Some f \<Rightarrow>
           bind_prog (lift_prog (py_star params)) (\<lambda>args.
           bind_prog (lift_prog (py_starstar keywords)) (\<lambda>kwargs.
           bind_prog (f args kwargs) (\<lambda>v. lift_prog (re_serialize E v))))))"

text \<open>The flag of a request is set as soon as the interface of its method is known.\<close>

definition request_deprecated :: "'w rpc_env \<Rightarrow> rpc_request \<Rightarrow> bool" where
  "request_deprecated E req =
     (case lookup_interface E (jr_method req) of Inl _ \<Rightarrow> jr_deprecated req | Inr (_, mi) \<Rightarrow> jr_deprecated req \<or> mi_deprecated mi)"

definition process_rpc_error :: "'w rpc_env \<Rightarrow> opsisession option \<Rightarrow> rpc_request option \<Rightarrow> py_error \<Rightarrow> rpc_response" where
  "process_rpc_error E session req e =
     Rpc_error (case req of None \<Rightarrow> False | Some r \<Rightarrow> jr_20 r) (case req of None \<Rightarrow> JInt 0 | Some r \<Rightarrow> jr_id r)
       (re_error_text E e) (re_error_class E e)
       (case session of None \<Rightarrow> None | Some s \<Rightarrow> if is_admin s then Some (re_traceback E e) else None)"

definition process_rpc :: "'w rpc_env \<Rightarrow> opsisession option \<Rightarrow> rpc_request \<Rightarrow> ('w, rpc_response) prog" where
  "process_rpc E session req = bind_prog (execute_rpc E session req) (\<lambda>v. return_prog (Rpc_response (jr_20 req) (jr_id req) v))"

section \<open>Statistics\<close>

abbreviation MAX_RPCS :: nat where "MAX_RPCS \<equiv> 9999"

definition on_world :: "('w, 'a) prog \<Rightarrow> ('w server, 'a) prog" where
  "on_world p = (\<lambda>s. let (res, w) = p (sv_world s) in (res, s\<lparr>sv_world := w\<rparr>))"

definition on_stats :: "(rpc_stats \<Rightarrow> rpc_stats) \<Rightarrow> ('w server, unit) prog" where
  "on_stats f = modify_prog (\<lambda>s. s\<lparr>sv_stats := f (sv_stats s)\<rparr>)"

definition add_to_set :: "'a \<Rightarrow> 'a list \<Rightarrow> 'a list" where
  "add_to_set x xs = (if x \<in> set xs then xs else xs @ [x])"

text \<open>The commands are sent as one pipeline, after all of them could be built.\<close>

definition store_deprecated_call :: "string \<Rightarrow> string \<Rightarrow> ('w server, unit) prog" where
  "store_deprecated_call name client =
     (case py_split1 CHR ''/'' client of
        None \<Rightarrow> raise_prog (ValueError ''substring not found'')
      | Some (_, agent) \<Rightarrow>
          on_stats (\<lambda>st. st\<lparr>rs_methods := add_to_set name (rs_methods st),
            rs_counts := dict_set name (case map_of (rs_counts st) name of None \<Rightarrow> 1 | Some n \<Rightarrow> Suc n) (rs_counts st),
            rs_clients := dict_set name (add_to_set agent (case map_of (rs_clients st) name of None \<Rightarrow> [] | Some cs \<Rightarrow> cs)) (rs_clients st)\<rparr>))"

definition num_params :: "py_val \<Rightarrow> nat result" where
  "num_params params = (if py_true params then py_len params else Inr 0)"

fun num_results :: "rpc_response \<Rightarrow> nat" where
  "num_results (Rpc_response v i (JList xs)) = length xs"
| "num_results (Rpc_response v i r) = 1"
| "num_results (Rpc_error v i m c d) = 0"

definition store_rpc_info :: "'w rpc_env \<Rightarrow> rpc_request \<Rightarrow> rpc_response \<Rightarrow> ('w server, unit) prog" where
  "store_rpc_info E req resp =
     then_prog (on_stats (\<lambda>st. st\<lparr>rs_num := Suc (rs_num st)\<rparr>))
     (bind_prog (gets_prog (rs_num \<circ> sv_stats)) (\<lambda>rpc_num.
      bind_prog (lift_prog (num_params (jr_params req))) (\<lambda>n.
      then_prog (when_prog (\<not> is_error resp) (on_world (re_add_metric E ''worker:avg_jsonrpc_duration'' 0)))
      (then_prog (on_stats (\<lambda>st. st\<lparr>rs_rpcs := take MAX_RPCS
          (\<lparr>ri_num = rpc_num, ri_method = jr_method req, ri_deprecated = jr_deprecated req, ri_num_params = n, ri_client = jr_client req,
            ri_error = is_error resp, ri_num_results = num_results resp\<rparr> # rs_rpcs st)\<rparr>))
        (case jr_method req of
           JStr name \<Rightarrow> when_prog (jr_deprecated req) (store_deprecated_call name (jr_client req))
         | _ \<Rightarrow> return_prog ())))))"

section \<open>Processing requests\<close>

definition answer_rpc :: "'w rpc_env \<Rightarrow> opsisession option \<Rightarrow> rpc_request \<Rightarrow> ('w, rpc_response) prog" where
  "answer_rpc E session req = catch_prog (process_rpc E session req) (\<lambda>e. return_prog (process_rpc_error E session (Some req) e))"

text \<open>A task of its own: an exception in it goes no further.\<close>

definition in_background :: "('s, unit) prog \<Rightarrow> ('s, unit) prog" where
  "in_background p = (\<lambda>s. (Inr (), snd (p s)))"

fun process_each :: "'w rpc_env \<Rightarrow> opsisession option \<Rightarrow> rpc_request list \<Rightarrow> ('w server, rpc_response list) prog" where
  "process_each E session [] = return_prog []"
| "process_each E session (req # reqs) =
     bind_prog (on_world (answer_rpc E session req)) (\<lambda>resp.
     then_prog (in_background (store_rpc_info E (req\<lparr>jr_deprecated := request_deprecated E req\<rparr>) resp))
     (bind_prog (process_each E session reqs) (\<lambda>resps. return_prog (resp # resps))))"

definition process_rpcs :: "'w rpc_env \<Rightarrow> opsisession option \<Rightarrow> rpc_request list \<Rightarrow> ('w server, rpc_response list) prog" where
  "process_rpcs E session reqs =
     then_prog (on_world (re_add_metric E ''worker:sum_jsonrpc_number'' (length reqs))) (process_each E session reqs)"

section \<open>HTTP\<close>

abbreviation COMPRESS_MIN_SIZE :: nat where "COMPRESS_MIN_SIZE \<equiv> 10000"

definition payload :: "rpc_response list \<Rightarrow> rpc_payload" where
  "payload results = (case results of [r] \<Rightarrow> Single r | _ \<Rightarrow> Batch results)"

definition http_answer ::
  "'w rpc_env \<Rightarrow> http_request \<Rightarrow> string \<Rightarrow> string option \<Rightarrow> nat \<Rightarrow> rpc_response list \<Rightarrow> http_response result" where
  "http_answer E hq serialization compression status results =
     bind_res (serialize_data E (payload results) serialization) (\<lambda>data.
       let compressed = (case compression of None \<Rightarrow> False | Some c \<Rightarrow> COMPRESS_MIN_SIZE < length data);
           linked = (\<not> (py_startswith (header_or_empty hq ''user-agent'') ''opsi config editor'' \<or>
             py_startswith (header_or_empty hq ''user-agent'') ''opsi-configed''));
           data = (if compressed then re_compress E (the compression) linked data else data)
       in Inr \<lparr>hs_status = status, hs_content_type = ''application/'' @ serialization,
            hs_content_encoding = (if compressed then compression else None), hs_content_length = length data, hs_body = data\<rparr>)"

definition request_data :: "'w rpc_env \<Rightarrow> http_request \<Rightarrow> string option \<Rightarrow> string result" where
  "request_data E hq compression =
     bind_res (hq_body hq) (\<lambda>data.
     bind_res (if data = [] then Inr (hq_query hq)
               else case compression of None \<Rightarrow> Inr data | Some c \<Rightarrow> re_decompress E c data) (\<lambda>data.
       if data = [] then Inl (ValueError ''Request data empty'') else Inr data))"

text \<open>Everything up to the requests; then the backend and their processing.\<close>

definition parse_http :: "'w rpc_env \<Rightarrow> http_request \<Rightarrow> string \<Rightarrow> string \<Rightarrow> rpc_request list result" where
  "parse_http E hq serialization client =
     bind_res (get_request_compression hq) (\<lambda>compression.
     bind_res (request_data E hq compression) (\<lambda>data.
     bind_res (jsonrpc_request_from_data E data serialization client) (\<lambda>reqs.
     bind_res (re_backend E) (\<lambda>_. Inr reqs))))"

definition is_http_exception :: "py_error \<Rightarrow> bool" where
  "is_http_exception e = (case e of HTTPException _ _ \<Rightarrow> True | _ \<Rightarrow> False)"

text \<open>The response is serialised like the request; without a known content type JSON is read and the accepted type
  is written.\<close>

definition request_format :: "http_request \<Rightarrow> string" where
  "request_format hq = (case get_request_serialization hq of None \<Rightarrow> ''json'' | Some s \<Rightarrow> s)"

definition response_format :: "http_request \<Rightarrow> string" where
  "response_format hq =
     (case get_request_serialization hq of
        None \<Rightarrow> (case get_response_serialization hq of None \<Rightarrow> ''json'' | Some s \<Rightarrow> s)
      | Some s \<Rightarrow> s)"

definition session_client :: "opsisession option \<Rightarrow> string" where
  "session_client session = (case session of None \<Rightarrow> [] | Some s \<Rightarrow> client_addr s @ ''/'' @ user_agent s)"

definition process_request :: "'w rpc_env \<Rightarrow> opsisession option \<Rightarrow> http_request \<Rightarrow> ('w server, http_response) prog" where
  "process_request E session hq =
     then_prog (on_world (re_add_metric E ''worker:sum_jsonrpc_requests'' 1))
     (let response_compression = (case get_response_compression hq of Inl _ \<Rightarrow> None | Inr c \<Rightarrow> c)
      in bind_prog
        (catch_prog
          (bind_prog (lift_prog (bind_res (get_response_compression hq) (\<lambda>_. parse_http E hq (request_format hq) (session_client session)))) (\<lambda>reqs.
           bind_prog (process_rpcs E session reqs) (\<lambda>results. return_prog (200, results))))
          (\<lambda>e. if is_http_exception e then raise_prog e else return_prog (400, [process_rpc_error E session None e])))
        (\<lambda>(status, results). lift_prog (http_answer E hq (response_format hq) response_compression status results)))"

section \<open>Requests from the messagebus\<close>

text \<open>The worker: the session in its context variable, which stays from one message to the next, the server, and
  the reader with redis.\<close>

record ('w, 'r) rpc_worker =
  wk_session :: "opsisession option"
  wk_server :: "'w server"
  wk_bus :: "'r bus"

record 'r worker_env =
  wo_bus :: "'r bus_env"
  wo_config :: session_config
  wo_codec :: codec

definition on_server :: "('w server, 'a) prog \<Rightarrow> (('w, 'r) rpc_worker, 'a) prog" where
  "on_server p = (\<lambda>k. let (res, s) = p (wk_server k) in (res, k\<lparr>wk_server := s\<rparr>))"

definition on_bus :: "('r bus, 'a) prog \<Rightarrow> (('w, 'r) rpc_worker, 'a) prog" where
  "on_bus p = (\<lambda>k. let (res, b) = p (wk_bus k) in (res, k\<lparr>wk_bus := b\<rparr>))"

definition message_request :: "string \<Rightarrow> string \<Rightarrow> string \<Rightarrow> py_val \<Rightarrow> rpc_request" where
  "message_request client rpc_id name params =
     \<lparr>jr_20 = True, jr_id = JStr rpc_id, jr_method = JStr name, jr_params = params, jr_client = client, jr_deprecated = False\<rparr>"

fun id_text :: "py_val \<Rightarrow> string" where
  "id_text (JStr s) = s"
| "id_text (JInt i) = str_of_int i"
| "id_text v = []"

fun message_result :: "rpc_response \<Rightarrow> py_val" where
  "message_result (Rpc_response v i r) = r"
| "message_result (Rpc_error v i m c d) = JNull"

fun message_error :: "rpc_response \<Rightarrow> py_val" where
  "message_error (Rpc_error True i m c d) =
     JObj ''JSONRPC20Error'' [(''message'', JStr m), (''code'', JInt 0),
       (''data'', JDict [(''class'', JStr c), (''details'', case d of None \<Rightarrow> JNull | Some x \<Rightarrow> JStr x)])]"
| "message_error resp = JNull"

definition response_message :: "string \<Rightarrow> message \<Rightarrow> rpc_response \<Rightarrow> message" where
  "response_message sender m resp =
     \<lparr>mb_type = [], mb_id = [], mb_sender = sender, mb_channel = (if mb_back_channel m \<noteq> [] then mb_back_channel m else mb_sender m),
      mb_back_channel = [], mb_expires = 0, mb_trace = [],
      mb_body = Jsonrpc_response (mb_id m) (id_text (response_id resp)) (message_result resp) (message_error resp)\<rparr>"

definition message_session :: "'r worker_env \<Rightarrow> int \<Rightarrow> message \<Rightarrow> (string \<times> redis_val) list option \<Rightarrow> (('w, 'r) rpc_worker, string) prog" where
  "message_session B now m context =
     (case context of
        None \<Rightarrow> return_prog (''messagebus/'' @ mb_sender m)
      | Some data \<Rightarrow>
          if data = [] then return_prog (''messagebus/'' @ mb_sender m)
          else bind_prog (lift_prog (from_serialized (wo_config B) (wo_codec B) now data)) (\<lambda>s.
            then_prog (modify_prog (\<lambda>k. k\<lparr>wk_session := Some s\<rparr>)) (return_prog (client_addr s @ ''/'' @ user_agent s))))"

text \<open>Only the first response is taken from the generator, and there is only one.\<close>

definition message_response :: "'w rpc_env \<Rightarrow> rpc_request \<Rightarrow> (('w, 'r) rpc_worker, rpc_response) prog" where
  "message_response E req = (\<lambda>k.
     catch_prog
       (then_prog (lift_prog (re_backend E))
         (bind_prog (on_server (process_rpcs E (wk_session k) [req])) (\<lambda>resps. return_prog (hd resps))))
       (\<lambda>e. return_prog (process_rpc_error E (wk_session k) None e)) k)"

definition consumer_name :: "reader \<Rightarrow> string" where
  "consumer_name rd = (case rd_group rd of None \<Rightarrow> [] | Some (_, name) \<Rightarrow> name)"

definition process_message :: "'w rpc_env \<Rightarrow> 'r worker_env \<Rightarrow> int \<Rightarrow> delivery \<Rightarrow> (('w, 'r) rpc_worker, unit) prog" where
  "process_message E B now = (\<lambda>(redis_id, m, context).
     case mb_body m of
       Jsonrpc_request rpc_id name params \<Rightarrow>
         bind_prog (message_session B now m context) (\<lambda>client.
         bind_prog (message_response E (message_request client rpc_id name params)) (\<lambda>resp.
         then_prog (modify_prog (\<lambda>k. k\<lparr>wk_bus := (wk_bus k)\<lparr>bu_red := send_message (wo_bus B) now
             (response_message (consumer_name (bu_reader (wk_bus k))) m resp) None (bu_red (wk_bus k))\<rparr>\<rparr>))
           (on_bus (ack_message (wo_bus B) (mb_channel m) redis_id))))
     | _ \<Rightarrow> on_bus (ack_message (wo_bus B) (mb_channel m) redis_id))"

text \<open>The worker of the config server: its reader, and the loop over what the reader delivers.\<close>

definition jsonrpc_channel :: "string \<Rightarrow> string" where
  "jsonrpc_channel depot_id = ''service:depot:'' @ depot_id @ '':jsonrpc''"

definition jsonrpc_message_reader :: "'r worker_env \<Rightarrow> string \<Rightarrow> string \<Rightarrow> 'r \<Rightarrow> unit result \<times> 'r bus" where
  "jsonrpc_message_reader B worker_id depot_id r =
     set_channels (wo_bus B) [(jsonrpc_channel depot_id, ''0'')]
       \<lparr>bu_reader = consumer_group_message_reader 0 (jsonrpc_channel depot_id) (get_user_id_for_service_worker (be_channels (wo_bus B)) worker_id),
        bu_red = r\<rparr>"

definition messagebus_jsonrpc_request_worker_configserver :: "'w rpc_env \<Rightarrow> 'r worker_env \<Rightarrow> int \<Rightarrow> delivery list \<Rightarrow> (('w, 'r) rpc_worker, unit) prog" where
  "messagebus_jsonrpc_request_worker_configserver E B now deliveries = iter_prog (\<lambda>d. in_background (process_message E B now d)) deliveries"

text \<open>The worker of a depot server answers with the unprotected backend; \<open>async_send_message\<close> is its output.\<close>

definition depot_response :: "rpc_response \<Rightarrow> message \<Rightarrow> string \<Rightarrow> message" where
  "depot_response resp m sender =
     (response_message sender m resp)\<lparr>mb_body := Jsonrpc_response (mb_id m) (id_text (response_id resp))
        (if response_20 resp then message_result resp else JNull) (message_error resp)\<rparr>"

definition depot_answer :: "'w rpc_env \<Rightarrow> string \<Rightarrow> message \<Rightarrow> ('w server, message option) prog" where
  "depot_answer E user_alias m =
     (case mb_body m of
        Jsonrpc_request rpc_id name params \<Rightarrow>
          bind_prog (catch_prog
              (bind_prog (process_rpcs E None [message_request [] rpc_id name params]) (\<lambda>resps. return_prog (hd resps)))
              (\<lambda>e. return_prog (process_rpc_error E None None e)))
            (\<lambda>resp. return_prog (Some (depot_response resp m user_alias)))
      | _ \<Rightarrow> return_prog None)"

section \<open>What processing amounts to\<close>

text \<open>The reference: every request is executed in turn, its outcome becomes its response.\<close>

definition rpc_outcome :: "'w rpc_env \<Rightarrow> opsisession option \<Rightarrow> rpc_request \<Rightarrow> py_val result \<Rightarrow> rpc_response" where
  "rpc_outcome E session req res =
     (case res of Inr v \<Rightarrow> Rpc_response (jr_20 req) (jr_id req) v | Inl e \<Rightarrow> process_rpc_error E session (Some req) e)"

fun run_rpcs :: "'w rpc_env \<Rightarrow> opsisession option \<Rightarrow> rpc_request list \<Rightarrow> 'w \<Rightarrow> rpc_response list \<times> 'w" where
  "run_rpcs E session [] w = ([], w)"
| "run_rpcs E session (req # reqs) w =
     (let (res, w1) = execute_rpc E session req w;
          (resps, w2) = run_rpcs E session reqs w1
      in (rpc_outcome E session req res # resps, w2))"

text \<open>The metrics are kept apart from what the methods work on.\<close>

definition metric_law :: "'w rpc_env \<Rightarrow> bool" where
  "metric_law E \<longleftrightarrow> (\<forall>n k w. re_add_metric E n k w = (Inr (), w))"

definition stats_bounded :: "rpc_stats \<Rightarrow> bool" where
  "stats_bounded st = (length (rs_rpcs st) \<le> MAX_RPCS)"

lemma on_world_metric: "metric_law E \<Longrightarrow> on_world (re_add_metric E n k) s = (Inr (), s)"
  by (simp add: on_world_def metric_law_def)

lemma answer_rpc_run: "answer_rpc E session req w = (Inr (rpc_outcome E session req (fst (execute_rpc E session req w))), snd (execute_rpc E session req w))"
  by (cases "execute_rpc E session req w"; cases "fst (execute_rpc E session req w)")
    (auto simp: answer_rpc_def process_rpc_def catch_prog_def bind_prog_run rpc_outcome_def)

lemma store_deprecated_call_effect:
  "sv_world (snd (store_deprecated_call name client s)) = sv_world s"
  "rs_num (sv_stats (snd (store_deprecated_call name client s))) = rs_num (sv_stats s)"
  "rs_rpcs (sv_stats (snd (store_deprecated_call name client s))) = rs_rpcs (sv_stats s)"
  by (auto simp: store_deprecated_call_def on_stats_def split: option.splits)

lemma store_rpc_info_effect:
  assumes "metric_law E"
  shows "sv_world (snd (store_rpc_info E req resp s)) = sv_world s"
    and "rs_num (sv_stats (snd (store_rpc_info E req resp s))) = Suc (rs_num (sv_stats s))"
    and "stats_bounded (sv_stats s) \<Longrightarrow> stats_bounded (sv_stats (snd (store_rpc_info E req resp s)))"
  by (cases "num_params (jr_params req)"; cases "jr_method req";
      simp add: store_rpc_info_def bind_prog_run on_stats_def on_world_metric[OF assms] store_deprecated_call_effect stats_bounded_def)+

lemma process_each_run:
  assumes "metric_law E"
  shows "\<exists>s1. process_each E session reqs s = (Inr (fst (run_rpcs E session reqs (sv_world s))), s1) \<and>
    sv_world s1 = snd (run_rpcs E session reqs (sv_world s)) \<and>
    rs_num (sv_stats s1) = rs_num (sv_stats s) + length reqs \<and> (stats_bounded (sv_stats s) \<longrightarrow> stats_bounded (sv_stats s1))"
proof (induction reqs arbitrary: s)
  case (Cons req reqs)
  obtain res w1 where w1: "execute_rpc E session req (sv_world s) = (res, w1)" by fastforce
  let ?resp = "rpc_outcome E session req res"
  let ?s1 = "snd (store_rpc_info E (req\<lparr>jr_deprecated := request_deprecated E req\<rparr>) ?resp (s\<lparr>sv_world := w1\<rparr>))"
  have w: "sv_world ?s1 = w1" and n: "rs_num (sv_stats ?s1) = Suc (rs_num (sv_stats s))"
    and b: "stats_bounded (sv_stats s) \<longrightarrow> stats_bounded (sv_stats ?s1)"
    using store_rpc_info_effect[OF assms, where s = "s\<lparr>sv_world := w1\<rparr>"] by simp_all
  obtain s2 where s2: "process_each E session reqs ?s1 = (Inr (fst (run_rpcs E session reqs w1)), s2)"
    "sv_world s2 = snd (run_rpcs E session reqs w1)" "rs_num (sv_stats s2) = rs_num (sv_stats ?s1) + length reqs"
    "stats_bounded (sv_stats ?s1) \<longrightarrow> stats_bounded (sv_stats s2)"
    using Cons[of ?s1] unfolding w by blast
  have "process_each E session (req # reqs) s = (Inr (?resp # fst (run_rpcs E session reqs w1)), s2)"
    by (simp add: bind_prog_run on_world_def answer_rpc_run w1 in_background_def s2(1))
  then show ?case using s2(2-4) n b w1 by (simp add: case_prod_beta)
qed simp

lemma process_rpcs_run:
  assumes "metric_law E"
  shows "\<exists>s1. process_rpcs E session reqs s = (Inr (fst (run_rpcs E session reqs (sv_world s))), s1) \<and>
    sv_world s1 = snd (run_rpcs E session reqs (sv_world s)) \<and>
    rs_num (sv_stats s1) = rs_num (sv_stats s) + length reqs \<and> (stats_bounded (sv_stats s) \<longrightarrow> stats_bounded (sv_stats s1))"
  using process_each_run[OF assms, of session reqs s] by (simp add: process_rpcs_def bind_prog_run on_world_metric[OF assms])

text \<open>How a response answers a request: same id, same version, and a traceback only for administrators.\<close>

definition answers :: "opsisession option \<Rightarrow> rpc_request \<Rightarrow> rpc_response \<Rightarrow> bool" where
  "answers session req resp =
     (response_id resp = jr_id req \<and> response_20 resp = jr_20 req \<and>
      (case resp of Rpc_error _ _ _ _ (Some d) \<Rightarrow> (case session of None \<Rightarrow> False | Some s \<Rightarrow> is_admin s) | _ \<Rightarrow> True))"

lemma rpc_outcome_answers: "answers session req (rpc_outcome E session req res)"
  by (auto simp: answers_def rpc_outcome_def process_rpc_error_def split: sum.splits option.splits)

lemma run_rpcs_answers: "list_all2 (answers session) reqs (fst (run_rpcs E session reqs w))"
  by (induction reqs arbitrary: w) (auto simp: case_prod_beta rpc_outcome_answers)

text \<open>A call that changes something went to a method of the interface, with arguments taken from the request.\<close>

lemma execute_rpc_calls:
  assumes "execute_rpc E session req w = (res, w1)" "w1 \<noteq> w"
  obtains name mi params kws f args kwargs where "jr_method req = JStr name" "map_of (re_interface E) name = Some mi"
    "call_arguments E mi (jr_params req) = Inr (params, kws)" "re_function E session name = Some f"
    "py_star params = Inr args" "py_starstar kws = Inr kwargs" "w1 = snd (f args kwargs w)"
proof -
  obtain name mi where n: "lookup_interface E (jr_method req) = Inr (name, mi)"
    using assms by (cases "lookup_interface E (jr_method req)") (auto simp: execute_rpc_def)
  obtain params kws where a: "call_arguments E mi (jr_params req) = Inr (params, kws)"
    using assms n by (cases "call_arguments E mi (jr_params req)") (auto simp: execute_rpc_def)
  obtain f where f: "re_function E session name = Some f"
    using assms n a by (cases "re_function E session name") (auto simp: execute_rpc_def)
  obtain args where args: "py_star params = Inr args"
    using assms n a f by (cases "py_star params") (auto simp: execute_rpc_def)
  obtain kwargs where kwargs: "py_starstar kws = Inr kwargs"
    using assms n a f args by (cases "py_starstar kws") (auto simp: execute_rpc_def)
  have w1: "w1 = snd (f args kwargs w)"
    using assms(1) n a f args kwargs by (auto simp: execute_rpc_def bind_prog_run split: sum.splits prod.splits)
  have name: "jr_method req = JStr name" "map_of (re_interface E) name = Some mi"
    using n by (auto simp: lookup_interface_def split: py_val.splits option.splits)
  show thesis by (rule that[OF name a f args kwargs w1])
qed

text \<open>A method with named parameters and \<open>**kwargs\<close>, called with positional arguments.\<close>

lemma call_arguments_keywords:
  assumes "mi_args mi = ''self'' # names" "mi_varargs mi = None" "mi_keywords mi = Some k"
    and "\<And>v. re_deserialize E v = Inr (h v)"
  shows "length xs \<le> length names \<Longrightarrow> call_arguments E mi (JList xs) = Inr (h (JList xs), JDict [])"
    and "length names < length xs \<Longrightarrow> last xs = JDict d \<Longrightarrow>
      call_arguments E mi (JList xs) = Inr (h (JList (butlast xs)), JDict (map (\<lambda>(k, v). (k, h v)) d))"
    and "length names < length xs \<Longrightarrow> \<not> is_dict (last xs) \<Longrightarrow> call_arguments E mi (JList xs) = Inl TypeError"
proof -
  have count: "parameter_count mi = Suc (length names)" using assms(1,2) by (simp add: parameter_count_def)
  have items: "map_res (\<lambda>(k, v). bind_res (re_deserialize E v) (\<lambda>v. Inr (k, v))) d = Inr (map (\<lambda>(k, v). (k, h v)) d)" for d
    by (induction d) (auto simp: assms(4))
  show "length xs \<le> length names \<Longrightarrow> call_arguments E mi (JList xs) = Inr (h (JList xs), JDict [])"
    using assms(3,4) count by (simp add: call_arguments_def)
  show "length names < length xs \<Longrightarrow> last xs = JDict d \<Longrightarrow>
      call_arguments E mi (JList xs) = Inr (h (JList (butlast xs)), JDict (map (\<lambda>(k, v). (k, h v)) d))"
    using assms(3,4) count items[of d] by (auto simp: call_arguments_def)
  show "length names < length xs \<Longrightarrow> \<not> is_dict (last xs) \<Longrightarrow> call_arguments E mi (JList xs) = Inl TypeError"
    using assms(3) count by (cases "last xs") (auto simp: call_arguments_def)
qed

text \<open>A request over HTTP that cannot be read.\<close>

lemma process_request_refused:
  assumes "metric_law E" "get_response_compression hq = Inr compression" "\<not> is_http_exception e"
    and "parse_http E hq (request_format hq) (session_client session) = Inl e"
  shows "process_request E session hq s = (http_answer E hq (response_format hq) compression 400 [process_rpc_error E session None e], s)"
  using assms(2-4) by (simp add: process_request_def bind_prog_run on_world_metric[OF assms(1)] catch_prog_def Let_def)

lemma map_res_Inl: "x \<in> set xs \<Longrightarrow> f x = Inl e0 \<Longrightarrow> \<exists>y \<in> set xs. \<exists>e. f y = Inl e \<and> map_res f xs = Inl e"
proof (induction xs)
  case (Cons y ys)
  then show ?case by (cases "f y") (auto, fastforce)
qed simp

lemma request_from_dict_error: "jsonrpc_request_from_dict client d = Inl e \<Longrightarrow> \<not> is_http_exception e"
  by (cases d) (auto simp: jsonrpc_request_from_dict_def is_http_exception_def of_option_def split: option.splits)

lemma request_from_dict_refused:
  assumes "\<not> is_dict d \<or> py_item ''method'' d = Inl (KeyError ''method'')"
  shows "\<exists>e. jsonrpc_request_from_dict client d = Inl e"
  using assms by (cases d) (auto simp: jsonrpc_request_from_dict_def)

section \<open>The session of a message\<close>

text \<open>Documented behaviour of msgspec and opsicommon, for a message and its context: decoding gives back what was
  encoded.\<close>

definition roundtrips :: "'r bus_env \<Rightarrow> message \<Rightarrow> (string \<times> redis_val) list \<Rightarrow> bool" where
  "roundtrips B m c \<longleftrightarrow>
     be_to_msgpack B m \<noteq> [] \<and> be_from_msgpack B (be_to_msgpack B m) = Inr m \<and>
     be_encode_context B c \<noteq> [] \<and> be_decode_context B (be_encode_context B c) = Inr c"

lemma read_sent_message:
  assumes "roundtrips B m c" "\<not> is_trace m" "mb_expires m = 0 \<or> now2 < mb_expires m" "c \<noteq> []"
  shows "read_messages B now2 [(i, prepare_send_message B now m (Some c))] [] = ([(i, m, Some c)], Inr i)"
proof -
  have "add_trace a t m = m" for a t using assms(2) by (simp add: add_trace_def)
  then show ?thesis using assms(1,3,4) by (auto simp: roundtrips_def prepare_send_message_def entry_context_def)
qed

text \<open>The part of the handler after the session is known.\<close>

definition respond_message :: "'w rpc_env \<Rightarrow> 'r worker_env \<Rightarrow> int \<Rightarrow> string \<Rightarrow> message \<Rightarrow> rpc_request \<Rightarrow> (('w, 'r) rpc_worker, unit) prog" where
  "respond_message E B now redis_id m req =
     bind_prog (message_response E req) (\<lambda>resp.
       then_prog (modify_prog (\<lambda>k. k\<lparr>wk_bus := (wk_bus k)\<lparr>bu_red := send_message (wo_bus B) now
             (response_message (consumer_name (bu_reader (wk_bus k))) m resp) None (bu_red (wk_bus k))\<rparr>\<rparr>))
         (on_bus (ack_message (wo_bus B) (mb_channel m) redis_id)))"

lemma process_message_context:
  assumes "mb_body m = Jsonrpc_request rpc_id name params" "from_serialized (wo_config B) (wo_codec B) now c = Inr t" "c \<noteq> []"
  shows "process_message E B now (i, m, Some c) k =
    respond_message E B now i m (message_request (client_addr t @ ''/'' @ user_agent t) rpc_id name params) (k\<lparr>wk_session := Some t\<rparr>)"
  using assms by (simp add: process_message_def respond_message_def message_session_def bind_prog_run)

lemma process_message_no_context:
  assumes "mb_body m = Jsonrpc_request rpc_id name params"
  shows "process_message E B now (i, m, None) k =
    respond_message E B now i m (message_request (''messagebus/'' @ mb_sender m) rpc_id name params) k"
  using assms by (simp add: process_message_def respond_message_def message_session_def bind_prog_run)

text \<open>The response of the worker is the outcome of the call under the session in the context variable.\<close>

lemma message_response_run:
  assumes "metric_law E" "re_backend E = Inr ()"
  shows "\<exists>s1. message_response E req k =
      (Inr (rpc_outcome E (wk_session k) req (fst (execute_rpc E (wk_session k) req (sv_world (wk_server k))))), k\<lparr>wk_server := s1\<rparr>) \<and>
    sv_world s1 = snd (execute_rpc E (wk_session k) req (sv_world (wk_server k)))"
  using process_rpcs_run[OF assms(1), of "wk_session k" "[req]" "wk_server k"]
  by (auto simp: message_response_def catch_prog_def bind_prog_run assms(2) on_server_def case_prod_beta)

lemma respond_message_run:
  assumes "metric_law E" "re_backend E = Inr ()"
  shows "\<exists>s1. respond_message E B now i m req k =
      on_bus (ack_message (wo_bus B) (mb_channel m) i)
        (k\<lparr>wk_server := s1, wk_bus := (wk_bus k)\<lparr>bu_red := send_message (wo_bus B) now
          (response_message (consumer_name (bu_reader (wk_bus k))) m
            (rpc_outcome E (wk_session k) req (fst (execute_rpc E (wk_session k) req (sv_world (wk_server k)))))) None (bu_red (wk_bus k))\<rparr>\<rparr>) \<and>
    sv_world s1 = snd (execute_rpc E (wk_session k) req (sv_world (wk_server k)))"
proof -
  obtain s1 where s1: "message_response E req k =
      (Inr (rpc_outcome E (wk_session k) req (fst (execute_rpc E (wk_session k) req (sv_world (wk_server k))))), k\<lparr>wk_server := s1\<rparr>)"
    "sv_world s1 = snd (execute_rpc E (wk_session k) req (sv_world (wk_server k)))"
    using message_response_run[OF assms] by blast
  then show ?thesis by (intro exI[of _ s1]) (simp add: respond_message_def bind_prog_run)
qed

lemma on_bus_keeps:
  "wk_session (snd (on_bus p k)) = wk_session k" "wk_server (snd (on_bus p k)) = wk_server k"
  by (simp_all add: on_bus_def case_prod_beta)

lemma respond_message_keeps:
  assumes "metric_law E" "re_backend E = Inr ()" "respond_message E B now i m req k = (res, k1)"
  shows "wk_session k1 = wk_session k" "sv_world (wk_server k1) = snd (execute_rpc E (wk_session k) req (sv_world (wk_server k)))"
proof -
  obtain s1 b where s1: "respond_message E B now i m req k = on_bus (ack_message (wo_bus B) (mb_channel m) i) (k\<lparr>wk_server := s1, wk_bus := b\<rparr>)"
    "sv_world s1 = snd (execute_rpc E (wk_session k) req (sv_world (wk_server k)))"
    using respond_message_run[OF assms(1,2)] by blast
  have k1: "k1 = snd (on_bus (ack_message (wo_bus B) (mb_channel m) i) (k\<lparr>wk_server := s1, wk_bus := b\<rparr>))"
    using assms(3) s1(1) by simp
  show "wk_session k1 = wk_session k" unfolding k1 on_bus_keeps by simp
  show "sv_world (wk_server k1) = snd (execute_rpc E (wk_session k) req (sv_world (wk_server k)))"
    unfolding k1 on_bus_keeps using s1(2) by simp
qed

text \<open>When the backend is not available, the error is lost on its way: the response has neither result nor
  error and the id 0.\<close>

lemma backend_failure_without_error:
  assumes "re_backend E = Inl e"
  shows "\<exists>resp. message_response E req k = (Inr resp, k) \<and> message_result resp = JNull \<and> message_error resp = JNull \<and> id_text (response_id resp) = ''0''"
proof -
  have "str_of_int 0 = ''0''" by code_simp
  then show ?thesis using assms by (simp add: message_response_def catch_prog_def bind_prog_run process_rpc_error_def)
qed

section \<open>A server\<close>

definition sample_interface :: method_interface where
  "sample_interface =
     \<lparr>mi_name = ''count'', mi_params = [], mi_args = [''self''], mi_varargs = None, mi_keywords = None, mi_defaults = None, mi_deprecated = False,
      mi_drop_version = None, mi_alternative_method = None, mi_doc = None, mi_annotations = []\<rparr>"

definition sample_rpc_env :: "nat rpc_env" where
  "sample_rpc_env =
     \<lparr>re_interface = [(''count'', sample_interface)],
      re_function = (\<lambda>session name. if name = ''count'' then Some (\<lambda>args kwargs w. (Inr (JInt (int w)), Suc w)) else None),
      re_deserialize = Inr, re_serialize = Inr, re_error_text = (\<lambda>_. ''error''), re_error_class = (\<lambda>_. ''Exception''),
      re_traceback = (\<lambda>_. ''trace''), re_add_metric = (\<lambda>_ _ w. (Inr (), w)), re_backend = Inr (),
      re_decode = (\<lambda>_ _. Inr (JList [JDict [(''method'', JStr ''count'')], JInt 1])), re_encode = (\<lambda>_ _. Inr ''{}''),
      re_compress = (\<lambda>_ _ d. d), re_decompress = (\<lambda>_. Inr)\<rparr>"

definition sample_server :: "nat server" where
  "sample_server = \<lparr>sv_world = 0, sv_stats = \<lparr>rs_num = 0, rs_rpcs = [], rs_methods = [], rs_counts = [], rs_clients = []\<rparr>\<rparr>"

definition sample_http_request :: http_request where
  "sample_http_request = \<lparr>hq_header = (\<lambda>_. None), hq_body = Inr ''[]'', hq_query = []\<rparr>"

definition sample_count :: rpc_request where
  "sample_count = message_request ''a/b'' ''7'' ''count'' (JList [])"

lemma sample_metric_law: "metric_law sample_rpc_env"
  by (simp add: metric_law_def sample_rpc_env_def)

lemma sample_execute:
  "execute_rpc sample_rpc_env session sample_count w = (Inr (JInt (int w)), Suc w)"
  "execute_rpc sample_rpc_env session (sample_count\<lparr>jr_method := JInt 1\<rparr>) w = (Inl (ValueError ''Invalid method''), w)"
  by (simp_all add: execute_rpc_def sample_rpc_env_def sample_count_def message_request_def lookup_interface_def call_arguments_def
      sample_interface_def bind_prog_run)

definition sample_call :: message where
  "sample_call = sample_accepted\<lparr>mb_body := Jsonrpc_request ''7'' ''count'' (JList [])\<rparr>"

definition sample_rpc_bus :: "list_redis bus_env" where
  "sample_rpc_bus = sample_bus_env\<lparr>be_to_msgpack := (\<lambda>_. ''m''), be_from_msgpack := (\<lambda>_. Inr sample_call),
     be_encode_context := (\<lambda>_. ''c''), be_decode_context := (\<lambda>_. Inr (serialize example_codec sample_session))\<rparr>"

definition sample_rpc_ws :: "list_redis ws_env" where
  "sample_rpc_ws = sample_ws_env\<lparr>we_bus := sample_rpc_bus, we_codec := example_codec, we_from_dict := (\<lambda>_. Inr sample_call)\<rparr>"

definition sample_worker_env :: "list_redis worker_env" where
  "sample_worker_env = \<lparr>wo_bus = sample_rpc_bus,
     wo_config = \<lparr>session_lifetime = 120, max_session_per_ip = 25, max_sessions_excludes = [], redis_prefix = ''opsi''\<rparr>, wo_codec = example_codec\<rparr>"

definition sample_worker :: "(nat, list_redis) rpc_worker" where
  "sample_worker = \<lparr>wk_session = None, wk_server = sample_server, wk_bus = sample_bus\<rparr>"

lemma sample_call_fields:
  "mb_body sample_call = Jsonrpc_request ''7'' ''count'' (JList [])" "mb_expires sample_call = 0" "mb_channel sample_call = ''service:messagebus''"
  "mb_back_channel sample_call = ''service:messagebus''" "mb_type sample_call = ''x''"
  by (simp_all add: sample_call_def sample_accepted_def sample_message_def)

lemma sample_call_accepted: "accept_message sample_rpc_ws sample_connection ''1'' = Inr sample_call"
proof -
  have "decode_message sample_rpc_ws ''1'' = Inr [(''id'', MV_str ''1'')]" by (simp add: decode_message_def sample_rpc_ws_def sample_ws_env_def)
  moreover have "we_from_dict sample_rpc_ws d = Inr sample_call" for d by (simp add: sample_rpc_ws_def)
  moreover have "resolve_own sample_rpc_ws sample_connection sample_call = Inr sample_call"
    by (simp add: resolve_own_def Let_def sample_call_fields sample_rpc_ws_def sample_ws_env_def py_startswith_def)
  moreover have "check_channel_access sample_rpc_ws sample_connection ''service:messagebus'' Access_write = Inr True"
  proof -
    have "check_channel_access sample_rpc_ws sample_connection ''service:messagebus'' Access_write =
        check_channel_access sample_ws_env sample_connection ''service:messagebus'' Access_write"
      by (simp add: check_channel_access_def sample_rpc_ws_def sample_rpc_bus_def sample_ws_env_def)
    also have "\<dots> = Inr True" by code_simp
    finally show ?thesis .
  qed
  moreover have "check_message_type_access sample_rpc_ws ''x''" by (simp add: check_message_type_access_def restricted_message_types_def)
  ultimately show ?thesis by (simp add: accept_message_def of_option_def sample_call_fields)
qed

lemma sample_session_finite: "finite_sets sample_session"
  by (simp add: finite_sets_def sample_session_def new_session_def set_headers_def)

lemma sample_rpc_laws:
  "roundtrips (we_bus sample_rpc_ws) sample_call (serialize (we_codec sample_rpc_ws) (we_session sample_rpc_ws))"
  "codec_laws (we_codec sample_rpc_ws)" "finite_sets (we_session sample_rpc_ws)" "re_backend sample_rpc_env = Inr ()"
  "wo_bus sample_worker_env = we_bus sample_rpc_ws" "wo_codec sample_worker_env = we_codec sample_rpc_ws"
  "we_session sample_rpc_ws = sample_session" "we_codec sample_rpc_ws = example_codec"
  by (simp_all add: roundtrips_def sample_rpc_ws_def sample_rpc_bus_def sample_ws_env_def example_codec_laws sample_session_finite sample_rpc_env_def sample_worker_env_def)

section \<open>Properties\<close>

text \<open>C16. Every request of a batch is executed, in order, and gets its response in its place: the responses and the
  changes are those of executing one request after the other, an exception of a method ends only its own
  request, every response has the id and the protocol version of its request, and a traceback goes to
  administrators only. The statistics do not change any of this.\<close>

theorem rpcs_answered_in_order:
  assumes "metric_law E"
  shows "\<exists>s1. process_rpcs E session reqs s = (Inr (fst (run_rpcs E session reqs (sv_world s))), s1) \<and>
    sv_world s1 = snd (run_rpcs E session reqs (sv_world s)) \<and> list_all2 (answers session) reqs (fst (run_rpcs E session reqs (sv_world s)))"
  using process_rpcs_run[OF assms, of session reqs s] by (auto simp: run_rpcs_answers)

theorem rpcs_answered_in_order_witness:
  "fst (process_rpcs sample_rpc_env None [sample_count, sample_count\<lparr>jr_method := JInt 1\<rparr>, sample_count] sample_server) =
     Inr [Rpc_response True (JStr ''7'') (JInt 0), Rpc_error True (JStr ''7'') ''error'' ''Exception'' None, Rpc_response True (JStr ''7'') (JInt 1)]"
proof -
  let ?reqs = "[sample_count, sample_count\<lparr>jr_method := JInt 1\<rparr>, sample_count]"
  have "fst (run_rpcs sample_rpc_env None ?reqs (sv_world sample_server)) =
      [Rpc_response True (JStr ''7'') (JInt 0), Rpc_error True (JStr ''7'') ''error'' ''Exception'' None, Rpc_response True (JStr ''7'') (JInt 1)]"
    by (simp add: sample_execute rpc_outcome_def process_rpc_error_def sample_server_def)
      (simp add: sample_count_def message_request_def sample_rpc_env_def)
  moreover obtain s1 where "process_rpcs sample_rpc_env None ?reqs sample_server = (Inr (fst (run_rpcs sample_rpc_env None ?reqs (sv_world sample_server))), s1)"
    using rpcs_answered_in_order[OF sample_metric_law] by blast
  ultimately show ?thesis by (simp only: fst_conv)
qed

text \<open>C17. A request can only call what the interface describes: if executing it changes anything, its method is a
  name of the interface and the change is that of one call of this function, with arguments made
  from the parameters of the request. Helper methods of the backend cannot be reached.\<close>

theorem only_interface_methods_called:
  assumes "execute_rpc E session req w = (res, w1)" "w1 \<noteq> w"
  shows "\<exists>name mi params kws f args kwargs. jr_method req = JStr name \<and> map_of (re_interface E) name = Some mi \<and>
    call_arguments E mi (jr_params req) = Inr (params, kws) \<and> re_function E session name = Some f \<and>
    py_star params = Inr args \<and> py_starstar kws = Inr kwargs \<and> w1 = snd (f args kwargs w)"
  using execute_rpc_calls[OF assms] by metis

theorem only_interface_methods_called_witness:
  "\<exists>name mi. jr_method sample_count = JStr name \<and> map_of (re_interface sample_rpc_env) name = Some mi"
proof -
  have "execute_rpc sample_rpc_env None sample_count 0 = (Inr (JInt 0), Suc 0)" by (simp add: sample_execute)
  from only_interface_methods_called[OF this] show ?thesis by auto
qed

text \<open>One element of a batch that is not a request refuses the whole batch: the answer has status 400 and a
  single error response, and nothing was executed or counted.\<close>

theorem malformed_batch_refused:
  assumes "metric_law E" "get_response_compression hq = Inr compression" "get_request_compression hq = Inr c"
    and "request_data E hq c = Inr data" "deserialize_data E data (request_format hq) = Inr (JList ds)"
    and "d \<in> set ds" "\<not> is_dict d \<or> py_item ''method'' d = Inl (KeyError ''method'')"
  shows "\<exists>e. process_request E session hq s =
    (http_answer E hq (response_format hq) compression 400 [process_rpc_error E session None e], s)"
proof -
  obtain e0 where "jsonrpc_request_from_dict (session_client session) d = Inl e0" using request_from_dict_refused[OF assms(7)] by blast
  then obtain d1 e where e: "jsonrpc_request_from_dict (session_client session) d1 = Inl e" "map_res (jsonrpc_request_from_dict (session_client session)) ds = Inl e"
    using map_res_Inl[OF assms(6)] by blast
  have "parse_http E hq (request_format hq) (session_client session) = Inl e"
    using assms(3-5) e(2) by (simp add: parse_http_def jsonrpc_request_from_data_def)
  then show ?thesis using process_request_refused[OF assms(1,2) request_from_dict_error[OF e(1)]] by blast
qed

theorem malformed_batch_refused_witness:
  "\<exists>e. process_request sample_rpc_env None sample_http_request sample_server =
    (http_answer sample_rpc_env sample_http_request ''json'' None 400 [process_rpc_error sample_rpc_env None None e], sample_server)"
proof -
  have "get_response_compression sample_http_request = Inr None" "get_request_compression sample_http_request = Inr None"
    "request_data sample_rpc_env sample_http_request None = Inr ''[]''" "response_format sample_http_request = ''json''"
    "deserialize_data sample_rpc_env ''[]'' (request_format sample_http_request) = Inr (JList [JDict [(''method'', JStr ''count'')], JInt 1])"
    by code_simp+
  then show ?thesis using malformed_batch_refused[OF sample_metric_law, of sample_http_request None None "''[]''" _ "JInt 1" None sample_server] by auto
qed

text \<open>The statistics stay bounded: at most 9999 calls are remembered, and every request of a batch counts once,
  whether it fails or not.\<close>

theorem rpc_statistics_bounded:
  assumes "metric_law E" "stats_bounded (sv_stats s)" "process_rpcs E session reqs s = (res, s1)"
  shows "length (rs_rpcs (sv_stats s1)) \<le> 9999 \<and> rs_num (sv_stats s1) = rs_num (sv_stats s) + length reqs"
  using process_rpcs_run[OF assms(1), of session reqs s] assms(2,3) by (auto simp: stats_bounded_def)

theorem rpc_statistics_bounded_witness:
  "rs_num (sv_stats (snd (process_rpcs sample_rpc_env None [sample_count, sample_count] sample_server))) = 2"
proof -
  obtain res s1 where s1: "process_rpcs sample_rpc_env None [sample_count, sample_count] sample_server = (res, s1)" by fastforce
  have "stats_bounded (sv_stats sample_server)" by (simp add: stats_bounded_def sample_server_def)
  from rpc_statistics_bounded[OF sample_metric_law this s1] show ?thesis unfolding s1 by (simp add: sample_server_def)
qed

text \<open>C7. A request over the messagebus is executed with the rights of its sender: what a websocket client sends goes
  into the stream of its channel with the session of the connection as context; a worker that reads the entry
  gets the message with that context, makes a session with the same fourteen attributes, executes the call
  under it, sends the one response to the back channel or the sender, and acknowledges the message.\<close>

theorem request_runs_as_sender:
  assumes "accept_message W c data = Inr m" "mb_body m = Jsonrpc_request rpc_id name params"
    and "roundtrips (we_bus W) m (serialize (we_codec W) (we_session W))"
    and "codec_laws (we_codec W)" "finite_sets (we_session W)" "mb_expires m = 0 \<or> now2 < mb_expires m"
    and "metric_law E" "re_backend E = Inr ()" "wo_bus B = we_bus W" "wo_codec B = we_codec W"
  shows "let context = serialize (we_codec W) (we_session W);
             entry = prepare_send_message (we_bus W) now m (Some context)
    in mc_red (on_receive W now data c) =
         st_xadd (be_redis (we_bus W)) (channel_key (we_bus W) (mb_channel m)) MAX_STREAM_LENGTH entry (mc_red c) \<and>
       read_messages (we_bus W) now2 [(i, entry)] [] = ([(i, m, Some context)], Inr i) \<and>
       (\<exists>t s1. (\<forall>a \<in> set session_attributes. attr_value t a = attr_value (we_session W) a) \<and>
          (let req = message_request (client_addr t @ ''/'' @ user_agent t) rpc_id name params;
               call = execute_rpc E (Some t) req (sv_world (wk_server k))
           in sv_world s1 = snd call \<and>
              process_message E B now3 (i, m, Some context) k =
                on_bus (ack_message (wo_bus B) (mb_channel m) i) (k\<lparr>wk_session := Some t, wk_server := s1,
                  wk_bus := (wk_bus k)\<lparr>bu_red := send_message (wo_bus B) now3
                    (response_message (consumer_name (bu_reader (wk_bus k))) m (rpc_outcome E (Some t) req (fst call))) None (bu_red (wk_bus k))\<rparr>\<rparr>)))"
proof -
  let ?s = "serialize (we_codec W) (we_session W)"
  have notrace: "\<not> is_trace m" "\<And>a t. add_trace a t m = m" using assms(2) by (simp_all add: is_trace_def add_trace_def)
  have ne: "?s \<noteq> []" by simp
  have red: "mc_red (on_receive W now data c) =
      st_xadd (be_redis (we_bus W)) (channel_key (we_bus W) (mb_channel m)) MAX_STREAM_LENGTH (prepare_send_message (we_bus W) now m (Some ?s)) (mc_red c)"
    using dispatch_sends[of m W now] assms(1,2) notrace(2) by (simp add: on_receive_red send_message_def)
  note reading = read_sent_message[OF assms(3) notrace(1) assms(6) ne, of i now]
  obtain t where t: "from_serialized (wo_config B) (we_codec W) now3 ?s = Inr t" "\<forall>a \<in> set session_attributes. attr_value t a = attr_value (we_session W) a"
    using from_serialized_serialize[OF assms(4,5)] by blast
  let ?req = "message_request (client_addr t @ ''/'' @ user_agent t) rpc_id name params"
  have "from_serialized (wo_config B) (wo_codec B) now3 ?s = Inr t" using t(1) assms(10) by simp
  note p = process_message_context[OF assms(2) this ne, of E i k]
  obtain s1 where "respond_message E B now3 i m ?req (k\<lparr>wk_session := Some t\<rparr>) =
      on_bus (ack_message (wo_bus B) (mb_channel m) i) (k\<lparr>wk_session := Some t, wk_server := s1, wk_bus := (wk_bus k)\<lparr>bu_red := send_message (wo_bus B) now3
        (response_message (consumer_name (bu_reader (wk_bus k))) m (rpc_outcome E (Some t) ?req (fst (execute_rpc E (Some t) ?req (sv_world (wk_server k)))))) None (bu_red (wk_bus k))\<rparr>\<rparr>)"
    "sv_world s1 = snd (execute_rpc E (Some t) ?req (sv_world (wk_server k)))"
    using respond_message_run[OF assms(7,8), of B now3 i m ?req "k\<lparr>wk_session := Some t\<rparr>"] by auto
  then show ?thesis unfolding Let_def using red reading t(2) p by (intro conjI exI[of _ t] exI[of _ s1]) simp_all
qed

theorem request_runs_as_sender_witness:
  "\<exists>t. attr_value t ''username'' = Some (VStr ''adm'') \<and>
    wk_session (snd (process_message sample_rpc_env sample_worker_env 0 (''5'', sample_call, Some (serialize example_codec sample_session)) sample_worker)) = Some t"
proof -
  obtain t s1 b where t: "\<forall>a \<in> set session_attributes. attr_value t a = attr_value (we_session sample_rpc_ws) a"
    "process_message sample_rpc_env sample_worker_env 0 (''5'', sample_call, Some (serialize example_codec sample_session)) sample_worker =
      on_bus (ack_message (wo_bus sample_worker_env) (mb_channel sample_call) ''5'') (sample_worker\<lparr>wk_session := Some t, wk_server := s1, wk_bus := b\<rparr>)"
    using request_runs_as_sender[OF sample_call_accepted sample_call_fields(1) sample_rpc_laws(1-3) _ sample_metric_law sample_rpc_laws(4-6),
        of 0 0 "''5''" sample_worker 0] sample_rpc_laws(7,8) sample_call_fields(2)
    unfolding Let_def by metis
  have "attr_value t ''username'' = attr_value sample_session ''username''" using t(1) by (simp add: session_attributes_def sample_rpc_laws(7))
  then have "attr_value t ''username'' = Some (VStr ''adm'')" by (simp add: attr_value_def sample_session_def)
  then show ?thesis unfolding t(2) on_bus_keeps by auto
qed

text \<open>A request without a context is executed with the rights of whoever came before: the session stays in the
  context variable of the worker, and a message that carries none (such as those of \<open>_execute_rpc_on_depot\<close>)
  is executed under the session of the preceding message.\<close>

theorem contextless_request_inherits_session:
  assumes "metric_law E" "re_backend E = Inr ()" "c \<noteq> []" "from_serialized (wo_config B) (wo_codec B) now c = Inr t"
    and "mb_body m1 = Jsonrpc_request rpc_id1 name1 params1" "mb_body m2 = Jsonrpc_request rpc_id2 name2 params2"
    and "process_message E B now (i1, m1, Some c) k = (res, k1)"
  shows "sv_world (wk_server (snd (process_message E B now (i2, m2, None) k1))) =
    snd (execute_rpc E (Some t) (message_request (''messagebus/'' @ mb_sender m2) rpc_id2 name2 params2) (sv_world (wk_server k1)))"
proof -
  have "respond_message E B now i1 m1 (message_request (client_addr t @ ''/'' @ user_agent t) rpc_id1 name1 params1) (k\<lparr>wk_session := Some t\<rparr>) = (res, k1)"
    using process_message_context[OF assms(5,4,3), of E i1 k] assms(7) by simp
  then have k1: "wk_session k1 = Some t" using respond_message_keeps(1)[OF assms(1,2)] by fastforce
  obtain res2 k2 where k2: "process_message E B now (i2, m2, None) k1 = (res2, k2)" by fastforce
  then have "respond_message E B now i2 m2 (message_request (''messagebus/'' @ mb_sender m2) rpc_id2 name2 params2) k1 = (res2, k2)"
    using process_message_no_context[OF assms(6), of E B now i2 k1] by simp
  from respond_message_keeps(2)[OF assms(1,2) this] show ?thesis by (simp add: k1 k2)
qed

theorem contextless_request_inherits_session_witness:
  "\<exists>t k1. attr_value t ''username'' = Some (VStr ''adm'') \<and> sv_world (wk_server k1) = 1 \<and>
    sv_world (wk_server (snd (process_message sample_rpc_env sample_worker_env 0 (''6'', sample_call, None) k1))) =
      snd (execute_rpc sample_rpc_env (Some t) (message_request ''messagebus/user:adm'' ''7'' ''count'' (JList [])) 1)"
proof -
  let ?c = "serialize example_codec sample_session"
  obtain t where t: "from_serialized (wo_config sample_worker_env) (wo_codec sample_worker_env) 0 ?c = Inr t"
    "\<forall>a \<in> set session_attributes. attr_value t a = attr_value sample_session a"
    using from_serialized_serialize[OF sample_rpc_laws(2,3), of "wo_config sample_worker_env" 0] unfolding sample_rpc_laws by auto
  obtain res k1 where k1: "process_message sample_rpc_env sample_worker_env 0 (''5'', sample_call, Some ?c) sample_worker = (res, k1)" by fastforce
  have "respond_message sample_rpc_env sample_worker_env 0 ''5'' sample_call (message_request (client_addr t @ ''/'' @ user_agent t) ''7'' ''count'' (JList []))
      (sample_worker\<lparr>wk_session := Some t\<rparr>) = (res, k1)"
    using process_message_context[OF sample_call_fields(1) t(1), of sample_rpc_env "''5''" sample_worker] k1 by simp
  from respond_message_keeps(2)[OF sample_metric_law sample_rpc_laws(4) this]
  have one: "sv_world (wk_server k1) = 1"
    by (simp add: sample_worker_def sample_server_def execute_rpc_def sample_rpc_env_def message_request_def lookup_interface_def call_arguments_def
        sample_interface_def bind_prog_run)
  have "attr_value t ''username'' = Some (VStr ''adm'')" using t(2) by (simp add: session_attributes_def attr_value_def sample_session_def)
  moreover have "mb_sender sample_call = ''user:adm''" by (simp add: sample_call_def sample_accepted_def)
  ultimately show ?thesis
    using contextless_request_inherits_session[OF sample_metric_law sample_rpc_laws(4) _ t(1) sample_call_fields(1) sample_call_fields(1) k1, of "''6''"] one by auto
qed

end
