(* ===== verification/Dhcpd_Conf.thy ===== *)
theory Dhcpd_Conf
  imports Py_Strings
begin

text \<open>
  The configuration file of the DHCP server (\<open>opsiconfd/dhcpd.py\<close>): its components, the parser,
  the text that is written, and the operations on hosts. The components are objects that refer to
  each other (a block to its components and its parent, and a second time by line number), so
  they live in an explicit store: a list of components, addressed by position; creating an object
  appends to it. A block is created before its components, so references lead to larger addresses
  and parents have smaller ones; the recursions check this, which makes them total, and the
  invariant of the store says that the check never fails.
\<close>

section \<open>Components\<close>

datatype dhcp_value = VText string | VFlag bool

record dhcp_block =
  db_type :: string
  db_settings :: "string list"
  db_line_refs :: "(int \<times> nat list) list"
  db_components :: "nat list"

datatype dhcp_data =
    DParameter string dhcp_value
  | DOption string "string list"
  | DComment string
  | DEmptyLine
  | DBlock dhcp_block

record component =
  co_start :: int
  co_end :: int
  co_parent :: "nat option"
  co_data :: dhcp_data

type_synonym store = "component list"

definition new_component :: "int \<Rightarrow> nat option \<Rightarrow> dhcp_data \<Rightarrow> component" where
  "new_component start parent d = \<lparr>co_start = start, co_end = start, co_parent = parent, co_data = d\<rparr>"

definition new_block :: "string \<Rightarrow> string list \<Rightarrow> dhcp_data" where
  "new_block t settings = DBlock \<lparr>db_type = t, db_settings = settings, db_line_refs = [], db_components = []\<rparr>"

definition parameter_value :: "dhcp_value \<Rightarrow> dhcp_value" where
  "parameter_value v =
     (case v of
        VFlag b \<Rightarrow> VFlag b
      | VText s \<Rightarrow>
          if py_lower s \<in> {''yes'', ''true'', ''on''} then VFlag True
          else if py_lower s \<in> {''no'', ''false'', ''off''} then VFlag False
          else VText s)"

definition new_parameter :: "string \<Rightarrow> dhcp_value \<Rightarrow> dhcp_data" where
  "new_parameter key v = DParameter key (parameter_value v)"

section \<open>The store\<close>

definition get_block :: "store \<Rightarrow> nat \<Rightarrow> dhcp_block option" where
  "get_block h i = (if i < length h then (case co_data (h ! i) of DBlock b \<Rightarrow> Some b | _ \<Rightarrow> None) else None)"

definition get_parent :: "store \<Rightarrow> nat \<Rightarrow> nat option" where
  "get_parent h i = (if i < length h then co_parent (h ! i) else None)"

definition get_components :: "store \<Rightarrow> nat \<Rightarrow> nat list" where
  "get_components h i = (case get_block h i of None \<Rightarrow> [] | Some b \<Rightarrow> db_components b)"

definition get_line_refs :: "store \<Rightarrow> nat \<Rightarrow> int \<Rightarrow> nat list" where
  "get_line_refs h i l = (case get_block h i of None \<Rightarrow> [] | Some b \<Rightarrow> (case map_of (db_line_refs b) l of None \<Rightarrow> [] | Some xs \<Rightarrow> xs))"

definition put_block :: "nat \<Rightarrow> (dhcp_block \<Rightarrow> dhcp_block) \<Rightarrow> store \<Rightarrow> store" where
  "put_block i f h = (case get_block h i of None \<Rightarrow> h | Some b \<Rightarrow> h[i := (h ! i)\<lparr>co_data := DBlock (f b)\<rparr>])"

definition add_component :: "nat \<Rightarrow> nat \<Rightarrow> store \<Rightarrow> store" where
  "add_component i c h =
     (let l = co_start (h ! c)
      in put_block i (\<lambda>b. b\<lparr>db_components := db_components b @ [c],
           db_line_refs := dict_set l ((case map_of (db_line_refs b) l of None \<Rightarrow> [] | Some xs \<Rightarrow> xs) @ [c]) (db_line_refs b)\<rparr>) h)"

text \<open>Creating a component of a block and adding it.\<close>

definition create_in :: "nat \<Rightarrow> int \<Rightarrow> dhcp_data \<Rightarrow> store \<Rightarrow> store" where
  "create_in i start d h = add_component i (length h) (h @ [new_component start (Some i) d])"

definition remove_component :: "nat \<Rightarrow> nat \<Rightarrow> store \<Rightarrow> store result" where
  "remove_component i c h =
     (case get_block h i of
        None \<Rightarrow> Inl AttributeError
      | Some b \<Rightarrow>
          if c \<notin> set (db_components b) then Inl (ValueError ''list.remove'')
          else let l = co_start (h ! c)
               in Inr (put_block i (\<lambda>b. b\<lparr>db_components := remove1 c (db_components b),
                    db_line_refs := (case map_of (db_line_refs b) l of
                       None \<Rightarrow> db_line_refs b
                     | Some xs \<Rightarrow> dict_set l (remove1 c xs) (db_line_refs b))\<rparr>) h))"

text \<open>\<open>for comp in self.components: self.remove_component(comp)\<close> removes from the list it
  iterates over: the iterator goes by position, so every other component is skipped.\<close>

fun remove_loop :: "nat \<Rightarrow> nat \<Rightarrow> nat \<Rightarrow> store \<Rightarrow> store result" where
  "remove_loop 0 pos i h = Inr h"
| "remove_loop (Suc k) pos i h =
     (let cs = get_components h i in
      if pos < length cs then bind_res (remove_component i (cs ! pos) h) (remove_loop k (Suc pos) i) else Inr h)"

definition remove_components :: "nat \<Rightarrow> store \<Rightarrow> store result" where
  "remove_components i h = remove_loop (length (get_components h i)) 0 i h"

section \<open>Looking up\<close>

definition own_parameters :: "store \<Rightarrow> nat \<Rightarrow> (string \<times> dhcp_value) list" where
  "own_parameters h i =
     fold (\<lambda>c d. case co_data (h ! c) of DParameter k v \<Rightarrow> dict_set k v d | _ \<Rightarrow> d) (get_components h i) []"

definition own_options :: "store \<Rightarrow> nat \<Rightarrow> (string \<times> string list) list" where
  "own_options h i =
     fold (\<lambda>c d. case co_data (h ! c) of DOption k v \<Rightarrow> dict_set k v d | _ \<Rightarrow> d) (get_components h i) []"

definition block_type :: "store \<Rightarrow> nat \<Rightarrow> string" where
  "block_type h i = (case get_block h i of None \<Rightarrow> [] | Some b \<Rightarrow> db_type b)"

definition block_settings :: "store \<Rightarrow> nat \<Rightarrow> string list" where
  "block_settings h i = (case get_block h i of None \<Rightarrow> [] | Some b \<Rightarrow> db_settings b)"

definition add_missing :: "(string \<times> 'v) list \<Rightarrow> (string \<times> 'v) list \<Rightarrow> (string \<times> 'v) list" where
  "add_missing own inherited = fold (\<lambda>(k, v) d. if dict_has d k then d else dict_set k v d) inherited own"

definition inherits :: "store \<Rightarrow> nat \<Rightarrow> string option \<Rightarrow> nat option" where
  "inherits h i inherit =
     (case inherit of
        None \<Rightarrow> None
      | Some t \<Rightarrow> if t = [] \<or> block_type h i = t then None
                 else (case get_parent h i of None \<Rightarrow> None | Some p \<Rightarrow> if p < i then Some p else None))"

function get_parameters_hash :: "store \<Rightarrow> string option \<Rightarrow> nat \<Rightarrow> (string \<times> dhcp_value) list" where
  "get_parameters_hash h inherit i =
     (case inherits h i inherit of
        None \<Rightarrow> own_parameters h i
      | Some p \<Rightarrow> add_missing (own_parameters h i) (get_parameters_hash h inherit p))"
  by pat_completeness auto
termination
  by (relation "measure (\<lambda>(h, inherit, i). i)") (auto simp: inherits_def split: option.splits if_splits)

function get_options_hash :: "store \<Rightarrow> string option \<Rightarrow> nat \<Rightarrow> (string \<times> string list) list" where
  "get_options_hash h inherit i =
     (case inherits h i inherit of
        None \<Rightarrow> own_options h i
      | Some p \<Rightarrow> add_missing (own_options h i) (get_options_hash h inherit p))"
  by pat_completeness auto
termination
  by (relation "measure (\<lambda>(h, inherit, i). i)") (auto simp: inherits_def split: option.splits if_splits)

declare get_parameters_hash.simps [simp del] get_options_hash.simps [simp del]

definition of_type :: "store \<Rightarrow> string option \<Rightarrow> nat \<Rightarrow> bool" where
  "of_type h t c = (get_block h c \<noteq> None \<and> (t = None \<or> t = Some [] \<or> t = Some (block_type h c)))"

function get_blocks :: "store \<Rightarrow> string option \<Rightarrow> bool \<Rightarrow> nat \<Rightarrow> nat list" where
  "get_blocks h t recursive i =
     concat (map (\<lambda>c. (if of_type h t c then [c] else []) @
                      (if recursive \<and> i < c \<and> c < length h then get_blocks h t recursive c else [])) (get_components h i))"
  by pat_completeness auto
termination
  by (relation "measure (\<lambda>(h, t, r, i). length h - i)") auto

declare get_blocks.simps [simp del]

text \<open>\<open>get_parameters\<close> asks the parents and adds nothing of its own.\<close>

function get_parameters :: "store \<Rightarrow> string option \<Rightarrow> nat \<Rightarrow> string list" where
  "get_parameters h inherit i = (case inherits h i inherit of None \<Rightarrow> [] | Some p \<Rightarrow> get_parameters h inherit p)"
  by pat_completeness auto
termination
  by (relation "measure (\<lambda>(h, inherit, i). i)") (auto simp: inherits_def split: option.splits if_splits)

declare get_parameters.simps [simp del]

text \<open>\<open>get_options\<close> collects the option objects themselves, those of the parents last.\<close>

function get_options :: "store \<Rightarrow> string option \<Rightarrow> nat \<Rightarrow> nat list" where
  "get_options h inherit i =
     filter (\<lambda>c. case co_data (h ! c) of DOption _ _ \<Rightarrow> True | _ \<Rightarrow> False) (get_components h i) @
     (case inherits h i inherit of None \<Rightarrow> [] | Some p \<Rightarrow> get_options h inherit p)"
  by pat_completeness auto
termination
  by (relation "measure (\<lambda>(h, inherit, i). i)") (auto simp: inherits_def split: option.splits if_splits)

declare get_options.simps [simp del]

section \<open>Text\<close>

function ancestors :: "store \<Rightarrow> nat \<Rightarrow> nat" where
  "ancestors h i = (case get_parent h i of None \<Rightarrow> 0 | Some p \<Rightarrow> if p < i then Suc (ancestors h p) else 0)"
  by pat_completeness auto
termination
  by (relation "measure (\<lambda>(h, i). i)") auto

declare ancestors.simps [simp del]

definition get_shifting :: "store \<Rightarrow> nat \<Rightarrow> string" where
  "get_shifting h i = replicate (ancestors h i - 1) CHR 0x09"

definition word_char :: "char \<Rightarrow> bool" where
  "word_char c =
     (let n = (of_char c :: nat) in
      is_digit c \<or> (65 \<le> n \<and> n \<le> 90) \<or> (97 \<le> n \<and> n \<le> 122) \<or> c = CHR ''_'' \<or>
      n \<in> {170, 178, 179, 181, 185, 186, 188, 189, 190} \<or> (192 \<le> n \<and> n \<noteq> 215 \<and> n \<noteq> 247))"

text \<open>\<open>.*['/\\].*\<close> and \<open>^\w+\.\w+$\<close>.\<close>

definition has_special :: "string \<Rightarrow> bool" where
  "has_special v = list_ex (\<lambda>c. c = CHR 0x27 \<or> c = CHR ''/'' \<or> c = CHR 0x5C) (takeWhile (\<lambda>c. c \<noteq> CHR 0x0A) v)"

definition dotted_word :: "string \<Rightarrow> bool" where
  "dotted_word v =
     (case py_split CHR ''.'' (re_end v) of [a, b] \<Rightarrow> a \<noteq> [] \<and> b \<noteq> [] \<and> list_all word_char (a @ b) | _ \<Rightarrow> False)"

definition quoted :: "string \<Rightarrow> string" where
  "quoted v = [CHR 0x22] @ v @ [CHR 0x22]"

definition parameter_text :: "string \<Rightarrow> dhcp_value \<Rightarrow> string" where
  "parameter_text key v =
     key @ '' '' @ (case v of
        VFlag b \<Rightarrow> if b then ''on'' else ''off''
      | VText s \<Rightarrow>
          if key \<in> {''filename'', ''file_path'', ''ddns-domainname''} \<or> has_special s \<or> dotted_word s \<or> py_endswith key ''-name''
          then quoted s else s) @ '';''"

definition quoted_options :: "string list" where
  "quoted_options =
     [''-name'', ''-domain'', ''-identifier'', ''-search'', ''merit-dump'', ''nds-context'', ''netbios-scope'', ''nwip-domain'',
      ''nwip-suboptions'', ''nis-domain'', ''nisplus-domain'', ''root-path'', ''uap-servers'', ''user-class'',
      ''vendor-encapsulated-options'', ''circuit-id'', ''remote-id'', ''fqdn.fqdn'', ''ddns-rev-domainname'']"

definition option_text :: "string \<Rightarrow> string list \<Rightarrow> string" where
  "option_text key vs =
     ''option '' @ key @ '' '' @
     py_join '', '' (map (\<lambda>v. if has_special v \<or> dotted_word v \<or> list_ex (py_endswith key) quoted_options then quoted v else v) vs) @ '';''"

definition is_comment :: "store \<Rightarrow> nat \<Rightarrow> bool" where
  "is_comment h c = (case co_data (h ! c) of DComment _ \<Rightarrow> True | _ \<Rightarrow> False)"

text \<open>Writing a block. The list \<open>not_written\<close> is the list of components itself, so components that
  are written by line number are removed from the block. Calls nest at most as deep as the
  store is long.\<close>

definition mark_written :: "nat \<Rightarrow> nat \<Rightarrow> store \<Rightarrow> store" where
  "mark_written i c h = put_block i (\<lambda>b. b\<lparr>db_components := remove1 c (db_components b)\<rparr>) h"

definition write_ref :: "(store \<Rightarrow> nat \<Rightarrow> string \<times> store) \<Rightarrow> nat \<Rightarrow> nat \<times> nat \<Rightarrow> string \<times> store \<Rightarrow> string \<times> store" where
  "write_ref rec i = (\<lambda>(idx, c) (txt, h).
     let (t, h1) = rec h c;
         t = (if 0 < idx \<and> is_comment h c then '' '' @ py_lstrip t else t)
     in (txt @ t, mark_written i c h1))"

definition write_line :: "(store \<Rightarrow> nat \<Rightarrow> string \<times> store) \<Rightarrow> nat \<Rightarrow> int \<Rightarrow> string \<times> store \<Rightarrow> string \<times> store" where
  "write_line rec i l = (\<lambda>(txt, h).
     let refs = get_line_refs h i l
     in if refs = [] then (txt, h)
        else let (t, h1) = fold (write_ref rec i) (List.enumerate 0 refs) (txt, h) in (t @ [CHR 0x0A], h1))"

definition write_rest :: "(store \<Rightarrow> nat \<Rightarrow> string \<times> store) \<Rightarrow> nat \<Rightarrow> string \<times> store \<Rightarrow> string \<times> store" where
  "write_rest rec c = (\<lambda>(txt, h). let (t, h1) = rec h c in (txt @ t @ [CHR 0x0A], h1))"

definition write_block :: "(store \<Rightarrow> nat \<Rightarrow> string \<times> store) \<Rightarrow> store \<Rightarrow> nat \<Rightarrow> dhcp_block \<Rightarrow> string \<times> store" where
  "write_block rec h i b =
     (let global = (db_type b = ''global'' \<and> get_parent h i = None);
          shifting = get_shifting h i;
          start = (if global then [] else shifting @ py_join '' '' (db_settings b) @ '' {'' @ [CHR 0x0A]);
          (txt, h1) = fold (write_line rec i) [max (co_start (h ! i)) 1..co_end (h ! i)] (start, h);
          (txt, h2) = fold (write_rest rec) (get_components h1 i) (txt, h1)
      in (if global then txt else txt @ shifting @ ''}'', h2))"

fun as_text :: "nat \<Rightarrow> store \<Rightarrow> nat \<Rightarrow> string \<times> store" where
  "as_text 0 h i = ([], h)"
| "as_text (Suc k) h i =
     (case co_data (h ! i) of
        DParameter key v \<Rightarrow> (get_shifting h i @ parameter_text key v, h)
      | DOption key vs \<Rightarrow> (get_shifting h i @ option_text key vs, h)
      | DComment d \<Rightarrow> (get_shifting h i @ ''#'' @ d, h)
      | DEmptyLine \<Rightarrow> (get_shifting h i, h)
      | DBlock b \<Rightarrow> write_block (as_text k) h i b)"

section \<open>The configuration file\<close>

record dhcpd_conf =
  dc_store :: store
  dc_global :: nat
  dc_current :: nat
  dc_lines :: "string list"
  dc_line :: nat
  dc_data :: string
  dc_parsed :: bool

definition global_block :: "nat \<Rightarrow> component" where
  "global_block end_line = \<lparr>co_start = 1, co_end = int end_line, co_parent = None, co_data = new_block ''global'' []\<rparr>"

definition get_new_data :: "dhcpd_conf \<Rightarrow> dhcpd_conf option" where
  "get_new_data c =
     (if length (dc_lines c) \<le> dc_line c then None
      else Some (c\<lparr>dc_data := dc_data c @ dc_lines c ! dc_line c, dc_line := dc_line c + 1\<rparr>))"

definition add_current :: "dhcp_data \<Rightarrow> dhcpd_conf \<Rightarrow> dhcpd_conf" where
  "add_current d c = c\<lparr>dc_store := create_in (dc_current c) (int (dc_line c)) d (dc_store c)\<rparr>"

definition parse_emptyline :: "dhcpd_conf \<Rightarrow> dhcpd_conf" where
  "parse_emptyline c = (add_current DEmptyLine c)\<lparr>dc_data := butlast (dc_data c)\<rparr>"

definition parse_comment :: "nat \<Rightarrow> dhcpd_conf \<Rightarrow> dhcpd_conf result" where
  "parse_comment index c = Inr ((add_current (DComment (drop 1 (py_strip (dc_data c)))) c)\<lparr>dc_data := take index (dc_data c)\<rparr>)"

definition unquote :: "string \<Rightarrow> string" where
  "unquote v = (if 1 < length v \<and> hd v = CHR 0x22 \<and> last v = CHR 0x22 then butlast (tl v) else v)"

text \<open>The values of an option: commas separate, except within quotes.\<close>

definition option_char :: "char \<Rightarrow> string list \<times> string \<times> string \<Rightarrow> string list \<times> string \<times> string" where
  "option_char c = (\<lambda>(values', quote, current).
     if c = CHR 0x22 then
       (if quote = [CHR 0x22] then (values', [], current)
        else if quote = [CHR 0x27] then (values', quote, current @ [c])
        else (values', [CHR 0x22], current))
     else if c = CHR 0x27 then
       (if quote = [CHR 0x27] then (values', [], current)
        else if quote = [CHR 0x22] then (values', quote, current @ [c])
        else (values', [CHR 0x27], current))
     else if c = CHR '','' \<and> quote = [] then (values' @ [py_strip current], [], [])
     else (values', quote, current @ [c]))"

definition option_values :: "string \<Rightarrow> string list" where
  "option_values v =
     (let (vs, quote, current) = fold option_char v ([], [], [])
      in if current = [] then vs else vs @ [py_strip current])"

definition parse_semicolon :: "nat \<Rightarrow> dhcpd_conf \<Rightarrow> dhcpd_conf result" where
  "parse_semicolon index c =
     (let words = py_words (take index (dc_data c));
          c = c\<lparr>dc_data := drop (index + 1) (dc_data c)\<rparr>
      in case words of
           [] \<Rightarrow> Inl IndexError
         | key # rest \<Rightarrow>
             if key \<noteq> ''option'' then Inr (add_current (new_parameter key (VText (unquote (py_strip (py_join '' '' rest))))) c)
             else (case rest of
                 [] \<Rightarrow> Inl IndexError
               | name # vs \<Rightarrow> Inr (add_current (DOption name (option_values (py_strip (py_join '' '' vs)))) c)))"

definition parse_lbracket :: "nat \<Rightarrow> dhcpd_conf \<Rightarrow> dhcpd_conf result" where
  "parse_lbracket index c =
     (let words = py_words (take index (dc_data c));
          c = c\<lparr>dc_data := drop (index + 1) (dc_data c)\<rparr>
      in case words of
           [] \<Rightarrow> Inl IndexError
         | t # _ \<Rightarrow> Inr ((add_current (new_block (py_strip t) words) c)\<lparr>dc_current := length (dc_store c)\<rparr>))"

definition parse_rbracket :: "nat \<Rightarrow> dhcpd_conf \<Rightarrow> dhcpd_conf result" where
  "parse_rbracket index c =
     (let c = c\<lparr>dc_data := drop (index + 1) (dc_data c),
                dc_store := (dc_store c)[dc_current c := (dc_store c ! dc_current c)\<lparr>co_end := int (dc_line c)\<rparr>]\<rparr>
      in case get_parent (dc_store c) (dc_current c) of
           None \<Rightarrow> Inl AssertionError
         | Some p \<Rightarrow> Inr (c\<lparr>dc_current := p\<rparr>))"

text \<open>The first of the tokens, in this order, that occurs outside of quotes: not the first in the data.\<close>

definition token_at :: "string \<Rightarrow> nat \<Rightarrow> char \<Rightarrow> nat option" where
  "token_at d min_index tok =
     (case py_find tok d of
        None \<Rightarrow> None
      | Some index \<Rightarrow>
          if min_index \<le> index \<and> even (count_list (take index d) CHR 0x22) \<and> even (count_list (take index d) CHR 0x27)
          then Some index else None)"

definition find_token :: "string \<Rightarrow> nat \<Rightarrow> (char \<times> nat) option" where
  "find_token d min_index =
     (case filter (\<lambda>tok. token_at d min_index tok \<noteq> None) ''#;}{'' of
        [] \<Rightarrow> None
      | tok # _ \<Rightarrow> Some (tok, the (token_at d min_index tok)))"

definition parse_token :: "char \<Rightarrow> nat \<Rightarrow> dhcpd_conf \<Rightarrow> dhcpd_conf result" where
  "parse_token tok =
     (if tok = CHR ''#'' then parse_comment
      else if tok = CHR '';'' then parse_semicolon
      else if tok = CHR ''}'' then parse_rbracket
      else parse_lbracket)"

definition rest_size :: "dhcpd_conf \<Rightarrow> nat" where
  "rest_size c = length (dc_data c) + sum_list (map (\<lambda>l. Suc (length l)) (drop (dc_line c) (dc_lines c)))"

lemma rest_size_new: "get_new_data c = Some c1 \<Longrightarrow> rest_size c1 < rest_size c"
  by (auto simp: get_new_data_def rest_size_def Cons_nth_drop_Suc[symmetric] split: if_splits)

lemma find_token_index: "find_token d m = Some (tok, index) \<Longrightarrow> index < length d"
proof -
  have find: "py_find tok d = Some i \<Longrightarrow> i < length d" for tok i
    by (induction d arbitrary: i) (auto split: if_splits)
  assume "find_token d m = Some (tok, index)"
  then obtain rest where r: "filter (\<lambda>tok. token_at d m tok \<noteq> None) ''#;}{'' = tok # rest" "index = the (token_at d m tok)"
    unfolding find_token_def by (auto split: list.splits simp del: filter.simps)
  have "tok \<in> set (filter (\<lambda>tok. token_at d m tok \<noteq> None) ''#;}{'')" unfolding r(1) by simp
  then have "token_at d m tok \<noteq> None" unfolding set_filter by blast
  then have "token_at d m tok = Some index" using r(2) by auto
  then show ?thesis using find by (auto simp: token_at_def split: option.splits if_splits)
qed

lemma parse_token_rest:
  assumes "parse_token tok index c = Inr c1" "index < length (dc_data c)"
  shows "rest_size c1 < rest_size c"
  using assms
  by (auto simp: parse_token_def parse_comment_def parse_semicolon_def parse_lbracket_def parse_rbracket_def Let_def
      rest_size_def add_current_def split: if_splits list.splits option.splits)

function parse_loop :: "dhcpd_conf \<Rightarrow> nat \<Rightarrow> dhcpd_conf result" where
  "parse_loop c min_index =
     (if py_strip (dc_data c) = [] then
        (case get_new_data c of
           None \<Rightarrow> Inr c
         | Some c1 \<Rightarrow> parse_loop (if py_strip (dc_data c1) = [] then parse_emptyline c1 else c1) min_index)
      else
        (case find_token (dc_data c) min_index of
           None \<Rightarrow> (case get_new_data c of None \<Rightarrow> Inr c | Some c1 \<Rightarrow> parse_loop c1 (length (dc_data c)))
         | Some t \<Rightarrow> bind_res (parse_token (fst t) (snd t) c) (\<lambda>c1. parse_loop c1 0)))"
  by pat_completeness auto
termination
proof (relation "measure (\<lambda>(c, m). rest_size c)")
  fix c :: dhcpd_conf and min_index c1
  assume "get_new_data c = Some c1"
  then have "rest_size c1 < rest_size c" by (rule rest_size_new)
  moreover have "rest_size (parse_emptyline c1) \<le> rest_size c1" by (simp add: parse_emptyline_def rest_size_def add_current_def)
  ultimately show "((if py_strip (dc_data c1) = [] then parse_emptyline c1 else c1, min_index), c, min_index) \<in> measure (\<lambda>(c, m). rest_size c)"
    by simp
next
  fix c :: dhcpd_conf and min_index t c1
  assume "find_token (dc_data c) min_index = Some t" "parse_token (fst t) (snd t) c = Inr c1"
  then show "((c1, 0), c, min_index) \<in> measure (\<lambda>(c, m). rest_size c)"
    using parse_token_rest find_token_index by (cases t) auto
qed (auto simp: rest_size_new)

declare parse_loop.simps [simp del]

definition parse :: "string list \<Rightarrow> dhcpd_conf result" where
  "parse lines =
     bind_res (parse_loop \<lparr>dc_store = [global_block (length lines)], dc_global = 0, dc_current = 0, dc_lines = lines,
                          dc_line = 0, dc_data = [], dc_parsed = False\<rparr> 0)
       (\<lambda>c. Inr (c\<lparr>dc_parsed := True\<rparr>))"

definition assert_parsed :: "string list \<Rightarrow> dhcpd_conf \<Rightarrow> dhcpd_conf result" where
  "assert_parsed lines c = (if dc_parsed c then Inr c else parse lines)"

definition generate :: "dhcpd_conf \<Rightarrow> string \<times> dhcpd_conf" where
  "generate c =
     (let (txt, h) = as_text (length (dc_store c)) (dc_store c) (dc_global c) in (txt, c\<lparr>dc_store := h\<rparr>))"

section \<open>Hosts\<close>

record dhcpd_env =
  de_force_hostname :: "string \<Rightarrow> string result"
  de_force_hardware_address :: "string \<Rightarrow> string result"
  de_force_ip_address :: "string \<Rightarrow> string result"
  de_force_string_lower :: "string \<Rightarrow> string"
  de_in_network :: "string \<Rightarrow> string \<Rightarrow> bool"

definition setting :: "store \<Rightarrow> nat \<Rightarrow> nat \<Rightarrow> string result" where
  "setting h b n = (if n < length (block_settings h b) then Inr (block_settings h b ! n) else Inl IndexError)"

text \<open>\<open>str(value)\<close>\<close>

definition value_str :: "dhcp_value \<Rightarrow> string" where
  "value_str v = (case v of VText s \<Rightarrow> s | VFlag b \<Rightarrow> if b then ''True'' else ''False'')"

definition host_blocks :: "dhcpd_conf \<Rightarrow> nat list" where
  "host_blocks c = get_blocks (dc_store c) (Some ''host'') True (dc_global c)"

definition check_conflict :: "string \<Rightarrow> string \<Rightarrow> string \<times> dhcp_value \<Rightarrow> unit result" where
  "check_conflict fixed_address hardware_address = (\<lambda>(key, v).
     if key = ''fixed-address'' \<and> py_lower (value_str v) = fixed_address then Inl (ValueError ''same fixed address'')
     else if key = ''hardware'' \<and> py_lower (value_str v) = ''ethernet '' @ hardware_address then Inl (ValueError ''same hardware ethernet address'')
     else Inr ())"

definition check_host :: "store \<Rightarrow> string \<Rightarrow> string \<Rightarrow> string \<Rightarrow> nat \<Rightarrow> bool \<Rightarrow> bool result" where
  "check_host h hostname fixed_address hardware_address b existing =
     bind_res (setting h b 1) (\<lambda>name.
       if py_lower name = hostname then Inr True
       else bind_res (map_res (check_conflict fixed_address hardware_address) (get_parameters_hash h None b)) (\<lambda>_. Inr existing))"

definition get_host :: "dhcpd_env \<Rightarrow> string \<Rightarrow> string option \<Rightarrow> dhcpd_conf \<Rightarrow> (string \<times> dhcp_value) list option result" where
  "get_host E hostname inherit c =
     bind_res (de_force_hostname E hostname) (\<lambda>hostname.
     fold_res (\<lambda>b r. if r \<noteq> None then Inr r
         else bind_res (setting (dc_store c) b 1) (\<lambda>name.
           Inr (if name = hostname then Some (get_parameters_hash (dc_store c) inherit b) else None)))
       (host_blocks c) None)"

text \<open>The host blocks of that name, or with that name as fixed address.\<close>

definition named_blocks :: "store \<Rightarrow> string \<Rightarrow> nat list \<Rightarrow> nat list result" where
  "named_blocks h hostname bs =
     bind_res (map_res (\<lambda>b. bind_res (setting h b 1) (\<lambda>name. Inr (b, name))) bs) (\<lambda>named.
       Inr (map fst (filter (\<lambda>(b, name). name = hostname \<or>
         map_of (get_parameters_hash h None b) ''fixed-address'' = Some (VText hostname)) named)))"

definition remove_from_parent :: "nat \<Rightarrow> store \<Rightarrow> store result" where
  "remove_from_parent b h = (case get_parent h b of None \<Rightarrow> Inr h | Some p \<Rightarrow> remove_component p b h)"

definition delete_host :: "dhcpd_env \<Rightarrow> string \<Rightarrow> dhcpd_conf \<Rightarrow> dhcpd_conf result" where
  "delete_host E hostname c =
     bind_res (de_force_hostname E hostname) (\<lambda>hostname.
     bind_res (named_blocks (dc_store c) hostname (host_blocks c)) (\<lambda>bs.
     bind_res (fold_res remove_from_parent bs (dc_store c)) (\<lambda>h. Inr (c\<lparr>dc_store := h\<rparr>))))"

definition match_count :: "(string \<times> dhcp_value) list \<Rightarrow> (string \<times> dhcp_value) list \<Rightarrow> int" where
  "match_count parameters block_parameters =
     sum_list (map (\<lambda>(k, v). case map_of parameters k of None \<Rightarrow> 0 | Some x \<Rightarrow> if x = v then 1 else -1) block_parameters)"

definition best_group :: "store \<Rightarrow> (string \<times> dhcp_value) list \<Rightarrow> nat list \<Rightarrow> nat option" where
  "best_group h parameters groups =
     fst (fold (\<lambda>b (best, n). let m = match_count parameters (get_parameters_hash h (Some ''global'') b) in if n < m then (Some b, m) else (best, n))
       groups (None, -1))"

definition find_subnet :: "dhcpd_env \<Rightarrow> store \<Rightarrow> string \<Rightarrow> nat list \<Rightarrow> nat \<Rightarrow> nat result" where
  "find_subnet E h ip_address subnets start =
     fold_res (\<lambda>b p. bind_res (setting h b 1) (\<lambda>net. bind_res (setting h b 3) (\<lambda>mask.
         Inr (if de_in_network E ip_address (net @ ''/'' @ mask) then b else p)))) subnets start"

text \<open>Parameters that the parents define with the same value are left out.\<close>

definition drop_inherited :: "(string \<times> dhcp_value) list \<Rightarrow> (string \<times> dhcp_value) list \<Rightarrow> (string \<times> dhcp_value) list" where
  "drop_inherited inherited parameters = filter (\<lambda>(k, v). map_of inherited k \<noteq> Some v) parameters"

definition create_host :: "nat \<Rightarrow> string \<Rightarrow> (string \<times> dhcp_value) list \<Rightarrow> store \<Rightarrow> store" where
  "create_host parent hostname params h =
     (let b = length h;
          h1 = h @ [new_component (-1) (Some parent) (new_block ''host'' [''host'', hostname])];
          h2 = fold (\<lambda>(k, v). create_in b (-1) (new_parameter k v)) params h1
      in add_component parent b h2)"

definition add_host ::
  "dhcpd_env \<Rightarrow> string \<Rightarrow> string \<Rightarrow> string \<Rightarrow> string \<Rightarrow> (string \<times> dhcp_value) list \<Rightarrow> dhcpd_conf \<Rightarrow> dhcpd_conf result" where
  "add_host E hostname hardware_address ip_address fixed_address parameters c =
     bind_res (de_force_hostname E hostname) (\<lambda>hostname.
     bind_res (de_force_hardware_address E hardware_address) (\<lambda>hardware_address.
     bind_res (de_force_ip_address E ip_address) (\<lambda>ip_address.
     let fixed_address = de_force_string_lower E fixed_address in
     bind_res (fold_res (check_host (dc_store c) hostname fixed_address hardware_address) (host_blocks c) False) (\<lambda>existing.
     bind_res (if existing then delete_host E hostname c else Inr c) (\<lambda>c.
     let h = dc_store c;
         parameters = map (\<lambda>(k, v). (k, parameter_value v)) parameters
     in bind_res (find_subnet E h ip_address (get_blocks h (Some ''subnet'') True (dc_global c)) (dc_global c)) (\<lambda>subnet.
          let parent = (case best_group h parameters (get_blocks h (Some ''group'') False subnet) of None \<Rightarrow> subnet | Some g \<Rightarrow> g);
              rest = drop_inherited (get_parameters_hash h (Some ''global'') parent) parameters
          in Inr (c\<lparr>dc_store := create_host parent hostname
                 ([(''fixed-address'', VText fixed_address), (''hardware'', VText (''ethernet '' @ hardware_address))] @ rest) h\<rparr>)))))))"

text \<open>The blocks \<open>modify_host\<close> finds; a parameter of another host with the same hardware address is an error.\<close>

definition modify_check :: "string \<Rightarrow> (string \<times> dhcp_value) list \<Rightarrow> nat \<Rightarrow> string \<times> dhcp_value \<Rightarrow> nat list \<Rightarrow> nat list result" where
  "modify_check hostname parameters b = (\<lambda>(key, v) bs.
     if key = ''fixed-address'' \<and> v = VText hostname then Inr (bs @ [b])
     else if key = ''hardware'' \<and> map_of parameters ''hardware'' = Some (VText (py_lower (value_str v)))
     then Inl (ValueError ''same hardware ethernet address'')
     else Inr bs)"

definition modify_find :: "store \<Rightarrow> string \<Rightarrow> (string \<times> dhcp_value) list \<Rightarrow> nat \<Rightarrow> nat list \<Rightarrow> nat list result" where
  "modify_find h hostname parameters b bs =
     bind_res (setting h b 1) (\<lambda>name.
       if name = hostname then Inr (bs @ [b])
       else fold_res (modify_check hostname parameters b) (get_parameters_hash h None b) bs)"

definition modify_host :: "dhcpd_env \<Rightarrow> string \<Rightarrow> (string \<times> dhcp_value) list \<Rightarrow> dhcpd_conf \<Rightarrow> dhcpd_conf result" where
  "modify_host E hostname parameters c =
     bind_res (de_force_hostname E hostname) (\<lambda>hostname.
     let h = dc_store c in
     bind_res (fold_res (modify_find h hostname parameters) (host_blocks c) []) (\<lambda>found.
       case found of
         [b] \<Rightarrow>
           bind_res (of_option (get_parent h b) AssertionError) (\<lambda>p.
           bind_res (remove_components b h) (\<lambda>h.
             let parameters = map (\<lambda>(k, v). (k, parameter_value v)) parameters;
                 rest = drop_inherited (get_parameters_hash h (Some ''global'') p) parameters
             in Inr (c\<lparr>dc_store := fold (\<lambda>(k, v). create_in b (-1) (new_parameter k v)) rest h\<rparr>)))
       | _ \<Rightarrow> Inl (ValueError ''Host found several times'')))"

section \<open>The store after an update\<close>

lemma put_block_simps [simp]:
  "length (put_block i f h) = length h"
  "get_parent (put_block i f h) j = get_parent h j"
  "co_start (put_block i f h ! j) = co_start (h ! j)"
  by (auto simp: put_block_def get_parent_def get_block_def nth_list_update split: option.splits dhcp_data.splits if_splits)

lemma get_block_put [simp]: "get_block (put_block i f h) j = (if j = i then map_option f (get_block h j) else get_block h j)"
  by (auto simp: put_block_def get_block_def nth_list_update split: option.splits dhcp_data.splits if_splits)

lemma co_data_put:
  "get_block h j = None \<Longrightarrow> co_data (put_block i f h ! j) = co_data (h ! j)"
  "\<exists>b. co_data (h ! j) = DBlock b \<Longrightarrow> \<exists>b. co_data (put_block i f h ! j) = DBlock b"
  by (auto simp: put_block_def get_block_def nth_list_update split: option.splits dhcp_data.splits if_splits)

lemma get_block_append [simp]:
  "get_block (h @ [x]) j = (if j < length h then get_block h j else if j = length h then (case co_data x of DBlock b \<Rightarrow> Some b | _ \<Rightarrow> None) else None)"
  by (auto simp: get_block_def nth_append split: dhcp_data.splits)

lemma get_parent_append [simp]:
  "get_parent (h @ [x]) j = (if j < length h then get_parent h j else if j = length h then co_parent x else None)"
  by (auto simp: get_parent_def nth_append)

lemma get_block_bound: "get_block h j = Some b \<Longrightarrow> j < length h"
  by (simp add: get_block_def split: if_splits)

lemma get_components_put [simp]:
  "get_components (put_block i f h) j = (if j = i then (case get_block h i of None \<Rightarrow> [] | Some b \<Rightarrow> db_components (f b)) else get_components h j)"
  by (auto simp: get_components_def split: option.split)

lemma block_type_put: "(\<And>b. db_type (f b) = db_type b) \<Longrightarrow> block_type (put_block i f h) j = block_type h j"
  by (auto simp: block_type_def split: option.split)

lemma block_settings_put: "(\<And>b. db_settings (f b) = db_settings b) \<Longrightarrow> block_settings (put_block i f h) j = block_settings h j"
  by (auto simp: block_settings_def split: option.split)

text \<open>The references between components.\<close>

definition edges :: "store \<Rightarrow> (nat \<times> nat) set" where
  "edges h = {(i, c). c \<in> set (get_components h i)}"

definition store_ok :: "store \<Rightarrow> bool" where
  "store_ok h \<longleftrightarrow>
     (\<forall>i c. (i, c) \<in> edges h \<longrightarrow> i < c \<and> c < length h \<and> get_parent h c = Some i) \<and>
     (\<forall>i. distinct (get_components h i)) \<and>
     (\<forall>i p. get_parent h i = Some p \<longrightarrow> p < i \<and> get_block h p \<noteq> None)"

lemma store_okD:
  assumes "store_ok h"
  shows "(i, c) \<in> edges h \<Longrightarrow> i < c \<and> c < length h \<and> get_parent h c = Some i"
    and "distinct (get_components h i)" "get_parent h i = Some p \<Longrightarrow> p < i \<and> get_block h p \<noteq> None"
  using assms by (auto simp: store_ok_def)

lemma edges_block: "(i, c) \<in> edges h \<Longrightarrow> get_block h i \<noteq> None"
  by (cases "get_block h i") (auto simp: edges_def get_components_def)

text \<open>What an update of a block that keeps its type and settings leaves as it is.\<close>

definition same_blocks :: "store \<Rightarrow> store \<Rightarrow> bool" where
  "same_blocks h1 h \<longleftrightarrow> length h1 = length h \<and> get_parent h1 = get_parent h \<and> block_type h1 = block_type h \<and>
     block_settings h1 = block_settings h \<and> (\<forall>j. (get_block h1 j = None) = (get_block h j = None)) \<and>
     (\<forall>j. get_block h j = None \<longrightarrow> co_data (h1 ! j) = co_data (h ! j))"

lemma same_blocks_refl [simp]: "same_blocks h h"
  by (simp add: same_blocks_def)

lemma same_blocks_trans: "same_blocks h2 h1 \<Longrightarrow> same_blocks h1 h \<Longrightarrow> same_blocks h2 h"
  by (simp add: same_blocks_def)

lemma same_blocks_put:
  "(\<And>b. db_type (f b) = db_type b) \<Longrightarrow> (\<And>b. db_settings (f b) = db_settings b) \<Longrightarrow> same_blocks (put_block i f h) h"
  by (auto simp: same_blocks_def fun_eq_iff block_type_put block_settings_put co_data_put)

lemma of_type_same: "same_blocks h1 h \<Longrightarrow> of_type h1 t c = of_type h t c"
  by (auto simp: same_blocks_def of_type_def)

lemma subseq_set: "subseq xs ys \<Longrightarrow> x \<in> set xs \<Longrightarrow> x \<in> set ys"
  by (auto elim: list_emb_set)

lemma subseq_keeps_distinct: "subseq xs ys \<Longrightarrow> distinct ys \<Longrightarrow> distinct xs"
  by (induction rule: list_emb.induct) (auto dest: subseq_set)

text \<open>Removing components keeps the invariant.\<close>

lemma store_ok_shrink:
  assumes "store_ok h" "same_blocks h1 h" "\<And>i. subseq (get_components h1 i) (get_components h i)"
  shows "store_ok h1"
proof -
  have "edges h1 \<subseteq> edges h"
    using assms(3) unfolding edges_def by (auto dest: subseq_set)
  moreover have "distinct (get_components h1 i)" for i
    using assms(3)[of i] store_okD(2)[OF assms(1), of i] by (rule subseq_keeps_distinct)
  ultimately show ?thesis using assms(1,2) unfolding store_ok_def same_blocks_def by auto
qed

lemma subseq_remove1: "subseq (remove1 x xs) xs"
  by (induction xs) auto

lemma remove_component_post:
  assumes "remove_component i c h = Inr h1" "store_ok h"
  shows "store_ok h1 \<and> same_blocks h1 h \<and> edges h1 = edges h - {(i, c)} \<and> (\<forall>j. subseq (get_components h1 j) (get_components h j))"
proof -
  obtain b f where b: "get_block h i = Some b" "h1 = put_block i f h" "\<And>b. db_type (f b) = db_type b" "\<And>b. db_settings (f b) = db_settings b"
    "\<And>b. db_components (f b) = remove1 c (db_components b)"
    using assms(1) by (auto simp: remove_component_def Let_def split: option.splits if_splits)
  have comps: "get_components h1 j = (if j = i then remove1 c (get_components h i) else get_components h j)" for j
    using b(1,5) by (simp add: b(2) get_components_def)
  have same: "same_blocks h1 h" unfolding b(2) by (rule same_blocks_put[OF b(3,4)])
  have sub: "subseq (get_components h1 j) (get_components h j)" for j by (simp add: comps subseq_remove1)
  have "edges h1 = edges h - {(i, c)}"
    using store_okD(2)[OF assms(2), of i] by (auto simp: edges_def comps split: if_splits)
  then show ?thesis using store_ok_shrink[OF assms(2) same sub] same sub by simp
qed

lemma remove_from_parent_post:
  assumes "remove_from_parent b h = Inr h1" "store_ok h"
  shows "store_ok h1 \<and> same_blocks h1 h \<and> edges h1 = {e \<in> edges h. snd e \<noteq> b}"
proof (cases "get_parent h b")
  case None
  then have "h1 = h" "\<And>e. e \<in> edges h \<Longrightarrow> snd e \<noteq> b"
    using assms store_okD(1)[OF assms(2)] by (fastforce simp: remove_from_parent_def)+
  then show ?thesis using assms(2) by auto
next
  case (Some p)
  then have r: "remove_component p b h = Inr h1" using assms(1) by (simp add: remove_from_parent_def)
  have "edges h - {(p, b)} = {e \<in> edges h. snd e \<noteq> b}" using store_okD(1)[OF assms(2)] Some by fastforce
  then show ?thesis using remove_component_post[OF r assms(2)] by simp
qed

lemma remove_all_post:
  assumes "fold_res remove_from_parent bs h = Inr h1" "store_ok h"
  shows "store_ok h1 \<and> same_blocks h1 h \<and> edges h1 = {e \<in> edges h. snd e \<notin> set bs}"
  using assms
proof (induction bs arbitrary: h)
  case (Cons b bs)
  from Cons.prems(1) obtain h2 where h2: "remove_from_parent b h = Inr h2" "fold_res remove_from_parent bs h2 = Inr h1"
    by (auto simp: bind_res_Inr_iff)
  note one = remove_from_parent_post[OF h2(1) Cons.prems(2)]
  with Cons.IH[OF h2(2)] show ?case by (auto intro: same_blocks_trans)
qed simp

text \<open>Creating a component.\<close>

definition childless :: "dhcp_data \<Rightarrow> bool" where
  "childless d = (case d of DBlock b \<Rightarrow> db_components b = [] | _ \<Rightarrow> True)"

lemma create_in_get_block:
  assumes "get_block h i = Some b"
  shows "\<exists>f. (\<forall>b. db_type (f b) = db_type b \<and> db_settings (f b) = db_settings b \<and> db_components (f b) = db_components b @ [length h]) \<and>
    create_in i start d h = put_block i f (h @ [new_component start (Some i) d])"
  unfolding create_in_def add_component_def Let_def by (intro exI conjI, rule_tac[2] refl) simp

lemma create_in_post:
  assumes "h1 = create_in i start d h" "store_ok h" "get_block h i \<noteq> None" "childless d"
  shows "length h1 = Suc (length h)"
    "get_components h1 j = (if j = i then get_components h i @ [length h] else if j = length h then [] else get_components h j)"
    "get_parent h1 j = (if j = length h then Some i else get_parent h j)"
    "j < length h \<Longrightarrow> block_type h1 j = block_type h j \<and> block_settings h1 j = block_settings h j \<and>
      (get_block h1 j = None) = (get_block h j = None) \<and> (get_block h j = None \<longrightarrow> co_data (h1 ! j) = co_data (h ! j))"
    "get_block h1 (length h) = (case d of DBlock b \<Rightarrow> Some b | _ \<Rightarrow> None)"
    "get_block h1 (length h) = None \<Longrightarrow> co_data (h1 ! length h) = d"
    "store_ok h1"
proof -
  let ?h = "h @ [new_component start (Some i) d]"
  obtain b where b: "get_block h i = Some b" using assms(3) by auto
  have bound: "i < length h" by (rule get_block_bound[OF b])
  obtain f where f: "\<And>b. db_type (f b) = db_type b" "\<And>b. db_settings (f b) = db_settings b"
    "\<And>b. db_components (f b) = db_components b @ [length h]" "h1 = put_block i f ?h"
    using create_in_get_block[OF b, of start d] assms(1) by auto
  show len: "length h1 = Suc (length h)" by (simp add: f(4))
  have none: "get_components h (length h) = []" by (simp add: get_components_def get_block_def)
  show comps: "get_components h1 j = (if j = i then get_components h i @ [length h] else if j = length h then [] else get_components h j)" for j
  proof -
    have "get_block h j = None" if "length h < j" using that by (simp add: get_block_def)
    then show ?thesis
      using b bound assms(4)
      by (cases "j = i"; cases "j = length h"; cases "j < length h")
        (auto simp: f(3,4) get_components_def childless_def new_component_def split: dhcp_data.splits)
  qed
  show par: "get_parent h1 j = (if j = length h then Some i else get_parent h j)" for j
  proof -
    have "get_parent h j = None" if "length h < j" using that by (simp add: get_parent_def)
    then show ?thesis by (simp add: f(4) new_component_def)
  qed
  show old: "block_type h1 j = block_type h j \<and> block_settings h1 j = block_settings h j \<and>
      (get_block h1 j = None) = (get_block h j = None) \<and> (get_block h j = None \<longrightarrow> co_data (h1 ! j) = co_data (h ! j))" if "j < length h" for j
  proof -
    have app: "get_block ?h j = get_block h j" "co_data (?h ! j) = co_data (h ! j)" using that by (simp_all add: nth_append)
    then show ?thesis
      using co_data_put(1)[of ?h j i f] by (auto simp: f(4) block_type_put f(1,2) block_settings_put block_type_def block_settings_def split: option.splits)
  qed
  show "get_block h1 (length h) = (case d of DBlock b \<Rightarrow> Some b | _ \<Rightarrow> None)" using bound by (simp add: f(4) new_component_def)
  show "co_data (h1 ! length h) = d" if "get_block h1 (length h) = None"
    using that bound co_data_put(1)[of ?h "length h" i f] by (simp add: f(4) new_component_def)
  have e: "(j, c) \<in> edges h1 \<longleftrightarrow> (j, c) \<in> edges h \<or> (j, c) = (i, length h)" for j c
    using none bound by (auto simp: edges_def comps split: if_splits)
  have bl: "get_block h p \<noteq> None \<Longrightarrow> get_block h1 p \<noteq> None" for p using old[of p] get_block_bound[of h p] by auto
  have "j < c \<and> c < length h1 \<and> get_parent h1 c = Some j" if "(j, c) \<in> edges h1" for j c
    using that store_okD(1)[OF assms(2), of j c] bound unfolding e by (auto simp: par len)
  moreover have "p < j \<and> get_block h1 p \<noteq> None" if "get_parent h1 j = Some p" for j p
    using that store_okD(3)[OF assms(2), of j p] bound assms(3) bl[of p] bl[of i] by (simp add: par split: if_splits)
  moreover have "distinct (get_components h1 j)" for j
  proof -
    have "length h \<notin> set (get_components h i)" using store_okD(1)[OF assms(2), of i "length h"] by (auto simp: edges_def)
    then show ?thesis using store_okD(2)[OF assms(2), of i] store_okD(2)[OF assms(2), of j] by (simp add: comps)
  qed
  ultimately show "store_ok h1" unfolding store_ok_def by blast
qed

section \<open>Reachable blocks\<close>

lemma get_blocks_iff:
  assumes "store_ok h"
  shows "c \<in> set (get_blocks h t True i) \<longleftrightarrow> (i, c) \<in> (edges h)\<^sup>+ \<and> of_type h t c"
proof (induction "length h - i" arbitrary: i rule: less_induct)
  case less
  have ord: "i < x \<and> x < length h" if "x \<in> set (get_components h i)" for x
    using that store_okD(1)[OF assms, of i x] by (simp add: edges_def)
  have "c \<in> set (get_blocks h t True i) \<longleftrightarrow>
      (\<exists>x \<in> set (get_components h i). (of_type h t x \<and> c = x) \<or> c \<in> set (get_blocks h t True x))"
    by (subst get_blocks.simps) (use ord in \<open>auto split: if_splits\<close>)
  also have "\<dots> \<longleftrightarrow> (\<exists>x \<in> set (get_components h i). (of_type h t x \<and> c = x) \<or> ((x, c) \<in> (edges h)\<^sup>+ \<and> of_type h t c))"
  proof (intro bex_cong refl)
    fix x
    assume x: "x \<in> set (get_components h i)"
    then have "length h - x < length h - i" using ord[OF x] by arith
    from less[OF this] show "(of_type h t x \<and> c = x \<or> c \<in> set (get_blocks h t True x)) =
        (of_type h t x \<and> c = x \<or> (x, c) \<in> (edges h)\<^sup>+ \<and> of_type h t c)" by simp
  qed
  also have "\<dots> \<longleftrightarrow> (i, c) \<in> (edges h)\<^sup>+ \<and> of_type h t c"
  proof -
    have "(i, c) \<in> (edges h)\<^sup>+ \<longleftrightarrow> (\<exists>x. (i, x) \<in> edges h \<and> (x = c \<or> (x, c) \<in> (edges h)\<^sup>+))"
      by (metis r_into_trancl rtranclD rtrancl_into_trancl2 tranclD trancl_into_rtrancl)
    then show ?thesis by (auto simp: edges_def)
  qed
  finally show ?case .
qed

lemma get_blocks_children: "c \<in> set (get_blocks h t False i) \<longleftrightarrow> (i, c) \<in> edges h \<and> of_type h t c"
  by (subst get_blocks.simps) (auto simp: edges_def split: if_splits)

text \<open>Lookups depend on the parameters of the block and its ancestors only.\<close>

lemma get_parameters_hash_cong:
  assumes "\<And>j. j \<le> i \<Longrightarrow> own_parameters h1 j = own_parameters h j \<and> get_parent h1 j = get_parent h j \<and> block_type h1 j = block_type h j"
  shows "get_parameters_hash h1 inherit i = get_parameters_hash h inherit i"
  using assms
proof (induction i rule: less_induct)
  case (less i)
  have eq: "get_parent h1 i = get_parent h i" "block_type h1 i = block_type h i" using less.prems[of i] by simp_all
  have inh: "inherits h1 i inherit = inherits h i inherit" unfolding inherits_def eq ..
  show ?case
  proof (cases "inherits h i inherit")
    case None
    then show ?thesis using inh less.prems[of i] by (simp add: get_parameters_hash.simps)
  next
    case (Some p)
    then have "p < i" by (auto simp: inherits_def split: option.splits if_splits)
    then have "get_parameters_hash h1 inherit p = get_parameters_hash h inherit p" using less by auto
    then show ?thesis using inh Some less.prems[of i] by (simp add: get_parameters_hash.simps[of _ _ i])
  qed
qed

lemma add_missing_lookup:
  "map_of (add_missing own inh) k = (case map_of own k of None \<Rightarrow> map_of inh k | Some v \<Rightarrow> Some v)"
proof (induction inh arbitrary: own)
  case (Cons x inh)
  obtain a v where x: "x = (a, v)" by fastforce
  have "add_missing own (x # inh) = add_missing (if dict_has own a then own else dict_set a v own) inh"
    by (simp add: add_missing_def x)
  then show ?case using Cons.IH[of "if dict_has own a then own else dict_set a v own"]
    by (cases "map_of own a") (auto simp: x dict_has_iff split: option.splits)
qed (simp add: add_missing_def split: option.split)

section \<open>Adding a host\<close>

lemma own_parameters_cong:
  assumes "\<And>c. c \<in> set (get_components h i) \<Longrightarrow> co_data (h1 ! c) = co_data (h ! c) \<or> (get_block h1 c \<noteq> None \<and> get_block h c \<noteq> None)"
    and "get_components h1 i = get_components h i"
  shows "own_parameters h1 i = own_parameters h i"
proof -
  have block: "\<exists>b. co_data (g ! c) = DBlock b" if "get_block g c \<noteq> None" for g c
    using that by (auto simp: get_block_def split: if_splits dhcp_data.splits)
  have "(case co_data (h1 ! c) of DParameter k v \<Rightarrow> dict_set k v d | _ \<Rightarrow> d) = (case co_data (h ! c) of DParameter k v \<Rightarrow> dict_set k v d | _ \<Rightarrow> d)"
    if "c \<in> set (get_components h i)" for c d
    using assms(1)[OF that] block[of h1 c] block[of h c] by auto
  then show ?thesis unfolding own_parameters_def assms(2) by (intro fold_cong) auto
qed

text \<open>The store with the parameters of a new block: one component for each.\<close>

lemma create_params:
  assumes "store_ok h" "get_block h b \<noteq> None"
    and "h1 = fold (\<lambda>(k, v). create_in b (-1) (new_parameter k v)) ps h"
  shows "store_ok h1 \<and> length h1 = length h + length ps \<and>
    get_components h1 = (get_components h)(b := get_components h b @ [length h..<length h + length ps]) \<and>
    (\<forall>j < length h. get_parent h1 j = get_parent h j \<and> block_type h1 j = block_type h j \<and> block_settings h1 j = block_settings h j \<and>
      (get_block h1 j = None) = (get_block h j = None) \<and> (get_block h j = None \<longrightarrow> co_data (h1 ! j) = co_data (h ! j))) \<and>
    (\<forall>n < length ps. get_block h1 (length h + n) = None \<and> co_data (h1 ! (length h + n)) = new_parameter (fst (ps ! n)) (snd (ps ! n)))"
  using assms
proof (induction ps arbitrary: h)
  case (Cons x ps)
  obtain k v where x: "x = (k, v)" by fastforce
  let ?h = "create_in b (-1) (new_parameter k v) h"
  have ch: "childless (new_parameter k v)" by (simp add: childless_def new_parameter_def)
  note one = create_in_post[where start = "-1", OF refl Cons.prems(1,2) ch]
  have bb: "get_block ?h b \<noteq> None" using one(4)[of b] Cons.prems(2) get_block_bound[of h b] by auto
  have bound: "b < length h" using Cons.prems(2) get_block_bound[of h b] by auto
  have h1: "h1 = fold (\<lambda>(k, v). create_in b (-1) (new_parameter k v)) ps ?h" using Cons.prems(3) by (simp add: x)
  note IH = Cons.IH[OF one(7) bb h1]
  have none: "get_block ?h (length h) = None" "co_data (?h ! length h) = new_parameter k v"
    using one(5,6) by (auto simp: new_parameter_def)
  have comps: "get_components ?h = (get_components h)(b := get_components h b @ [length h])"
  proof
    fix j
    have "get_components h j = []" if "j = length h" using that by (simp add: get_components_def get_block_def)
    then show "get_components ?h j = ((get_components h)(b := get_components h b @ [length h])) j" by (simp add: one(2))
  qed
  have "get_components h1 = (get_components h)(b := get_components h b @ [length h..<length h + length (x # ps)])"
  proof -
    have c1: "get_components h1 = (get_components ?h)(b := get_components ?h b @ [Suc (length h)..<Suc (length h) + length ps])"
      using IH[unfolded one(1)] by blast
    show ?thesis unfolding c1 comps by (simp add: upt_conv_Cons del: upt_Suc)
  qed
  moreover have "\<forall>n < length (x # ps). get_block h1 (length h + n) = None \<and> co_data (h1 ! (length h + n)) = new_parameter (fst ((x # ps) ! n)) (snd ((x # ps) ! n))"
  proof (intro allI impI)
    fix n
    assume "n < length (x # ps)"
    then show "get_block h1 (length h + n) = None \<and> co_data (h1 ! (length h + n)) = new_parameter (fst ((x # ps) ! n)) (snd ((x # ps) ! n))"
      using IH none by (cases n) (auto simp: one(1) x)
  qed
  moreover have "\<forall>j < length h. get_parent h1 j = get_parent h j \<and> block_type h1 j = block_type h j \<and> block_settings h1 j = block_settings h j \<and>
      (get_block h1 j = None) = (get_block h j = None) \<and> (get_block h j = None \<longrightarrow> co_data (h1 ! j) = co_data (h ! j))"
    using IH one(3,4) by (auto simp: one(1))
  ultimately show ?case using IH by (simp add: one(1))
qed simp

lemma add_component_post:
  assumes "store_ok h" "get_block h p = Some bp" "get_parent h b = Some p" "b < length h" "b \<notin> set (get_components h p)"
  shows "store_ok (add_component p b h) \<and> same_blocks (add_component p b h) h \<and>
    get_components (add_component p b h) = (get_components h)(p := get_components h p @ [b])"
proof -
  obtain f where f: "add_component p b h = put_block p f h" "\<And>x. db_type (f x) = db_type x" "\<And>x. db_settings (f x) = db_settings x"
    "\<And>x. db_components (f x) = db_components x @ [b]"
    unfolding add_component_def Let_def by fastforce
  have same: "same_blocks (add_component p b h) h" unfolding f(1) by (rule same_blocks_put[OF f(2,3)])
  have comps: "get_components (add_component p b h) j = (if j = p then get_components h p @ [b] else get_components h j)" for j
    using assms(2) by (simp add: f(1,4) get_components_def)
  have "p < b" using store_okD(3)[OF assms(1,3)] by simp
  moreover have e: "(i, c) \<in> edges (add_component p b h) \<longleftrightarrow> (i, c) \<in> edges h \<or> (i, c) = (p, b)" for i c
    by (auto simp: edges_def comps)
  moreover have "get_parent (add_component p b h) = get_parent h" "length (add_component p b h) = length h"
    "\<And>j. (get_block (add_component p b h) j = None) = (get_block h j = None)"
    using same by (auto simp: same_blocks_def)
  moreover have "distinct (get_components (add_component p b h) j)" for j
    using store_okD(2)[OF assms(1), of p] store_okD(2)[OF assms(1), of j] assms(5) by (simp add: comps)
  ultimately have "store_ok (add_component p b h)"
    using assms(1,3,4) unfolding store_ok_def by auto
  then show ?thesis using same comps by (auto simp: fun_eq_iff)
qed

lemma create_host_post:
  assumes "store_ok h" "get_block h p \<noteq> None" "h3 = create_host p hostname ps h"
  shows "store_ok h3 \<and> length h3 = Suc (length h + length ps) \<and>
    get_components h3 = (get_components h)(p := get_components h p @ [length h], length h := [Suc (length h)..<Suc (length h + length ps)]) \<and>
    (\<forall>j < length h. get_parent h3 j = get_parent h j \<and> block_type h3 j = block_type h j \<and> block_settings h3 j = block_settings h j \<and>
      (get_block h3 j = None) = (get_block h j = None) \<and> (get_block h j = None \<longrightarrow> co_data (h3 ! j) = co_data (h ! j))) \<and>
    (\<forall>n < length ps. get_block h3 (Suc (length h) + n) = None \<and> co_data (h3 ! (Suc (length h) + n)) = new_parameter (fst (ps ! n)) (snd (ps ! n))) \<and>
    get_block h3 (length h) \<noteq> None \<and> block_type h3 (length h) = ''host'' \<and> block_settings h3 (length h) = [''host'', hostname] \<and>
    get_parent h3 (length h) = Some p"
proof -
  let ?b = "length h" and ?h1 = "h @ [new_component (-1) (Some p) (new_block ''host'' [''host'', hostname])]"
  let ?h2 = "fold (\<lambda>(k, v). create_in ?b (-1) (new_parameter k v)) ps ?h1"
  have h3: "h3 = add_component p ?b ?h2" using assms(3) by (simp add: create_host_def Let_def)
  have bound: "p < ?b" using assms(2) get_block_bound[of h p] by auto
  have none: "get_components h ?b = []" by (simp add: get_components_def get_block_def)
  have comps1: "get_components ?h1 = get_components h"
  proof
    fix j
    have "get_block h j = None" if "\<not> j < length h" using that by (simp add: get_block_def)
    then show "get_components ?h1 j = get_components h j"
      by (cases "j < length h") (auto simp: get_components_def new_component_def new_block_def)
  qed
  have "edges ?h1 = edges h" by (simp add: edges_def comps1)
  then have ok1: "store_ok ?h1"
    using assms(1,2) bound unfolding store_ok_def comps1
    by (auto simp: new_component_def new_block_def less_Suc_eq) (metis get_block_bound)+
  have b1: "get_block ?h1 ?b \<noteq> None" by (simp add: new_component_def new_block_def)
  note two = create_params[OF ok1 b1 refl, of ps]
  have old: "get_parent ?h2 j = get_parent ?h1 j" "block_type ?h2 j = block_type ?h1 j" "block_settings ?h2 j = block_settings ?h1 j"
    "(get_block ?h2 j = None) = (get_block ?h1 j = None)" "get_block ?h1 j = None \<Longrightarrow> co_data (?h2 ! j) = co_data (?h1 ! j)" if "j < Suc ?b" for j
    using two that by simp_all
  have h1: "get_block ?h1 j = get_block h j" "get_parent ?h1 j = get_parent h j" "co_data (?h1 ! j) = co_data (h ! j)" if "j < ?b" for j
    using that by (simp_all add: nth_append)
  obtain bp where bp: "get_block ?h2 p = Some bp" using old(4)[of p] bound assms(2) by auto
  have par: "get_parent ?h2 ?b = Some p" using old(1)[of ?b] by (simp add: new_component_def)
  have "?b \<notin> set (get_components ?h2 p)"
    using two bound store_okD(1)[OF assms(1), of p ?b] by (auto simp: comps1 edges_def)
  from add_component_post[OF _ bp par _ this] two have three:
    "store_ok h3" "same_blocks h3 ?h2" "get_components h3 = (get_components ?h2)(p := get_components ?h2 p @ [?b])"
    by (simp_all add: h3)
  have comps3: "get_components h3 = (get_components h)(p := get_components h p @ [?b], ?b := [Suc ?b..<Suc (?b + length ps)])"
    using three(3) two bound by (auto simp: fun_eq_iff comps1 none)
  have s: "length h3 = length ?h2" "get_parent h3 = get_parent ?h2" "block_type h3 = block_type ?h2" "block_settings h3 = block_settings ?h2"
    "\<And>j. (get_block h3 j = None) = (get_block ?h2 j = None)" "\<And>j. get_block ?h2 j = None \<Longrightarrow> co_data (h3 ! j) = co_data (?h2 ! j)"
    using three(2) by (simp_all add: same_blocks_def)
  have "block_type ?h1 j = block_type h j" "block_settings ?h1 j = block_settings h j" if "j < ?b" for j
    using h1(1)[OF that] by (simp_all add: block_type_def block_settings_def)
  then have "\<forall>j < ?b. get_parent h3 j = get_parent h j \<and> block_type h3 j = block_type h j \<and> block_settings h3 j = block_settings h j \<and>
      (get_block h3 j = None) = (get_block h j = None) \<and> (get_block h j = None \<longrightarrow> co_data (h3 ! j) = co_data (h ! j))"
    using s old h1 by simp
  moreover have "block_type ?h1 ?b = ''host''" "block_settings ?h1 ?b = [''host'', hostname]"
    by (simp_all add: block_type_def block_settings_def new_component_def new_block_def)
  ultimately show ?thesis using three(1) comps3 s old[of ?b] two par b1 by simp
qed

lemma create_host_edges:
  assumes "store_ok h" "get_block h p \<noteq> None" "h3 = create_host p hostname ps h"
  shows "(i, c) \<in> edges h3 \<longleftrightarrow> (i, c) \<in> edges h \<or> (i, c) = (p, length h) \<or> (i = length h \<and> Suc (length h) \<le> c \<and> c < Suc (length h + length ps))"
proof -
  have "get_components h (length h) = []" by (simp add: get_components_def get_block_def)
  moreover have "p < length h" using assms(2) get_block_bound[of h p] by auto
  ultimately show ?thesis
    using create_host_post[OF assms] by (auto simp: edges_def split: if_splits)
qed

lemma create_host_blocks:
  assumes "store_ok h" "get_block h p \<noteq> None" "h3 = create_host p hostname ps h" "(g, p) \<in> (edges h)\<^sup>*"
  shows "c \<in> set (get_blocks h3 (Some ''host'') True g) \<longleftrightarrow> c = length h \<or> c \<in> set (get_blocks h (Some ''host'') True g)"
proof -
  note post = create_host_post[OF assms(1-3)] and e = create_host_edges[OF assms(1-3)]
  have ok3: "store_ok h3" using post by simp
  have mono: "edges h \<subseteq> edges h3" using e by auto
  have bound: "p < length h" using assms(2) get_block_bound[of h p] by auto
  have old: "c < length h" if "(i, c) \<in> (edges h)\<^sup>+" for i c
    using that by (induction rule: trancl_induct) (use store_okD(1)[OF assms(1)] in blast)+
  have type: "of_type h3 t j = of_type h t j" if "j < length h" for j t using post that by (simp add: of_type_def)
  have reach: "c = length h \<or> length h < c \<or> (g, c) \<in> (edges h)\<^sup>+" if "(g, c) \<in> (edges h3)\<^sup>+"
    using that
  proof (induction rule: trancl_induct)
    case (base y)
    then show ?case unfolding e by auto
  next
    case (step y z)
    have "y < length h" if "(y, z) \<in> edges h" using that store_okD(1)[OF assms(1)] by fastforce
    then show ?case using step unfolding e by (auto intro: trancl_into_trancl)
  qed
  have len: "length h3 = Suc (length h + length ps)" using post by (elim conjE)
  have new_none: "get_block h3 (Suc (length h) + n) = None" if "n < length ps" for n
    using post that by (elim conjE allE[of _ n]) (drule mp, assumption, elim conjE, assumption)
  have params: "\<not> of_type h3 t c" if "length h < c" for c t
  proof -
    have "get_block h3 c = None"
    proof (cases "c < length h3")
      case True
      define n where "n = c - Suc (length h)"
      have n: "c = Suc (length h) + n" "n < length ps" using that True len by (auto simp: n_def)
      show ?thesis using new_none[OF n(2)] unfolding n(1) .
    qed (simp add: get_block_def)
    then show ?thesis by (simp add: of_type_def)
  qed
  have new: "(g, length h) \<in> (edges h3)\<^sup>+"
  proof -
    have "(g, p) \<in> (edges h3)\<^sup>*" using assms(4) rtrancl_mono[OF mono] by blast
    moreover have "(p, length h) \<in> edges h3" unfolding e by simp
    ultimately show ?thesis by (rule rtrancl_into_trancl1)
  qed
  have "of_type h3 (Some ''host'') (length h)" using post by (simp add: of_type_def)
  then show ?thesis
    unfolding get_blocks_iff[OF ok3] get_blocks_iff[OF assms(1)]
    using new reach params old type trancl_mono[OF _ mono] by blast
qed

lemma get_host_unique:
  assumes "\<And>x. x \<in> set bs \<Longrightarrow> 1 < length (block_settings h x)" "b \<in> set bs"
    and "\<And>x. x \<in> set bs \<Longrightarrow> block_settings h x ! 1 = name \<longleftrightarrow> x = b"
  shows "fold_res (\<lambda>b r. if r \<noteq> None then Inr r
      else bind_res (setting h b 1) (\<lambda>n. Inr (if n = name then Some (get_parameters_hash h inherit b) else None))) bs None =
    Inr (Some (get_parameters_hash h inherit b))"
proof -
  let ?f = "\<lambda>b r. if r \<noteq> None then Inr r
      else bind_res (setting h b 1) (\<lambda>n. Inr (if n = name then Some (get_parameters_hash h inherit b) else None))"
  have found: "fold_res ?f xs (Some d) = Inr (Some d)" for xs d by (induction xs) auto
  show ?thesis
    using assms
  proof (induction bs)
    case (Cons x xs)
    show ?case
    proof (cases "x = b")
      case True
      then have "?f x None = Inr (Some (get_parameters_hash h inherit b))" using Cons.prems by (auto simp: setting_def)
      then show ?thesis using found by simp
    next
      case False
      then have "?f x None = Inr None" using Cons.prems by (auto simp: setting_def)
      then show ?thesis using Cons False by simp
    qed
  qed simp
qed

lemma check_hosts_post:
  assumes "fold_res (check_host h hostname fa ha) bs ex = Inr ex1"
  shows "(\<forall>x \<in> set bs. 1 < length (block_settings h x)) \<and>
    (ex1 \<longleftrightarrow> ex \<or> (\<exists>x \<in> set bs. py_lower (block_settings h x ! 1) = hostname))"
  using assms
proof (induction bs arbitrary: ex)
  case (Cons x xs)
  then obtain ex2 where s: "check_host h hostname fa ha x ex = Inr ex2" "fold_res (check_host h hostname fa ha) xs ex2 = Inr ex1"
    by (auto simp: bind_res_Inr_iff)
  have "1 < length (block_settings h x)" "ex2 \<longleftrightarrow> ex \<or> py_lower (block_settings h x ! 1) = hostname"
    using s(1) by (auto simp: check_host_def setting_def bind_res_Inr_iff split: if_splits)
  then show ?case using Cons.IH[OF s(2)] by auto
qed simp

lemma map_res_settings:
  assumes "map_res (\<lambda>b. bind_res (setting h b 1) (\<lambda>name. Inr (b, name))) bs = Inr named"
  shows "named = map (\<lambda>b. (b, block_settings h b ! 1)) bs"
  using assms by (induction bs arbitrary: named) (auto simp: bind_res_Inr_iff setting_def split: if_splits)

lemma find_subnet_post: "find_subnet E h ip bs start = Inr p \<Longrightarrow> p = start \<or> p \<in> set bs"
  unfolding find_subnet_def by (induction bs arbitrary: start) (fastforce simp: bind_res_Inr_iff split: if_splits)+

lemma best_group_post:
  assumes "best_group h ps bs = Some g"
  shows "g \<in> set bs"
proof -
  let ?f = "\<lambda>b (best, n). let m = match_count ps (get_parameters_hash h (Some ''global'') b) in if n < m then (Some b, m) else (best, n)"
  have "fst (fold ?f xs st) = fst st \<or> (\<exists>x \<in> set xs. fst (fold ?f xs st) = Some x)" for xs st
  proof (induction xs arbitrary: st)
    case (Cons x xs)
    have "fst (?f x st) = fst st \<or> fst (?f x st) = Some x" by (auto simp: Let_def split: prod.split)
    then show ?case using Cons[of "?f x st"] by fastforce
  qed simp
  from this[of bs "(None, -1)"] show ?thesis using assms by (auto simp: best_group_def)
qed

text \<open>A configuration: the global block is the first object, the block being parsed exists.\<close>

definition conf_ok :: "dhcpd_conf \<Rightarrow> bool" where
  "conf_ok c \<longleftrightarrow> store_ok (dc_store c) \<and> get_block (dc_store c) (dc_global c) \<noteq> None \<and> get_block (dc_store c) (dc_current c) \<noteq> None"

lemma same_blocks_ok: "conf_ok c \<Longrightarrow> same_blocks h (dc_store c) \<Longrightarrow> store_ok h \<Longrightarrow> conf_ok (c\<lparr>dc_store := h\<rparr>)"
  by (simp add: conf_ok_def same_blocks_def)

lemma same_blocks_of_type: "same_blocks h1 h \<Longrightarrow> of_type h1 t b = of_type h t b"
  by (simp add: of_type_def same_blocks_def del: not_None_eq)

lemma delete_host_post:
  assumes "conf_ok c" "delete_host E hostname c = Inr c1" "de_force_hostname E hostname = Inr name"
  shows "conf_ok c1 \<and> same_blocks (dc_store c1) (dc_store c) \<and> dc_global c1 = dc_global c \<and>
    (\<forall>b \<in> set (host_blocks c1). b \<in> set (host_blocks c) \<and> block_settings (dc_store c1) b ! 1 \<noteq> name)"
proof -
  let ?h = "dc_store c"
  obtain bs h1 where s: "named_blocks ?h name (host_blocks c) = Inr bs" "fold_res remove_from_parent bs ?h = Inr h1" "c1 = c\<lparr>dc_store := h1\<rparr>"
    using assms(2,3) by (auto simp: delete_host_def bind_res_Inr_iff)
  have ok: "store_ok ?h" using assms(1) by (simp add: conf_ok_def)
  note post = remove_all_post[OF s(2) ok]
  have bs: "b \<in> set bs" if "b \<in> set (host_blocks c)" "block_settings ?h b ! 1 = name" for b
    using s(1) that by (force simp: named_blocks_def bind_res_Inr_iff simp del: One_nat_def dest!: map_res_settings)
  have "b \<in> set (host_blocks c) \<and> block_settings h1 b ! 1 \<noteq> name" if "b \<in> set (host_blocks c1)" for b
  proof -
    have r: "(dc_global c, b) \<in> (edges h1)\<^sup>+" "of_type h1 (Some ''host'') b"
      using that post get_blocks_iff[of h1] by (simp_all add: host_blocks_def s(3))
    have "edges h1 \<subseteq> edges ?h" using post by auto
    then have "(dc_global c, b) \<in> (edges ?h)\<^sup>+" using r(1) trancl_mono by blast
    moreover have "of_type ?h (Some ''host'') b" using r(2) post same_blocks_of_type[of h1 ?h] by simp
    ultimately have "b \<in> set (host_blocks c)" using get_blocks_iff[OF ok] by (simp add: host_blocks_def)
    moreover obtain y where "(y, b) \<in> edges h1" using r(1) by (meson tranclE)
    then have "b \<notin> set bs" using post by auto
    moreover have "block_settings h1 b = block_settings ?h b" using post by (simp add: same_blocks_def)
    ultimately show ?thesis using bs by metis
  qed
  then show ?thesis using post same_blocks_ok[OF assms(1)] by (simp add: s(3))
qed

lemma parameter_value_idem [simp]: "parameter_value (parameter_value v) = parameter_value v"
  by (auto simp: parameter_value_def split: dhcp_value.splits)

lemma own_parameters_append:
  assumes "get_components h1 i = get_components h i @ cs"
    and "\<And>c. c \<in> set (get_components h i) \<Longrightarrow> co_data (h1 ! c) = co_data (h ! c) \<or> (get_block h1 c \<noteq> None \<and> get_block h c \<noteq> None)"
    and "\<And>c. c \<in> set cs \<Longrightarrow> get_block h1 c \<noteq> None"
  shows "own_parameters h1 i = own_parameters h i"
proof -
  have block: "\<exists>b. co_data (g ! c) = DBlock b" if "get_block g c \<noteq> None" for g c
    using that by (auto simp: get_block_def split: if_splits dhcp_data.splits)
  let ?f = "\<lambda>g c d. case co_data (g ! c) of DParameter k v \<Rightarrow> dict_set k v d | _ \<Rightarrow> d"
  have "?f h1 c d = ?f h c d" if "c \<in> set (get_components h i)" for c d
    using assms(2)[OF that] block[of h1 c] block[of h c] by auto
  then have "fold (?f h1) (get_components h i) [] = fold (?f h) (get_components h i) []" by (intro fold_cong) auto
  moreover have "fold (?f h1) cs d = d" for d
    using assms(3) block by (induction cs) fastforce+
  ultimately show ?thesis unfolding own_parameters_def assms(1) by simp
qed

lemma own_parameters_new:
  assumes "get_components h b = [m..<m + length ps]"
    and "\<And>n. n < length ps \<Longrightarrow> co_data (h ! (m + n)) = new_parameter (fst (ps ! n)) (snd (ps ! n))"
  shows "map_of (own_parameters h b) k = map_option parameter_value (map_of (rev ps) k)"
proof -
  let ?f = "\<lambda>c d. case co_data (h ! c) of DParameter k v \<Rightarrow> dict_set k v d | _ \<Rightarrow> d"
  have "map_of (fold ?f [m..<m + length ps] d) k =
      (case map_of (rev ps) k of None \<Rightarrow> map_of d k | Some v \<Rightarrow> Some (parameter_value v))" for d
    using assms(2)
  proof (induction ps arbitrary: m d)
    case (Cons x ps)
    have up: "[m..<m + length (x # ps)] = m # [Suc m..<Suc m + length ps]" by (simp add: upt_conv_Cons del: upt_Suc)
    have "co_data (h ! (Suc m + n)) = new_parameter (fst (ps ! n)) (snd (ps ! n))" if "n < length ps" for n
      using Cons.prems[of "Suc n"] that by simp
    note IH = Cons.IH[OF this, of "?f m d"]
    have "?f m d = dict_set (fst x) (parameter_value (snd x)) d" using Cons.prems[of 0] by (simp add: new_parameter_def)
    then show ?case unfolding up using IH by (auto simp: map_add_def split: option.splits)
  qed simp
  from this[of "[]"] show ?thesis unfolding own_parameters_def assms(1) by (simp split: option.splits)
qed

text \<open>The parameters the new host has: its own, then those of the parents.\<close>

lemma create_host_parameters:
  assumes "store_ok h" "get_block h p \<noteq> None" "h3 = create_host p hostname ps h"
  shows "map_of (get_parameters_hash h3 (Some ''global'') (length h)) k =
    (case map_of (rev ps) k of None \<Rightarrow> map_of (get_parameters_hash h (Some ''global'') p) k | Some v \<Rightarrow> Some (parameter_value v))"
proof -
  let ?b = "length h"
  note post = create_host_post[OF assms]
  have bound: "p < ?b" using assms(2) get_block_bound[of h p] by auto
  have comps: "get_components h3 ?b = [Suc ?b..<Suc ?b + length ps]" "get_components h3 p = get_components h p @ [?b]"
    "\<And>j. j \<noteq> p \<Longrightarrow> j \<noteq> ?b \<Longrightarrow> get_components h3 j = get_components h j"
    using post bound by simp_all
  have new: "co_data (h3 ! (Suc ?b + n)) = new_parameter (fst (ps ! n)) (snd (ps ! n))" if "n < length ps" for n
    using post that by simp
  have old: "get_parent h3 j = get_parent h j \<and> block_type h3 j = block_type h j" "(get_block h3 j = None) = (get_block h j = None)"
    "get_block h j = None \<Longrightarrow> co_data (h3 ! j) = co_data (h ! j)" if "j < ?b" for j
    using post that by simp_all
  have data: "co_data (h3 ! c) = co_data (h ! c) \<or> (get_block h3 c \<noteq> None \<and> get_block h c \<noteq> None)" if "c \<in> set (get_components h j)" for c j
  proof -
    have "c < ?b" using store_okD(1)[OF assms(1), of j c] that by (simp add: edges_def)
    then show ?thesis using old(2,3)[of c] by auto
  qed
  have "own_parameters h3 j = own_parameters h j" if "j \<le> p" for j
  proof (cases "j = p")
    case True
    have "get_block h3 ?b \<noteq> None" using post by simp
    then show ?thesis unfolding True by (intro own_parameters_append[OF comps(2) data]) auto
  qed (use that bound in \<open>auto intro!: own_parameters_cong[OF data comps(3)]\<close>)
  then have "get_parameters_hash h3 (Some ''global'') p = get_parameters_hash h (Some ''global'') p"
    using old(1) bound by (intro get_parameters_hash_cong) auto
  moreover have "inherits h3 ?b (Some ''global'') = Some p" using post bound by (simp add: inherits_def)
  ultimately show ?thesis
    using own_parameters_new[OF comps(1) new, of k]
    by (subst get_parameters_hash.simps) (auto simp: add_missing_lookup split: option.splits)
qed

text \<open>The block under which a new host is put: the subnet of its address or a group in it.\<close>

lemma parent_reachable:
  assumes "conf_ok c" "find_subnet E (dc_store c) ip (get_blocks (dc_store c) (Some ''subnet'') True (dc_global c)) (dc_global c) = Inr subnet"
    and "parent = (case best_group (dc_store c) ps (get_blocks (dc_store c) (Some ''group'') False subnet) of None \<Rightarrow> subnet | Some g \<Rightarrow> g)"
  shows "get_block (dc_store c) parent \<noteq> None \<and> (dc_global c, parent) \<in> (edges (dc_store c))\<^sup>*"
proof -
  have ok: "store_ok (dc_store c)" "get_block (dc_store c) (dc_global c) \<noteq> None" using assms(1) by (auto simp: conf_ok_def)
  have s: "get_block (dc_store c) subnet \<noteq> None \<and> (dc_global c, subnet) \<in> (edges (dc_store c))\<^sup>*"
    using find_subnet_post[OF assms(2)] ok(2) by (auto simp: get_blocks_iff[OF ok(1)] of_type_def)
  show ?thesis
  proof (cases "best_group (dc_store c) ps (get_blocks (dc_store c) (Some ''group'') False subnet)")
    case (Some g)
    then have "(subnet, g) \<in> edges (dc_store c) \<and> of_type (dc_store c) (Some ''group'') g"
      using best_group_post[OF Some] by (simp add: get_blocks_children)
    then show ?thesis using s assms(3) Some by (auto simp: of_type_def intro: rtrancl_into_rtrancl)
  qed (use s assms(3) in simp)
qed

text \<open>Adding a host deletes the blocks of that name, and puts a new one under a reachable block.\<close>

lemma add_host_cases:
  assumes "add_host E hostname hw ip fixed params c = Inr c1"
  obtains name hardware address ex c2 subnet parent where
    "de_force_hostname E hostname = Inr name" "de_force_hardware_address E hw = Inr hardware"
    "fold_res (check_host (dc_store c) name (de_force_string_lower E fixed) hardware) (host_blocks c) False = Inr ex"
    "(if ex then delete_host E name c else Inr c) = Inr c2"
    "find_subnet E (dc_store c2) address (get_blocks (dc_store c2) (Some ''subnet'') True (dc_global c2)) (dc_global c2) = Inr subnet"
    "parent = (case best_group (dc_store c2) (map (\<lambda>(k, v). (k, parameter_value v)) params) (get_blocks (dc_store c2) (Some ''group'') False subnet) of
       None \<Rightarrow> subnet | Some g \<Rightarrow> g)"
    "c1 = c2\<lparr>dc_store := create_host parent name
       ([(''fixed-address'', VText (de_force_string_lower E fixed)), (''hardware'', VText (''ethernet '' @ hardware))] @
        drop_inherited (get_parameters_hash (dc_store c2) (Some ''global'') parent) (map (\<lambda>(k, v). (k, parameter_value v)) params)) (dc_store c2)\<rparr>"
  using assms unfolding add_host_def Let_def bind_res_Inr_iff by (elim exE conjE) (rule that, (assumption | rule refl | simp)+)

lemma create_host_conf_ok:
  assumes "conf_ok c" "get_block (dc_store c) parent \<noteq> None"
  shows "conf_ok (c\<lparr>dc_store := create_host parent name ps (dc_store c)\<rparr>)"
proof -
  have ok: "store_ok (dc_store c)" using assms(1) by (simp add: conf_ok_def)
  note post = create_host_post[OF ok assms(2) refl, of name ps]
  have "get_block (create_host parent name ps (dc_store c)) j \<noteq> None" if "get_block (dc_store c) j \<noteq> None" for j
    using that post get_block_bound[of "dc_store c" j] by auto
  then show ?thesis using assms(1) post by (simp add: conf_ok_def)
qed

lemma add_host_steps:
  assumes "conf_ok c" "add_host E hostname hw ip fixed params c = Inr c1" "de_force_hostname E hostname = Inr name"
    and law: "\<forall>x y. de_force_hostname E x = Inr y \<longrightarrow> de_force_hostname E y = Inr y \<and> py_lower y = y"
  obtains c2 hardware parent where "conf_ok c2" "dc_global c2 = dc_global c" "de_force_hardware_address E hw = Inr hardware"
    "\<forall>b \<in> set (host_blocks c2). 1 < length (block_settings (dc_store c2) b) \<and> block_settings (dc_store c2) b ! 1 \<noteq> name"
    "get_block (dc_store c2) parent \<noteq> None" "(dc_global c2, parent) \<in> (edges (dc_store c2))\<^sup>*"
    "c1 = c2\<lparr>dc_store := create_host parent name
       ([(''fixed-address'', VText (de_force_string_lower E fixed)), (''hardware'', VText (''ethernet '' @ hardware))] @
        drop_inherited (get_parameters_hash (dc_store c2) (Some ''global'') parent) (map (\<lambda>(k, v). (k, parameter_value v)) params)) (dc_store c2)\<rparr>"
proof -
  obtain n hardware address ex c2 subnet parent where n: "de_force_hostname E hostname = Inr n" and r: "de_force_hardware_address E hw = Inr hardware"
    "fold_res (check_host (dc_store c) n (de_force_string_lower E fixed) hardware) (host_blocks c) False = Inr ex"
    "(if ex then delete_host E n c else Inr c) = Inr c2"
    "find_subnet E (dc_store c2) address (get_blocks (dc_store c2) (Some ''subnet'') True (dc_global c2)) (dc_global c2) = Inr subnet"
    "parent = (case best_group (dc_store c2) (map (\<lambda>(k, v). (k, parameter_value v)) params) (get_blocks (dc_store c2) (Some ''group'') False subnet) of
       None \<Rightarrow> subnet | Some g \<Rightarrow> g)"
    "c1 = c2\<lparr>dc_store := create_host parent n
       ([(''fixed-address'', VText (de_force_string_lower E fixed)), (''hardware'', VText (''ethernet '' @ hardware))] @
        drop_inherited (get_parameters_hash (dc_store c2) (Some ''global'') parent) (map (\<lambda>(k, v). (k, parameter_value v)) params)) (dc_store c2)\<rparr>"
    by (rule add_host_cases[OF assms(2)]) (rule that, assumption+)
  have eq: "n = name" using n assms(3) by simp
  note s = r[unfolded eq]
  note chk = check_hosts_post[OF s(2)]
  have name: "de_force_hostname E name = Inr name" "py_lower name = name" using law assms(3) by blast+
  have c2: "conf_ok c2 \<and> dc_global c2 = dc_global c \<and>
    (\<forall>b \<in> set (host_blocks c2). 1 < length (block_settings (dc_store c2) b) \<and> block_settings (dc_store c2) b ! 1 \<noteq> name)"
  proof (cases ex)
    case True
    then have d: "delete_host E name c = Inr c2" using s(3) by simp
    note post = delete_host_post[OF assms(1) d name(1)]
    then have "block_settings (dc_store c2) = block_settings (dc_store c)" by (simp add: same_blocks_def)
    then show ?thesis using post chk by auto
  next
    case False
    then show ?thesis using s(3) assms(1) chk name(2) by auto
  qed
  have "conf_ok c2" using c2 by simp
  note p = parent_reachable[OF this s(4,5)]
  show thesis by (rule that[OF _ _ s(1) _ _ _ s(6)]) (use c2 p in auto)
qed

lemma drop_inherited_lookup:
  assumes "distinct (map fst ps)"
  shows "map_of (drop_inherited inh ps) k = (case map_of ps k of None \<Rightarrow> None | Some v \<Rightarrow> if map_of inh k = Some v then None else Some v)"
  using assms
proof (induction ps)
  case (Cons x ps)
  obtain a v where x: "x = (a, v)" by fastforce
  have "map_of ps a = None" using Cons.prems by (auto simp: x map_of_eq_None_iff)
  then show ?case using Cons by (auto simp: x drop_inherited_def)
qed (simp add: drop_inherited_def)

lemma new_parameters_lookup:
  assumes "distinct (map fst params)" "''fixed-address'' \<notin> fst ` set params" "''hardware'' \<notin> fst ` set params"
  shows "(case map_of (rev ([(''fixed-address'', a), (''hardware'', w)] @ drop_inherited inh (map (\<lambda>(k, v). (k, parameter_value v)) params))) k of
      None \<Rightarrow> map_of inh k | Some v \<Rightarrow> Some (parameter_value v)) =
    (if k = ''fixed-address'' then Some (parameter_value a) else if k = ''hardware'' then Some (parameter_value w)
     else case map_of params k of Some v \<Rightarrow> Some (parameter_value v) | None \<Rightarrow> map_of inh k)"
proof -
  let ?P = "map (\<lambda>(k, v). (k, parameter_value v)) params"
  let ?l = "[(''fixed-address'', a), (''hardware'', w)] @ drop_inherited inh ?P"
  have keys: "map fst ?P = map fst params" by (simp add: comp_def split_def)
  have "distinct (map fst (drop_inherited inh ?P))"
    unfolding drop_inherited_def by (rule distinct_map_filter) (simp only: keys assms(1))
  moreover have "fst ` set (drop_inherited inh ?P) \<subseteq> fst ` set params" by (force simp: drop_inherited_def)
  ultimately have "distinct (map fst ?l)" using assms(2,3) by auto
  then have l: "map_of (rev ?l) k = map_of ?l k" by (rule map_of_rev_distinct[THEN fun_cong])
  have P: "map_of ?P k = map_option parameter_value (map_of params k)" by (induction params) auto
  have dP: "distinct (map fst ?P)" by (simp only: keys assms(1))
  have f: "map_of (drop_inherited inh ?P) k = (case map_of ?P k of None \<Rightarrow> None | Some v \<Rightarrow> if map_of inh k = Some v then None else Some v)"
    using dP by (rule drop_inherited_lookup)
  show ?thesis unfolding l using P f by (auto split: option.splits)
qed

lemma add_host_spec:
  assumes "conf_ok c" "add_host E hostname hw ip fixed params c = Inr c1" "distinct (map fst params)"
    and "''fixed-address'' \<notin> fst ` set params" "''hardware'' \<notin> fst ` set params"
    and "\<forall>x y. de_force_hostname E x = Inr y \<longrightarrow> de_force_hostname E y = Inr y \<and> py_lower y = y"
  shows "\<exists>d hardware. conf_ok c1 \<and> get_host E hostname (Some ''global'') c1 = Inr (Some d) \<and> de_force_hardware_address E hw = Inr hardware \<and>
    map_of d ''fixed-address'' = Some (parameter_value (VText (de_force_string_lower E fixed))) \<and>
    map_of d ''hardware'' = Some (parameter_value (VText (''ethernet '' @ hardware))) \<and>
    (\<forall>k v. map_of params k = Some v \<longrightarrow> map_of d k = Some (parameter_value v))"
proof -
  obtain name where name: "de_force_hostname E hostname = Inr name"
    using assms(2) by (auto simp: add_host_def bind_res_Inr_iff)
  obtain c2 parent hardware where s: "conf_ok c2" "dc_global c2 = dc_global c" "de_force_hardware_address E hw = Inr hardware"
    "\<forall>b \<in> set (host_blocks c2). 1 < length (block_settings (dc_store c2) b) \<and> block_settings (dc_store c2) b ! 1 \<noteq> name"
    "get_block (dc_store c2) parent \<noteq> None" "(dc_global c2, parent) \<in> (edges (dc_store c2))\<^sup>*"
    "c1 = c2\<lparr>dc_store := create_host parent name
       ([(''fixed-address'', VText (de_force_string_lower E fixed)), (''hardware'', VText (''ethernet '' @ hardware))] @
        drop_inherited (get_parameters_hash (dc_store c2) (Some ''global'') parent) (map (\<lambda>(k, v). (k, parameter_value v)) params)) (dc_store c2)\<rparr>"
    by (rule add_host_steps[OF assms(1,2) name assms(6)]) (rule that, assumption+)
  let ?h = "dc_store c2" and ?b = "length (dc_store c2)" and ?h3 = "dc_store c1"
  let ?ps = "[(''fixed-address'', VText (de_force_string_lower E fixed)), (''hardware'', VText (''ethernet '' @ hardware))] @
        drop_inherited (get_parameters_hash ?h (Some ''global'') parent) (map (\<lambda>(k, v). (k, parameter_value v)) params)"
  have ok: "store_ok ?h" and h3: "?h3 = create_host parent name ?ps ?h" and global: "dc_global c1 = dc_global c2"
    using s(1,7) by (auto simp: conf_ok_def)
  note post = create_host_post[OF ok s(5) h3]
  have blocks: "x \<in> set (host_blocks c1) \<longleftrightarrow> x = ?b \<or> x \<in> set (host_blocks c2)" for x
    using create_host_blocks[OF ok s(5) h3 s(6)] by (simp add: host_blocks_def global)
  have old: "x < ?b" if "x \<in> set (host_blocks c2)" for x
    using that by (auto simp: host_blocks_def get_blocks_iff[OF ok] of_type_def dest: get_block_bound)
  have settings: "block_settings ?h3 x = block_settings ?h x" if "x < ?b" for x
    using post that by (elim conjE) blast
  have new: "block_settings ?h3 ?b = [''host'', name]" using post by (elim conjE)
  have "1 < length (block_settings ?h3 x)" "block_settings ?h3 x ! 1 = name \<longleftrightarrow> x = ?b" if "x \<in> set (host_blocks c1)" for x
    using that blocks[of x] bspec[OF s(4), of x] old[of x] settings[of x] new by auto
  from get_host_unique[of "host_blocks c1" ?h3 ?b name "Some ''global''", OF this(1) _ this(2)]
  have "get_host E hostname (Some ''global'') c1 = Inr (Some (get_parameters_hash ?h3 (Some ''global'') ?b))"
    using blocks[of ?b] by (simp add: get_host_def name)
  moreover have "conf_ok c1" using create_host_conf_ok[OF s(1,5)] by (simp add: s(7))
  moreover note look = create_host_parameters[OF ok s(5) h3, unfolded new_parameters_lookup[OF assms(3,4,5)]]
  have "map_of params k = Some v \<Longrightarrow> k \<noteq> ''fixed-address'' \<and> k \<noteq> ''hardware''" for k v
    using assms(4,5) by (force dest: map_of_SomeD)
  ultimately show ?thesis using s(3) by (intro exI[of _ "get_parameters_hash ?h3 (Some ''global'') ?b"] exI[of _ hardware]) (auto simp: look)
qed

section \<open>The invariant of the configuration\<close>

lemma add_current_ok:
  assumes "conf_ok c" "childless d"
  shows "conf_ok (add_current d c) \<and> (\<forall>j. get_block (dc_store c) j \<noteq> None \<longrightarrow> get_block (dc_store (add_current d c)) j \<noteq> None) \<and>
    get_block (dc_store (add_current d c)) (length (dc_store c)) = (case d of DBlock b \<Rightarrow> Some b | _ \<Rightarrow> None)"
proof -
  have ok: "store_ok (dc_store c)" "get_block (dc_store c) (dc_current c) \<noteq> None" "get_block (dc_store c) (dc_global c) \<noteq> None"
    using assms(1) by (auto simp: conf_ok_def)
  note post = create_in_post[where start = "int (dc_line c)", OF refl ok(1,2) assms(2)]
  have keep: "get_block (dc_store (add_current d c)) j \<noteq> None" if "get_block (dc_store c) j \<noteq> None" for j
    using that post(4)[of j] get_block_bound[of "dc_store c" j] by (auto simp: add_current_def)
  then show ?thesis using keep[OF ok(2)] keep[OF ok(3)] post(5,7) by (simp add: conf_ok_def add_current_def)
qed

lemma set_end_simps [simp]:
  "length (h[i := (h ! i)\<lparr>co_end := e\<rparr>]) = length h"
  "get_block (h[i := (h ! i)\<lparr>co_end := e\<rparr>]) j = get_block h j"
  "get_parent (h[i := (h ! i)\<lparr>co_end := e\<rparr>]) j = get_parent h j"
  by (simp, (cases "i = j"; simp add: get_block_def get_parent_def)+)

lemma set_end_ok: "store_ok (h[i := (h ! i)\<lparr>co_end := e\<rparr>]) = store_ok h"
  by (simp add: store_ok_def edges_def get_components_def)

lemma conf_ok_data [simp]: "conf_ok (c\<lparr>dc_data := d\<rparr>) = conf_ok c" "conf_ok (c\<lparr>dc_line := n\<rparr>) = conf_ok c" "conf_ok (c\<lparr>dc_parsed := f\<rparr>) = conf_ok c"
  by (simp_all add: conf_ok_def)

lemma childless_simps [simp]:
  "childless (DParameter k v)" "childless (DOption k vs)" "childless (DComment t)" "childless DEmptyLine" "childless (new_block t ss)"
  "childless (new_parameter k v)"
  by (simp_all add: childless_def new_block_def new_parameter_def)

lemma parse_token_ok:
  assumes "parse_token tok index c = Inr c1" "conf_ok c"
  shows "conf_ok c1"
proof -
  have semicolon: "conf_ok c1" if "parse_semicolon index c = Inr c1"
    using that assms(2) add_current_ok by (auto simp: parse_semicolon_def Let_def split: list.splits if_splits)
  have lbracket: "conf_ok c1" if l: "parse_lbracket index c = Inr c1"
  proof -
    let ?c = "c\<lparr>dc_data := drop (index + 1) (dc_data c)\<rparr>"
    obtain t ts where c1: "c1 = (add_current (new_block (py_strip t) (t # ts)) ?c)\<lparr>dc_current := length (dc_store c)\<rparr>"
      using l by (auto simp: parse_lbracket_def Let_def split: list.splits)
    have "conf_ok ?c" using assms(2) by simp
    from add_current_ok[OF this, of "new_block (py_strip t) (t # ts)"]
    show ?thesis by (simp add: c1 conf_ok_def) (simp add: new_block_def)
  qed
  have rbracket: "conf_ok c1" if "parse_rbracket index c = Inr c1"
    using that assms(2)
    by (auto simp: parse_rbracket_def Let_def conf_ok_def set_end_ok split: option.splits dest: store_okD(3))
  have "conf_ok c1" if "parse_comment index c = Inr c1"
    using that assms(2) add_current_ok by (auto simp: parse_comment_def)
  then show ?thesis using assms(1) semicolon lbracket rbracket by (auto simp: parse_token_def split: if_splits)
qed

lemma parse_loop_ok: "parse_loop c m = Inr c1 \<Longrightarrow> conf_ok c \<Longrightarrow> conf_ok c1"
proof (induction c m rule: parse_loop.induct)
  case (1 c m)
  have new: "conf_ok c2" if "get_new_data c = Some c2" for c2
    using that "1.prems"(2) by (auto simp: get_new_data_def conf_ok_def split: if_splits)
  have empty: "conf_ok (parse_emptyline c2)" if "conf_ok c2" for c2
    using add_current_ok[OF that] by (simp add: parse_emptyline_def)
  show ?case
  proof (cases "py_strip (dc_data c) = []")
    case True
    show ?thesis
    proof (cases "get_new_data c")
      case (Some c2)
      have "conf_ok (if py_strip (dc_data c2) = [] then parse_emptyline c2 else c2)" using new[OF Some] empty by simp
      moreover have "parse_loop (if py_strip (dc_data c2) = [] then parse_emptyline c2 else c2) m = Inr c1"
        using "1.prems"(1) True Some by (simp add: parse_loop.simps[of c m])
      ultimately show ?thesis using "1.IH"(1)[OF True Some] by blast
    qed (use "1.prems" True in \<open>simp add: parse_loop.simps[of c m]\<close>)
  next
    case False
    show ?thesis
    proof (cases "find_token (dc_data c) m")
      case None
      then show ?thesis
        using "1.prems" False new "1.IH"(2)[OF False None]
        by (cases "get_new_data c") (auto simp: parse_loop.simps[of c m])
    next
      case (Some t)
      then obtain c2 where "parse_token (fst t) (snd t) c = Inr c2" "parse_loop c2 0 = Inr c1"
        using "1.prems"(1) False by (auto simp: parse_loop.simps[of c m] bind_res_Inr_iff)
      then show ?thesis using "1.IH"(3)[OF False Some] "1.prems"(2) parse_token_ok by blast
    qed
  qed
qed

lemma parse_ok:
  assumes "parse lines = Inr c"
  shows "conf_ok c"
proof -
  let ?c = "\<lparr>dc_store = [global_block (length lines)], dc_global = 0, dc_current = 0, dc_lines = lines, dc_line = 0, dc_data = [], dc_parsed = False\<rparr>"
  have "get_components [global_block (length lines)] i = []" "get_parent [global_block (length lines)] i = None" for i
    by (simp_all add: get_components_def get_block_def get_parent_def global_block_def new_block_def split: option.split)
  then have "conf_ok ?c"
    by (simp add: conf_ok_def store_ok_def edges_def) (simp add: get_block_def global_block_def new_block_def)
  moreover obtain c2 where "parse_loop ?c 0 = Inr c2" "c = c2\<lparr>dc_parsed := True\<rparr>"
    using assms by (auto simp: parse_def bind_res_Inr_iff)
  ultimately show ?thesis using parse_loop_ok by fastforce
qed

text \<open>Writing the text and removing components only shorten the lists of components.\<close>

definition shrinks :: "store \<Rightarrow> store \<Rightarrow> bool" where
  "shrinks h1 h \<longleftrightarrow> same_blocks h1 h \<and> (\<forall>i. subseq (get_components h1 i) (get_components h i))"

lemma shrinks_refl [simp]: "shrinks h h"
  by (simp add: shrinks_def)

lemma shrinks_trans: "shrinks h2 h1 \<Longrightarrow> shrinks h1 h \<Longrightarrow> shrinks h2 h"
  unfolding shrinks_def using same_blocks_trans subseq_order.order_trans by blast

lemma shrinks_ok:
  assumes "shrinks h (dc_store c)" "conf_ok c"
  shows "conf_ok (c\<lparr>dc_store := h\<rparr>)"
proof -
  have "same_blocks h (dc_store c)" "\<And>i. subseq (get_components h i) (get_components (dc_store c) i)" "store_ok (dc_store c)"
    using assms by (simp_all add: shrinks_def conf_ok_def)
  then show ?thesis using same_blocks_ok[OF assms(2)] store_ok_shrink by blast
qed

lemma mark_written_shrinks: "shrinks (mark_written i c h) h"
proof -
  have "same_blocks (mark_written i c h) h" unfolding mark_written_def by (rule same_blocks_put) simp_all
  moreover have "subseq (get_components (mark_written i c h) j) (get_components h j)" for j
    by (auto simp: mark_written_def get_components_def subseq_remove1 split: option.split)
  ultimately show ?thesis by (simp add: shrinks_def)
qed

lemma fold_shrinks:
  assumes "\<And>x st. shrinks (snd (f x st)) (snd st)"
  shows "shrinks (snd (fold f xs st)) (snd st)"
proof (induction xs arbitrary: st)
  case (Cons x xs)
  show ?case using shrinks_trans[OF Cons[of "f x st"] assms] by simp
qed simp

lemma as_text_shrinks: "shrinks (snd (as_text k h i)) h"
proof (induction k arbitrary: h i)
  case (Suc k)
  have ref: "shrinks (snd (write_ref (as_text k) j x st)) (snd st)" for j x st
    using Suc[of "snd st" "snd x"]
    by (auto simp: write_ref_def Let_def split: prod.splits intro: shrinks_trans[OF mark_written_shrinks])
  have line: "shrinks (snd (write_line (as_text k) j l st)) (snd st)" for j l st
  proof -
    obtain t g where st: "st = (t, g)" by fastforce
    have "shrinks (snd (fold (write_ref (as_text k) j) xs (t, g))) g" for xs
      using fold_shrinks[of "write_ref (as_text k) j" xs "(t, g)"] ref by simp
    then show ?thesis by (simp add: write_line_def Let_def st split: prod.split) (metis snd_conv)
  qed
  have rest: "shrinks (snd (write_rest (as_text k) x st)) (snd st)" for x st
    using Suc[of "snd st" x] by (auto simp: write_rest_def Let_def split: prod.splits)
  have "shrinks (snd (write_block (as_text k) h i b)) h" for b
  proof -
    let ?start = "if db_type b = ''global'' \<and> get_parent h i = None then [] else get_shifting h i @ py_join '' '' (db_settings b) @ '' {'' @ [CHR 0x0A]"
    define st where "st = fold (write_line (as_text k) i) [max (co_start (h ! i)) 1..co_end (h ! i)] (?start, h)"
    have "shrinks (snd st) h" using fold_shrinks[of "write_line (as_text k) i" _ "(?start, h)"] line by (simp add: st_def)
    moreover have "shrinks (snd (fold (write_rest (as_text k)) cs st)) (snd st)" for cs by (rule fold_shrinks[OF rest])
    moreover have "snd (write_block (as_text k) h i b) = snd (fold (write_rest (as_text k)) (get_components (snd st) i) st)"
      unfolding write_block_def Let_def st_def[symmetric] by (simp add: split_def)
    ultimately show ?thesis using shrinks_trans by metis
  qed
  then show ?case by (simp split: dhcp_data.split)
qed simp

lemma generate_ok: "generate c = (t, c1) \<Longrightarrow> conf_ok c \<Longrightarrow> conf_ok c1"
  using as_text_shrinks[of "length (dc_store c)" "dc_store c" "dc_global c"] shrinks_ok
  by (auto simp: generate_def Let_def split: prod.splits)

lemma remove_loop_shrinks: "remove_loop k pos i h = Inr h1 \<Longrightarrow> store_ok h \<Longrightarrow> store_ok h1 \<and> shrinks h1 h"
proof (induction k arbitrary: pos h)
  case (Suc k)
  show ?case
  proof (cases "pos < length (get_components h i)")
    case True
    then obtain h2 where h2: "remove_component i (get_components h i ! pos) h = Inr h2" "remove_loop k (Suc pos) i h2 = Inr h1"
      using Suc.prems(1) by (auto simp: Let_def bind_res_Inr_iff)
    from remove_component_post[OF h2(1) Suc.prems(2)] have "store_ok h2" "shrinks h2 h" by (auto simp: shrinks_def)
    then show ?thesis using Suc.IH[OF h2(2)] shrinks_trans by blast
  qed (use Suc.prems in \<open>simp add: Let_def\<close>)
qed simp

lemma modify_check_blocks: "fold_res (modify_check name ps b) xs bs = Inr found \<Longrightarrow> set found \<subseteq> insert b (set bs)"
  by (induction xs arbitrary: bs) (fastforce simp: modify_check_def bind_res_Inr_iff split: prod.splits if_splits)+

lemma modify_find_blocks: "fold_res (modify_find h name ps) xs bs = Inr found \<Longrightarrow> set found \<subseteq> set bs \<union> set xs"
proof (induction xs arbitrary: bs)
  case (Cons x xs)
  then obtain bs1 where s: "modify_find h name ps x bs = Inr bs1" "fold_res (modify_find h name ps) xs bs1 = Inr found"
    by (auto simp: bind_res_Inr_iff)
  have "set bs1 \<subseteq> insert x (set bs)"
    using s(1) modify_check_blocks[of name ps x _ bs bs1] by (auto simp: modify_find_def bind_res_Inr_iff split: if_splits)
  then show ?case using Cons.IH[OF s(2)] by auto
qed simp

lemma modify_host_ok:
  assumes "modify_host E hostname ps c = Inr c1" "conf_ok c"
  shows "conf_ok c1"
proof -
  have ok: "store_ok (dc_store c)" using assms(2) by (simp add: conf_ok_def)
  obtain name found where f: "fold_res (modify_find (dc_store c) name ps) (host_blocks c) [] = Inr found"
    "(case found of
         [b] \<Rightarrow>
           bind_res (of_option (get_parent (dc_store c) b) AssertionError) (\<lambda>p.
           bind_res (remove_components b (dc_store c)) (\<lambda>h.
             Inr (c\<lparr>dc_store := fold (\<lambda>(k, v). create_in b (-1) (new_parameter k v))
               (drop_inherited (get_parameters_hash h (Some ''global'') p) (map (\<lambda>(k, v). (k, parameter_value v)) ps)) h\<rparr>)))
       | _ \<Rightarrow> Inl (ValueError ''Host found several times'')) = Inr c1"
    using assms(1) unfolding modify_host_def Let_def bind_res_Inr_iff by blast
  obtain b where b: "found = [b]" using f(2) by (cases found rule: remdups_adj.cases) auto
  obtain p h1 rest where s: "remove_components b (dc_store c) = Inr h1"
    "c1 = c\<lparr>dc_store := fold (\<lambda>(k, v). create_in b (-1) (new_parameter k v)) rest h1\<rparr>"
    using f(2) unfolding b by (auto simp: bind_res_Inr_iff)
  have h1: "store_ok h1" "shrinks h1 (dc_store c)" using s(1) remove_loop_shrinks[OF _ ok] by (auto simp: remove_components_def)
  have "b \<in> set (host_blocks c)" using modify_find_blocks[OF f(1)] by (simp add: b)
  then have "get_block h1 b \<noteq> None"
    using h1(2) by (simp add: host_blocks_def get_blocks_iff[OF ok] of_type_def shrinks_def same_blocks_def del: not_None_eq)
  note post = create_params[OF h1(1) this refl, of rest]
  have "get_block (fold (\<lambda>(k, v). create_in b (-1) (new_parameter k v)) rest h1) j \<noteq> None" if "get_block h1 j \<noteq> None" for j
    using post that get_block_bound[of h1 j] by auto
  then show ?thesis using post shrinks_ok[OF h1(2) assms(2)] by (simp add: s(2) conf_ok_def)
qed

text \<open>The configurations that parsing, changing and writing lead to.\<close>

inductive conf_reachable :: "dhcpd_env \<Rightarrow> dhcpd_conf \<Rightarrow> bool" for E where
  parsed: "parse lines = Inr c \<Longrightarrow> conf_reachable E c"
| added: "conf_reachable E c \<Longrightarrow> add_host E hostname hw ip fixed params c = Inr c1 \<Longrightarrow> conf_reachable E c1"
| modified: "conf_reachable E c \<Longrightarrow> modify_host E hostname params c = Inr c1 \<Longrightarrow> conf_reachable E c1"
| deleted: "conf_reachable E c \<Longrightarrow> delete_host E hostname c = Inr c1 \<Longrightarrow> conf_reachable E c1"
| written: "conf_reachable E c \<Longrightarrow> generate c = (t, c1) \<Longrightarrow> conf_reachable E c1"

lemma add_host_ok:
  assumes "add_host E hostname hw ip fixed params c = Inr c1" "conf_ok c"
  shows "conf_ok c1"
proof (rule add_host_cases[OF assms(1)])
  fix name ex c2 address subnet parent hardware ps
  assume s: "(if ex then delete_host E name c else Inr c) = Inr c2"
    "find_subnet E (dc_store c2) address (get_blocks (dc_store c2) (Some ''subnet'') True (dc_global c2)) (dc_global c2) = Inr subnet"
    "parent = (case best_group (dc_store c2) (map (\<lambda>(k, v). (k, parameter_value v)) params) (get_blocks (dc_store c2) (Some ''group'') False subnet) of
       None \<Rightarrow> subnet | Some g \<Rightarrow> g)"
    "c1 = c2\<lparr>dc_store := create_host parent name
       ([(''fixed-address'', VText (de_force_string_lower E fixed)), (''hardware'', VText (''ethernet '' @ hardware))] @
        drop_inherited (get_parameters_hash (dc_store c2) (Some ''global'') parent) (map (\<lambda>(k, v). (k, parameter_value v)) params)) (dc_store c2)\<rparr>"
  have "conf_ok c2"
  proof (cases ex)
    case True
    then have d: "delete_host E name c = Inr c2" using s(1) by simp
    then obtain n where "de_force_hostname E name = Inr n" by (auto simp: delete_host_def bind_res_Inr_iff)
    then show ?thesis using delete_host_post[OF assms(2) d] by blast
  qed (use s(1) assms(2) in simp)
  then show ?thesis using parent_reachable[OF _ s(2,3)] create_host_conf_ok s(4) by blast
qed

lemma delete_host_ok: "delete_host E hostname c = Inr c1 \<Longrightarrow> conf_ok c \<Longrightarrow> conf_ok c1"
  using delete_host_post[of c E hostname c1] by (cases "de_force_hostname E hostname") (simp_all add: delete_host_def)

lemma reachable_conf_ok: "conf_reachable E c \<Longrightarrow> conf_ok c"
  by (induction rule: conf_reachable.induct) (blast intro: parse_ok add_host_ok modify_host_ok delete_host_ok generate_ok)+

section \<open>Properties\<close>

definition sample_dhcpd_env :: dhcpd_env where
  "sample_dhcpd_env =
     \<lparr>de_force_hostname = (\<lambda>x. if x = ''PC1'' \<or> x = ''pc1'' then Inr ''pc1'' else Inl (ValueError ''Bad hostname'')),
      de_force_hardware_address = Inr, de_force_ip_address = Inr, de_force_string_lower = py_lower, de_in_network = (\<lambda>a n. False)\<rparr>"

definition empty_conf :: dhcpd_conf where
  "empty_conf = \<lparr>dc_store = [global_block 0], dc_global = 0, dc_current = 0, dc_lines = [], dc_line = 0, dc_data = [], dc_parsed = True\<rparr>"

lemma parse_empty: "parse [] = Inr empty_conf"
  by (simp add: parse_def parse_loop.simps get_new_data_def empty_conf_def)

lemma empty_conf_blocks: "get_blocks [global_block 0] t r 0 = []"
  by (subst get_blocks.simps) (simp add: get_components_def get_block_def global_block_def new_block_def)

text \<open>C32. Adding a host can be read back: after a successful \<open>add_host\<close> on any configuration that parsing
  and changing lead to, \<open>get_host\<close> finds the host, with the fixed address, the hardware address and every
  parameter that was given, whether it is written into the block of the host or left to a parent. The
  conversion of host names is a function of opsicommon: it is idempotent and gives lower case names.\<close>

theorem add_host_get_host:
  assumes "conf_reachable E c" "add_host E hostname hw ip fixed params c = Inr c1" "distinct (map fst params)"
    and "''fixed-address'' \<notin> fst ` set params" "''hardware'' \<notin> fst ` set params"
    and "\<forall>x y. de_force_hostname E x = Inr y \<longrightarrow> de_force_hostname E y = Inr y \<and> py_lower y = y"
  shows "\<exists>d hardware. get_host E hostname (Some ''global'') c1 = Inr (Some d) \<and> de_force_hardware_address E hw = Inr hardware \<and>
    map_of d ''fixed-address'' = Some (parameter_value (VText (de_force_string_lower E fixed))) \<and>
    map_of d ''hardware'' = Some (parameter_value (VText (''ethernet '' @ hardware))) \<and>
    (\<forall>k v. map_of params k = Some v \<longrightarrow> map_of d k = Some (parameter_value v))"
  using add_host_spec[OF reachable_conf_ok[OF assms(1)] assms(2-6)] by blast

theorem add_host_get_host_witness:
  "\<exists>c1 d. add_host sample_dhcpd_env ''PC1'' ''00:11'' ''10.0.0.7'' ''10.0.0.7'' [(''next-server'', VText ''on'')] empty_conf = Inr c1 \<and>
    get_host sample_dhcpd_env ''PC1'' (Some ''global'') c1 = Inr (Some d) \<and> map_of d ''next-server'' = Some (VFlag True)"
proof -
  have blocks: "host_blocks empty_conf = []" "get_blocks (dc_store empty_conf) t r (dc_global empty_conf) = []" for t r
    by (simp_all add: host_blocks_def empty_conf_def empty_conf_blocks)
  have "\<exists>c1. add_host sample_dhcpd_env ''PC1'' ''00:11'' ''10.0.0.7'' ''10.0.0.7'' [(''next-server'', VText ''on'')] empty_conf = Inr c1"
    by (simp add: add_host_def blocks find_subnet_def best_group_def Let_def) (simp add: sample_dhcpd_env_def)
  then obtain c1 where c1: "add_host sample_dhcpd_env ''PC1'' ''00:11'' ''10.0.0.7'' ''10.0.0.7'' [(''next-server'', VText ''on'')] empty_conf = Inr c1" ..
  have low: "py_lower ''pc1'' = ''pc1''" by code_simp
  have law: "\<forall>x y. de_force_hostname sample_dhcpd_env x = Inr y \<longrightarrow> de_force_hostname sample_dhcpd_env y = Inr y \<and> py_lower y = y"
    using low by (auto simp: sample_dhcpd_env_def split: if_splits)
  have "conf_reachable sample_dhcpd_env empty_conf" by (rule conf_reachable.parsed[OF parse_empty])
  from add_host_get_host[OF this c1 _ _ _ law]
  obtain d where "get_host sample_dhcpd_env ''PC1'' (Some ''global'') c1 = Inr (Some d)"
    "\<forall>k v. map_of [(''next-server'', VText ''on'')] k = Some v \<longrightarrow> map_of d k = Some (parameter_value v)"
    by auto
  moreover have "parameter_value (VText ''on'') = VFlag True" by code_simp
  ultimately show ?thesis using c1 by (intro exI[of _ c1] exI[of _ d]) simp
qed

text \<open>C33. The component tree stays well formed: in every configuration that parsing a file and then adding,
  modifying, deleting hosts and writing the text in any order lead to, every component of a block
  names that block as its parent and is listed once, no two blocks share a component, references never
  form a cycle, and the global block exists.\<close>

theorem dhcpd_conf_well_formed:
  assumes "conf_reachable E c"
  shows "get_block (dc_store c) (dc_global c) \<noteq> None \<and> distinct (get_components (dc_store c) i) \<and>
    (\<forall>x. x \<in> set (get_components (dc_store c) i) \<longrightarrow> i < x \<and> x < length (dc_store c) \<and> get_parent (dc_store c) x = Some i) \<and>
    (\<forall>j. j \<noteq> i \<longrightarrow> set (get_components (dc_store c) i) \<inter> set (get_components (dc_store c) j) = {}) \<and>
    acyclic {(a, b). b \<in> set (get_components (dc_store c) a)}"
proof -
  have ok: "store_ok (dc_store c)" "get_block (dc_store c) (dc_global c) \<noteq> None"
    using reachable_conf_ok[OF assms] by (auto simp: conf_ok_def)
  have edge: "a < b \<and> b < length (dc_store c) \<and> get_parent (dc_store c) b = Some a" if "b \<in> set (get_components (dc_store c) a)" for a b
    using that store_okD(1)[OF ok(1), of a b] by (simp add: edges_def)
  have "{(a, b). b \<in> set (get_components (dc_store c) a)} \<subseteq> less_than" using edge by auto
  then have "acyclic {(a, b). b \<in> set (get_components (dc_store c) a)}"
    by (rule acyclic_subset[OF wf_acyclic[OF wf_less_than]])
  then show ?thesis using ok edge store_okD(2)[OF ok(1)] by (auto dest: edge)
qed

theorem dhcpd_conf_well_formed_witness:
  "conf_reachable sample_dhcpd_env empty_conf \<and> get_block (dc_store empty_conf) (dc_global empty_conf) \<noteq> None"
  using dhcpd_conf_well_formed[OF conf_reachable.parsed[OF parse_empty]] conf_reachable.parsed[OF parse_empty] by blast

text \<open>Limits of the parser and of the text that is written. A comment behind a statement takes the
  statement with it: the first character is cut off the line and the rest becomes the comment, and what is
  written has the statement behind the comment mark. A block on one line is rejected, since a
  semicolon is taken before the opening bracket. And writing empties the configuration in memory:
  a host that was found before is not found after.\<close>

theorem dhcpd_text_limits:
  "map_sum id (fst \<circ> generate) (parse [''option a b; # comment'' @ [CHR 0x0A]]) = Inr (''#ption a b; # commentoption a b;'' @ [CHR 0x0A]) \<and>
   parse [''host pc1 { fixed-address y; }'' @ [CHR 0x0A]] = Inl AssertionError \<and>
   map_sum id (\<lambda>c. (length (host_blocks c), length (host_blocks (snd (generate c)))))
     (parse [''host pc1 {'' @ [CHR 0x0A], ''fixed-address y;'' @ [CHR 0x0A], ''}'' @ [CHR 0x0A]]) = Inr (1, 0)"
  by (intro conjI; code_simp)

end
