(* ===== verification/Config_State.thy ===== *)
theory Config_State
  imports Session
begin

text \<open>
  Configuration values (\<open>opsiconfd/backend/rpc/obj_config.py\<close>, \<open>opsiconfd/backend/rpc/obj_config_state.py\<close>): the
  values a configuration can have, the value that is in force for a host, and the depot a client belongs to. The
  database is a record of tables in the order in which it returns rows; a filter with an empty list does not
  restrict anything, and \<open>cb_match\<close> is the comparison of a filter value with a column. The caller may see all rows.
\<close>

section \<open>Possible and default values\<close>

record config =
  cf_id :: string
  cf_possible_values :: "string list option"
  cf_default_values :: "string list option"

type_synonym config_value = "string \<times> string \<times> bool"

definition or_empty :: "'a list option \<Rightarrow> 'a list" where
  "or_empty x = (case x of None \<Rightarrow> [] | Some xs \<Rightarrow> xs)"

text \<open>The rows of \<open>CONFIG_VALUE\<close> after a configuration is written; \<open>rowcount\<close> is what the database reports for the row
  of the configuration itself.\<close>

definition config_insert_object :: "nat \<Rightarrow> config \<Rightarrow> config_value list \<Rightarrow> config_value list" where
  "config_insert_object rowcount cf rows =
     (let rows = filter (\<lambda>(i, _, _). i \<noteq> cf_id cf) rows
      in if 0 < rowcount then
           rows @ map (\<lambda>v. (cf_id cf, v, v \<in> set (or_empty (cf_default_values cf)))) (or_empty (cf_possible_values cf))
         else rows)"

definition config_get :: "config_value list \<Rightarrow> string \<Rightarrow> string list \<times> string list" where
  "config_get rows cid =
     (let mine = filter (\<lambda>(i, _, _). i = cid) rows
      in (map (\<lambda>(_, v, _). v) mine, map (\<lambda>(_, v, _). v) (filter (\<lambda>(_, _, d). d) mine)))"

section \<open>The tables\<close>

record config_state =
  cs_config_id :: string
  cs_object_id :: string
  cs_values :: "string list"

record depot_product_state =
  po_depot_id :: string
  po_product_id :: string
  po_product_version :: string
  po_package_version :: string

record config_db =
  cb_hosts :: "(string \<times> host_type) list"
  cb_configs :: "(string \<times> string list) list"
  cb_states :: "config_state list"
  cb_products :: "depot_product_state list"
  cb_match :: "string \<Rightarrow> string \<Rightarrow> bool"

definition selected :: "config_db \<Rightarrow> string list \<Rightarrow> string \<Rightarrow> bool" where
  "selected db ids x = (ids = [] \<or> list_ex (\<lambda>p. cb_match db p x) ids)"

definition config_getObjects :: "config_db \<Rightarrow> string list \<Rightarrow> (string \<times> string list) list" where
  "config_getObjects db ids = filter (\<lambda>(i, _). selected db ids i) (cb_configs db)"

text \<open>The type of a depot server includes the config server.\<close>

definition host_getIdents :: "config_db \<Rightarrow> host_type option \<Rightarrow> string list \<Rightarrow> string list" where
  "host_getIdents db t ids =
     map fst (filter (\<lambda>(i, u). selected db ids i \<and>
       (case t of None \<Rightarrow> True | Some t \<Rightarrow> u = t \<or> t = OpsiDepotserver \<and> u = OpsiConfigserver)) (cb_hosts db))"

definition configState_getObjects :: "config_db \<Rightarrow> string list \<Rightarrow> string list \<Rightarrow> config_state list" where
  "configState_getObjects db config_ids object_ids =
     filter (\<lambda>s. selected db config_ids (cs_config_id s) \<and> selected db object_ids (cs_object_id s)) (cb_states db)"

definition productOnDepot_getObjects :: "config_db \<Rightarrow> string list \<Rightarrow> depot_product_state list" where
  "productOnDepot_getObjects db ids = filter (\<lambda>p. selected db ids (po_product_id p)) (cb_products db)"

section \<open>The values in force\<close>

abbreviation depot_config :: string where "depot_config \<equiv> ''clientconfig.depot.id''"

type_synonym 'v dict2 = "(string \<times> (string \<times> 'v) list) list"

definition inner_dict :: "'v dict2 \<Rightarrow> string \<Rightarrow> (string \<times> 'v) list" where
  "inner_dict d k = (case map_of d k of None \<Rightarrow> [] | Some e \<Rightarrow> e)"

definition set_inner :: "string \<Rightarrow> string \<Rightarrow> 'v \<Rightarrow> 'v dict2 \<Rightarrow> 'v dict2" where
  "set_inner k j v d = dict_set k (dict_set j v (inner_dict d k)) d"

text \<open>\<open>ctd.getValues()[0]\<close> raises for a state without values.\<close>

definition client_to_depot :: "config_db \<Rightarrow> string list \<Rightarrow> (string \<times> string) list result" where
  "client_to_depot db object_ids =
     fold_res (\<lambda>s d. case cs_values s of [] \<Rightarrow> Inl IndexError | v # _ \<Rightarrow> Inr (dict_set (cs_object_id s) v d))
       (configState_getObjects db [depot_config] object_ids) []"

definition state_values :: "config_state list \<Rightarrow> string list dict2 \<Rightarrow> string list dict2" where
  "state_values states d = fold (\<lambda>s. set_inner (cs_object_id s) (cs_config_id s) (cs_values s)) states d"

definition depot_defaults :: "string \<Rightarrow> (string \<times> string) list \<Rightarrow> string list dict2 \<Rightarrow> string \<Rightarrow> string list dict2 \<Rightarrow> string list dict2" where
  "depot_defaults configserver_id c2d depot_values h res =
     (let depot_id = (case map_of c2d h of None \<Rightarrow> [] | Some d \<Rightarrow> d)
      in if depot_id \<noteq> [] \<and> dict_has depot_values depot_id then
           fold (\<lambda>(cid, v). set_inner h cid v) (inner_dict depot_values depot_id) res
         else if depot_id = [] \<and> dict_has depot_values configserver_id then
           fold (\<lambda>(cid, v). set_inner h cid v) (inner_dict depot_values configserver_id) res
         else res)"

definition configState_getValues ::
  "(string list \<Rightarrow> string list result) \<Rightarrow> string \<Rightarrow> config_db \<Rightarrow> string list \<Rightarrow> string list \<Rightarrow> bool \<Rightarrow> string list dict2 result" where
  "configState_getValues force_object_ids configserver_id db config_ids object_ids with_defaults =
     bind_res (force_object_ids object_ids) (\<lambda>object_ids.
     bind_res
       (if \<not> with_defaults then Inr []
        else
          let defaults = config_getObjects db config_ids;
              hosts = host_getIdents db None object_ids;
              res = fold (\<lambda>h. dict_set h (fold (\<lambda>(i, v). dict_set i v) defaults [])) hosts []
          in bind_res (client_to_depot db object_ids) (\<lambda>c2d.
               let depot_ids = remdups (map snd c2d) @ [configserver_id];
                   depot_values = state_values (configState_getObjects db config_ids depot_ids) []
               in Inr (fold (depot_defaults configserver_id c2d depot_values) hosts res)))
       (\<lambda>res. Inr (state_values (configState_getObjects db config_ids object_ids) res)))"

section \<open>The depot of a client\<close>

record depot_entry =
  de_depot_id :: string
  de_client_id :: string
  de_alternatives :: "string list"

text \<open>\<open>configs["clientconfig.depot.id"][0]\<close>, where a missing or empty value counts as none.\<close>

definition configured_depot :: "(string \<times> string list) list \<Rightarrow> string option" where
  "configured_depot configs =
     (case map_of configs depot_config of
        None \<Rightarrow> None
      | Some [] \<Rightarrow> None
      | Some (d # _) \<Rightarrow> if d = [] then None else Some d)"

definition assign_client :: "string list \<Rightarrow> string \<times> (string \<times> string list) list \<Rightarrow> string list \<times> depot_entry list \<Rightarrow> (string list \<times> depot_entry list) result" where
  "assign_client depot_ids = (\<lambda>(client_id, configs) (client_ids, entries).
     case configured_depot configs of
       None \<Rightarrow> Inr (client_ids, entries)
     | Some d \<Rightarrow>
         bind_res (list_remove client_id client_ids) (\<lambda>client_ids.
           Inr (client_ids, if d \<notin> set depot_ids then entries
             else entries @ [\<lparr>de_depot_id = d, de_client_id = client_id, de_alternatives = []\<rparr>])))"

definition products_by_depot :: "depot_product_state list \<Rightarrow> depot_product_state dict2" where
  "products_by_depot pods = fold (\<lambda>p. set_inner (po_depot_id p) (po_product_id p) p) pods []"

definition product_string :: "(string \<times> depot_product_state) list \<Rightarrow> string" where
  "product_string d =
     concat (map (\<lambda>i. case map_of d i of None \<Rightarrow> [] | Some p \<Rightarrow> ''|'' @ i @ '';'' @ po_product_version p @ '';'' @ po_package_version p)
       (sort (dict_keys d)))"

definition product_hashes :: "depot_product_state list \<Rightarrow> (string \<times> string) list" where
  "product_hashes pods = map (\<lambda>(depot, d). (depot, product_string d)) (products_by_depot pods)"

definition alternative_depots :: "(string \<times> string) list \<Rightarrow> string \<Rightarrow> string list" where
  "alternative_depots p_hash used =
     (let p = (case map_of p_hash used of None \<Rightarrow> [] | Some s \<Rightarrow> s)
      in map fst (filter (\<lambda>(depot, ps). depot \<noteq> used \<and> p = ps) p_hash))"

record config_env =
  ce_force_object_ids :: "string list \<Rightarrow> string list result"
  ce_force_host_ids :: "string list \<Rightarrow> string list result"
  ce_force_product_ids :: "string list \<Rightarrow> string list result"
  ce_configserver :: string

definition configState_getClientToDepotserver ::
  "config_env \<Rightarrow> config_db \<Rightarrow> string list \<Rightarrow> string list \<Rightarrow> bool \<Rightarrow> string list \<Rightarrow> depot_entry list result" where
  "configState_getClientToDepotserver E db depot_ids client_ids master_only product_ids =
     bind_res (ce_force_host_ids E depot_ids) (\<lambda>depot_ids.
     bind_res (ce_force_product_ids E product_ids) (\<lambda>product_ids.
     bind_res (case host_getIdents db (Some OpsiConfigserver) [] of [] \<Rightarrow> Inl IndexError | c # _ \<Rightarrow> Inr c) (\<lambda>config_server_id.
     let depot_ids = host_getIdents db (Some OpsiDepotserver) depot_ids
     in if depot_ids = [] then Inr []
        else
          bind_res (ce_force_host_ids E client_ids) (\<lambda>client_ids.
          let client_ids = host_getIdents db (Some OpsiClient) client_ids
          in if client_ids = [] then Inr []
             else
               bind_res (configState_getValues (ce_force_object_ids E) (ce_configserver E) db [depot_config] client_ids True) (\<lambda>values.
               bind_res (fold_res (assign_client depot_ids) values (client_ids, [])) (\<lambda>(client_ids, entries).
               let entries = (if client_ids \<noteq> [] \<and> config_server_id \<in> set depot_ids
                     then entries @ map (\<lambda>c. \<lparr>de_depot_id = config_server_id, de_client_id = c, de_alternatives = []\<rparr>) client_ids else entries)
               in if master_only then Inr entries
                  else
                    let p_hash = product_hashes (productOnDepot_getObjects db product_ids)
                    in Inr (map (\<lambda>e. e\<lparr>de_alternatives := alternative_depots p_hash (de_depot_id e)\<rparr>) entries)))))))"

text \<open>\<open>_get_responsible_depot_id\<close> of \<open>opsiconfd/backend/rpc/main.py\<close>: an IndexError, wherever it comes from, means none.\<close>

definition get_responsible_depot_id :: "config_env \<Rightarrow> config_db \<Rightarrow> string \<Rightarrow> string option result" where
  "get_responsible_depot_id E db client_id =
     (case configState_getClientToDepotserver E db [] [client_id] True [] of
        Inr (e # _) \<Rightarrow> Inr (Some (de_depot_id e))
      | Inr [] \<Rightarrow> Inr None
      | Inl err \<Rightarrow> if (case err of IndexError \<Rightarrow> True | KeyError _ \<Rightarrow> True | _ \<Rightarrow> False) then Inr None else Inl err)"

section \<open>Nested dictionaries\<close>

lemma inner_set_inner [simp]: "inner_dict (set_inner k j v d) h = (if h = k then dict_set j v (inner_dict d k) else inner_dict d h)"
  by (simp add: inner_dict_def set_inner_def)

lemma has_set_inner [simp]: "dict_has (set_inner k j v d) h \<longleftrightarrow> h = k \<or> dict_has d h"
  by (simp add: dict_has_iff set_inner_def)

text \<open>Storing a whole dictionary under one key.\<close>

lemma inner_fold_set:
  assumes "dict_wf e"
  shows "map_of (inner_dict (fold (\<lambda>(j, v). set_inner k j v) e d) h) c =
    (if h = k then (case map_of e c of Some v \<Rightarrow> Some v | None \<Rightarrow> map_of (inner_dict d h) c) else map_of (inner_dict d h) c)"
proof -
  have "map_of (inner_dict (fold (\<lambda>(j, v). set_inner k j v) e d) h) c =
      (if h = k then (case map_of (rev e) c of Some v \<Rightarrow> Some v | None \<Rightarrow> map_of (inner_dict d h) c) else map_of (inner_dict d h) c)"
    by (induction e arbitrary: d) (auto simp: map_add_def split: option.splits prod.splits)
  then show ?thesis using assms by (simp add: map_of_rev_distinct dict_wf_def)
qed

definition state_map :: "config_state list \<Rightarrow> ((string \<times> string) \<times> string list) list" where
  "state_map states = map (\<lambda>s. ((cs_object_id s, cs_config_id s), cs_values s)) states"

lemma state_map_simps [simp]:
  "state_map [] = []" "state_map (s # ss) = ((cs_object_id s, cs_config_id s), cs_values s) # state_map ss"
  by (simp_all add: state_map_def)

lemma map_of_state_map_filter:
  "map_of (state_map (filter (\<lambda>s. P (cs_object_id s) (cs_config_id s)) ss)) (h, c) = (if P h c then map_of (state_map ss) (h, c) else None)"
  by (induction ss) auto

lemma distinct_state_map_filter: "distinct (map fst (state_map ss)) \<Longrightarrow> distinct (map fst (state_map (filter P ss)))"
  unfolding state_map_def by (induction ss) (auto simp: image_iff)

lemma state_values_lookup:
  assumes "distinct (map fst (state_map ss))"
  shows "map_of (inner_dict (state_values ss d) h) c =
    (case map_of (state_map ss) (h, c) of Some v \<Rightarrow> Some v | None \<Rightarrow> map_of (inner_dict d h) c)"
  using assms
proof (induction ss arbitrary: d)
  case (Cons s ss)
  let ?d = "set_inner (cs_object_id s) (cs_config_id s) (cs_values s) d"
  have fresh: "map_of (state_map ss) (cs_object_id s, cs_config_id s) = None" using Cons.prems by (simp add: map_of_eq_None_iff)
  have "map_of (inner_dict (state_values (s # ss) d) h) c =
      (case map_of (state_map ss) (h, c) of Some v \<Rightarrow> Some v | None \<Rightarrow> map_of (inner_dict ?d h) c)"
    using Cons.IH[of ?d] Cons.prems by (simp add: state_values_def)
  also have "\<dots> = (case map_of (state_map (s # ss)) (h, c) of Some v \<Rightarrow> Some v | None \<Rightarrow> map_of (inner_dict d h) c)"
    using fresh by (cases "(h, c) = (cs_object_id s, cs_config_id s)") (auto split: option.splits)
  finally show ?case .
qed (simp add: state_values_def)

lemma state_values_has: "dict_has (state_values ss d) h \<longleftrightarrow> dict_has d h \<or> h \<in> cs_object_id ` set ss"
  by (induction ss arbitrary: d) (auto simp: state_values_def)

lemma state_values_wf: "(\<And>h. dict_wf (inner_dict d h)) \<Longrightarrow> dict_wf (inner_dict (state_values ss d) h)"
  by (induction ss arbitrary: d) (auto simp: state_values_def)

section \<open>Specification\<close>

text \<open>An id that the database compares literally.\<close>

definition plain :: "string \<Rightarrow> bool" where
  "plain s = (CHR ''*'' \<notin> set s \<and> \<not> py_startswith s ''<'' \<and> \<not> py_startswith s ''>'')"

text \<open>Primary keys are unique, ids are plain, and plain filter values are compared for equality.\<close>

definition config_db_ok :: "config_db \<Rightarrow> bool" where
  "config_db_ok db \<longleftrightarrow>
     distinct (map fst (cb_hosts db)) \<and> distinct (map fst (cb_configs db)) \<and> distinct (map fst (state_map (cb_states db))) \<and>
     (\<forall>h \<in> fst ` set (cb_hosts db). plain h) \<and>
     (\<forall>s \<in> set (cb_states db). cs_config_id s = depot_config \<longrightarrow> (\<forall>v \<in> set (cs_values s). plain v)) \<and>
     (\<forall>p x. plain p \<longrightarrow> cb_match db p x = (p = x))"

definition own_value :: "config_db \<Rightarrow> string \<Rightarrow> string \<Rightarrow> string list option" where
  "own_value db h c = map_of (state_map (cb_states db)) (h, c)"

text \<open>The depot whose values a host inherits: that of its configuration state, else the config server.\<close>

definition depot_of :: "config_db \<Rightarrow> string \<Rightarrow> string \<Rightarrow> string" where
  "depot_of db configserver_id h =
     (case own_value db h depot_config of Some (d # _) \<Rightarrow> if d = [] then configserver_id else d | _ \<Rightarrow> configserver_id)"

text \<open>The own value, else that of the depot, else the default.\<close>

definition effective_value :: "config_db \<Rightarrow> string \<Rightarrow> string \<Rightarrow> string \<Rightarrow> string list option" where
  "effective_value db configserver_id h c =
     (case own_value db h c of
        Some v \<Rightarrow> Some v
      | None \<Rightarrow>
          (case own_value db (depot_of db configserver_id h) c of
             Some v \<Rightarrow> Some v
           | None \<Rightarrow> map_of (cb_configs db) c))"

lemma selected_plain: "config_db_ok db \<Longrightarrow> plain p \<Longrightarrow> selected db [p] x \<longleftrightarrow> x = p"
  by (auto simp: config_db_ok_def selected_def)

lemma plain_depot_config: "plain depot_config"
  by (simp add: plain_def py_startswith_def)

lemma fold_dict_set_lookup: "distinct (map fst xs) \<Longrightarrow> map_of (fold (\<lambda>(i, v). dict_set i v) xs []) c = map_of xs c"
  using pydict.store_all_lookup[of xs "[]" c] by (simp add: map_of_rev_distinct split: option.splits)

lemma map_of_filter_key: "map_of (filter (\<lambda>(i, _). P i) xs) c = (if P c then map_of xs c else None)"
  by (induction xs) auto

lemma config_getObjects_lookup:
  assumes "config_db_ok db" "selected db config_ids c"
  shows "map_of (fold (\<lambda>(i, v). dict_set i v) (config_getObjects db config_ids) []) c = map_of (cb_configs db) c"
proof -
  have "distinct (map fst (config_getObjects db config_ids))"
    using assms(1) by (simp add: config_getObjects_def config_db_ok_def distinct_map_filter)
  from fold_dict_set_lookup[OF this] show ?thesis
    using assms(2) map_of_filter_key[of "selected db config_ids" "cb_configs db" c] by (simp add: config_getObjects_def)
qed

section \<open>The loops compute the specification\<close>

lemma client_to_depot_fold:
  assumes "fold_res (\<lambda>s d. case cs_values s of [] \<Rightarrow> Inl IndexError | v # _ \<Rightarrow> Inr (dict_set (cs_object_id s) v d)) ss d = Inr e"
    and "distinct (map fst (state_map ss))" "\<forall>s \<in> set ss. cs_config_id s = c"
  shows "map_of e h = (case map_of (state_map ss) (h, c) of Some v \<Rightarrow> Some (hd v) | None \<Rightarrow> map_of d h)"
    and "map_of (state_map ss) (h, c) \<noteq> Some []"
  using assms
proof (induction ss arbitrary: d)
  case (Cons s ss)
  {
    case 1
    then obtain v vs where v: "cs_values s = v # vs" by (cases "cs_values s") auto
    have "map_of (state_map ss) (cs_object_id s, c) = None" using 1 by (auto simp: map_of_eq_None_iff)
    then show ?case using Cons.IH(1)[of "dict_set (cs_object_id s) v d"] 1 v
      by (cases "cs_object_id s = h") (auto split: option.splits)
  next
    case 2
    then obtain v vs where v: "cs_values s = v # vs" by (cases "cs_values s") auto
    then show ?case using Cons.IH(2)[of "dict_set (cs_object_id s) v d"] 2 by auto
  }
qed simp_all

lemma own_value_selected:
  assumes "config_db_ok db"
  shows "distinct (map fst (state_map (configState_getObjects db cids oids)))"
    and "map_of (state_map (configState_getObjects db cids oids)) (h, c) =
      (if selected db cids c \<and> selected db oids h then own_value db h c else None)"
  using assms distinct_state_map_filter[of "cb_states db"]
    map_of_state_map_filter[of "\<lambda>h c. selected db cids c \<and> selected db oids h" "cb_states db" h c]
  by (simp_all add: configState_getObjects_def config_db_ok_def own_value_def)

lemma client_to_depot_lookup:
  assumes "config_db_ok db" "client_to_depot db oids = Inr c2d" "selected db oids h"
  shows "map_of c2d h = map_option hd (own_value db h depot_config)" "own_value db h depot_config \<noteq> Some []"
proof -
  let ?ss = "configState_getObjects db [depot_config] oids"
  have only: "\<forall>s \<in> set ?ss. cs_config_id s = depot_config"
    using selected_plain[OF assms(1) plain_depot_config] by (auto simp: configState_getObjects_def)
  have own: "map_of (state_map ?ss) (h, depot_config) = own_value db h depot_config"
    using own_value_selected(2)[OF assms(1)] selected_plain[OF assms(1) plain_depot_config] assms(3) by simp
  note f = client_to_depot_fold[OF assms(2)[unfolded client_to_depot_def] own_value_selected(1)[OF assms(1)] only, of h]
  show "map_of c2d h = map_option hd (own_value db h depot_config)" using f(1) own by (simp split: option.splits)
  show "own_value db h depot_config \<noteq> Some []" using f(2) own by simp
qed

lemma depot_defaults_inner:
  assumes "\<And>x. dict_wf (inner_dict dv x)"
  shows "map_of (inner_dict (depot_defaults cs c2d dv k res) h) c =
    (if h = k then
       (case map_of (inner_dict dv (let d = (case map_of c2d h of None \<Rightarrow> [] | Some d \<Rightarrow> d) in if d = [] then cs else d)) c of
          Some v \<Rightarrow> Some v
        | None \<Rightarrow> map_of (inner_dict res h) c)
     else map_of (inner_dict res h) c)"
proof -
  have "inner_dict dv x = []" if "\<not> dict_has dv x" for x using that by (simp add: dict_has_iff inner_dict_def)
  then show ?thesis using inner_fold_set[OF assms] by (auto simp: depot_defaults_def Let_def split: option.splits)
qed

lemma fold_depot_defaults:
  assumes "\<And>x. dict_wf (inner_dict dv x)" "distinct hs" "h \<in> set hs"
  shows "map_of (inner_dict (fold (depot_defaults cs c2d dv) hs res) h) c =
    (case map_of (inner_dict dv (let d = (case map_of c2d h of None \<Rightarrow> [] | Some d \<Rightarrow> d) in if d = [] then cs else d)) c of
       Some v \<Rightarrow> Some v
     | None \<Rightarrow> map_of (inner_dict res h) c)"
proof -
  have other: "map_of (inner_dict (fold (depot_defaults cs c2d dv) ks r) h) c = map_of (inner_dict r h) c" if "h \<notin> set ks" for ks r
    using that by (induction ks arbitrary: r) (auto simp: depot_defaults_inner[OF assms(1)])
  obtain as bs where hs: "hs = as @ h # bs" using assms(3) by (meson split_list)
  then have "h \<notin> set as" "h \<notin> set bs" using assms(2) by auto
  then show ?thesis by (simp add: hs other depot_defaults_inner[OF assms(1)] split: option.split)
qed

lemma initial_defaults:
  "h \<in> set hs \<Longrightarrow> inner_dict (fold (\<lambda>h. dict_set h e) hs d) h = e"
proof (induction hs arbitrary: d)
  case (Cons k hs)
  have "inner_dict (fold (\<lambda>h. dict_set h e) hs d) h = e" if "inner_dict d h = e" for d
    using that by (induction hs arbitrary: d) (auto simp: inner_dict_def)
  then show ?case using Cons by (cases "h = k") (auto simp: inner_dict_def)
qed simp

lemma host_getIdents_set:
  "h \<in> set (host_getIdents db t ids) \<longleftrightarrow> (\<exists>u. (h, u) \<in> set (cb_hosts db) \<and> selected db ids h \<and>
     (case t of None \<Rightarrow> True | Some t \<Rightarrow> u = t \<or> t = OpsiDepotserver \<and> u = OpsiConfigserver))"
  by (force simp: host_getIdents_def)

lemma host_getIdents_distinct: "config_db_ok db \<Longrightarrow> distinct (host_getIdents db t ids)"
  by (simp add: host_getIdents_def config_db_ok_def distinct_map_filter)

text \<open>What inherited depot is looked up.\<close>

lemma looked_up_depot:
  assumes "config_db_ok db" "client_to_depot db oids = Inr c2d" "selected db oids h"
  shows "(let d = (case map_of c2d h of None \<Rightarrow> [] | Some d \<Rightarrow> d) in if d = [] then cs else d) = depot_of db cs h"
  using client_to_depot_lookup[OF assms]
  by (cases "own_value db h depot_config"; cases "the (own_value db h depot_config)") (auto simp: depot_of_def)

lemma getValues_effective:
  assumes "config_db_ok db" "plain cs" "force oids0 = Inr oids"
    and "configState_getValues force cs db cids oids0 True = Inr res"
    and "h \<in> fst ` set (cb_hosts db)" "selected db oids h" "selected db cids c"
  shows "map_of (inner_dict res h) c = effective_value db cs h c"
proof -
  let ?hosts = "host_getIdents db None oids"
  obtain c2d where c2d: "client_to_depot db oids = Inr c2d" using assms(3,4)
    by (auto simp: configState_getValues_def bind_res_Inr_iff Let_def)
  let ?ds = "remdups (map snd c2d) @ [cs]"
  let ?dv = "state_values (configState_getObjects db cids ?ds) []"
  let ?init = "fold (\<lambda>h. dict_set h (fold (\<lambda>(i, v). dict_set i v) (config_getObjects db cids) [])) ?hosts []"
  have res: "res = state_values (configState_getObjects db cids oids) (fold (depot_defaults cs c2d ?dv) ?hosts ?init)"
    using assms(3,4) c2d by (simp add: configState_getValues_def Let_def)
  have h: "h \<in> set ?hosts" using assms(5,6) by (auto simp: host_getIdents_set)
  have init: "map_of (inner_dict ?init h) c = map_of (cb_configs db) c"
    unfolding initial_defaults[OF h] by (rule config_getObjects_lookup[OF assms(1,7)])
  have wf: "dict_wf (inner_dict ?dv x)" for x by (rule state_values_wf) (simp add: inner_dict_def)
  let ?D = "depot_of db cs h"
  have "selected db ?ds ?D"
  proof -
    have "?D = cs \<or> (\<exists>v vs. own_value db h depot_config = Some (v # vs) \<and> ?D = v)"
      by (auto simp: depot_of_def split: option.splits list.splits)
    moreover have "plain v \<and> v \<in> set (map snd c2d)" if "own_value db h depot_config = Some (v # vs)" for v vs
    proof -
      have "((h, depot_config), v # vs) \<in> set (state_map (cb_states db))" using that unfolding own_value_def by (rule map_of_SomeD)
      then obtain s where "s \<in> set (cb_states db)" "cs_config_id s = depot_config" "cs_values s = v # vs" by (auto simp: state_map_def)
      then have "plain v" using assms(1) unfolding config_db_ok_def by (metis list.set_intros(1))
      moreover have "map_of c2d h = Some v" using client_to_depot_lookup(1)[OF assms(1) c2d assms(6)] that by simp
      ultimately show ?thesis by (force dest: map_of_SomeD)
    qed
    ultimately have "plain ?D \<and> ?D \<in> set ?ds" using assms(2) by fastforce
    then have "list_ex (\<lambda>p. cb_match db p ?D) ?ds" using assms(1) unfolding config_db_ok_def list_ex_iff by blast
    then show ?thesis by (simp add: selected_def)
  qed
  then have dv: "map_of (inner_dict ?dv ?D) c = own_value db ?D c"
    using state_values_lookup[OF own_value_selected(1)[OF assms(1)], of cids ?ds "[]" ?D c] own_value_selected(2)[OF assms(1), of cids ?ds ?D c] assms(7)
    by (simp add: inner_dict_def split: option.splits)
  have "map_of (inner_dict (fold (depot_defaults cs c2d ?dv) ?hosts ?init) h) c =
      (case own_value db ?D c of Some v \<Rightarrow> Some v | None \<Rightarrow> map_of (cb_configs db) c)"
    unfolding fold_depot_defaults[OF wf host_getIdents_distinct[OF assms(1)] h] looked_up_depot[OF assms(1) c2d assms(6)] dv init by (rule refl)
  moreover have "map_of (state_map (configState_getObjects db cids oids)) (h, c) = own_value db h c"
    using own_value_selected(2)[OF assms(1)] assms(6,7) by simp
  ultimately show ?thesis
    unfolding res state_values_lookup[OF own_value_selected(1)[OF assms(1)]] effective_value_def by (simp split: option.splits)
qed

section \<open>The keys of the result\<close>

lemma set_inner_wf: "dict_wf d \<Longrightarrow> dict_wf (set_inner k j v d)"
  by (simp add: set_inner_def)

lemma state_values_dict_wf: "dict_wf d \<Longrightarrow> dict_wf (state_values ss d)"
  by (induction ss arbitrary: d) (auto simp: state_values_def set_inner_wf)

lemma fold_set_inner_keys:
  "dict_wf d \<Longrightarrow> dict_has d k \<Longrightarrow>
    dict_wf (fold (\<lambda>(j, v). set_inner k j v) e d) \<and> dict_has (fold (\<lambda>(j, v). set_inner k j v) e d) = dict_has d"
proof (induction e arbitrary: d)
  case (Cons x e)
  have "dict_has (set_inner k (fst x) (snd x) d) = dict_has d" using Cons.prems(2) by (auto simp: fun_eq_iff)
  then show ?case using Cons.IH[of "set_inner k (fst x) (snd x) d"] Cons.prems by (simp add: case_prod_beta set_inner_wf)
qed simp

lemma depot_defaults_keys:
  assumes "dict_wf d" "dict_has d k"
  shows "dict_wf (depot_defaults cs c2d dv k d) \<and> dict_has (depot_defaults cs c2d dv k d) = dict_has d"
  using fold_set_inner_keys[OF assms] assms(1) by (simp add: depot_defaults_def Let_def)

lemma fold_depot_defaults_keys:
  "dict_wf d \<Longrightarrow> (\<And>k. k \<in> set hs \<Longrightarrow> dict_has d k) \<Longrightarrow>
    dict_wf (fold (depot_defaults cs c2d dv) hs d) \<and> dict_has (fold (depot_defaults cs c2d dv) hs d) = dict_has d"
  by (induction hs arbitrary: d) (auto simp: depot_defaults_keys)

lemma initial_keys: "dict_wf d \<Longrightarrow> dict_wf (fold (\<lambda>h. dict_set h e) hs d) \<and> (\<forall>x. dict_has (fold (\<lambda>h. dict_set h e) hs d) x \<longleftrightarrow> x \<in> set hs \<or> dict_has d x)"
  by (induction hs arbitrary: d) (auto simp: dict_has_iff)

lemma getValues_keys:
  assumes "force oids0 = Inr oids" "configState_getValues force cs db cids oids0 True = Inr res"
  shows "dict_wf res"
    and "dict_has res x \<longleftrightarrow> x \<in> set (host_getIdents db None oids) \<or> x \<in> cs_object_id ` set (configState_getObjects db cids oids)"
proof -
  let ?hosts = "host_getIdents db None oids"
  let ?init = "fold (\<lambda>h. dict_set h (fold (\<lambda>(i, v). dict_set i v) (config_getObjects db cids) [])) ?hosts []"
  obtain c2d dv where res: "res = state_values (configState_getObjects db cids oids) (fold (depot_defaults cs c2d dv) ?hosts ?init)"
    using assms by (auto simp: configState_getValues_def Let_def bind_res_Inr_iff)
  have init: "dict_wf ?init" "\<And>x. dict_has ?init x \<longleftrightarrow> x \<in> set ?hosts" 
    using initial_keys[OF dict_wf_Nil, of "fold (\<lambda>(i, v). dict_set i v) (config_getObjects db cids) []" ?hosts] by (simp_all add: dict_has_iff)
  have keys: "dict_wf (fold (depot_defaults cs c2d dv) ?hosts ?init)" "dict_has (fold (depot_defaults cs c2d dv) ?hosts ?init) = dict_has ?init"
    using fold_depot_defaults_keys[of ?init ?hosts] init by auto
  show "dict_wf res" unfolding res by (rule state_values_dict_wf[OF keys(1)])
  show "dict_has res x \<longleftrightarrow> x \<in> set ?hosts \<or> x \<in> cs_object_id ` set (configState_getObjects db cids oids)"
    unfolding res state_values_has keys(2) init(2) by simp
qed

lemma getValues_total:
  assumes "force oids0 = Inr oids" "\<forall>s \<in> set (cb_states db). cs_values s \<noteq> []"
  shows "\<exists>res. configState_getValues force cs db cids oids0 d = Inr res"
proof -
  have "\<exists>c2d. client_to_depot db oids = Inr c2d \<and> True"
    unfolding client_to_depot_def
    by (rule fold_res_total) (use assms(2) in \<open>auto simp: configState_getObjects_def split: list.splits\<close>)
  then show ?thesis using assms(1) by (auto simp: configState_getValues_def Let_def)
qed

section \<open>Assigning clients\<close>

definition entry_of :: "string \<times> (string \<times> string list) list \<Rightarrow> depot_entry" where
  "entry_of = (\<lambda>(c, configs). \<lparr>de_depot_id = the (configured_depot configs), de_client_id = c, de_alternatives = []\<rparr>)"

lemma fold_assign_client:
  assumes "distinct (map fst vs)" "set (map fst vs) \<subseteq> set cids" "distinct cids"
  shows "\<exists>rest. fold_res (assign_client D) vs (cids, es) =
      Inr (rest, es @ map entry_of (filter (\<lambda>(c, configs). \<exists>d \<in> set D. configured_depot configs = Some d) vs)) \<and>
    distinct rest \<and> set rest = set cids - fst ` {v \<in> set vs. configured_depot (snd v) \<noteq> None}"
  using assms
proof (induction vs arbitrary: cids es)
  case (Cons v vs)
  obtain c configs where v: "v = (c, configs)" by fastforce
  show ?case
  proof (cases "configured_depot configs")
    case None
    then obtain rest where rest: "fold_res (assign_client D) vs (cids, es) =
        Inr (rest, es @ map entry_of (filter (\<lambda>(c, configs). \<exists>d \<in> set D. configured_depot configs = Some d) vs))"
      "distinct rest" "set rest = set cids - fst ` {v \<in> set vs. configured_depot (snd v) \<noteq> None}"
      using Cons.IH[of cids es] Cons.prems by auto
    have "{x \<in> set (v # vs). configured_depot (snd x) \<noteq> None} = {x \<in> set vs. configured_depot (snd x) \<noteq> None}" using None v by auto
    then show ?thesis using rest None by (intro exI[of _ rest]) (simp add: v assign_client_def)
  next
    case (Some d)
    let ?es = "if d \<notin> set D then es else es @ [\<lparr>de_depot_id = d, de_client_id = c, de_alternatives = []\<rparr>]"
    have c: "c \<in> set cids" "c \<notin> fst ` set vs" using Cons.prems v by auto
    then have "set (map fst vs) \<subseteq> set (remove1 c cids)" "distinct (remove1 c cids)" "distinct (map fst vs)"
      using Cons.prems v by (auto simp: set_remove1_eq)
    then obtain rest where rest: "fold_res (assign_client D) vs (remove1 c cids, ?es) =
        Inr (rest, ?es @ map entry_of (filter (\<lambda>(c, configs). \<exists>d \<in> set D. configured_depot configs = Some d) vs))"
      "distinct rest" "set rest = set (remove1 c cids) - fst ` {v \<in> set vs. configured_depot (snd v) \<noteq> None}"
      using Cons.IH[of "remove1 c cids" ?es] by auto
    have step: "fold_res (assign_client D) (v # vs) (cids, es) = fold_res (assign_client D) vs (remove1 c cids, ?es)"
      using Some c(1) by (simp add: v assign_client_def list_remove_def)
    have "{x \<in> set (v # vs). configured_depot (snd x) \<noteq> None} = insert v {x \<in> set vs. configured_depot (snd x) \<noteq> None}" using Some v by auto
    then have "set rest = set cids - fst ` {x \<in> set (v # vs). configured_depot (snd x) \<noteq> None}"
      using rest(3) Cons.prems(3) v by (auto simp: set_remove1_eq)
    moreover have "?es @ map entry_of (filter (\<lambda>(c, configs). \<exists>d \<in> set D. configured_depot configs = Some d) vs) =
        es @ map entry_of (filter (\<lambda>(c, configs). \<exists>d \<in> set D. configured_depot configs = Some d) (v # vs))"
      using Some by (auto simp: v entry_of_def)
    ultimately show ?thesis using step rest(1,2) by auto
  qed
qed simp

text \<open>The depot of a client: the first value in force, where a missing or empty one means the config server.\<close>

definition client_depot :: "config_db \<Rightarrow> string \<Rightarrow> string \<Rightarrow> string \<Rightarrow> string" where
  "client_depot db cs config_server c =
     (case effective_value db cs c depot_config of Some (d # _) \<Rightarrow> if d = [] then config_server else d | _ \<Rightarrow> config_server)"

definition pairs :: "depot_entry list \<Rightarrow> (string \<times> string) set" where
  "pairs es = (\<lambda>e. (de_client_id e, de_depot_id e)) ` set es"

lemma client_depot_configured:
  assumes "map_of (inner_dict res c) depot_config = effective_value db cs c depot_config"
  shows "client_depot db cs config_server c = (case configured_depot (inner_dict res c) of None \<Rightarrow> config_server | Some d \<Rightarrow> d)"
  using assms by (auto simp: client_depot_def configured_depot_def split: option.splits list.splits)

lemma selected_ids:
  assumes "config_db_ok db" "set ids \<subseteq> fst ` set (cb_hosts db)" "ids \<noteq> []"
  shows "selected db ids x \<longleftrightarrow> x \<in> set ids"
proof -
  have "cb_match db p x = (p = x)" if "p \<in> set ids" for p
  proof -
    have "p \<in> fst ` set (cb_hosts db)" using that assms(2) by (rule subsetD[rotated])
    then have "plain p" using assms(1) unfolding config_db_ok_def by (elim conjE) (rule bspec)
    then show ?thesis using assms(1) unfolding config_db_ok_def by (elim conjE allE[of _ p] allE[of _ x]) simp
  qed
  then show ?thesis using assms(3) by (auto simp: selected_def list_ex_iff)
qed

text \<open>What is computed for the clients of one query.\<close>

lemma assign_values:
  assumes "config_db_ok db" "plain cs" "configState_getValues force cs db [depot_config] clients True = Inr res" "force clients = Inr clients"
    and "set clients \<subseteq> fst ` set (cb_hosts db)" "clients \<noteq> []" "distinct clients"
  shows "\<exists>rest es. fold_res (assign_client D) res (clients, []) = Inr (rest, es) \<and> distinct (map de_client_id es @ rest) \<and>
    pairs es = {(c, d). c \<in> set clients \<and> configured_depot (inner_dict res c) = Some d \<and> d \<in> set D} \<and>
    set rest = {c \<in> set clients. configured_depot (inner_dict res c) = None}"
proof -
  note sel = selected_ids[OF assms(1,5,6)]
  have wf: "dict_wf res" using getValues_keys(1)[OF assms(4,3)] .
  have keys: "dict_has res x \<longleftrightarrow> x \<in> set clients" for x
    using getValues_keys(2)[OF assms(4,3), of x] sel assms(5) by (auto simp: host_getIdents_set configState_getObjects_def)
  then have fst_res: "fst ` set res = set clients" by (auto simp: dict_has_def)
  have inner: "configs = inner_dict res c" if "(c, configs) \<in> set res" for c configs
    using that wf by (simp add: inner_dict_def dict_wf_def)
  have mem: "(c, inner_dict res c) \<in> set res" if "c \<in> set clients" for c
    using that keys[of c] by (auto simp: dict_has_iff inner_dict_def dest: map_of_SomeD)
  let ?es = "map entry_of (filter (\<lambda>(c, configs). \<exists>d \<in> set D. configured_depot configs = Some d) res)"
  obtain rest where rest: "fold_res (assign_client D) res (clients, []) = Inr (rest, ?es)" "distinct rest"
    "set rest = set clients - fst ` {v \<in> set res. configured_depot (snd v) \<noteq> None}"
    using fold_assign_client[of res clients D "[]"] wf fst_res assms(7) by (auto simp: dict_wf_def)
  have ids: "map de_client_id ?es = map fst (filter (\<lambda>(c, configs). \<exists>d \<in> set D. configured_depot configs = Some d) res)"
    by (simp add: entry_of_def case_prod_beta)
  have "distinct (map de_client_id ?es)" unfolding ids using wf by (simp add: dict_wf_def distinct_map_filter)
  moreover have "set rest = {c \<in> set clients. configured_depot (inner_dict res c) = None}"
  proof -
    have "c \<in> fst ` {v \<in> set res. configured_depot (snd v) \<noteq> None} \<longleftrightarrow> configured_depot (inner_dict res c) \<noteq> None" if "c \<in> set clients" for c
    proof
      assume "c \<in> fst ` {v \<in> set res. configured_depot (snd v) \<noteq> None}"
      then obtain configs where "(c, configs) \<in> set res" "configured_depot configs \<noteq> None" by auto
      then show "configured_depot (inner_dict res c) \<noteq> None" using inner by blast
    next
      assume "configured_depot (inner_dict res c) \<noteq> None"
      then have "(c, inner_dict res c) \<in> {v \<in> set res. configured_depot (snd v) \<noteq> None}" using mem[OF that] by simp
      then show "c \<in> fst ` {v \<in> set res. configured_depot (snd v) \<noteq> None}" by (rule rev_image_eqI) simp
    qed
    then show ?thesis unfolding rest(3) by blast
  qed
  moreover have "set (map de_client_id ?es) \<inter> set rest = {}" unfolding ids rest(3) by force
  moreover have "pairs ?es = {(c, d). c \<in> set clients \<and> configured_depot (inner_dict res c) = Some d \<and> d \<in> set D}"
  proof (intro set_eqI iffI)
    fix x
    assume "x \<in> pairs ?es"
    then obtain c configs d where "(c, configs) \<in> set res" "configured_depot configs = Some d" "d \<in> set D" "x = (c, d)"
      by (auto simp: pairs_def entry_of_def)
    then show "x \<in> {(c, d). c \<in> set clients \<and> configured_depot (inner_dict res c) = Some d \<and> d \<in> set D}"
      using inner fst_res by force
  next
    fix x
    assume "x \<in> {(c, d). c \<in> set clients \<and> configured_depot (inner_dict res c) = Some d \<and> d \<in> set D}"
    then obtain c d where x: "x = (c, d)" "c \<in> set clients" "configured_depot (inner_dict res c) = Some d" "d \<in> set D" by auto
    then have "entry_of (c, inner_dict res c) \<in> set ?es" using mem[OF x(2)] by force
    then show "x \<in> pairs ?es" using x by (force simp: pairs_def entry_of_def)
  qed
  ultimately show ?thesis using rest(1,2) by (intro exI[of _ rest] exI[of _ ?es]) auto
qed

lemma with_alternatives:
  "pairs (map (\<lambda>e. e\<lparr>de_alternatives := f e\<rparr>) es) = pairs es" "map de_client_id (map (\<lambda>e. e\<lparr>de_alternatives := f e\<rparr>) es) = map de_client_id es"
  by (simp_all add: pairs_def image_image)

section \<open>Every client has one depot\<close>

lemma clients_assigned:
  assumes "config_db_ok db" "plain (ce_configserver E)" "ce_force_host_ids E depot_ids = Inr dids" "ce_force_product_ids E product_ids = Inr pids"
    and "ce_force_host_ids E client_ids = Inr cids" "\<forall>xs. set xs \<subseteq> fst ` set (cb_hosts db) \<longrightarrow> ce_force_object_ids E xs = Inr xs"
    and "host_getIdents db (Some OpsiConfigserver) [] = config_server # others" "\<forall>s \<in> set (cb_states db). cs_values s \<noteq> []"
  shows "\<exists>entries. configState_getClientToDepotserver E db depot_ids client_ids master_only product_ids = Inr entries \<and>
    distinct (map de_client_id entries) \<and>
    pairs entries = {(c, d). c \<in> set (host_getIdents db (Some OpsiClient) cids) \<and> d = client_depot db (ce_configserver E) config_server c \<and>
      d \<in> set (host_getIdents db (Some OpsiDepotserver) dids)}"
proof -
  let ?D = "host_getIdents db (Some OpsiDepotserver) dids" and ?C = "host_getIdents db (Some OpsiClient) cids" and ?cs = "ce_configserver E"
  show ?thesis
  proof (cases "?D = [] \<or> ?C = []")
    case True
    then have "configState_getClientToDepotserver E db depot_ids client_ids master_only product_ids = Inr []"
      by (auto simp: configState_getClientToDepotserver_def assms(3-5,7) Let_def)
    moreover have "{(c, d). c \<in> set ?C \<and> d = client_depot db ?cs config_server c \<and> d \<in> set ?D} = {}" using True by auto
    ultimately show ?thesis by (simp add: pairs_def)
  next
    case False
    have C: "set ?C \<subseteq> fst ` set (cb_hosts db)" "distinct ?C" using host_getIdents_distinct[OF assms(1)] by (force simp: host_getIdents_set)+
    have fo: "ce_force_object_ids E ?C = Inr ?C" using assms(6) C(1) by blast
    obtain res where res: "configState_getValues (ce_force_object_ids E) ?cs db [depot_config] ?C True = Inr res"
      using getValues_total[where force = "ce_force_object_ids E" and ?oids0.0 = ?C, OF fo assms(8)] by blast
    obtain rest es where run: "fold_res (assign_client ?D) res (?C, []) = Inr (rest, es)" "distinct (map de_client_id es @ rest)"
      "pairs es = {(c, d). c \<in> set ?C \<and> configured_depot (inner_dict res c) = Some d \<and> d \<in> set ?D}"
      "set rest = {c \<in> set ?C. configured_depot (inner_dict res c) = None}"
      using assign_values[OF assms(1,2) res fo C(1) _ C(2), of ?D] False by blast
    have depot: "client_depot db ?cs config_server c = (case configured_depot (inner_dict res c) of None \<Rightarrow> config_server | Some d \<Rightarrow> d)"
      if "c \<in> set ?C" for c
    proof (rule client_depot_configured, rule getValues_effective[OF assms(1,2) fo res])
      show "c \<in> fst ` set (cb_hosts db)" using that C(1) by blast
      show "selected db ?C c" using selected_ids[OF assms(1) C(1)] that False by blast
      show "selected db [depot_config] depot_config" using selected_plain[OF assms(1) plain_depot_config] by simp
    qed
    let ?e = "if rest \<noteq> [] \<and> config_server \<in> set ?D then es @ map (\<lambda>c. \<lparr>de_depot_id = config_server, de_client_id = c, de_alternatives = []\<rparr>) rest else es"
    have ids: "map de_client_id ?e = map de_client_id es @ (if config_server \<in> set ?D then rest else [])" by (simp add: comp_def)
    have d: "distinct (map de_client_id ?e)" unfolding ids using run(2) by simp
    have "pairs ?e = pairs es \<union> (if config_server \<in> set ?D then (\<lambda>c. (c, config_server)) ` set rest else {})"
      by (simp add: pairs_def image_image image_Un)
    also have "\<dots> = {(c, d). c \<in> set ?C \<and> d = client_depot db ?cs config_server c \<and> d \<in> set ?D}"
      unfolding run(3,4) by (auto simp: depot split: option.splits)
    finally have p: "pairs ?e = {(c, d). c \<in> set ?C \<and> d = client_depot db ?cs config_server c \<and> d \<in> set ?D}" .
    let ?alt = "alternative_depots (product_hashes (productOnDepot_getObjects db pids))"
    have out: "configState_getClientToDepotserver E db depot_ids client_ids master_only product_ids =
        Inr (if master_only then ?e else map (\<lambda>e. e\<lparr>de_alternatives := ?alt (de_depot_id e)\<rparr>) ?e)"
      unfolding configState_getClientToDepotserver_def using False by (simp add: assms(3-5,7) Let_def res run(1))
    show ?thesis
    proof (cases master_only)
      case True
      then show ?thesis unfolding out using d p by (intro exI[of _ ?e]) simp
    next
      case False
      let ?f = "\<lambda>e. ?alt (de_depot_id e)"
      have "pairs (map (\<lambda>e. e\<lparr>de_alternatives := ?f e\<rparr>) ?e) = pairs ?e"
        "map de_client_id (map (\<lambda>e. e\<lparr>de_alternatives := ?f e\<rparr>) ?e) = map de_client_id ?e" by (rule with_alternatives)+
      then show ?thesis unfolding out using d p False by (intro exI[of _ "map (\<lambda>e. e\<lparr>de_alternatives := ?f e\<rparr>) ?e"]) presburger
    qed
  qed
qed

text \<open>The depot that is responsible for one client: the first entry for it.\<close>

lemma responsible_depot:
  assumes "config_db_ok db" "plain (ce_configserver E)" "ce_force_host_ids E [] = Inr []" "ce_force_product_ids E [] = Inr []"
    and "ce_force_host_ids E [c] = Inr [c]" "\<forall>xs. set xs \<subseteq> fst ` set (cb_hosts db) \<longrightarrow> ce_force_object_ids E xs = Inr xs"
    and "host_getIdents db (Some OpsiConfigserver) [] = config_server # others" "\<forall>s \<in> set (cb_states db). cs_values s \<noteq> []"
    and "(c, OpsiClient) \<in> set (cb_hosts db)" "client_depot db (ce_configserver E) config_server c \<in> set (host_getIdents db (Some OpsiDepotserver) [])"
  shows "get_responsible_depot_id E db c = Inr (Some (client_depot db (ce_configserver E) config_server c))"
proof -
  obtain entries where e: "configState_getClientToDepotserver E db [] [c] True [] = Inr entries" "distinct (map de_client_id entries)"
    "pairs entries = {(x, d). x \<in> set (host_getIdents db (Some OpsiClient) [c]) \<and> d = client_depot db (ce_configserver E) config_server x \<and>
      d \<in> set (host_getIdents db (Some OpsiDepotserver) [])}"
    using clients_assigned[OF assms(1,2,3,4,5,6,7,8), of True] by blast
  have "x \<in> set (host_getIdents db (Some OpsiClient) [c]) \<longleftrightarrow> x = c" for x
    using selected_ids[of db "[c]" x] assms(1,9) by (force simp: host_getIdents_set)
  then have "pairs entries = {(c, client_depot db (ce_configserver E) config_server c)}" unfolding e(3) using assms(10) by auto
  then have ids: "set (map (\<lambda>e. (de_client_id e, de_depot_id e)) entries) = {(c, client_depot db (ce_configserver E) config_server c)}"
    by (simp add: pairs_def)
  then obtain x xs where x: "entries = x # xs" by (cases entries) auto
  then have "de_depot_id x = client_depot db (ce_configserver E) config_server c" using ids by auto
  then show ?thesis using e(1) x by (simp add: get_responsible_depot_id_def)
qed

section \<open>Writing and reading a configuration\<close>

lemma config_get_append: "config_get (xs @ ys) c = (fst (config_get xs c) @ fst (config_get ys c), snd (config_get xs c) @ snd (config_get ys c))"
  by (simp add: config_get_def)

lemma config_get_other: "c \<noteq> i \<Longrightarrow> config_get (filter (\<lambda>(j, _, _). j \<noteq> i) rows) c = config_get rows c"
  by (induction rows) (auto simp: config_get_def)

lemma config_get_deleted: "config_get (filter (\<lambda>(j, _, _). j \<noteq> i) rows) i = ([], [])"
  by (induction rows) (auto simp: config_get_def)

lemma filter_tagged: "map (\<lambda>(_, v, _). v) (filter (\<lambda>(_, _, d). d) (map (\<lambda>v. (i, v, P v)) vs)) = filter P vs"
  by (induction vs) auto

lemma config_get_inserted:
  "config_get (map (\<lambda>v. (i, v, P v)) vs) c = (if c = i then (vs, filter P vs) else ([], []))"
proof (cases "c = i")
  case True
  have "filter (\<lambda>(j, _, _). j = i) (map (\<lambda>v. (i, v, P v)) vs) = map (\<lambda>v. (i, v, P v)) vs" by (induction vs) auto
  then show ?thesis using True filter_tagged[of i P vs] by (simp add: config_get_def Let_def comp_def)
next
  case False
  then have "filter (\<lambda>(j, _, _). j = c) (map (\<lambda>v. (i, v, P v)) vs) = []" by (induction vs) auto
  then show ?thesis using False by (simp add: config_get_def)
qed

text \<open>An update that leaves the possible values out (\<open>possibleValues = None\<close>) removes all of them.\<close>

lemma update_without_values_loses_them:
  assumes "cf_possible_values cf = None"
  shows "config_get (config_insert_object n cf rows) (cf_id cf) = ([], [])"
  using assms by (simp add: config_insert_object_def Let_def or_empty_def config_get_deleted)

text \<open>One client whose depot configuration is an empty list makes the whole call fail, for all hosts.\<close>

lemma empty_depot_value_fails:
  assumes "force oids0 = Inr oids" "s \<in> set (configState_getObjects db [depot_config] oids)" "cs_values s = []"
  shows "configState_getValues force cs db cids oids0 True = Inl IndexError"
proof -
  have "fold_res (\<lambda>s d. case cs_values s of [] \<Rightarrow> Inl IndexError | v # _ \<Rightarrow> Inr (dict_set (cs_object_id s) v d)) ss d = Inl IndexError"
    if "s \<in> set ss" for ss and d :: "(string \<times> string) list"
    using that assms(3) by (induction ss arbitrary: d) (auto split: list.split)
  then show ?thesis using assms(1,2) by (simp add: configState_getValues_def client_to_depot_def Let_def)
qed

section \<open>Properties\<close>

text \<open>A configuration that is written is read back: its possible values in their order, those of its default values
  that are possible ones, and no trace of what was stored for it before; the values of all other configurations stay
  as they are.\<close>

theorem config_values_roundtrip:
  "config_get (config_insert_object (Suc n) cf rows) c =
     (if c = cf_id cf
      then (or_empty (cf_possible_values cf), filter (\<lambda>v. v \<in> set (or_empty (cf_default_values cf))) (or_empty (cf_possible_values cf)))
      else config_get rows c)"
  by (simp add: config_insert_object_def Let_def config_get_append config_get_inserted config_get_deleted config_get_other)

text \<open>C23. The value of a configuration that a host gets is the one in force: its own value if it has one, else the value of the
  depot it belongs to (the config server if it has no depot), else the default. This holds for every host and configuration
  the query selects.\<close>

theorem values_in_force:
  assumes "config_db_ok db" "plain cs" "force oids0 = Inr oids"
    and "configState_getValues force cs db cids oids0 True = Inr res"
    and "h \<in> fst ` set (cb_hosts db)" "selected db oids h" "selected db cids c"
  shows "map_of (inner_dict res h) c = effective_value db cs h c"
  by (rule getValues_effective[OF assms])

definition sample_db :: config_db where
  "sample_db =
     \<lparr>cb_hosts = [(''cs'', OpsiConfigserver), (''d1'', OpsiDepotserver), (''c1'', OpsiClient), (''c2'', OpsiClient), (''c3'', OpsiClient)],
      cb_configs = [(''x'', [''0'']), (depot_config, [''cs''])],
      cb_states = [\<lparr>cs_config_id = depot_config, cs_object_id = ''c1'', cs_values = [''d1'']\<rparr>, \<lparr>cs_config_id = ''x'', cs_object_id = ''d1'', cs_values = [''1'']\<rparr>,
        \<lparr>cs_config_id = ''x'', cs_object_id = ''c2'', cs_values = [''2'']\<rparr>],
      cb_products = [], cb_match = (=)\<rparr>"

lemma sample_db_ok: "config_db_ok sample_db"
  by (auto simp: config_db_ok_def sample_db_def state_map_def plain_def py_startswith_def)

lemma sample_hosts:
  "host_getIdents sample_db (Some OpsiConfigserver) [] = [''cs'']" "host_getIdents sample_db (Some OpsiDepotserver) [] = [''cs'', ''d1'']"
  "host_getIdents sample_db (Some OpsiClient) [] = [''c1'', ''c2'', ''c3'']"
  by (simp_all add: sample_db_def host_getIdents_def selected_def)

lemma sample_nonempty: "\<forall>s \<in> set (cb_states sample_db). cs_values s \<noteq> []"
  by (simp add: sample_db_def)

theorem values_in_force_witness:
  "\<exists>res. configState_getValues Inr ''cs'' sample_db [] [] True = Inr res \<and>
    map_of (inner_dict res ''c1'') ''x'' = Some [''1''] \<and> map_of (inner_dict res ''c2'') ''x'' = Some [''2''] \<and> map_of (inner_dict res ''c3'') ''x'' = Some [''0'']"
proof -
  obtain res where res: "configState_getValues Inr ''cs'' sample_db [] [] True = Inr res" using getValues_total[OF _ sample_nonempty] by blast
  have "plain ''cs''" by (simp add: plain_def py_startswith_def)
  from values_in_force[OF sample_db_ok this _ res, of "[]" _ "''x''"]
  have v: "map_of (inner_dict res h) ''x'' = effective_value sample_db ''cs'' h ''x''" if "h \<in> {''c1'', ''c2'', ''c3''}" for h
    using that by (auto simp: selected_def sample_db_def)
  have "effective_value sample_db ''cs'' ''c1'' ''x'' = Some [''1'']" "effective_value sample_db ''cs'' ''c2'' ''x'' = Some [''2'']"
    "effective_value sample_db ''cs'' ''c3'' ''x'' = Some [''0'']"
    by (simp_all add: effective_value_def own_value_def depot_of_def sample_db_def state_map_def)
  then show ?thesis using v res by simp
qed

text \<open>C34. Every client belongs to exactly one depot: the mapping of clients to depots is total (as long as no value list is
  empty), lists every requested client at most once, and lists it with its depot exactly if that depot was
  asked for; a client without a configured depot belongs to the config server.\<close>

theorem clients_assigned_once:
  assumes "config_db_ok db" "plain (ce_configserver E)" "ce_force_host_ids E depot_ids = Inr dids" "ce_force_product_ids E product_ids = Inr pids"
    and "ce_force_host_ids E client_ids = Inr cids" "\<forall>xs. set xs \<subseteq> fst ` set (cb_hosts db) \<longrightarrow> ce_force_object_ids E xs = Inr xs"
    and "host_getIdents db (Some OpsiConfigserver) [] = config_server # others" "\<forall>s \<in> set (cb_states db). cs_values s \<noteq> []"
  shows "\<exists>entries. configState_getClientToDepotserver E db depot_ids client_ids master_only product_ids = Inr entries \<and>
    distinct (map de_client_id entries) \<and>
    pairs entries = {(c, d). c \<in> set (host_getIdents db (Some OpsiClient) cids) \<and> d = client_depot db (ce_configserver E) config_server c \<and>
      d \<in> set (host_getIdents db (Some OpsiDepotserver) dids)}"
  by (rule clients_assigned[OF assms])

definition sample_env :: config_env where
  "sample_env = \<lparr>ce_force_object_ids = Inr, ce_force_host_ids = Inr, ce_force_product_ids = Inr, ce_configserver = ''cs''\<rparr>"

theorem clients_assigned_once_witness:
  "\<exists>entries. configState_getClientToDepotserver sample_env sample_db [] [] True [] = Inr entries \<and>
    pairs entries = {(''c1'', ''d1''), (''c2'', ''cs''), (''c3'', ''cs'')}"
proof -
  have plain: "plain (ce_configserver sample_env)" by (simp add: sample_env_def plain_def py_startswith_def)
  obtain entries where e: "configState_getClientToDepotserver sample_env sample_db [] [] True [] = Inr entries"
    "pairs entries = {(c, d). c \<in> {''c1'', ''c2'', ''c3''} \<and> d = client_depot sample_db ''cs'' ''cs'' c \<and> d \<in> {''cs'', ''d1''}}"
    using clients_assigned_once[OF sample_db_ok plain _ _ _ _ sample_hosts(1) sample_nonempty, of "[]" "[]" "[]" "[]" "[]" "[]" True]
    unfolding sample_hosts by (auto simp: sample_env_def)
  have "client_depot sample_db ''cs'' ''cs'' ''c1'' = ''d1''" "client_depot sample_db ''cs'' ''cs'' ''c2'' = ''cs''" "client_depot sample_db ''cs'' ''cs'' ''c3'' = ''cs''"
    by (simp_all add: client_depot_def effective_value_def own_value_def depot_of_def sample_db_def state_map_def)
  then have "pairs entries = {(''c1'', ''d1''), (''c2'', ''cs''), (''c3'', ''cs'')}" unfolding e(2) by auto
  then show ?thesis using e(1) by blast
qed

end
