(* ===== verification/Dhcpd_Control.thy ===== *)
theory Dhcpd_Control
  imports Dhcpd_Conf Config_State
begin

text \<open>
  Keeping the DHCP server configuration up to date (\<open>opsiconfd/backend/rpc/dhcpd_control.py\<close>): what happens when hosts are
  created, changed or deleted, on the config server or forwarded to the responsible depot, and the thread that reloads
  the server. The file is the list of its lines; name resolution is a parameter, and so is the question whether a text
  is an IPv6 address. The lock serialises the sections that read or write the file.
\<close>

section \<open>Configuration and state\<close>

record dhcp_host =
  dh_id :: string
  dh_is_client :: bool
  dh_hardware_address :: string
  dh_ip_address :: string

record control_env =
  kc_dhcpd :: dhcpd_env
  kc_enabled :: bool
  kc_events_enabled :: bool
  kc_on_depot :: bool
  kc_depot_id :: string
  kc_fixed_address_format :: string
  kc_default_parameters :: "(string \<times> dhcp_value) list"
  kc_gethostbyname :: "string \<Rightarrow> string result"
  kc_is_ipv6 :: "string \<Rightarrow> bool"
  kc_force_host_ids :: "string list \<Rightarrow> string list result"
  kc_hosts :: "dhcp_host list"
  kc_config :: config_env
  kc_db :: config_db

record control_state =
  kt_lines :: "string list"
  kt_reload_event :: bool
  kt_sent :: "(string \<times> string \<times> string) list"

text \<open>\<open>file.readlines()\<close>\<close>

function readlines :: "string \<Rightarrow> string list" where
  "readlines s =
     (if s = [] then []
      else
        let a = takeWhile (\<lambda>c. c \<noteq> CHR 0x0A) s; b = dropWhile (\<lambda>c. c \<noteq> CHR 0x0A) s
        in if b = [] then [a] else (a @ [CHR 0x0A]) # readlines (tl b))"
  by pat_completeness auto

termination
proof (relation "measure length", simp)
  fix s a b :: string
  assume "s \<noteq> []" "b = dropWhile (\<lambda>c. c \<noteq> CHR 0x0A) s" "b \<noteq> []"
  then have "length (tl b) < length b" "length b \<le> length s" by (simp_all add: length_dropWhile_le)
  then show "(tl b, s) \<in> measure length" by simp
qed

declare readlines.simps [simp del]

text \<open>\<open>ipaddress.ip_address\<close> for IPv4: four decimal numbers of at most three digits up to 255, without leading zeros.\<close>

definition ipv4_octet :: "string \<Rightarrow> bool" where
  "ipv4_octet s = (s \<noteq> [] \<and> length s \<le> 3 \<and> list_all is_digit s \<and> nat_of_str s \<le> 255 \<and> (length s = 1 \<or> hd s \<noteq> CHR ''0''))"

definition is_ipv4 :: "string \<Rightarrow> bool" where
  "is_ipv4 s = (length (py_split CHR ''.'' s) = 4 \<and> list_all ipv4_octet (py_split CHR ''.'' s))"

section \<open>Updating and deleting a host\<close>

definition trigger_reload :: "(control_state, unit) prog" where
  "trigger_reload = modify_prog (\<lambda>s. s\<lparr>kt_reload_event := True\<rparr>)"

definition host_name :: "string \<Rightarrow> string" where
  "host_name i = takeWhile (\<lambda>c. c \<noteq> CHR ''.'') i"

text \<open>The address: that of the host, else of its name, else of the present configuration.\<close>

definition find_address :: "control_env \<Rightarrow> dhcp_host \<Rightarrow> (string \<times> dhcp_value) list \<Rightarrow> string result" where
  "find_address E h current =
     (if dh_ip_address h \<noteq> [] then Inr (dh_ip_address h)
      else case kc_gethostbyname E (dh_id h) of
        Inr a \<Rightarrow> Inr a
      | Inl _ \<Rightarrow>
          (case map_of current ''fixed-address'' of
             Some v \<Rightarrow> if value_str v = [] \<or> v = VFlag False then Inl (OtherError ''BackendIOError'') else Inr (value_str v)
           | None \<Rightarrow> Inl (OtherError ''BackendIOError'')))"

text \<open>\<open>None\<close>: an IPv6 address, for which nothing is done.\<close>

definition fixed_address_of :: "control_env \<Rightarrow> dhcp_host \<Rightarrow> string \<Rightarrow> string option result" where
  "fixed_address_of E h ip =
     (if kc_fixed_address_format E = ''FQDN'' then Inr (Some (dh_id h))
      else if is_ipv4 ip then Inr (Some ip)
      else if kc_is_ipv6 E ip then Inr None
      else Inl (ValueError ''does not appear to be an IPv4 or IPv6 address''))"

text \<open>The parameters of a client: the defaults, with the address of the depot as \<open>next-server\<close>; errors are only logged.\<close>

definition client_parameters :: "control_env \<Rightarrow> dhcp_host \<Rightarrow> (string \<times> dhcp_value) list" where
  "client_parameters E h =
     (if kc_on_depot E then kc_default_parameters E
      else case get_responsible_depot_id (kc_config E) (kc_db E) (dh_id h) of
        Inr (Some d) \<Rightarrow>
          if d = [] then kc_default_parameters E
          else (case filter (\<lambda>x. dh_id x = d) (kc_hosts E) of
             x # _ \<Rightarrow> if dh_ip_address x \<noteq> [] then dict_set ''next-server'' (VText (dh_ip_address x)) (kc_default_parameters E)
                      else kc_default_parameters E
           | [] \<Rightarrow> kc_default_parameters E)
      | _ \<Rightarrow> kc_default_parameters E)"

definition second_word :: "string \<Rightarrow> string result" where
  "second_word s = (case py_split CHR '' '' s of _ # w # _ \<Rightarrow> Inr w | _ \<Rightarrow> Inl IndexError)"

definition host_unchanged :: "(string \<times> dhcp_value) list \<Rightarrow> dhcp_host \<Rightarrow> string \<Rightarrow> (string \<times> dhcp_value) list \<Rightarrow> bool result" where
  "host_unchanged current h fixed parameters =
     (if current = [] then Inr False
      else
        bind_res (second_word (case map_of current ''hardware'' of Some v \<Rightarrow> value_str v | None \<Rightarrow> '' '')) (\<lambda>w.
        Inr (w = dh_hardware_address h \<and> map_of current ''fixed-address'' = Some (VText fixed) \<and>
          map_of current ''next-server'' = map_of parameters ''next-server'')))"

definition write_conf :: "control_env \<Rightarrow> (dhcpd_conf \<Rightarrow> dhcpd_conf result) \<Rightarrow> control_state \<Rightarrow> control_state" where
  "write_conf E f s =
     (case bind_res (parse (kt_lines s)) f of
        Inl _ \<Rightarrow> s
      | Inr c \<Rightarrow> s\<lparr>kt_lines := readlines (fst (generate c))\<rparr>)"

definition dhcpd_updateHost :: "control_env \<Rightarrow> dhcp_host \<Rightarrow> (control_state, unit) prog" where
  "dhcpd_updateHost E h =
     (if dh_hardware_address h = [] then return_prog ()
      else
        bind_prog (gets_prog kt_lines) (\<lambda>lines.
        bind_prog (lift_prog (parse lines)) (\<lambda>c.
        bind_prog (lift_prog (get_host (kc_dhcpd E) (host_name (dh_id h)) (Some ''global'') c)) (\<lambda>r.
        let current = (case r of None \<Rightarrow> [] | Some ps \<Rightarrow> ps) in
        bind_prog (lift_prog (find_address E h current)) (\<lambda>ip.
        bind_prog (lift_prog (fixed_address_of E h ip)) (\<lambda>fa.
        case fa of
          None \<Rightarrow> return_prog ()
        | Some fixed \<Rightarrow>
            let parameters = client_parameters E h in
            bind_prog (lift_prog (host_unchanged current h fixed parameters)) (\<lambda>same.
            if same then return_prog ()
            else then_prog
              (modify_prog (write_conf E (add_host (kc_dhcpd E) (host_name (dh_id h)) (dh_hardware_address h) ip fixed parameters)))
              trigger_reload)))))))"

text \<open>Deleting: nothing for a host that is not configured; a failure is logged and the reload is triggered nevertheless.\<close>

definition dhcpd_deleteHost :: "control_env \<Rightarrow> string \<Rightarrow> (control_state, unit) prog" where
  "dhcpd_deleteHost E hid = (\<lambda>s.
     case bind_res (parse (kt_lines s)) (\<lambda>c. get_host (kc_dhcpd E) (host_name hid) None c) of
       Inr r \<Rightarrow>
         if r = None \<or> r = Some [] then (Inr (), s)
         else then_prog (modify_prog (write_conf E (delete_host (kc_dhcpd E) (host_name hid)))) trigger_reload s
     | Inl _ \<Rightarrow> trigger_reload s)"

section \<open>Events\<close>

definition execute_rpc_on_depot :: "string \<Rightarrow> string \<Rightarrow> string \<Rightarrow> (control_state, unit) prog" where
  "execute_rpc_on_depot depot m hid = modify_prog (\<lambda>s. s\<lparr>kt_sent := kt_sent s @ [(depot, m, hid)]\<rparr>)"

definition dhcpd_control_hosts_deleted :: "control_env \<Rightarrow> string list \<Rightarrow> (control_state, unit) prog" where
  "dhcpd_control_hosts_deleted E ids =
     (if \<not> kc_enabled E \<or> \<not> kc_events_enabled E then return_prog ()
      else
        bind_prog (lift_prog (kc_force_host_ids E ids)) (\<lambda>ids.
        iter_prog (\<lambda>i.
          then_prog
            (when_prog (kc_on_depot E)
              (iter_prog (\<lambda>d. execute_rpc_on_depot d ''dhcpd_deleteHost'' i)
                (filter (\<lambda>d. d \<noteq> kc_depot_id E) (host_getIdents (kc_db E) (Some OpsiDepotserver) []))))
            (dhcpd_deleteHost E i)) ids))"

text \<open>One host of an update: deleted, forwarded or updated here. The first component collects the hosts to delete.\<close>

definition update_one :: "control_env \<Rightarrow> dhcp_host \<Rightarrow> string list \<Rightarrow> (control_state, string list) prog" where
  "update_one E h gone =
     (if dh_hardware_address h = [] then return_prog (gone @ [dh_id h])
      else
        bind_prog (if kc_on_depot E then lift_prog (get_responsible_depot_id (kc_config E) (kc_db E) (dh_id h)) else return_prog None) (\<lambda>d.
        case d of
          Some depot \<Rightarrow>
            if depot \<noteq> [] \<and> depot \<noteq> kc_depot_id E then then_prog (execute_rpc_on_depot depot ''dhcpd_updateHost'' (dh_id h)) (return_prog gone)
            else then_prog (dhcpd_updateHost E h) (return_prog gone)
        | None \<Rightarrow> then_prog (dhcpd_updateHost E h) (return_prog gone)))"

fun update_all :: "control_env \<Rightarrow> dhcp_host list \<Rightarrow> string list \<Rightarrow> (control_state, string list) prog" where
  "update_all E [] gone = return_prog gone"
| "update_all E (h # hs) gone = bind_prog (update_one E h gone) (update_all E hs)"

definition dhcpd_control_hosts_updated :: "control_env \<Rightarrow> string list \<Rightarrow> (control_state, unit) prog" where
  "dhcpd_control_hosts_updated E ids =
     (if \<not> kc_enabled E \<or> \<not> kc_events_enabled E then return_prog ()
      else
        bind_prog (lift_prog (kc_force_host_ids E ids)) (\<lambda>ids.
        bind_prog (update_all E (filter (\<lambda>h. dh_is_client h \<and> selected (kc_db E) ids (dh_id h)) (kc_hosts E)) []) (\<lambda>gone.
        when_prog (gone \<noteq> []) (dhcpd_control_hosts_deleted E gone))))"

definition dhcpd_control_config_states_updated :: "control_env \<Rightarrow> config_state list \<Rightarrow> (control_state, unit) prog" where
  "dhcpd_control_config_states_updated E states =
     (if \<not> kc_enabled E \<or> \<not> kc_events_enabled E then return_prog ()
      else
        let ids = remdups (map cs_object_id (filter (\<lambda>s. cs_config_id s = depot_config \<and> cs_object_id s \<noteq> []) states))
        in when_prog (ids \<noteq> []) (dhcpd_control_hosts_updated E ids))"

section \<open>The thread that reloads\<close>

datatype command_result = Succeeds | FailsWithStatus | Raises

record reload_thread =
  rt_event :: bool
  rt_reloading :: bool
  rt_alive :: bool

definition is_busy :: "reload_thread \<Rightarrow> bool" where
  "is_busy t = (rt_reloading t \<or> rt_event t)"

datatype reload_event = Trigger | Turn command_result

text \<open>One turn of the loop: with the event set the command runs; only \<open>CalledProcessError\<close> is caught. The result says
  whether the command was run.\<close>

fun reload_step :: "reload_event \<Rightarrow> reload_thread \<Rightarrow> reload_thread \<times> bool" where
  "reload_step Trigger t = (t\<lparr>rt_event := True\<rparr>, False)"
| "reload_step (Turn r) t =
     (if \<not> rt_alive t \<or> \<not> rt_event t then (t, False)
      else if r = Raises then (t\<lparr>rt_reloading := True, rt_event := False, rt_alive := False\<rparr>, True)
      else (t\<lparr>rt_reloading := False, rt_event := False\<rparr>, True))"

fun reload_run :: "reload_event list \<Rightarrow> reload_thread \<Rightarrow> reload_thread \<times> nat" where
  "reload_run [] t = (t, 0)"
| "reload_run (e # es) t = (let (t1, b) = reload_step e t; (t2, n) = reload_run es t1 in (t2, (if b then 1 else 0) + n))"

definition new_reload_thread :: reload_thread where
  "new_reload_thread = \<lparr>rt_event = False, rt_reloading = False, rt_alive = True\<rparr>"

section \<open>Effects\<close>

text \<open>A change of the file is followed by a reload: \<open>I\<close> says so relative to the lines at the start.\<close>

definition change_triggers :: "string list \<Rightarrow> control_state \<Rightarrow> bool" where
  "change_triggers lines s = (kt_lines s \<noteq> lines \<longrightarrow> kt_reload_event s)"

lemma keeps_trigger [keeps_intros]: "keeps (change_triggers lines) (then_prog (modify_prog f) trigger_reload)" "keeps (change_triggers lines) trigger_reload"
  by (simp_all add: keeps_def trigger_reload_def change_triggers_def bind_prog_def)

lemma keeps_rpc [keeps_intros]: "keeps (change_triggers lines) (execute_rpc_on_depot d m i)"
  by (simp add: keeps_def execute_rpc_on_depot_def change_triggers_def)

lemma keeps_updateHost [keeps_intros]: "keeps (change_triggers lines) (dhcpd_updateHost E h)"
  unfolding dhcpd_updateHost_def Let_def by (auto intro!: keeps_intros split: option.split)

lemma keeps_deleteHost [keeps_intros]: "keeps (change_triggers lines) (dhcpd_deleteHost E i)"
proof -
  have "change_triggers lines (snd (then_prog (modify_prog f) trigger_reload s))" "change_triggers lines (snd (trigger_reload s))"
    if "change_triggers lines s" for f s
    using keeps_trigger that unfolding keeps_def by blast+
  then show ?thesis by (auto simp: keeps_def dhcpd_deleteHost_def split: sum.split)
qed

lemma keeps_hosts_deleted [keeps_intros]: "keeps (change_triggers lines) (dhcpd_control_hosts_deleted E ids)"
  unfolding dhcpd_control_hosts_deleted_def by (auto intro!: keeps_intros)

lemma keeps_update_one [keeps_intros]: "keeps (change_triggers lines) (update_one E h gone)"
  unfolding update_one_def by (auto intro!: keeps_intros split: option.split)

lemma keeps_update_all [keeps_intros]: "keeps (change_triggers lines) (update_all E hs gone)"
  by (induction hs arbitrary: gone) (auto intro!: keeps_intros)

lemma keeps_hosts_updated [keeps_intros]: "keeps (change_triggers lines) (dhcpd_control_hosts_updated E ids)"
  unfolding dhcpd_control_hosts_updated_def by (auto intro!: keeps_intros)

lemma keeps_config_states [keeps_intros]: "keeps (change_triggers lines) (dhcpd_control_config_states_updated E states)"
  unfolding dhcpd_control_config_states_updated_def Let_def by (auto intro!: keeps_intros)

text \<open>Nothing happens when the control or the events are disabled.\<close>

lemma control_disabled:
  assumes "\<not> kc_enabled E \<or> \<not> kc_events_enabled E"
  shows "dhcpd_control_hosts_updated E ids s = (Inr (), s)" "dhcpd_control_hosts_deleted E ids s = (Inr (), s)"
    "dhcpd_control_config_states_updated E states s = (Inr (), s)"
  using assms by (auto simp: dhcpd_control_hosts_updated_def dhcpd_control_hosts_deleted_def dhcpd_control_config_states_updated_def)

text \<open>An update for which the configuration has the values already does not touch the file and triggers nothing.\<close>

lemma unchanged_host_not_written:
  assumes "parse (kt_lines s) = Inr c" "get_host (kc_dhcpd E) (host_name (dh_id h)) (Some ''global'') c = Inr (Some current)"
    and "find_address E h current = Inr ip" "fixed_address_of E h ip = Inr (Some fixed)"
    and "host_unchanged current h fixed (client_parameters E h) = Inr True"
  shows "dhcpd_updateHost E h s = (Inr (), s)"
  using assms by (simp add: dhcpd_updateHost_def)

text \<open>Otherwise the host is added to the parsed file; if that fails, the file stays, and the reload is triggered all the same.\<close>

lemma changed_host_written:
  assumes "dh_hardware_address h \<noteq> []" "parse (kt_lines s) = Inr c"
    and "get_host (kc_dhcpd E) (host_name (dh_id h)) (Some ''global'') c = Inr r" "current = (case r of None \<Rightarrow> [] | Some ps \<Rightarrow> ps)"
    and "find_address E h current = Inr ip" "fixed_address_of E h ip = Inr (Some fixed)"
    and "host_unchanged current h fixed (client_parameters E h) = Inr False"
  shows "dhcpd_updateHost E h s = (Inr (), s\<lparr>kt_reload_event := True, kt_lines :=
    (case add_host (kc_dhcpd E) (host_name (dh_id h)) (dh_hardware_address h) ip fixed (client_parameters E h) c of
       Inr c1 \<Rightarrow> readlines (fst (generate c1))
     | Inl _ \<Rightarrow> kt_lines s)\<rparr>)"
  using assms by (simp add: dhcpd_updateHost_def write_conf_def trigger_reload_def Let_def split: sum.split)

text \<open>A client of another depot is not touched here.\<close>

lemma foreign_client_forwarded:
  assumes "kc_on_depot E" "dh_hardware_address h \<noteq> []" "get_responsible_depot_id (kc_config E) (kc_db E) (dh_id h) = Inr (Some d)"
    and "d \<noteq> []" "d \<noteq> kc_depot_id E"
  shows "update_one E h gone s = (Inr gone, s\<lparr>kt_sent := kt_sent s @ [(d, ''dhcpd_updateHost'', dh_id h)]\<rparr>)"
  using assms by (simp add: update_one_def execute_rpc_on_depot_def)

text \<open>The thread: as long as the command does not raise, a turn after a trigger reloads, and nothing is left to do then.\<close>

lemma reload_run_append:
  "reload_run (es @ fs) t = (let (t1, n) = reload_run es t; (t2, m) = reload_run fs t1 in (t2, n + m))"
  by (induction es arbitrary: t) (auto simp: Let_def split: prod.split)

lemma reload_run_alive:
  "rt_alive t \<Longrightarrow> Turn Raises \<notin> set es \<Longrightarrow> rt_alive (fst (reload_run es t))"
proof (induction es arbitrary: t)
  case (Cons e es)
  have "rt_alive (fst (reload_step e t))" using Cons.prems by (cases e) auto
  then show ?case using Cons by (simp add: Let_def case_prod_beta)
qed simp

lemma dead_thread_never_reloads:
  assumes "\<not> rt_alive t" "rt_reloading t"
  shows "snd (reload_run es t) = 0 \<and> is_busy (fst (reload_run es t))"
  using assms
proof (induction es arbitrary: t)
  case (Cons e es)
  have "\<not> rt_alive (fst (reload_step e t)) \<and> rt_reloading (fst (reload_step e t)) \<and> \<not> snd (reload_step e t)" using Cons.prems by (cases e) auto
  then show ?case using Cons.IH by (simp add: Let_def case_prod_beta)
qed (simp add: is_busy_def)

section \<open>Properties\<close>

text \<open>Whatever an event about hosts or their depots does to the configuration file, with or without errors: if the file has
  changed, a reload of the DHCP server is pending.\<close>

theorem changes_are_reloaded:
  "change_triggers (kt_lines s) (snd (dhcpd_control_hosts_updated E ids s)) \<and>
   change_triggers (kt_lines s) (snd (dhcpd_control_hosts_deleted E ids s)) \<and>
   change_triggers (kt_lines s) (snd (dhcpd_control_config_states_updated E states s))"
proof -
  have "change_triggers (kt_lines s) s" by (simp add: change_triggers_def)
  then show ?thesis using keeps_hosts_updated keeps_hosts_deleted keeps_config_states unfolding keeps_def by blast
qed

text \<open>A pending reload is carried out by the next turn of the thread if the command does not raise, whatever happened
  before; once the command has raised anything but an exit status (a timeout, a missing program), no later
  trigger leads to a reload and the thread counts as busy for ever.\<close>

theorem reload_thread_progress:
  "(Turn Raises \<notin> set es \<longrightarrow>
     snd (reload_run (es @ [Trigger, Turn Succeeds]) new_reload_thread) = Suc (snd (reload_run es new_reload_thread)) \<and>
     \<not> is_busy (fst (reload_run (es @ [Trigger, Turn Succeeds]) new_reload_thread))) \<and>
   snd (reload_run ([Trigger, Turn Raises] @ es) new_reload_thread) = 1 \<and> is_busy (fst (reload_run ([Trigger, Turn Raises] @ es) new_reload_thread))"
proof -
  have "rt_alive new_reload_thread" by (simp add: new_reload_thread_def)
  let ?t = "\<lparr>rt_event = False, rt_reloading = True, rt_alive = False\<rparr>"
  have "reload_run ([Trigger, Turn Raises] @ es) new_reload_thread = (fst (reload_run es ?t), 1 + snd (reload_run es ?t))"
    by (simp add: new_reload_thread_def Let_def case_prod_beta)
  moreover have "snd (reload_run es ?t) = 0 \<and> is_busy (fst (reload_run es ?t))" by (rule dead_thread_never_reloads) simp_all
  moreover have "snd (reload_run (es @ [Trigger, Turn Succeeds]) new_reload_thread) = Suc (snd (reload_run es new_reload_thread)) \<and>
      \<not> is_busy (fst (reload_run (es @ [Trigger, Turn Succeeds]) new_reload_thread))" if "Turn Raises \<notin> set es"
    using reload_run_alive[OF \<open>rt_alive new_reload_thread\<close> that] by (simp add: reload_run_append Let_def case_prod_beta is_busy_def)
  ultimately show ?thesis by simp
qed

theorem reload_thread_progress_witness:
  "snd (reload_run ([Trigger, Turn FailsWithStatus] @ [Trigger, Turn Succeeds]) new_reload_thread) = 2"
proof -
  have "snd (reload_run [Trigger, Turn FailsWithStatus] new_reload_thread) = 1" by code_simp
  then show ?thesis using reload_thread_progress[of "[Trigger, Turn FailsWithStatus]"] by simp
qed

end
