(* ===== verification/License.thy ===== *)
theory License
  imports Mysql_Columns
begin

text \<open>
  License management (\<open>opsiconfd/backend/rpc/obj_license_on_client.py\<close>): finding the license pool of a request, choosing a
  license and a key for a client, recording and deleting the use of a license. The tables are lists in the order in
  which the database returns rows. The ids are checked by opsicommon (\<open>le_force_\<dots>\<close>), contain no wildcards and
  are compared for equality; \<open>ld_match\<close> compares a free text filter with a column. Access control entries that apply
  to these methods restrict rows and not attributes.
\<close>

section \<open>The tables\<close>

record software_license =
  sl_id :: string
  sl_max_installations :: int
  sl_bound_to_host :: string

record license_to_pool =
  lp_license :: string
  lp_pool :: string
  lp_key :: string

record license_on_client =
  lo_license :: string
  lo_pool :: string
  lo_client :: string
  lo_key :: string

record audit_software =
  as_name :: string
  as_version :: string
  as_sub_version :: string
  as_language :: string
  as_architecture :: string

record license_db =
  ld_hosts :: "string list"
  ld_pools :: "(string \<times> string list) list"
  ld_licenses :: "software_license list"
  ld_to_pool :: "license_to_pool list"
  ld_on_client :: "license_on_client list"
  ld_audit :: "(string \<times> audit_software) list"
  ld_audit_pool :: "(audit_software \<times> string) list"
  ld_match :: "string \<Rightarrow> string \<Rightarrow> bool"

record license_env =
  le_session :: "opsisession option"
  le_backend :: backend
  le_force_host_id :: "string \<Rightarrow> string result"
  le_force_pool_id :: "string \<Rightarrow> string result"
  le_force_product_id :: "string \<Rightarrow> string result"
  le_choice :: "string list \<Rightarrow> string"

abbreviation LicenseConfigurationError :: py_error where "LicenseConfigurationError \<equiv> OtherError ''LicenseConfigurationError''"
abbreviation LicenseMissingError :: py_error where "LicenseMissingError \<equiv> OtherError ''LicenseMissingError''"

section \<open>Queries under access control\<close>

definition caller_ace :: "license_env \<Rightarrow> string \<Rightarrow> rpcace list result" where
  "caller_ace E m = fst (get_ace (le_session E) m (le_backend E))"

definition may_access_client :: "license_env \<Rightarrow> rpcace list \<Rightarrow> string \<Rightarrow> bool" where
  "may_access_client E aces client = (case get_allowed_client_ids (le_session E) None aces of None \<Rightarrow> True | Some ids \<Rightarrow> client \<in> set ids)"

text \<open>The rows of \<open>LICENSE_ON_CLIENT\<close>, whose clients are in \<open>clientId\<close>, and those of a table without clients, which
  cannot be read with an entry \<open>self\<close>.\<close>

definition licenseOnClient_getObjects :: "license_env \<Rightarrow> license_db \<Rightarrow> (license_on_client \<Rightarrow> bool) \<Rightarrow> license_on_client list result" where
  "licenseOnClient_getObjects E db flt =
     bind_res (caller_ace E ''licenseOnClient_getObjects'') (\<lambda>aces. Inr (filter (\<lambda>r. flt r \<and> may_access_client E aces (lo_client r)) (ld_on_client db)))"

definition no_client_table :: "license_env \<Rightarrow> string \<Rightarrow> 'r list \<Rightarrow> 'r list result" where
  "no_client_table E m rows =
     bind_res (caller_ace E m) (\<lambda>aces. if list_ex (\<lambda>a. acetype a = ACE_self) aces then Inl (RuntimeError ''No client id attribute'') else Inr rows)"

definition licensePool_getIdents :: "license_env \<Rightarrow> license_db \<Rightarrow> (string \<times> string list \<Rightarrow> bool) \<Rightarrow> string list result" where
  "licensePool_getIdents E db flt = no_client_table E ''licensePool_getObjects'' (map fst (filter flt (ld_pools db)))"

definition softwareLicenseToLicensePool_getObjects :: "license_env \<Rightarrow> license_db \<Rightarrow> string \<Rightarrow> license_to_pool list result" where
  "softwareLicenseToLicensePool_getObjects E db pool =
     no_client_table E ''softwareLicenseToLicensePool_getObjects'' (filter (\<lambda>r. lp_pool r = pool) (ld_to_pool db))"

definition softwareLicense_getObjects :: "license_env \<Rightarrow> license_db \<Rightarrow> string list \<Rightarrow> string \<Rightarrow> software_license list result" where
  "softwareLicense_getObjects E db ids bound =
     no_client_table E ''softwareLicense_getObjects'' (filter (\<lambda>l. sl_id l \<in> set ids \<and> sl_bound_to_host l = bound) (ld_licenses db))"

definition auditSoftware_getObjects :: "license_env \<Rightarrow> license_db \<Rightarrow> string \<Rightarrow> audit_software list result" where
  "auditSoftware_getObjects E db windows_software_id =
     no_client_table E ''auditSoftware_getObjects'' (map snd (filter (\<lambda>(i, _). ld_match db windows_software_id i) (ld_audit db)))"

definition auditSoftwareToLicensePool_getObjects :: "license_env \<Rightarrow> license_db \<Rightarrow> audit_software \<Rightarrow> string list result" where
  "auditSoftwareToLicensePool_getObjects E db a =
     no_client_table E ''auditSoftwareToLicensePool_getObjects''
       (map snd (filter (\<lambda>(b, _). ld_match db (as_name a) (as_name b) \<and> ld_match db (as_version a) (as_version b) \<and>
          ld_match db (as_sub_version a) (as_sub_version b) \<and> ld_match db (as_language a) (as_language b) \<and>
          ld_match db (as_architecture a) (as_architecture b)) (ld_audit_pool db)))"

section \<open>The pool of a request\<close>

definition audit_pools :: "license_env \<Rightarrow> license_db \<Rightarrow> string \<Rightarrow> string list result" where
  "audit_pools E db windows_software_id =
     bind_res (auditSoftware_getObjects E db windows_software_id) (\<lambda>audit_softwares.
     fold_res (\<lambda>a ids. bind_res (auditSoftwareToLicensePool_getObjects E db a) (\<lambda>pools.
       Inr (case pools of [] \<Rightarrow> ids | p # _ \<Rightarrow> ids @ [p]))) audit_softwares [])"

definition single_pool :: "string list \<Rightarrow> string result" where
  "single_pool ids = (case ids of [p] \<Rightarrow> Inr p | _ \<Rightarrow> Inl LicenseConfigurationError)"

definition resolve_pool :: "license_env \<Rightarrow> license_db \<Rightarrow> string \<Rightarrow> string \<Rightarrow> string \<Rightarrow> string result" where
  "resolve_pool E db license_pool_id product_id windows_software_id =
     (if license_pool_id \<noteq> [] then le_force_pool_id E license_pool_id
      else if product_id \<noteq> [] then
        bind_res (le_force_product_id E product_id) (\<lambda>product_id.
        bind_res (licensePool_getIdents E db (\<lambda>(_, products). product_id \<in> set products)) single_pool)
      else if windows_software_id \<noteq> [] then bind_res (audit_pools E db windows_software_id) single_pool
      else Inl (ValueError ''You have to specify one of: licensePoolId, productId, windowsSoftwareId''))"

section \<open>Choosing a license and a key\<close>

text \<open>The loop over the licenses that are not bound to a host; \<open>maxInstallations = 0\<close> is infinite. The empty id: none found.\<close>

fun find_available :: "license_env \<Rightarrow> license_db \<Rightarrow> software_license list \<Rightarrow> string result" where
  "find_available E db [] = Inr []"
| "find_available E db (l # ls) =
     (if sl_max_installations l = 0 then Inr (sl_id l)
      else bind_res (licenseOnClient_getObjects E db (\<lambda>r. lo_license r = sl_id l)) (\<lambda>rows.
        if int (length rows) < sl_max_installations l then Inr (sl_id l) else find_available E db ls))"

text \<open>The key of the license itself, or the keys seen before it is found.\<close>

fun find_key :: "string \<Rightarrow> string list \<Rightarrow> license_to_pool list \<Rightarrow> string \<times> string list" where
  "find_key license keys [] = ([], keys)"
| "find_key license keys (r # rs) =
     (if lp_key r \<noteq> [] then
        (if lp_license r = license then (lp_key r, keys) else find_key license (keys @ [lp_key r]) rs)
      else find_key license keys rs)"

definition get_usable_software_license :: "license_env \<Rightarrow> license_db \<Rightarrow> string \<Rightarrow> string \<Rightarrow> (string \<times> string) result" where
  "get_usable_software_license E db client_id license_pool_id =
     bind_res (licenseOnClient_getObjects E db (\<lambda>r. lo_pool r = license_pool_id \<and> lo_client r = client_id)) (\<lambda>rows.
     case rows of
       r # _ \<Rightarrow> Inr (lo_license r, lo_key r)
     | [] \<Rightarrow>
         bind_res (softwareLicenseToLicensePool_getObjects E db license_pool_id) (\<lambda>to_pool.
         if to_pool = [] then Inl LicenseMissingError
         else
           let ids = map lp_license to_pool
           in bind_res (softwareLicense_getObjects E db ids client_id) (\<lambda>bound.
              bind_res
                (case bound of
                   l # _ \<Rightarrow> Inr (sl_id l)
                 | [] \<Rightarrow> bind_res (softwareLicense_getObjects E db ids []) (find_available E db)) (\<lambda>license.
              if license = [] then Inl LicenseMissingError
              else
                let (key, keys) = find_key license [] to_pool
                in Inr (license, if key = [] \<and> keys \<noteq> [] then le_choice E keys else key)))))"

section \<open>Recording the use of a license\<close>

text \<open>\<open>INSERT \<dots> ON DUPLICATE KEY UPDATE\<close> with the foreign keys of the table.\<close>

definition same_key :: "license_on_client \<Rightarrow> license_on_client \<Rightarrow> bool" where
  "same_key r q = (lo_license r = lo_license q \<and> lo_pool r = lo_pool q \<and> lo_client r = lo_client q)"

definition licenseOnClient_createObjects :: "license_env \<Rightarrow> license_on_client \<Rightarrow> (license_db, unit) prog" where
  "licenseOnClient_createObjects E r =
     bind_prog (lift_prog (caller_ace E ''licenseOnClient_createObjects'')) (\<lambda>aces db.
       if get_allowed_client_ids (le_session E) None aces \<noteq> Some [] \<and> \<not> may_access_client E aces (lo_client r)
       then (Inl (BackendPermissionDeniedError ''No permission''), db)
       else if lo_client r \<notin> set (ld_hosts db) \<or> (lo_license r, lo_pool r) \<notin> (\<lambda>t. (lp_license t, lp_pool t)) ` set (ld_to_pool db)
       then (Inl (OtherError ''IntegrityError''), db)
       else if list_ex (same_key r) (ld_on_client db)
       then (Inr (), db\<lparr>ld_on_client := map (\<lambda>q. if same_key r q then r else q) (ld_on_client db)\<rparr>)
       else (Inr (), db\<lparr>ld_on_client := ld_on_client db @ [r]\<rparr>))"

text \<open>What a request decides before it writes: the row the client already has, or a new one.\<close>

datatype decision = Assigned license_on_client | Assign license_on_client

definition decide_license :: "license_env \<Rightarrow> license_db \<Rightarrow> string \<Rightarrow> string \<Rightarrow> string \<Rightarrow> string \<Rightarrow> decision result" where
  "decide_license E db client_id license_pool_id product_id windows_software_id =
     bind_res (le_force_host_id E client_id) (\<lambda>client_id.
     bind_res (resolve_pool E db license_pool_id product_id windows_software_id) (\<lambda>pool.
     bind_res (licensePool_getIdents E db (\<lambda>(i, _). i = pool)) (\<lambda>pools.
     if pools = [] then Inl LicenseConfigurationError
     else
       bind_res (licenseOnClient_getObjects E db (\<lambda>r. lo_pool r = pool \<and> lo_client r = client_id)) (\<lambda>rows.
       case rows of
         r # _ \<Rightarrow> Inr (Assigned r)
       | [] \<Rightarrow>
           bind_res (get_usable_software_license E db client_id pool) (\<lambda>(license, key).
           Inr (Assign \<lparr>lo_license = license, lo_pool = pool, lo_client = client_id, lo_key = key\<rparr>))))))"

definition licenseOnClient_getOrCreateObject ::
  "license_env \<Rightarrow> string \<Rightarrow> string \<Rightarrow> string \<Rightarrow> string \<Rightarrow> (license_db, license_on_client) prog" where
  "licenseOnClient_getOrCreateObject E client_id license_pool_id product_id windows_software_id = (\<lambda>db.
     bind_prog (lift_prog (decide_license E db client_id license_pool_id product_id windows_software_id)) (\<lambda>d.
       case d of
         Assigned r \<Rightarrow> return_prog r
       | Assign r \<Rightarrow> then_prog (licenseOnClient_createObjects E r) (return_prog r)) db)"

text \<open>Deleting by ids, where \<open>None\<close> does not restrict. The statement has one condition for each row: the license, the
  pool and the client, but the loop that writes it stops before the client if the caller has no access to that.\<close>

definition deletes :: "license_env \<Rightarrow> rpcace list \<Rightarrow> license_on_client \<Rightarrow> license_on_client \<Rightarrow> bool" where
  "deletes E aces r q =
     (lo_license r = lo_license q \<and> lo_pool r = lo_pool q \<and> (may_access_client E aces (lo_client r) \<longrightarrow> lo_client r = lo_client q))"

definition licenseOnClient_deleteObjects :: "license_env \<Rightarrow> license_on_client list \<Rightarrow> (license_db, unit) prog" where
  "licenseOnClient_deleteObjects E objs =
     when_prog (objs \<noteq> [])
       (bind_prog (lift_prog (caller_ace E ''licenseOnClient_deleteObjects'')) (\<lambda>aces.
          modify_prog (\<lambda>db. db\<lparr>ld_on_client := filter (\<lambda>q. \<not> list_ex (\<lambda>r. deletes E aces r q) objs) (ld_on_client db)\<rparr>)))"

definition licenseOnClient_delete :: "license_env \<Rightarrow> string option \<Rightarrow> string \<Rightarrow> string \<Rightarrow> (license_db, unit) prog" where
  "licenseOnClient_delete E license pool client = (\<lambda>db.
     bind_prog (lift_prog (licenseOnClient_getObjects E db
         (\<lambda>r. (license = None \<or> license = Some (lo_license r)) \<and> lo_pool r = pool \<and> lo_client r = client)))
       (\<lambda>idents. when_prog (idents \<noteq> []) (licenseOnClient_deleteObjects E idents)) db)"

definition getLicensePoolId :: "license_env \<Rightarrow> license_db \<Rightarrow> string \<Rightarrow> string \<Rightarrow> string result" where
  "getLicensePoolId E db product_id windows_software_id =
     (if product_id = [] \<and> windows_software_id = [] then Inl (OtherError ''BackendBadValueError'')
      else if product_id \<noteq> [] then
        bind_res (le_force_product_id E product_id) (\<lambda>product_id.
        bind_res (licensePool_getIdents E db (\<lambda>(_, products). product_id \<in> set products)) single_pool)
      else bind_res (audit_pools E db windows_software_id) single_pool)"

definition deleteSoftwareLicenseUsage ::
  "license_env \<Rightarrow> string \<Rightarrow> string \<Rightarrow> string \<Rightarrow> string \<Rightarrow> string \<Rightarrow> (license_db, unit) prog" where
  "deleteSoftwareLicenseUsage E hid license_id license_pool_id product_id windows_software_id = (\<lambda>db.
     bind_prog (lift_prog (if license_pool_id \<noteq> [] then Inr license_pool_id else getLicensePoolId E db product_id windows_software_id)) (\<lambda>pool.
       licenseOnClient_delete E (if license_id = [] then None else Some license_id) pool hid) db)"

section \<open>Invariant\<close>

text \<open>How often a license is in use, and the tables in order: keys are unique, every use refers to a license in its pool,
  a license that is bound to a host is used by that host only, and no other license is used more often than
  its number of installations, unless that is 0.\<close>

definition uses :: "license_db \<Rightarrow> string \<Rightarrow> nat" where
  "uses db i = length (filter (\<lambda>r. lo_license r = i) (ld_on_client db))"

definition tables_ok :: "license_db \<Rightarrow> bool" where
  "tables_ok db \<longleftrightarrow> distinct (map sl_id (ld_licenses db)) \<and> (\<forall>l \<in> set (ld_licenses db). sl_id l \<noteq> []) \<and> [] \<notin> set (ld_hosts db)"

definition use_ok :: "license_db \<Rightarrow> software_license \<Rightarrow> string \<Rightarrow> bool" where
  "use_ok db l client =
     (if sl_bound_to_host l \<noteq> [] then client = sl_bound_to_host l
      else sl_max_installations l = 0 \<or> int (uses db (sl_id l)) \<le> sl_max_installations l)"

definition within_limits :: "license_db \<Rightarrow> bool" where
  "within_limits db \<longleftrightarrow>
     (\<forall>r \<in> set (ld_on_client db). \<forall>l \<in> set (ld_licenses db). sl_id l = lo_license r \<longrightarrow> use_ok db l (lo_client r))"

definition sees_all :: "license_env \<Rightarrow> bool" where
  "sees_all E \<longleftrightarrow> (\<exists>aces. caller_ace E ''licenseOnClient_getObjects'' = Inr aces \<and> get_allowed_client_ids (le_session E) None aces = None)"

lemma getObjects_all: "sees_all E \<Longrightarrow> licenseOnClient_getObjects E db flt = Inr (filter flt (ld_on_client db))"
  by (auto simp: sees_all_def licenseOnClient_getObjects_def may_access_client_def)

lemma no_client_table_Inr: "no_client_table E m rows = Inr rows' \<Longrightarrow> rows' = rows"
  by (auto simp: no_client_table_def bind_res_Inr_iff split: if_splits)

lemma find_available_Inr:
  assumes "sees_all E" "find_available E db ls = Inr i" "i \<noteq> []"
  shows "\<exists>l \<in> set ls. sl_id l = i \<and> (sl_max_installations l = 0 \<or> int (uses db i) < sl_max_installations l)"
  using assms(2,3) by (induction ls) (auto simp: getObjects_all[OF assms(1)] uses_def split: if_splits)

text \<open>What a chosen license satisfies: it is in the pool, and it is bound to the client or free.\<close>

definition usable :: "license_db \<Rightarrow> string \<Rightarrow> string \<Rightarrow> software_license \<Rightarrow> bool" where
  "usable db client pool l \<longleftrightarrow>
     l \<in> set (ld_licenses db) \<and> (\<exists>t \<in> set (ld_to_pool db). lp_license t = sl_id l \<and> lp_pool t = pool) \<and>
     (sl_bound_to_host l = client \<or>
      sl_bound_to_host l = [] \<and> (sl_max_installations l = 0 \<or> int (uses db (sl_id l)) < sl_max_installations l))"

lemma chosen_usable:
  assumes "sees_all E" "get_usable_software_license E db client pool = Inr (i, key)"
    and "\<forall>r \<in> set (ld_on_client db). \<not> (lo_pool r = pool \<and> lo_client r = client)"
  shows "\<exists>l. usable db client pool l \<and> sl_id l = i" "i \<noteq> []"
proof -
  have none: "filter (\<lambda>r. lo_pool r = pool \<and> lo_client r = client) (ld_on_client db) = []" using assms(3) by (simp add: filter_empty_conv)
  let ?tp = "filter (\<lambda>r. lp_pool r = pool) (ld_to_pool db)"
  obtain to_pool bound where tp: "softwareLicenseToLicensePool_getObjects E db pool = Inr to_pool"
    and b: "softwareLicense_getObjects E db (map lp_license to_pool) client = Inr bound"
    and i: "(case bound of l # _ \<Rightarrow> Inr (sl_id l)
      | [] \<Rightarrow> bind_res (softwareLicense_getObjects E db (map lp_license to_pool) []) (find_available E db)) = Inr i" and "i \<noteq> []"
    using assms(2) none by (auto simp: get_usable_software_license_def getObjects_all[OF assms(1)] bind_res_Inr_iff Let_def case_prod_beta split: if_splits)
  have to_pool: "to_pool = ?tp" by (rule no_client_table_Inr[OF tp[unfolded softwareLicenseToLicensePool_getObjects_def]])
  have bound: "bound = filter (\<lambda>l. sl_id l \<in> set (map lp_license to_pool) \<and> sl_bound_to_host l = client) (ld_licenses db)"
    by (rule no_client_table_Inr[OF b[unfolded softwareLicense_getObjects_def]])
  show "i \<noteq> []" by fact
  show "\<exists>l. usable db client pool l \<and> sl_id l = i"
  proof (cases bound)
    case (Cons l ls)
    then have "l \<in> set bound" by simp
    then have "usable db client pool l" unfolding bound to_pool by (auto simp: usable_def)
    then show ?thesis using i Cons by auto
  next
    case Nil
    then obtain free where f: "softwareLicense_getObjects E db (map lp_license to_pool) [] = Inr free" "find_available E db free = Inr i"
      using i by (auto simp: bind_res_Inr_iff)
    have free: "free = filter (\<lambda>l. sl_id l \<in> set (map lp_license to_pool) \<and> sl_bound_to_host l = []) (ld_licenses db)"
      by (rule no_client_table_Inr[OF f(1)[unfolded softwareLicense_getObjects_def]])
    obtain l where "l \<in> set free" "sl_id l = i" "sl_max_installations l = 0 \<or> int (uses db i) < sl_max_installations l"
      using find_available_Inr[OF assms(1) f(2) \<open>i \<noteq> []\<close>] by blast
    then have "usable db client pool l" unfolding free to_pool by (auto simp: usable_def)
    then show ?thesis using \<open>sl_id l = i\<close> by blast
  qed
qed

text \<open>A decision to assign: the client has no license of the pool yet.\<close>

lemma decide_Assign:
  assumes "sees_all E" "decide_license E db c p pr w = Inr (Assign r)"
  shows "\<forall>q \<in> set (ld_on_client db). \<not> (lo_pool q = lo_pool r \<and> lo_client q = lo_client r)"
    and "\<exists>l. usable db (lo_client r) (lo_pool r) l \<and> sl_id l = lo_license r"
proof -
  obtain client pool license key where c: "filter (\<lambda>q. lo_pool q = pool \<and> lo_client q = client) (ld_on_client db) = []"
    "get_usable_software_license E db client pool = Inr (license, key)"
    "r = \<lparr>lo_license = license, lo_pool = pool, lo_client = client, lo_key = key\<rparr>"
    using assms by (auto simp: decide_license_def getObjects_all bind_res_Inr_iff split: if_splits list.splits)
  then have none: "\<forall>q \<in> set (ld_on_client db). \<not> (lo_pool q = pool \<and> lo_client q = client)" by (simp add: filter_empty_conv)
  then show "\<forall>q \<in> set (ld_on_client db). \<not> (lo_pool q = lo_pool r \<and> lo_client q = lo_client r)" using c(3) by simp
  show "\<exists>l. usable db (lo_client r) (lo_pool r) l \<and> sl_id l = lo_license r"
    using chosen_usable(1)[OF assms(1) c(2) none] c(3) by simp
qed

lemma decide_Assigned:
  assumes "sees_all E" "decide_license E db c p pr w = Inr (Assigned r)"
  shows "r \<in> set (ld_on_client db)"
proof -
  have "(\<exists>flt rs. filter flt (ld_on_client db) = r # rs) \<or> False"
    using assms by (auto simp: decide_license_def getObjects_all bind_res_Inr_iff split: if_splits list.splits)
  then show ?thesis by (metis filter_is_subset list.set_intros(1) subsetD)
qed

text \<open>The write: nothing changes, or the row is appended (or replaced).\<close>

lemma createObjects_outcome:
  assumes "licenseOnClient_createObjects E r db = (res, db')"
  shows "(res \<noteq> Inr () \<and> db' = db) \<or>
    res = Inr () \<and> lo_client r \<in> set (ld_hosts db) \<and> db' = db\<lparr>ld_on_client := (if list_ex (same_key r) (ld_on_client db) then map (\<lambda>q. if same_key r q then r else q) (ld_on_client db)
      else ld_on_client db @ [r])\<rparr>"
  using assms by (auto simp: licenseOnClient_createObjects_def bind_prog_def split: sum.splits if_splits)

lemma getOrCreate_outcome:
  assumes "sees_all E" "licenseOnClient_getOrCreateObject E c p pr w db = (res, db')"
  shows "db' = db \<and> (\<forall>r. res = Inr r \<longrightarrow> decide_license E db c p pr w = Inr (Assigned r)) \<or>
    (\<exists>r. res = Inr r \<and> decide_license E db c p pr w = Inr (Assign r) \<and> lo_client r \<in> set (ld_hosts db) \<and>
       db' = db\<lparr>ld_on_client := ld_on_client db @ [r]\<rparr>)"
proof (cases "decide_license E db c p pr w")
  case (Inl e)
  then show ?thesis using assms(2) by (auto simp: licenseOnClient_getOrCreateObject_def)
next
  case (Inr d)
  show ?thesis
  proof (cases d)
    case (Assigned r)
    then show ?thesis using assms(2) Inr by (auto simp: licenseOnClient_getOrCreateObject_def)
  next
    case (Assign r)
    obtain w1 db1 where w1: "licenseOnClient_createObjects E r db = (w1, db1)" by (cases "licenseOnClient_createObjects E r db")
    have "\<not> list_ex (same_key r) (ld_on_client db)"
      using decide_Assign(1)[OF assms(1) Inr[unfolded Assign]] by (auto simp: list_ex_iff same_key_def)
    then show ?thesis using assms(2) Inr Assign createObjects_outcome[OF w1] w1
      by (auto simp: licenseOnClient_getOrCreateObject_def bind_prog_def split: sum.splits)
  qed
qed

lemma uses_append: "uses (db\<lparr>ld_on_client := ld_on_client db @ [r]\<rparr>) i = uses db i + (if lo_license r = i then 1 else 0)"
  by (simp add: uses_def)

lemma assign_within_limits:
  assumes "tables_ok db" "within_limits db" "usable db (lo_client r) (lo_pool r) l" "sl_id l = lo_license r"
    and "lo_client r \<in> set (ld_hosts db)"
  shows "within_limits (db\<lparr>ld_on_client := ld_on_client db @ [r]\<rparr>)"
proof -
  let ?db = "db\<lparr>ld_on_client := ld_on_client db @ [r]\<rparr>"
  have client: "lo_client r \<noteq> []" using assms(1,5) by (auto simp: tables_ok_def)
  have own: "k = l" if "k \<in> set (ld_licenses db)" "sl_id k = lo_license r" for k
    using that assms(1,3,4) by (auto simp: tables_ok_def usable_def distinct_map inj_on_def)
  have step: "use_ok ?db k (lo_client q)"
    if q: "q \<in> set (ld_on_client db @ [r])" and k: "k \<in> set (ld_licenses db)" "sl_id k = lo_license q" for q k
  proof (cases "sl_id k = lo_license r")
    case True
    then have kl: "k = l" using own k(1) by blast
    show ?thesis
    proof (cases "q \<in> set (ld_on_client db)")
      case True
      then have "use_ok db l (lo_client q)"
        using assms(2) k kl unfolding within_limits_def by blast
      then show ?thesis using assms(3,4) kl client by (auto simp: usable_def use_ok_def uses_append)
    next
      case False
      then have "q = r" using q by simp
      then show ?thesis using assms(3,4) kl client by (auto simp: usable_def use_ok_def uses_append)
    qed
  next
    case False
    then have "q \<in> set (ld_on_client db)" using q k(2) by auto
    then have "use_ok db k (lo_client q)"
      using assms(2) k unfolding within_limits_def by blast
    then show ?thesis using False by (simp add: use_ok_def uses_append)
  qed
  show ?thesis unfolding within_limits_def
  proof (intro ballI impI)
    fix q k
    assume "q \<in> set (ld_on_client ?db)" "k \<in> set (ld_licenses ?db)" "sl_id k = lo_license q"
    then show "use_ok ?db k (lo_client q)" using step by simp
  qed
qed

lemma remove_within_limits: "within_limits db \<Longrightarrow> within_limits (db\<lparr>ld_on_client := filter P (ld_on_client db)\<rparr>)"
proof -
  assume a: "within_limits db"
  have "uses (db\<lparr>ld_on_client := filter P (ld_on_client db)\<rparr>) i \<le> uses db i" for i
  proof -
    have "length (filter (\<lambda>r. lo_license r = i) (filter P rs)) \<le> length (filter (\<lambda>r. lo_license r = i) rs)" for rs
      by (induction rs) auto
    then show ?thesis by (simp add: uses_def)
  qed
  then have u: "int (uses (db\<lparr>ld_on_client := filter P (ld_on_client db)\<rparr>) i) \<le> int (uses db i)" for i by simp
  show ?thesis unfolding within_limits_def
  proof (intro ballI impI)
    fix r l
    assume r: "r \<in> set (ld_on_client (db\<lparr>ld_on_client := filter P (ld_on_client db)\<rparr>))"
      and l: "l \<in> set (ld_licenses (db\<lparr>ld_on_client := filter P (ld_on_client db)\<rparr>))" "sl_id l = lo_license r"
    have "r \<in> set (ld_on_client db)" "l \<in> set (ld_licenses db)" using r l(1) by simp_all
    then have "use_ok db l (lo_client r)"
      using a l(2) unfolding within_limits_def by blast
    then show "use_ok (db\<lparr>ld_on_client := filter P (ld_on_client db)\<rparr>) l (lo_client r)"
      using u[of "sl_id l"] by (auto simp: use_ok_def split: if_splits intro: order_trans)
  qed
qed

section \<open>Requests one after another\<close>

text \<open>\<open>Es\<close> are the callers that ask for licenses; uses are deleted by anybody.\<close>

inductive license_step :: "license_env set \<Rightarrow> license_db \<Rightarrow> license_db \<Rightarrow> bool" for Es where
  get: "E \<in> Es \<Longrightarrow> licenseOnClient_getOrCreateObject E c p pr w db = (res, db') \<Longrightarrow> license_step Es db db'"
| delete: "deleteSoftwareLicenseUsage E h l p pr w db = (res, db') \<Longrightarrow> license_step Es db db'"

lemma delete_outcome:
  assumes "deleteSoftwareLicenseUsage E h l p pr w db = (res, db')"
  shows "\<exists>P. db' = db\<lparr>ld_on_client := filter P (ld_on_client db)\<rparr>"
proof -
  have same: "db = db\<lparr>ld_on_client := filter (\<lambda>_. True) (ld_on_client db)\<rparr>" by simp
  show ?thesis using assms same
    by (auto simp: deleteSoftwareLicenseUsage_def licenseOnClient_delete_def licenseOnClient_deleteObjects_def bind_prog_def
        split: sum.splits if_splits) (metis same)+
qed

lemma license_step_ok:
  assumes "\<forall>E \<in> Es. sees_all E"
  shows "license_step Es db db' \<Longrightarrow> tables_ok db \<and> within_limits db \<Longrightarrow> tables_ok db' \<and> within_limits db'"
proof (induction rule: license_step.induct)
  case (get E c p pr w db res db')
  have all: "sees_all E" using assms get(1) by blast
  from getOrCreate_outcome[OF all get(2)] show ?case
  proof (elim disjE exE conjE)
    fix r assume r: "decide_license E db c p pr w = Inr (Assign r)" "lo_client r \<in> set (ld_hosts db)" "db' = db\<lparr>ld_on_client := ld_on_client db @ [r]\<rparr>"
    obtain l where "usable db (lo_client r) (lo_pool r) l" "sl_id l = lo_license r" using decide_Assign(2)[OF all r(1)] by blast
    then show ?thesis using assign_within_limits get(3) r(2,3) by (auto simp: tables_ok_def)
  qed (use get(3) in simp)
next
  case (delete E h l p pr w db res db')
  then show ?case using delete_outcome[OF delete(1)] remove_within_limits by (auto simp: tables_ok_def)
qed

section \<open>Keys\<close>

lemma find_key_spec:
  assumes "find_key license keys rs = (key, keys')"
  shows "(key = [] \<longleftrightarrow> (\<forall>r \<in> set rs. lp_license r = license \<longrightarrow> lp_key r = [])) \<and>
    (key \<noteq> [] \<longrightarrow> (\<exists>r \<in> set rs. lp_license r = license \<and> lp_key r = key)) \<and>
    set keys' \<subseteq> set keys \<union> {lp_key r |r. r \<in> set rs \<and> lp_key r \<noteq> []}"
  using assms by (induction license keys rs rule: find_key.induct) (auto split: if_splits)

text \<open>The key of a new use comes from the pool: it is the one stored with the license if there is one.\<close>

lemma key_from_pool:
  assumes "sees_all E" "get_usable_software_license E db client pool = Inr (i, key)"
    and "\<forall>r \<in> set (ld_on_client db). \<not> (lo_pool r = pool \<and> lo_client r = client)"
    and "\<forall>ks. ks \<noteq> [] \<longrightarrow> le_choice E ks \<in> set ks"
  shows "key = [] \<or> (\<exists>t \<in> set (ld_to_pool db). lp_pool t = pool \<and> lp_key t = key)"
    and "t \<in> set (ld_to_pool db) \<Longrightarrow> lp_pool t = pool \<Longrightarrow> lp_license t = i \<Longrightarrow> lp_key t \<noteq> [] \<Longrightarrow>
      \<exists>u \<in> set (ld_to_pool db). lp_pool u = pool \<and> lp_license u = i \<and> lp_key u = key"
proof -
  have none: "filter (\<lambda>r. lo_pool r = pool \<and> lo_client r = client) (ld_on_client db) = []" using assms(3) by (simp add: filter_empty_conv)
  obtain to_pool where tp: "softwareLicenseToLicensePool_getObjects E db pool = Inr to_pool"
    and key: "key = (if fst (find_key i [] to_pool) = [] \<and> snd (find_key i [] to_pool) \<noteq> [] then le_choice E (snd (find_key i [] to_pool))
      else fst (find_key i [] to_pool))"
    using assms(2) none by (auto simp: get_usable_software_license_def getObjects_all[OF assms(1)] bind_res_Inr_iff Let_def case_prod_beta split: if_splits)
  obtain k ks where k: "find_key i [] to_pool = (k, ks)" "key = (if k = [] \<and> ks \<noteq> [] then le_choice E ks else k)"
    using key by (cases "find_key i [] to_pool") simp
  have to_pool: "to_pool = filter (\<lambda>r. lp_pool r = pool) (ld_to_pool db)"
    by (rule no_client_table_Inr[OF tp[unfolded softwareLicenseToLicensePool_getObjects_def]])
  have "k = [] \<and> ks \<noteq> [] \<longrightarrow> key \<in> set ks" using assms(4) k(2) by auto
  then show "key = [] \<or> (\<exists>t \<in> set (ld_to_pool db). lp_pool t = pool \<and> lp_key t = key)"
  proof (cases "k = [] \<and> ks \<noteq> []")
    case True
    then have "key \<in> {lp_key r |r. r \<in> set to_pool \<and> lp_key r \<noteq> []}"
      using \<open>k = [] \<and> ks \<noteq> [] \<longrightarrow> key \<in> set ks\<close> find_key_spec[OF k(1)] by auto
    then show ?thesis unfolding to_pool by auto
  next
    case False
    then show ?thesis using find_key_spec[OF k(1)] k(2) unfolding to_pool by auto
  qed
  show "\<exists>u \<in> set (ld_to_pool db). lp_pool u = pool \<and> lp_license u = i \<and> lp_key u = key"
    if "t \<in> set (ld_to_pool db)" "lp_pool t = pool" "lp_license t = i" "lp_key t \<noteq> []"
    using find_key_spec[OF k(1)] k(2) that unfolding to_pool by auto
qed

section \<open>Asking again\<close>

lemma no_client_queries:
  "licensePool_getIdents E (db\<lparr>ld_on_client := rs\<rparr>) flt = licensePool_getIdents E db flt"
  "auditSoftware_getObjects E (db\<lparr>ld_on_client := rs\<rparr>) w = auditSoftware_getObjects E db w"
  "auditSoftwareToLicensePool_getObjects E (db\<lparr>ld_on_client := rs\<rparr>) a = auditSoftwareToLicensePool_getObjects E db a"
  by (simp_all add: licensePool_getIdents_def auditSoftware_getObjects_def auditSoftwareToLicensePool_getObjects_def)

lemma resolve_pool_rows: "resolve_pool E (db\<lparr>ld_on_client := rs\<rparr>) p pr w = resolve_pool E db p pr w"
  by (simp add: resolve_pool_def audit_pools_def no_client_queries)

lemma decide_after_assign:
  assumes "sees_all E" "decide_license E db c p pr w = Inr (Assign r)"
  shows "decide_license E (db\<lparr>ld_on_client := ld_on_client db @ [r]\<rparr>) c p pr w = Inr (Assigned r)"
proof -
  obtain client pool pools where c: "le_force_host_id E c = Inr client" "resolve_pool E db p pr w = Inr pool"
    "licensePool_getIdents E db (\<lambda>(i, _). i = pool) = Inr pools" "pools \<noteq> []" "lo_pool r = pool" "lo_client r = client"
    using assms by (auto simp: decide_license_def getObjects_all bind_res_Inr_iff split: if_splits list.splits)
  have "filter (\<lambda>q. lo_pool q = pool \<and> lo_client q = client) (ld_on_client db @ [r]) = [r]"
    using decide_Assign(1)[OF assms] c(5,6) by (simp add: filter_empty_conv)
  then show ?thesis using c by (simp add: decide_license_def resolve_pool_rows no_client_queries getObjects_all[OF assms(1)])
qed

section \<open>Requests at the same time\<close>

text \<open>Several workers and threads answer requests, and the decision and the write of a request are not one transaction:
  between them, others decide and write. A state is the tables and the decisions that are not written yet, of which
  there are at most \<open>k\<close>, the number of requests that are answered at the same time.\<close>

inductive license_interleaved ::
  "license_env set \<Rightarrow> nat \<Rightarrow> license_db \<times> (license_env \<times> license_on_client) list \<Rightarrow>
   license_db \<times> (license_env \<times> license_on_client) list \<Rightarrow> bool" for Es k where
  decide: "E \<in> Es \<Longrightarrow> length ps < k \<Longrightarrow> decide_license E db c p pr w = Inr (Assign r) \<Longrightarrow>
    license_interleaved Es k (db, ps) (db, (E, r) # ps)"
| create: "licenseOnClient_createObjects E r db = (res, db') \<Longrightarrow> license_interleaved Es k (db, as @ (E, r) # bs) (db', as @ bs)"
| delete: "deleteSoftwareLicenseUsage E h l p pr w db = (res, db') \<Longrightarrow> license_interleaved Es k (db, ps) (db', ps)"

text \<open>Decisions for a license that can still be written (a row without a client is refused).\<close>

definition pending :: "(license_env \<times> license_on_client) list \<Rightarrow> string \<Rightarrow> nat" where
  "pending ps i = length (filter (\<lambda>(E, r). lo_license r = i \<and> lo_client r \<noteq> []) ps)"

lemma pending_simps [simp]:
  "pending [] i = 0"
  "pending ((E, r) # ps) i = (if lo_license r = i \<and> lo_client r \<noteq> [] then Suc (pending ps i) else pending ps i)"
  "pending (as @ bs) i = pending as i + pending bs i"
  by (simp_all add: pending_def)

lemma pending_le: "pending ps i \<le> length ps"
  by (simp add: pending_def)

definition overrun_inv :: "license_db \<Rightarrow> software_license \<Rightarrow> nat \<Rightarrow> license_db \<times> (license_env \<times> license_on_client) list \<Rightarrow> bool" where
  "overrun_inv db0 l k = (\<lambda>(db, ps). tables_ok db \<and> ld_licenses db = ld_licenses db0 \<and>
     int (uses db (sl_id l) + pending ps (sl_id l)) \<le> sl_max_installations l + int k - 1)"

lemma uses_replace:
  assumes "\<And>q. same_key r q \<Longrightarrow> lo_license r = lo_license q"
  shows "uses (db\<lparr>ld_on_client := map (\<lambda>q. if same_key r q then r else q) (ld_on_client db)\<rparr>) i = uses db i"
proof -
  have "length (filter (\<lambda>q. lo_license q = i) (map (\<lambda>q. if same_key r q then r else q) rs)) = length (filter (\<lambda>q. lo_license q = i) rs)" for rs
    by (induction rs) (auto simp: same_key_def)
  then show ?thesis by (simp add: uses_def)
qed

lemma uses_filter: "uses (db\<lparr>ld_on_client := filter P (ld_on_client db)\<rparr>) i \<le> uses db i"
proof -
  have "length (filter (\<lambda>r. lo_license r = i) (filter P rs)) \<le> length (filter (\<lambda>r. lo_license r = i) rs)" for rs
    by (induction rs) auto
  then show ?thesis by (simp add: uses_def)
qed

lemma overrun_step:
  assumes "\<forall>E \<in> Es. sees_all E" "l \<in> set (ld_licenses db0)" "sl_bound_to_host l = []" "0 < sl_max_installations l"
  shows "license_interleaved Es k st st' \<Longrightarrow> overrun_inv db0 l k st \<Longrightarrow> overrun_inv db0 l k st'"
proof (induction rule: license_interleaved.induct)
  case (decide E ps db c p pr w r)
  have inv: "tables_ok db" "ld_licenses db = ld_licenses db0" using decide(4) by (simp_all add: overrun_inv_def)
  obtain l' where l': "usable db (lo_client r) (lo_pool r) l'" "sl_id l' = lo_license r"
    using decide_Assign(2)[OF _ decide(3)] assms(1) decide(1) by blast
  show ?case
  proof (cases "lo_license r = sl_id l \<and> lo_client r \<noteq> []")
    case True
    then have "l' = l"
      using l' inv assms(2) by (auto simp: usable_def tables_ok_def distinct_map inj_on_def)
    then have "int (uses db (sl_id l)) < sl_max_installations l"
      using l'(1) assms(3,4) True by (auto simp: usable_def)
    then show ?thesis using inv True decide(2) pending_le[of ps "sl_id l"] by (simp add: overrun_inv_def)
  next
    case False
    then show ?thesis using decide(4) by (auto simp: overrun_inv_def)
  qed
next
  case (create E r db res db' as bs)
  have inv: "tables_ok db" using create(2) by (simp add: overrun_inv_def)
  from createObjects_outcome[OF create(1)] show ?case
  proof (elim disjE conjE)
    assume "db' = db"
    then show ?thesis using create(2) by (auto simp: overrun_inv_def split: if_splits)
  next
    assume c: "lo_client r \<in> set (ld_hosts db)" and db': "db' = db\<lparr>ld_on_client := (if list_ex (same_key r) (ld_on_client db)
      then map (\<lambda>q. if same_key r q then r else q) (ld_on_client db) else ld_on_client db @ [r])\<rparr>"
    have "lo_client r \<noteq> []" using c inv by (auto simp: tables_ok_def)
    moreover have "uses db' (sl_id l) \<le> uses db (sl_id l) + (if lo_license r = sl_id l then 1 else 0)"
      using uses_replace[where r = r and db = db and i = "sl_id l"] uses_append[where db = db and r = r and i = "sl_id l"] by (auto simp: db' same_key_def)
    moreover have "tables_ok db'" "ld_licenses db' = ld_licenses db" using inv by (simp_all add: db' tables_ok_def)
    ultimately show ?thesis using create(2) by (auto simp: overrun_inv_def split: if_splits)
  qed
next
  case (delete E h l' p pr w db res db' ps)
  obtain P where db': "db' = db\<lparr>ld_on_client := filter P (ld_on_client db)\<rparr>" using delete_outcome[OF delete(1)] by blast
  then show ?case using delete(2) uses_filter[where db = db and P = P and i = "sl_id l"] by (auto simp: overrun_inv_def tables_ok_def)
qed

definition sample_license_env :: license_env where
  "sample_license_env =
     \<lparr>le_session = Some example_session,
      le_backend = \<lparr>be_objs = [RPCACE_ALLOW_ALL],
        be_acl = map (\<lambda>m. (m, [0])) [''licenseOnClient_getObjects'', ''licenseOnClient_createObjects'', ''licenseOnClient_deleteObjects'',
          ''licensePool_getObjects'', ''softwareLicense_getObjects'', ''softwareLicenseToLicensePool_getObjects''],
        be_interface = [], be_modules = []\<rparr>,
      le_force_host_id = Inr, le_force_pool_id = Inr, le_force_product_id = Inr, le_choice = hd\<rparr>"

definition sample_license_db :: license_db where
  "sample_license_db =
     \<lparr>ld_hosts = [''c1'', ''c2''], ld_pools = [(''p'', [])],
      ld_licenses = [\<lparr>sl_id = ''l'', sl_max_installations = 1, sl_bound_to_host = []\<rparr>],
      ld_to_pool = [\<lparr>lp_license = ''l'', lp_pool = ''p'', lp_key = ''k''\<rparr>], ld_on_client = [], ld_audit = [], ld_audit_pool = [],
      ld_match = (=)\<rparr>"

lemma sample_methods:
  "m \<in> {''licenseOnClient_getObjects'', ''licenseOnClient_createObjects'', ''licenseOnClient_deleteObjects'',
    ''licensePool_getObjects'', ''softwareLicense_getObjects'', ''softwareLicenseToLicensePool_getObjects''} \<Longrightarrow>
   caller_ace sample_license_env m = Inr [RPCACE_ALLOW_ALL]"
  by (elim insertE emptyE; hypsubst)
    (simp_all add: sample_license_env_def caller_ace_def get_ace_def get_ace_loop_def get_ace_step_def RPCACE_ALLOW_ALL_def Let_def)

lemma sample_sees_all: "sees_all sample_license_env"
  by (simp add: sees_all_def sample_methods RPCACE_ALLOW_ALL_def)

lemma sample_env_fields:
  "le_force_host_id sample_license_env = Inr" "le_force_pool_id sample_license_env = Inr" "le_choice sample_license_env = hd"
  by (simp_all add: sample_license_env_def)

lemma sample_no_client_table:
  assumes "m \<in> {''licensePool_getObjects'', ''softwareLicense_getObjects'', ''softwareLicenseToLicensePool_getObjects''}"
  shows "no_client_table sample_license_env m rows = Inr rows"
proof -
  have "caller_ace sample_license_env m = Inr [RPCACE_ALLOW_ALL]" using assms by (intro sample_methods) blast
  then show ?thesis by (simp add: no_client_table_def RPCACE_ALLOW_ALL_def)
qed

lemma sample_decide:
  assumes "c \<in> {''c1'', ''c2''}"
  shows "decide_license sample_license_env sample_license_db c ''p'' [] [] = Inr (Assign \<lparr>lo_license = ''l'', lo_pool = ''p'', lo_client = c, lo_key = ''k''\<rparr>)"
  using assms
  by (auto simp: decide_license_def resolve_pool_def sample_env_fields licensePool_getIdents_def sample_no_client_table getObjects_all[OF sample_sees_all]
      get_usable_software_license_def softwareLicenseToLicensePool_getObjects_def softwareLicense_getObjects_def sample_license_db_def)

lemma sample_create:
  assumes "lo_client r \<in> {''c1'', ''c2''}" "lo_license r = ''l''" "lo_pool r = ''p''"
    "ld_hosts db = ld_hosts sample_license_db" "ld_to_pool db = ld_to_pool sample_license_db" "\<not> list_ex (same_key r) (ld_on_client db)"
  shows "licenseOnClient_createObjects sample_license_env r db = (Inr (), db\<lparr>ld_on_client := ld_on_client db @ [r]\<rparr>)"
  using assms by (auto simp: licenseOnClient_createObjects_def sample_methods may_access_client_def RPCACE_ALLOW_ALL_def sample_license_db_def)

lemma sample_license_ok: "tables_ok sample_license_db" "within_limits sample_license_db"
  by (simp_all add: tables_ok_def within_limits_def sample_license_db_def)

text \<open>Two inventory entries of the same software that lead to the same pool count as several pools.\<close>

lemma same_pool_twice_refused:
  assumes "w \<noteq> []" "audit_pools E db w = Inr (replicate n p)" "2 \<le> n"
  shows "resolve_pool E db [] [] w = Inl LicenseConfigurationError"
proof -
  obtain k where "n = Suc (Suc k)" using assms(3) by (metis One_nat_def Suc_1 Suc_le_D Suc_le_mono)
  then show ?thesis using assms by (simp add: resolve_pool_def single_pool_def)
qed

text \<open>A caller who sees only the own client counts only its own uses: others do not make a license unavailable.\<close>

lemma uses_of_others_not_counted:
  assumes "caller_ace E ''licenseOnClient_getObjects'' = Inr aces" "get_allowed_client_ids (le_session E) None aces = Some [c]"
    and "\<forall>r \<in> set (ld_on_client db). lo_client r \<noteq> c" "0 < sl_max_installations l"
  shows "find_available E db (l # ls) = Inr (sl_id l)"
proof -
  have "licenseOnClient_getObjects E db (\<lambda>r. lo_license r = sl_id l) = Inr []"
    using assms(1-3) by (auto simp: licenseOnClient_getObjects_def may_access_client_def filter_empty_conv)
  then show ?thesis using assms(4) by simp
qed

section \<open>Properties\<close>


definition sample_use :: "string \<Rightarrow> license_on_client" where
  "sample_use c = \<lparr>lo_license = ''l'', lo_pool = ''p'', lo_client = c, lo_key = ''k''\<rparr>"

lemma sample_request:
  "licenseOnClient_getOrCreateObject sample_license_env ''c1'' ''p'' [] [] sample_license_db =
    (Inr (sample_use ''c1''), sample_license_db\<lparr>ld_on_client := [sample_use ''c1'']\<rparr>)"
proof -
  have "ld_on_client sample_license_db = []" by (simp add: sample_license_db_def)
  then show ?thesis
    using sample_decide[of "''c1''"] sample_create[of "sample_use ''c1''" sample_license_db]
    by (simp add: licenseOnClient_getOrCreateObject_def sample_use_def bind_prog_def)
qed


text \<open>C35. A client that asks again gets the license it has, and nothing is written.\<close>

theorem license_request_idempotent:
  assumes "sees_all E" "licenseOnClient_getOrCreateObject E c p pr w db = (Inr r, db')"
  shows "r \<in> set (ld_on_client db') \<and> licenseOnClient_getOrCreateObject E c p pr w db' = (Inr r, db')"
  using getOrCreate_outcome[OF assms]
proof (elim disjE exE conjE)
  assume "db' = db" "\<forall>q. Inr r = Inr q \<longrightarrow> decide_license E db c p pr w = Inr (Assigned q)"
  then show ?thesis using decide_Assigned[OF assms(1)] by (simp add: licenseOnClient_getOrCreateObject_def)
next
  fix q
  assume "Inr r = Inr q" "decide_license E db c p pr w = Inr (Assign q)" "db' = db\<lparr>ld_on_client := ld_on_client db @ [q]\<rparr>"
  then show ?thesis using decide_after_assign[OF assms(1)] by (simp add: licenseOnClient_getOrCreateObject_def)
qed

theorem license_request_idempotent_witness:
  "licenseOnClient_getOrCreateObject sample_license_env ''c1'' ''p'' [] [] (sample_license_db\<lparr>ld_on_client := [sample_use ''c1'']\<rparr>) =
    (Inr (sample_use ''c1''), sample_license_db\<lparr>ld_on_client := [sample_use ''c1'']\<rparr>)"
  using license_request_idempotent[OF sample_sees_all sample_request] by (rule conjunct2)

text \<open>C36. Requests that are answered at the same time hand out too many licenses by at most the number of requests minus one: if
  never more than \<open>k\<close> requests are between their decision and their write, a license with a limit that is not bound to a
  host is never in use more often than its number of installations plus \<open>k - 1\<close>, whatever is requested, written and
  deleted in whatever order. As in the case of requests one after another, the callers can read the uses of all
  clients. The bound is reached: two requests can both get the last installation.\<close>

theorem license_overrun_bounded:
  assumes "tables_ok db0" "within_limits db0" "(license_interleaved Es k)\<^sup>*\<^sup>* (db0, []) (db, ps)" "\<forall>E \<in> Es. sees_all E" "0 < k"
    and "l \<in> set (ld_licenses db0)" "sl_bound_to_host l = []" "0 < sl_max_installations l"
  shows "int (uses db (sl_id l)) \<le> sl_max_installations l + int k - 1"
proof -
  have "int (uses db0 (sl_id l)) \<le> sl_max_installations l"
  proof (cases "uses db0 (sl_id l) = 0")
    case False
    then obtain r where "r \<in> set (ld_on_client db0)" "lo_license r = sl_id l"
      by (auto simp: uses_def filter_empty_conv)
    then have "use_ok db0 l (lo_client r)" using assms(2,6) unfolding within_limits_def by metis
    then show ?thesis using assms(7,8) by (simp add: use_ok_def)
  qed (use assms(8) in simp)
  then have "overrun_inv db0 l k (db0, [])" using assms(1,5) by (simp add: overrun_inv_def)
  with assms(3) have "overrun_inv db0 l k (db, ps)"
    by (induction rule: rtranclp_induct) (auto dest: overrun_step[OF assms(4,6,7,8)])
  then show ?thesis by (simp add: overrun_inv_def)
qed

text \<open>Two clients that ask for the one installation at the same time: both decide before either writes.\<close>

lemma sample_race:
  "(license_interleaved {sample_license_env} 2)\<^sup>*\<^sup>* (sample_license_db, [])
     (sample_license_db\<lparr>ld_on_client := [sample_use ''c1'', sample_use ''c2'']\<rparr>, [])"
proof -
  let ?E = sample_license_env and ?r1 = "sample_use ''c1''" and ?r2 = "sample_use ''c2''"
  let ?step = "license_interleaved {?E} 2"
  let ?db1 = "sample_license_db\<lparr>ld_on_client := [?r1]\<rparr>" and ?db2 = "sample_license_db\<lparr>ld_on_client := [?r1, ?r2]\<rparr>"
  have d: "decide_license ?E sample_license_db c ''p'' [] [] = Inr (Assign (sample_use c))" if "c \<in> {''c1'', ''c2''}" for c
    using sample_decide[OF that] by (simp add: sample_use_def)
  have "?step (sample_license_db, []) (sample_license_db, [(?E, ?r1)])"
    by (rule license_interleaved.decide[OF singletonI _ d]) simp_all
  moreover have "?step (sample_license_db, [(?E, ?r1)]) (sample_license_db, (?E, ?r2) # [(?E, ?r1)])"
    by (rule license_interleaved.decide[OF singletonI _ d]) simp_all
  moreover have "licenseOnClient_createObjects ?E ?r1 sample_license_db = (Inr (), ?db1)"
    using sample_create[of ?r1 sample_license_db] by (simp add: sample_use_def sample_license_db_def)
  then have "?step (sample_license_db, (?E, ?r2) # [(?E, ?r1)]) (?db1, [(?E, ?r2)])"
    using license_interleaved.create[of ?E ?r1 sample_license_db "Inr ()" ?db1 "{?E}" 2 "[(?E, ?r2)]" "[]"] by simp
  moreover have "licenseOnClient_createObjects ?E ?r2 ?db1 = (Inr (), ?db2)"
    using sample_create[of ?r2 ?db1] by (simp add: sample_use_def same_key_def)
  then have "?step (?db1, [(?E, ?r2)]) (?db2, [])"
    using license_interleaved.create[of ?E ?r2 ?db1 "Inr ()" ?db2 "{?E}" 2 "[]" "[]"] by simp
  ultimately show ?thesis by (meson converse_rtranclp_into_rtranclp rtranclp.rtrancl_refl)
qed

theorem license_overrun_bounded_witness:
  "int (uses (sample_license_db\<lparr>ld_on_client := [sample_use ''c1'', sample_use ''c2'']\<rparr>) ''l'') \<le> 1 + int 2 - 1"
proof -
  let ?l = "\<lparr>sl_id = ''l'', sl_max_installations = 1, sl_bound_to_host = []\<rparr>"
  have "?l \<in> set (ld_licenses sample_license_db)" by (simp add: sample_license_db_def)
  from license_overrun_bounded[OF sample_license_ok sample_race _ _ this] show ?thesis by (simp add: sample_sees_all)
qed


text \<open>A client that may read all uses of licenses but delete only its own can free the license of every client: asking to
  delete the use of another client deletes all uses of that license in that pool, the client's own condition being
  left out of the statement.\<close>

theorem client_deletes_all_uses:
  assumes "sees_all E" "caller_ace E ''licenseOnClient_deleteObjects'' = Inr aces" "get_allowed_client_ids (le_session E) None aces = Some [me]"
    and "r \<in> set (ld_on_client db)" "lo_client r \<noteq> me"
  shows "fst (licenseOnClient_delete E None (lo_pool r) (lo_client r) db) = Inr () \<and>
    (\<forall>q. q \<in> set (ld_on_client (snd (licenseOnClient_delete E None (lo_pool r) (lo_client r) db))) \<longrightarrow>
      \<not> (lo_license q = lo_license r \<and> lo_pool q = lo_pool r))"
proof -
  let ?rows = "filter (\<lambda>q. lo_pool q = lo_pool r \<and> lo_client q = lo_client r) (ld_on_client db)"
  have r: "r \<in> set ?rows" using assms(4) by simp
  have "\<not> may_access_client E aces (lo_client r)" using assms(3,5) by (simp add: may_access_client_def)
  then have del: "deletes E aces r q" if "lo_license q = lo_license r" "lo_pool q = lo_pool r" for q using that by (simp add: deletes_def)
  have ne: "?rows \<noteq> []"
  proof
    assume "?rows = []"
    then show False using r by (simp only: list.set empty_iff)
  qed
  have "licenseOnClient_delete E None (lo_pool r) (lo_client r) db =
      (Inr (), db\<lparr>ld_on_client := filter (\<lambda>q. \<not> list_ex (\<lambda>x. deletes E aces x q) ?rows) (ld_on_client db)\<rparr>)"
    using ne by (simp add: licenseOnClient_delete_def getObjects_all[OF assms(1)] licenseOnClient_deleteObjects_def assms(2))
  then show ?thesis using del r by (auto simp: list_ex_iff)
qed

definition client_license_env :: license_env where
  "client_license_env = sample_license_env\<lparr>le_session := Some client_session,
     le_backend := \<lparr>be_objs = [example_acl, RPCACE_ALLOW_ALL],
       be_acl = [(''licenseOnClient_getObjects'', [0, 1]), (''licenseOnClient_deleteObjects'', [0])], be_interface = [], be_modules = []\<rparr>\<rparr>"

theorem client_deletes_all_uses_witness:
  "ld_on_client (snd (licenseOnClient_delete client_license_env None ''p'' ''c2''
    (sample_license_db\<lparr>ld_on_client := [sample_use ''c2'', sample_use ''c3'']\<rparr>))) = []"
proof -
  let ?E = client_license_env and ?r = "sample_use ''c2''" and ?db = "sample_license_db\<lparr>ld_on_client := [sample_use ''c2'', sample_use ''c3'']\<rparr>"
  have self: "example_acl\<lparr>ace_id := Some ''c1.opsi.org''\<rparr> = ace_for client_session example_acl" by code_simp
  have get: "caller_ace ?E ''licenseOnClient_getObjects'' = Inr [ace_for client_session example_acl, RPCACE_ALLOW_ALL]" by code_simp
  have del: "caller_ace ?E ''licenseOnClient_deleteObjects'' = Inr [ace_for client_session example_acl]" by code_simp
  have "sees_all ?E" unfolding sees_all_def get by (intro exI[of _ "[ace_for client_session example_acl, RPCACE_ALLOW_ALL]"] conjI) (simp, code_simp)
  moreover have "get_allowed_client_ids (le_session ?E) None [ace_for client_session example_acl] = Some [''c1.opsi.org'']" by code_simp
  moreover have fields: "lo_license (sample_use c) = ''l''" "lo_pool (sample_use c) = ''p''" "lo_client (sample_use c) = c" for c by (simp_all add: sample_use_def)
  ultimately have gone: "\<forall>q. q \<in> set (ld_on_client (snd (licenseOnClient_delete ?E None ''p'' ''c2'' ?db))) \<longrightarrow> \<not> (lo_license q = ''l'' \<and> lo_pool q = ''p'')"
    using client_deletes_all_uses[of ?E "[ace_for client_session example_acl]" "''c1.opsi.org''" ?r ?db] del unfolding fields by simp
  have sub: "set (ld_on_client (snd (licenseOnClient_delete ?E None ''p'' ''c2'' ?db))) \<subseteq> {sample_use ''c2'', sample_use ''c3''}"
    by (auto simp: licenseOnClient_delete_def licenseOnClient_deleteObjects_def bind_prog_def split: sum.splits)
  show ?thesis
  proof (rule ccontr)
    assume "\<not> ?thesis"
    then obtain q where q: "q \<in> set (ld_on_client (snd (licenseOnClient_delete ?E None ''p'' ''c2'' ?db)))" by (meson last_in_set)
    then obtain c where "q = sample_use c" using sub by blast
    then show False using gone q fields by blast
  qed
qed

end
