(* ===== verification/File_Transfer.thy ===== *)
theory File_Transfer
  imports Messagebus_Channels Session "HOL-Library.Countable"
begin

text \<open>
  Files that are stored for a transfer over HTTP (\<open>opsiconfd/application/filetransfer.py\<close>): the storage directory with the
  files and their meta data, uploads, downloads, deletion and the cleanup the manager runs every hour. The storage is
  the directory in the order in which it is listed. JSON of the meta data is made and read by pydantic
  (\<open>ft_dump\<close>, \<open>ft_validate\<close>), the options of a header by werkzeug (\<open>ft_options\<close>). Times are in microseconds.
\<close>

section \<open>The storage directory\<close>

datatype entry = Directory | Regular string

type_synonym storage = "(string \<times> entry) list"

record file_meta =
  fm_file_id :: string
  fm_created :: int
  fm_expires :: int
  fm_filename :: "string option"
  fm_content_type :: "string option"
  fm_username :: "string option"

record transfer_env =
  ft_dump :: "file_meta \<Rightarrow> string"
  ft_validate :: "string \<Rightarrow> file_meta option"
  ft_options :: "string \<Rightarrow> (string \<times> string) list"

definition meta_name :: "string \<Rightarrow> string" where
  "meta_name i = i @ ''.meta''"

definition touch :: "string \<Rightarrow> (storage, unit) prog" where
  "touch i = modify_prog (\<lambda>st. if dict_has st i then st else dict_set i (Regular []) st)"

definition write_file :: "string \<Rightarrow> string \<Rightarrow> (storage, unit) prog" where
  "write_file i content = (\<lambda>st.
     if map_of st i = Some Directory then (Inl (OtherError ''IsADirectoryError''), st) else (Inr (), dict_set i (Regular content) st))"

definition read_file :: "string \<Rightarrow> storage \<Rightarrow> string result" where
  "read_file i st =
     (case map_of st i of
        None \<Rightarrow> Inl (OtherError ''FileNotFoundError'')
      | Some Directory \<Rightarrow> Inl (OtherError ''IsADirectoryError'')
      | Some (Regular c) \<Rightarrow> Inr c)"

definition unlink_missing_ok :: "string \<Rightarrow> (storage, unit) prog" where
  "unlink_missing_ok i = (\<lambda>st.
     if map_of st i = Some Directory then (Inl (OtherError ''IsADirectoryError''), st) else (Inr (), dict_del i st))"

text \<open>\<open>PurePath.suffix\<close> and \<open>with_suffix("")\<close>\<close>

definition path_suffix :: "string \<Rightarrow> string" where
  "path_suffix name = (case py_rsplit1 CHR ''.'' name of Some (a, b) \<Rightarrow> if a = [] \<or> b = [] then [] else CHR ''.'' # b | None \<Rightarrow> [])"

definition without_suffix :: "string \<Rightarrow> string" where
  "without_suffix name = take (length name - length (path_suffix name)) name"

section \<open>Operations\<close>

definition create_file ::
  "transfer_env \<Rightarrow> nat \<Rightarrow> int \<Rightarrow> string option \<Rightarrow> string option \<Rightarrow> int \<Rightarrow> opsisession option \<Rightarrow> (storage, file_meta) prog" where
  "create_file E uuid now filename content_type valid_for session =
     (let m = \<lparr>fm_file_id = uuid_str uuid, fm_created = now div usec, fm_expires = now div usec + valid_for, fm_filename = filename,
                fm_content_type = content_type, fm_username = map_option username session\<rparr>
      in then_prog (touch (fm_file_id m)) (then_prog (write_file (meta_name (fm_file_id m)) (ft_dump E m)) (return_prog m)))"

definition prepare_file ::
  "transfer_env \<Rightarrow> opsisession option \<Rightarrow> nat \<Rightarrow> int \<Rightarrow> string option \<Rightarrow> string option \<Rightarrow> int \<Rightarrow> (storage, file_meta) prog" where
  "prepare_file E session uuid now filename content_type valid_for =
     (if (case session of None \<Rightarrow> True | Some s \<Rightarrow> username s = []) then raise_prog (OtherError ''PermissionError'')
      else create_file E uuid now filename content_type valid_for session)"

definition day :: int where
  "day = 24 * 3600"

text \<open>The answers: a status and the id of the file, if it was stored.\<close>

definition post_file ::
  "transfer_env \<Rightarrow> opsisession option \<Rightarrow> nat \<Rightarrow> int \<Rightarrow> string option \<Rightarrow> string option \<Rightarrow> string list \<Rightarrow> (storage, nat \<times> string option) prog" where
  "post_file E session uuid now filename content_type chunks = (\<lambda>st.
     case prepare_file E session uuid now filename content_type day st of
       (Inl e, st1) \<Rightarrow> if e = OtherError ''PermissionError'' then (Inr (403, None), st1) else (Inl e, st1)
     | (Inr m, st1) \<Rightarrow> then_prog (write_file (fm_file_id m) (concat chunks)) (return_prog (201, Some (fm_file_id m))) st1)"

definition raw_filename :: "transfer_env \<Rightarrow> string \<Rightarrow> string option" where
  "raw_filename E content_disposition =
     (if content_disposition = [] then None
      else case map_of (ft_options E content_disposition) ''filenname'' of
        None \<Rightarrow> None
      | Some f \<Rightarrow> if f = [] then None else Some f)"

definition filetransfer_post_file_raw ::
  "transfer_env \<Rightarrow> opsisession option \<Rightarrow> nat \<Rightarrow> int \<Rightarrow> string \<Rightarrow> string \<Rightarrow> string list \<Rightarrow> (storage, nat \<times> string option) prog" where
  "filetransfer_post_file_raw E session uuid now content_disposition content_type chunks =
     post_file E session uuid now (raw_filename E content_disposition) (if content_type = [] then None else Some content_type) chunks"

text \<open>\<open>while chunk := await file.read(1_000_000)\<close>\<close>

function read_chunks :: "nat \<Rightarrow> string \<Rightarrow> string list" where
  "read_chunks n content = (if n = 0 \<or> content = [] then [] else take n content # read_chunks n (drop n content))"
  by pat_completeness auto

termination
  by (relation "measure (\<lambda>(n, content). length content)") auto

declare read_chunks.simps [simp del]

definition filetransfer_post_file_multipart ::
  "transfer_env \<Rightarrow> opsisession option \<Rightarrow> nat \<Rightarrow> int \<Rightarrow> string option \<Rightarrow> string option \<Rightarrow> string \<Rightarrow> (storage, nat \<times> string option) prog" where
  "filetransfer_post_file_multipart E session uuid now filename content_type content =
     post_file E session uuid now filename content_type (read_chunks 1000000 content)"

definition delete_file :: "nat \<Rightarrow> (storage, unit) prog" where
  "delete_file uuid = then_prog (unlink_missing_ok (uuid_str uuid)) (unlink_missing_ok (meta_name (uuid_str uuid)))"

text \<open>The response, and that the file is deleted after it was sent.\<close>

definition filetransfer_get_file ::
  "transfer_env \<Rightarrow> int \<Rightarrow> nat \<Rightarrow> bool \<Rightarrow> storage \<Rightarrow> (string \<times> string option \<times> string option \<times> bool) result" where
  "filetransfer_get_file E now uuid delete st =
     (if \<not> dict_has st (uuid_str uuid) then Inl (ValueError ''Invalid file ID'')
      else
        bind_res (read_file (meta_name (uuid_str uuid)) st) (\<lambda>json.
        bind_res (of_option (ft_validate E json) (OtherError ''ValidationError'')) (\<lambda>m.
        if usec * fm_expires m \<le> now then Inl (ValueError ''Invalid file ID'')
        else bind_res (read_file (uuid_str uuid) st) (\<lambda>content. Inr (content, fm_filename m, fm_content_type m, delete)))))"

text \<open>The cleanup: the files to keep are the meta data files that pass all checks and the files without their suffix.\<close>

definition meta_valid :: "transfer_env \<Rightarrow> int \<Rightarrow> string \<times> entry \<Rightarrow> bool" where
  "meta_valid E now = (\<lambda>(name, e).
     case e of
       Directory \<Rightarrow> False
     | Regular c \<Rightarrow> path_suffix name = ''.meta'' \<and> \<not> isl (uuid_int name) \<and>
         (case ft_validate E c of None \<Rightarrow> False | Some m \<Rightarrow> \<not> usec * fm_expires m \<le> now))"

definition keep_files :: "transfer_env \<Rightarrow> int \<Rightarrow> storage \<Rightarrow> string list" where
  "keep_files E now st = concat (map (\<lambda>(name, e). if meta_valid E now (name, e) then [name, without_suffix name] else []) st)"

definition cleanup_file_storage :: "transfer_env \<Rightarrow> int \<Rightarrow> storage \<Rightarrow> storage" where
  "cleanup_file_storage E now st = filter (\<lambda>(name, e). e = Directory \<or> name \<in> set (keep_files E now st)) st"

section \<open>Lemmas\<close>

lemma concat_read_chunks: "0 < n \<Longrightarrow> concat (read_chunks n content) = content"
proof (induction n content rule: read_chunks.induct)
  case (1 n content)
  then show ?case by (cases "content = []") (simp_all add: read_chunks.simps[of n content] read_chunks.simps[of n "[]"])
qed

lemma meta_name_neq [simp]: "meta_name i \<noteq> i" "i \<noteq> meta_name i"
  by (simp_all add: meta_name_def)

text \<open>A string with a full stop is no UUID.\<close>

lemma in_set_drop: "c \<in> set s \<Longrightarrow> c \<notin> set (take n s) \<Longrightarrow> c \<in> set (drop n s)"
  by (metis Un_iff append_take_drop_id set_append)

lemma py_replace_stop:
  assumes "c \<in> set s" "c \<notin> set old"
  shows "c \<in> set (py_replace old [] s)"
  using assms
proof (induction old "[] :: string" s rule: py_replace.induct)
  case (2 old x xs)
  show ?case
  proof (cases "old \<noteq> [] \<and> py_startswith (x # xs) old")
    case True
    then have "take (length old) (x # xs) = old" by (simp add: py_startswith_def)
    then have "c \<in> set (drop (length old) (x # xs))" using in_set_drop[of c "x # xs" "length old"] 2(3,4) by simp
    then show ?thesis using 2(1)[OF True] 2(4) True by simp
  next
    case False
    then show ?thesis using 2(2)[OF False] 2(3,4) by auto
  qed
qed simp

lemma in_dropWhile: "c \<in> set s \<Longrightarrow> \<not> P c \<Longrightarrow> c \<in> set (dropWhile P s)"
  by (induction s) auto

lemma in_py_strip: "c \<in> set s \<Longrightarrow> \<not> py_space c \<Longrightarrow> c \<in> set (py_strip s)"
  by (simp add: py_strip_def py_lstrip_def py_rstrip_def in_dropWhile)

lemma hex_digits_stop: "CHR ''.'' \<in> set s \<Longrightarrow> hex_digits acc need s = None"
  by (induction acc need s rule: hex_digits.induct) (auto simp: hex_val_def split: option.splits)

lemma int16_stop:
  assumes "CHR ''.'' \<in> set s"
  shows "int16 s = None"
proof -
  define t where "t = py_strip s"
  define u where "u = (if t \<noteq> [] \<and> hd t = CHR ''+'' then tl t else t)"
  have "CHR ''.'' \<in> set t" unfolding t_def using assms by (intro in_py_strip) (simp_all add: py_space_def)
  then have u: "CHR ''.'' \<in> set u" unfolding u_def by (cases t) auto
  have "CHR ''.'' \<in> set (drop 2 u)" if "take 2 u \<in> {''0x'', ''0X''}" using in_set_drop[OF u, of 2] that by auto
  moreover have "CHR ''.'' \<in> set (drop 3 u)" if "CHR ''.'' \<in> set (drop 2 u)" "take 1 (drop 2 u) = ''_''"
    using in_set_drop[OF that(1), of 1] that(2) by (simp add: eval_nat_numeral)
  ultimately show ?thesis using u by (auto simp: int16_def t_def[symmetric] u_def[symmetric] Let_def hex_digits_stop)
qed

lemma uuid_int_stop:
  assumes "CHR ''.'' \<in> set s"
  shows "isl (uuid_int s)"
proof -
  let ?r = "py_replace ''uuid:'' [] (py_replace ''urn:'' [] s)"
  have "CHR ''.'' \<in> set ?r" using assms by (intro py_replace_stop) auto
  then have "CHR ''.'' \<in> set (filter (\<lambda>c. c \<noteq> CHR ''-'') (strip_braces ?r))" by (simp add: strip_braces_def in_dropWhile)
  then show ?thesis by (simp add: uuid_int_def int16_stop of_option_def Let_def)
qed

lemma suffix_stop: "path_suffix name \<noteq> [] \<Longrightarrow> CHR ''.'' \<in> set name"
proof -
  assume "path_suffix name \<noteq> []"
  then obtain a b where "py_split1 CHR ''.'' (rev name) = Some (a, b)"
    by (auto simp: path_suffix_def py_rsplit1_def split: option.splits)
  then have "rev name = a @ CHR ''.'' # b" by (simp add: py_split1_Some)
  then have "CHR ''.'' \<in> set (rev name)" by simp
  then show ?thesis by simp
qed

text \<open>No meta data file passes the checks, because its name with the suffix is parsed as an id.\<close>

lemma meta_never_valid: "\<not> meta_valid E now (name, e)"
proof
  assume "meta_valid E now (name, e)"
  then have "path_suffix name = ''.meta''" "\<not> isl (uuid_int name)" by (auto simp: meta_valid_def split: entry.splits)
  then show False using uuid_int_stop[OF suffix_stop[of name]] by simp
qed

section \<open>Storing and reading\<close>

text \<open>What is in the storage for an id that was not used before.\<close>

lemma create_file_run:
  assumes "map_of st (uuid_str uuid) = None" "map_of st (meta_name (uuid_str uuid)) = None"
  shows "create_file E uuid now filename content_type valid_for session st =
    (let m = \<lparr>fm_file_id = uuid_str uuid, fm_created = now div usec, fm_expires = now div usec + valid_for, fm_filename = filename,
              fm_content_type = content_type, fm_username = map_option username session\<rparr>
     in (Inr m, dict_set (meta_name (uuid_str uuid)) (Regular (ft_dump E m)) (dict_set (uuid_str uuid) (Regular []) st)))"
  using assms by (simp add: create_file_def touch_def write_file_def dict_has_iff Let_def bind_prog_def)

lemma post_file_run:
  assumes "username s \<noteq> []" "map_of st (uuid_str uuid) = None" "map_of st (meta_name (uuid_str uuid)) = None"
  shows "\<exists>st'. post_file E (Some s) uuid now filename content_type chunks st = (Inr (201, Some (uuid_str uuid)), st') \<and>
    map_of st' (uuid_str uuid) = Some (Regular (concat chunks)) \<and>
    map_of st' (meta_name (uuid_str uuid)) = Some (Regular (ft_dump E
      \<lparr>fm_file_id = uuid_str uuid, fm_created = now div usec, fm_expires = now div usec + day, fm_filename = filename,
       fm_content_type = content_type, fm_username = Some (username s)\<rparr>)) \<and>
    (\<forall>j. j \<noteq> uuid_str uuid \<longrightarrow> j \<noteq> meta_name (uuid_str uuid) \<longrightarrow> map_of st' j = map_of st j)"
  using assms by (simp add: post_file_def prepare_file_def create_file_run[OF assms(2,3)] write_file_def Let_def bind_prog_def)

text \<open>Deleting a file removes it and its meta data and nothing else.\<close>

lemma delete_file_lookup:
  assumes "delete_file uuid st = (Inr (), st')"
  shows "map_of st' j = (if j \<in> {uuid_str uuid, meta_name (uuid_str uuid)} then None else map_of st j)"
    and "filetransfer_get_file E now uuid d st' = Inl (ValueError ''Invalid file ID'')"
proof -
  have st': "st' = dict_del (meta_name (uuid_str uuid)) (dict_del (uuid_str uuid) st)"
    using assms by (auto simp: delete_file_def unlink_missing_ok_def bind_prog_def split: if_splits)
  then show "map_of st' j = (if j \<in> {uuid_str uuid, meta_name (uuid_str uuid)} then None else map_of st j)" by simp
  show "filetransfer_get_file E now uuid d st' = Inl (ValueError ''Invalid file ID'')"
    unfolding st' by (simp add: filetransfer_get_file_def dict_has_iff)
qed

text \<open>Without meta data the download fails with another error than an unknown id: the existence of the file is checked twice.\<close>

lemma missing_meta_not_found:
  assumes "dict_has st (uuid_str uuid)" "map_of st (meta_name (uuid_str uuid)) = None"
  shows "filetransfer_get_file E now uuid d st = Inl (OtherError ''FileNotFoundError'')"
  using assms by (simp add: filetransfer_get_file_def read_file_def)

section \<open>Properties\<close>


text \<open>A serialisation by numbers.\<close>

definition sample_transfer_env :: transfer_env where
  "sample_transfer_env =
     \<lparr>ft_dump = (\<lambda>m. replicate (to_nat (fm_file_id m, fm_created m, fm_expires m, fm_filename m, fm_content_type m, fm_username m)) CHR ''x''),
      ft_validate = (\<lambda>s. case from_nat (length s) of (i, c, x, f, t, u) \<Rightarrow>
        Some \<lparr>fm_file_id = i, fm_created = c, fm_expires = x, fm_filename = f, fm_content_type = t, fm_username = u\<rparr>),
      ft_options = (\<lambda>_. [])\<rparr>"


text \<open>C38. The cleanup deletes every file: no regular file survives it, whether its meta data are valid and unexpired or not.\<close>

theorem cleanup_deletes_everything:
  "cleanup_file_storage E now st = filter (\<lambda>(name, e). e = Directory) st"
proof -
  have "keep_files E now st = []" by (auto simp: keep_files_def meta_never_valid)
  then show ?thesis by (simp add: cleanup_file_storage_def)
qed

end
