(* ===== verification/Messagebus_Files.thy ===== *)
theory Messagebus_Files
  imports File_Transfer
begin

text \<open>
  Uploads over the messagebus (\<open>opsiconfd/messagebus/filetransfer.py\<close>): a request opens an upload and creates the file,
  numbered chunks are appended to it, and a task for each upload ends it after an error, the last chunk
  or a timeout. Uploads are objects that a task can outlive in the table \<open>file_uploads\<close>, so they live in a list and the
  table holds their positions. Paths are those of \<open>pathlib\<close>; where a path leads (links, \<open>..\<close>) is the operating system's
  matter (\<open>ue_real\<close>). A chunk is handled completely before the next message is read.
\<close>

section \<open>Paths\<close>

record path =
  pa_root :: string
  pa_parts :: "string list"

definition parse_path :: "string \<Rightarrow> path" where
  "parse_path s =
     \<lparr>pa_root = (if \<not> py_startswith s ''/'' then [] else if py_startswith s ''//'' \<and> \<not> py_startswith s ''///'' then ''//'' else ''/''),
      pa_parts = filter (\<lambda>p. p \<noteq> [] \<and> p \<noteq> ''.'') (py_split CHR ''/'' s)\<rparr>"

definition path_join :: "path \<Rightarrow> path \<Rightarrow> path" where
  "path_join p q = (if pa_root q \<noteq> [] then q else p\<lparr>pa_parts := pa_parts p @ pa_parts q\<rparr>)"

definition path_absolute :: "path \<Rightarrow> path \<Rightarrow> path" where
  "path_absolute cwd p = (if pa_root p \<noteq> [] then p else path_join cwd p)"

definition is_relative_to :: "path \<Rightarrow> path \<Rightarrow> bool" where
  "is_relative_to p q = (pa_root p = pa_root q \<and> prefix (pa_parts q) (pa_parts p))"

definition path_name :: "path \<Rightarrow> string" where
  "path_name p = (if pa_parts p = [] then [] else last (pa_parts p))"

definition with_name :: "path \<Rightarrow> string \<Rightarrow> path" where
  "with_name p n = p\<lparr>pa_parts := butlast (pa_parts p) @ [n]\<rparr>"

definition path_parent :: "path \<Rightarrow> path" where
  "path_parent p = p\<lparr>pa_parts := butlast (pa_parts p)\<rparr>"

definition path_str :: "path \<Rightarrow> string" where
  "path_str p = (if pa_root p = [] \<and> pa_parts p = [] then ''.'' else pa_root p @ py_join ''/'' (pa_parts p))"

section \<open>Messages and state\<close>

record upload_request =
  rq_id :: string
  rq_sender :: string
  rq_file_id :: string
  rq_back_channel :: string
  rq_response_channel :: string
  rq_name :: string
  rq_content_type :: string
  rq_destination_dir :: string
  rq_terminal_id :: string

record file_chunk =
  ch_id :: string
  ch_file_id :: string
  ch_back_channel :: string
  ch_response_channel :: string
  ch_number :: int
  ch_last :: bool
  ch_data :: string

datatype file_message = UploadRequest upload_request | FileChunk file_chunk

datatype reply =
    FileError string "string option" string string
  | FileUploadResult string string string string

record file_upload =
  fu_request :: upload_request
  fu_path :: path
  fu_should_stop :: bool
  fu_chunk_number :: int
  fu_last_chunk_time :: int
  fu_managed :: bool

record upload_state =
  us_objs :: "file_upload list"
  us_file_uploads :: "(string \<times> nat) list"
  us_fs :: "(path \<times> entry) list"
  us_sent :: "reply list"

record upload_env =
  ue_cwd :: path
  ue_real :: "path \<Rightarrow> path"
  ue_terminal_cwd :: "string \<Rightarrow> path option"

definition chunk_timeout :: int where
  "chunk_timeout = 300"

section \<open>Opening an upload\<close>

definition path_exists :: "upload_env \<Rightarrow> (path \<times> entry) list \<Rightarrow> path \<Rightarrow> bool" where
  "path_exists E fs p = dict_has fs (ue_real E p)"

text \<open>The loop that appends numbers to the name while the path exists; it ends if some name is free.\<close>

partial_function (option) free_path :: "(path \<Rightarrow> bool) \<Rightarrow> string \<Rightarrow> nat \<Rightarrow> path \<Rightarrow> path option" where
  "free_path ex orig ext p =
     (if ex p then free_path ex orig (Suc ext) (with_name p (orig @ ''.'' @ str_of_nat (Suc ext))) else Some p)"

declare free_path.simps [code]

definition upload_path :: "upload_env \<Rightarrow> upload_request \<Rightarrow> path result" where
  "upload_path E rq =
     bind_res (assert_res (rq_name rq \<noteq> []) (ValueError ''Invalid name'')) (\<lambda>_.
     bind_res (assert_res (rq_content_type rq \<noteq> []) (ValueError ''Invalid content_type'')) (\<lambda>_.
     bind_res
       (of_option
         (if rq_destination_dir rq \<noteq> [] then Some (parse_path (rq_destination_dir rq))
          else if rq_terminal_id rq \<noteq> [] then ue_terminal_cwd E (rq_terminal_id rq) else None) (ValueError ''Invalid destination_dir'')) (\<lambda>dest.
     let p = path_absolute (ue_cwd E) (path_join dest (parse_path (rq_name rq)))
     in if is_relative_to p dest then Inr p else Inl (ValueError ''Invalid name''))))"

text \<open>\<open>None\<close>: the search for a free name does not end.\<close>

definition new_file_upload :: "upload_env \<Rightarrow> int \<Rightarrow> upload_request \<Rightarrow> upload_state \<Rightarrow> (file_upload result \<times> upload_state) option" where
  "new_file_upload E now rq st =
     (case upload_path E rq of
        Inl e \<Rightarrow> Some (Inl e, st)
      | Inr p \<Rightarrow>
          if pa_parts p = [] \<and> path_exists E (us_fs st) p then Some (Inl (ValueError ''empty name''), st)
          else case free_path (path_exists E (us_fs st)) (path_name p) 0 p of
            None \<Rightarrow> None
          | Some q \<Rightarrow>
              if map_of (us_fs st) (path_parent (ue_real E q)) \<noteq> Some Directory then Some (Inl (OtherError ''FileNotFoundError''), st)
              else Some (Inr \<lparr>fu_request = rq, fu_path = q, fu_should_stop = False, fu_chunk_number = 0, fu_last_chunk_time = now, fu_managed = True\<rparr>,
                         st\<lparr>us_fs := dict_set (ue_real E q) (Regular []) (us_fs st)\<rparr>))"

section \<open>Chunks\<close>

definition back_channel :: "file_upload \<Rightarrow> file_chunk option \<Rightarrow> string" where
  "back_channel u m =
     (case m of
        Some c \<Rightarrow> if ch_back_channel c \<noteq> [] then ch_back_channel c
                  else if rq_back_channel (fu_request u) \<noteq> [] then rq_back_channel (fu_request u) else rq_sender (fu_request u)
      | None \<Rightarrow> if rq_back_channel (fu_request u) \<noteq> [] then rq_back_channel (fu_request u) else rq_sender (fu_request u))"

definition send :: "reply \<Rightarrow> upload_state \<Rightarrow> upload_state" where
  "send r st = st\<lparr>us_sent := us_sent st @ [r]\<rparr>"

definition upd_obj :: "nat \<Rightarrow> (file_upload \<Rightarrow> file_upload) \<Rightarrow> upload_state \<Rightarrow> upload_state" where
  "upd_obj a f st = st\<lparr>us_objs := (us_objs st)[a := f (us_objs st ! a)]\<rparr>"

definition upload_error :: "nat \<Rightarrow> string \<Rightarrow> file_chunk option \<Rightarrow> upload_state \<Rightarrow> upload_state" where
  "upload_error a msg m st =
     (let u = us_objs st ! a
      in upd_obj a (fu_should_stop_update (\<lambda>_. True))
           (send (FileError (back_channel u m) (map_option ch_id m) (rq_file_id (fu_request u)) msg) st))"

definition append_to_file :: "upload_env \<Rightarrow> path \<Rightarrow> string \<Rightarrow> (upload_state, unit) prog" where
  "append_to_file E p d = (\<lambda>st.
     case map_of (us_fs st) (ue_real E p) of
       Some Directory \<Rightarrow> (Inl (OtherError ''IsADirectoryError''), st)
     | Some (Regular c) \<Rightarrow> (Inr (), st\<lparr>us_fs := dict_set (ue_real E p) (Regular (c @ d)) (us_fs st)\<rparr>)
     | None \<Rightarrow>
         if map_of (us_fs st) (path_parent (ue_real E p)) \<noteq> Some Directory then (Inl (OtherError ''FileNotFoundError''), st)
         else (Inr (), st\<lparr>us_fs := dict_set (ue_real E p) (Regular d) (us_fs st)\<rparr>))"

definition upload_process_message :: "upload_env \<Rightarrow> int \<Rightarrow> nat \<Rightarrow> file_chunk \<Rightarrow> (upload_state, unit) prog" where
  "upload_process_message E now a c = (\<lambda>st0.
     let st = upd_obj a (fu_last_chunk_time_update (\<lambda>_. now)) st0;
         u = us_objs st ! a
     in if ch_number c \<noteq> fu_chunk_number u + 1 then (Inr (), upload_error a (''Expected chunk number '' @ str_of_int (fu_chunk_number u + 1)) (Some c) st)
        else
          bind_prog (append_to_file E (fu_path u) (ch_data c)) (\<lambda>_.
            when_prog (ch_last c)
              (modify_prog (\<lambda>st. upd_obj a (fu_should_stop_update (\<lambda>_. True))
                 (send (FileUploadResult (back_channel u (Some c)) (ch_id c) (rq_file_id (fu_request u)) (path_str (fu_path u))) st))))
            (upd_obj a (fu_chunk_number_update (\<lambda>_. ch_number c)) st))"

section \<open>Messages and the tasks\<close>

definition file_error :: "string \<Rightarrow> string \<Rightarrow> string \<Rightarrow> string \<Rightarrow> upload_state \<Rightarrow> upload_state" where
  "file_error channel i file_id msg st = (send (FileError channel (Some i) file_id msg) st)\<lparr>us_file_uploads := dict_del file_id (us_file_uploads st)\<rparr>"

definition error_text :: "py_error \<Rightarrow> string" where
  "error_text e = (case e of ValueError s \<Rightarrow> s | RuntimeError s \<Rightarrow> s | OtherError s \<Rightarrow> s | _ \<Rightarrow> [])"

fun file_process_message :: "upload_env \<Rightarrow> int \<Rightarrow> file_message \<Rightarrow> upload_state \<Rightarrow> upload_state option" where
  "file_process_message E now (UploadRequest rq) st =
     (if dict_has (us_file_uploads st) (rq_file_id rq)
      then Some (file_error (rq_response_channel rq) (rq_id rq) (rq_file_id rq) ''File id already taken'' st)
      else case new_file_upload E now rq st of
        None \<Rightarrow> None
      | Some (Inl e, st1) \<Rightarrow> Some (file_error (rq_response_channel rq) (rq_id rq) (rq_file_id rq) (error_text e) st1)
      | Some (Inr u, st1) \<Rightarrow>
          Some (st1\<lparr>us_objs := us_objs st1 @ [u], us_file_uploads := dict_set (rq_file_id rq) (length (us_objs st1)) (us_file_uploads st1)\<rparr>))"
| "file_process_message E now (FileChunk c) st =
     (case map_of (us_file_uploads st) (ch_file_id c) of
        None \<Rightarrow> Some (file_error (ch_response_channel c) (ch_id c) (ch_file_id c) ''Invalid file id'' st)
      | Some a \<Rightarrow>
          (case upload_process_message E now a c st of
             (Inr _, st1) \<Rightarrow> Some st1
           | (Inl e, st1) \<Rightarrow> Some (file_error (ch_response_channel c) (ch_id c) (ch_file_id c) (error_text e) st1)))"

text \<open>One round of the task of an upload: the loop ends when the upload should stop, and then the entry of its id is deleted.\<close>

definition manager_round :: "int \<Rightarrow> nat \<Rightarrow> upload_state \<Rightarrow> upload_state" where
  "manager_round now a st =
     (let u = us_objs st ! a in
      if \<not> fu_managed u then st
      else if fu_should_stop u then
        upd_obj a (fu_managed_update (\<lambda>_. False)) (st\<lparr>us_file_uploads := dict_del (rq_file_id (fu_request u)) (us_file_uploads st)\<rparr>)
      else if fu_last_chunk_time u + chunk_timeout < now then upload_error a ''File transfer timed out while waiting for next chunk'' None st
      else st)"

datatype upload_event = Receive int file_message | Round int nat

fun upload_step :: "upload_env \<Rightarrow> upload_event \<Rightarrow> upload_state \<Rightarrow> upload_state option" where
  "upload_step E (Receive now m) st = file_process_message E now m st"
| "upload_step E (Round now a) st = Some (if a < length (us_objs st) then manager_round now a st else st)"

fun upload_run :: "upload_env \<Rightarrow> upload_event list \<Rightarrow> upload_state \<Rightarrow> upload_state option" where
  "upload_run E [] st = Some st"
| "upload_run E (e # es) st = (case upload_step E e st of None \<Rightarrow> None | Some st1 \<Rightarrow> upload_run E es st1)"

section \<open>The search for a free name ends\<close>

lemma with_name_with_name [simp]: "with_name (with_name p a) b = with_name p b"
  by (simp add: with_name_def)

definition numbered :: "path \<Rightarrow> string \<Rightarrow> nat \<Rightarrow> path" where
  "numbered p orig k = with_name p (orig @ ''.'' @ str_of_nat k)"

lemma free_path_numbered:
  assumes "finite {k. ex (numbered p orig k)}"
  shows "\<exists>k \<ge> n. free_path ex orig n (numbered p orig n) = Some (numbered p orig k) \<and> \<not> ex (numbered p orig k)"
proof (induction "card {k. n \<le> k \<and> ex (numbered p orig k)}" arbitrary: n rule: less_induct)
  case less
  show ?case
  proof (cases "ex (numbered p orig n)")
    case True
    have "finite {k. n \<le> k \<and> ex (numbered p orig k)}" using assms by simp
    moreover have "{k. Suc n \<le> k \<and> ex (numbered p orig k)} \<subset> {k. n \<le> k \<and> ex (numbered p orig k)}"
    proof (rule psubsetI)
      show "{k. Suc n \<le> k \<and> ex (numbered p orig k)} \<subseteq> {k. n \<le> k \<and> ex (numbered p orig k)}" by auto
      have "n \<in> {k. n \<le> k \<and> ex (numbered p orig k)}" "n \<notin> {k. Suc n \<le> k \<and> ex (numbered p orig k)}" using True by simp_all
      then show "{k. Suc n \<le> k \<and> ex (numbered p orig k)} \<noteq> {k. n \<le> k \<and> ex (numbered p orig k)}" by blast
    qed
    ultimately have "card {k. Suc n \<le> k \<and> ex (numbered p orig k)} < card {k. n \<le> k \<and> ex (numbered p orig k)}" by (rule psubset_card_mono)
    then obtain k where k: "Suc n \<le> k" "free_path ex orig (Suc n) (numbered p orig (Suc n)) = Some (numbered p orig k)" "\<not> ex (numbered p orig k)"
      using less by blast
    then show ?thesis using True free_path.simps[of ex orig n "numbered p orig n"] by (intro exI[of _ k]) (simp add: numbered_def)
  next
    case False
    then show ?thesis using free_path.simps[of ex orig n "numbered p orig n"] by (intro exI[of _ n]) simp
  qed
qed

lemma free_path_ends:
  assumes "finite {k. ex (numbered p orig k)}"
  shows "\<exists>q. free_path ex orig 0 p = Some q \<and> \<not> ex q \<and> (q = p \<or> (\<exists>k. q = numbered p orig k))"
proof (cases "ex p")
  case True
  obtain k where "free_path ex orig 1 (numbered p orig 1) = Some (numbered p orig k)" "\<not> ex (numbered p orig k)"
    using free_path_numbered[OF assms, of 1] by blast
  then show ?thesis using True free_path.simps[of ex orig 0 p] by (auto simp: numbered_def)
next
  case False
  then show ?thesis using free_path.simps[of ex orig 0 p] by simp
qed

lemma free_path_free: "free_path ex orig n p = Some q \<Longrightarrow> \<not> ex q"
  by (induction rule: free_path.raw_induct[rotated, consumes 1]) (auto split: if_splits, blast)

section \<open>Uploads do not disturb each other\<close>

definition real_path :: "upload_env \<Rightarrow> file_upload \<Rightarrow> path" where
  "real_path E u = ue_real E (fu_path u)"

text \<open>Every upload has a file of its own.\<close>

definition uploads_ok :: "upload_env \<Rightarrow> upload_state \<Rightarrow> bool" where
  "uploads_ok E st \<longleftrightarrow>
     distinct (map (real_path E) (us_objs st)) \<and> (\<forall>u \<in> set (us_objs st). \<exists>c. map_of (us_fs st) (real_path E u) = Some (Regular c)) \<and>
     (\<forall>(i, a) \<in> set (us_file_uploads st). a < length (us_objs st))"

definition upload_content :: "upload_env \<Rightarrow> upload_state \<Rightarrow> nat \<Rightarrow> string" where
  "upload_content E st a = (case map_of (us_fs st) (real_path E (us_objs st ! a)) of Some (Regular c) \<Rightarrow> c | _ \<Rightarrow> [])"

text \<open>The upload and the data of a chunk that is accepted.\<close>

fun accepted :: "upload_event \<Rightarrow> upload_state \<Rightarrow> (nat \<times> string) option" where
  "accepted (Receive now (FileChunk c)) st =
     (case map_of (us_file_uploads st) (ch_file_id c) of
        None \<Rightarrow> None
      | Some a \<Rightarrow> if ch_number c = fu_chunk_number (us_objs st ! a) + 1 then Some (a, ch_data c) else None)"
| "accepted e st = None"

definition accepted_for :: "nat \<Rightarrow> upload_event \<Rightarrow> upload_state \<Rightarrow> string list" where
  "accepted_for a e st = (case accepted e st of None \<Rightarrow> [] | Some (b, d) \<Rightarrow> if b = a then [d] else [])"

fun received :: "upload_env \<Rightarrow> nat \<Rightarrow> upload_event list \<Rightarrow> upload_state \<Rightarrow> string list" where
  "received E a [] st = []"
| "received E a (e # es) st = accepted_for a e st @ (case upload_step E e st of None \<Rightarrow> [] | Some st1 \<Rightarrow> received E a es st1)"

text \<open>What a step may do to the uploads there are: it keeps their files apart and appends what is accepted.\<close>

definition steps_to :: "upload_env \<Rightarrow> upload_state \<Rightarrow> (nat \<Rightarrow> string list) \<Rightarrow> upload_state \<Rightarrow> bool" where
  "steps_to E st data st1 \<longleftrightarrow>
     uploads_ok E st1 \<and> length (us_objs st) \<le> length (us_objs st1) \<and>
     (\<forall>a < length (us_objs st). fu_path (us_objs st1 ! a) = fu_path (us_objs st ! a) \<and>
        upload_content E st1 a = upload_content E st a @ concat (data a) \<and>
        fu_chunk_number (us_objs st1 ! a) = fu_chunk_number (us_objs st ! a) + int (length (data a)))"

text \<open>Steps that touch neither files nor numbers.\<close>

lemma steps_to_idle:
  assumes "uploads_ok E st" "us_fs st1 = us_fs st" "length (us_objs st1) = length (us_objs st)"
    and "\<forall>a < length (us_objs st). fu_path (us_objs st1 ! a) = fu_path (us_objs st ! a) \<and> fu_chunk_number (us_objs st1 ! a) = fu_chunk_number (us_objs st ! a)"
    and "set (us_file_uploads st1) \<subseteq> set (us_file_uploads st)"
  shows "steps_to E st (\<lambda>_. []) st1"
proof -
  have paths: "map (real_path E) (us_objs st1) = map (real_path E) (us_objs st)"
    using assms(3,4) by (intro nth_equalityI) (simp_all add: real_path_def)
  then have im: "real_path E ` set (us_objs st1) = real_path E ` set (us_objs st)" by (metis set_map)
  have "uploads_ok E st1" unfolding uploads_ok_def
  proof (intro conjI)
    show "distinct (map (real_path E) (us_objs st1))" unfolding paths using assms(1) by (simp add: uploads_ok_def)
    show "\<forall>(i, a) \<in> set (us_file_uploads st1). a < length (us_objs st1)" unfolding assms(3) using assms(1,5) by (auto simp: uploads_ok_def)
    show "\<forall>u \<in> set (us_objs st1). \<exists>c. map_of (us_fs st1) (real_path E u) = Some (Regular c)"
    proof
      fix u
      assume "u \<in> set (us_objs st1)"
      then obtain v where "v \<in> set (us_objs st)" "real_path E u = real_path E v" using im by blast
      then show "\<exists>c. map_of (us_fs st1) (real_path E u) = Some (Regular c)" unfolding assms(2) using assms(1) by (simp add: uploads_ok_def)
    qed
  qed
  then show ?thesis using assms(2-4) by (auto simp: steps_to_def upload_content_def real_path_def)
qed

lemma nth_upd_obj: "us_objs (upd_obj a f st) ! b = (if b = a \<and> a < length (us_objs st) then f (us_objs st ! a) else us_objs st ! b)"
  by (cases "a < length (us_objs st)") (auto simp: upd_obj_def nth_list_update list_update_beyond)

lemma upd_obj_fields [simp]:
  "us_fs (upd_obj a f st) = us_fs st" "us_file_uploads (upd_obj a f st) = us_file_uploads st" "length (us_objs (upd_obj a f st)) = length (us_objs st)"
  "us_fs (send r st) = us_fs st" "us_file_uploads (send r st) = us_file_uploads st" "us_objs (send r st) = us_objs st"
  by (simp_all add: upd_obj_def send_def)

lemma file_error_fields [simp]:
  "us_fs (file_error ch i k m st) = us_fs st" "us_objs (file_error ch i k m st) = us_objs st"
  "us_file_uploads (file_error ch i k m st) = dict_del k (us_file_uploads st)"
  by (simp_all add: file_error_def send_def)

lemma dict_del_subset: "set (dict_del k d) \<subseteq> set d"
  by (simp add: AList.delete_eq filter_is_subset)

text \<open>A round of a task, a refused message, a chunk with another number.\<close>

lemma upload_error_fields [simp]:
  "us_fs (upload_error a m c st) = us_fs st" "us_file_uploads (upload_error a m c st) = us_file_uploads st"
  "length (us_objs (upload_error a m c st)) = length (us_objs st)"
  "fu_path (us_objs (upload_error a m c st) ! b) = fu_path (us_objs st ! b)"
  "fu_chunk_number (us_objs (upload_error a m c st) ! b) = fu_chunk_number (us_objs st ! b)"
  by (simp_all add: upload_error_def Let_def nth_upd_obj)

lemma manager_round_idle:
  assumes "uploads_ok E st"
  shows "steps_to E st (\<lambda>_. []) (manager_round now a st)"
  using assms by (rule steps_to_idle) (auto simp: manager_round_def Let_def nth_upd_obj dest: subsetD[OF dict_del_subset])

lemma file_error_idle:
  assumes "uploads_ok E st"
  shows "steps_to E st (\<lambda>_. []) (file_error ch i k m st)"
  using assms by (rule steps_to_idle) (auto dest: subsetD[OF dict_del_subset])

text \<open>An accepted chunk.\<close>

lemma upload_process_accepted:
  assumes "uploads_ok E st" "a < length (us_objs st)" "ch_number c = fu_chunk_number (us_objs st ! a) + 1"
  shows "\<exists>st1. upload_process_message E now a c st = (Inr (), st1) \<and> steps_to E st (\<lambda>b. if b = a then [ch_data c] else []) st1"
proof -
  let ?u = "us_objs st ! a"
  obtain old where old: "map_of (us_fs st) (real_path E ?u) = Some (Regular old)" using assms(1,2) unfolding uploads_ok_def by (meson nth_mem)
  let ?st0 = "upd_obj a (fu_chunk_number_update (\<lambda>_. ch_number c)) (upd_obj a (fu_last_chunk_time_update (\<lambda>_. now)) st)"
  let ?fs = "dict_set (real_path E ?u) (Regular (old @ ch_data c)) (us_fs st)"
  let ?st2 = "?st0\<lparr>us_fs := ?fs\<rparr>"
  let ?r = "FileUploadResult (back_channel (?u\<lparr>fu_last_chunk_time := now\<rparr>) (Some c)) (ch_id c) (rq_file_id (fu_request ?u)) (path_str (fu_path ?u))"
  define st1 where "st1 = (if ch_last c then upd_obj a (fu_should_stop_update (\<lambda>_. True)) (send ?r ?st2) else ?st2)"
  have run: "upload_process_message E now a c st = (Inr (), st1)"
    using assms(2,3) old by (cases "ch_last c") (simp_all add: st1_def upload_process_message_def append_to_file_def bind_prog_def nth_upd_obj Let_def real_path_def)
  have st1: "us_fs st1 = ?fs" "us_file_uploads st1 = us_file_uploads st" "length (us_objs st1) = length (us_objs st)"
    "\<forall>b. fu_path (us_objs st1 ! b) = fu_path (us_objs st ! b)"
    "\<forall>b. fu_chunk_number (us_objs st1 ! b) = (if b = a then ch_number c else fu_chunk_number (us_objs st ! b))"
    using assms(2) by (simp_all add: st1_def nth_upd_obj)
  have real: "real_path E (us_objs st1 ! b) = real_path E (us_objs st ! b)" for b using st1(4) by (simp add: real_path_def)
  have paths: "map (real_path E) (us_objs st1) = map (real_path E) (us_objs st)" using st1(3) real by (intro nth_equalityI) simp_all
  have other: "real_path E (us_objs st ! b) \<noteq> real_path E ?u" if "b < length (us_objs st)" "b \<noteq> a" for b
    using assms(1,2) that unfolding uploads_ok_def by (auto simp: distinct_conv_nth)
  have "uploads_ok E st1" unfolding uploads_ok_def
  proof (intro conjI)
    show "distinct (map (real_path E) (us_objs st1))" unfolding paths using assms(1) by (simp add: uploads_ok_def)
    show "\<forall>(i, b) \<in> set (us_file_uploads st1). b < length (us_objs st1)" unfolding st1 using assms(1) by (simp add: uploads_ok_def)
    show "\<forall>u \<in> set (us_objs st1). \<exists>d. map_of (us_fs st1) (real_path E u) = Some (Regular d)"
    proof
      fix u assume "u \<in> set (us_objs st1)"
      then obtain b where "b < length (us_objs st)" "u = us_objs st1 ! b" using st1(3) by (metis in_set_conv_nth)
      then show "\<exists>d. map_of (us_fs st1) (real_path E u) = Some (Regular d)"
        using assms(1) real st1(1) unfolding uploads_ok_def by (simp add: nth_mem)
    qed
  qed
  moreover have "upload_content E st1 b = upload_content E st b @ concat (if b = a then [ch_data c] else [])" if "b < length (us_objs st)" for b
    using other[OF that] old by (simp add: upload_content_def real st1(1))
  ultimately show ?thesis using run st1 assms(3) by (intro exI[of _ st1]) (auto simp: steps_to_def)
qed

lemma upload_process_refused:
  assumes "uploads_ok E st" "ch_number c \<noteq> fu_chunk_number (us_objs st ! a) + 1"
  shows "\<exists>st1. upload_process_message E now a c st = (Inr (), st1) \<and> steps_to E st (\<lambda>_. []) st1"
proof -
  have num: "fu_chunk_number (us_objs (upd_obj a (fu_last_chunk_time_update (\<lambda>_. now)) st) ! b) = fu_chunk_number (us_objs st ! b)"
    "fu_path (us_objs (upd_obj a (fu_last_chunk_time_update (\<lambda>_. now)) st) ! b) = fu_path (us_objs st ! b)" for b by (simp_all add: nth_upd_obj)
  have "steps_to E st (\<lambda>_. []) (upload_error a m k (upd_obj a (fu_last_chunk_time_update (\<lambda>_. now)) st))" for m k
    using assms(1) by (rule steps_to_idle) (simp_all add: num)
  then show ?thesis using assms(2) by (simp add: upload_process_message_def Let_def num)
qed

text \<open>A new upload gets a file that did not exist.\<close>

lemma new_upload_steps:
  assumes "uploads_ok E st" "new_file_upload E now rq st = Some (Inr u, st1)"
  shows "steps_to E st (\<lambda>_. []) (st1\<lparr>us_objs := us_objs st1 @ [u], us_file_uploads := dict_set i (length (us_objs st1)) (us_file_uploads st1)\<rparr>)"
    and "us_objs st1 = us_objs st" "upload_content E (st1\<lparr>us_objs := us_objs st1 @ [u], us_file_uploads := x\<rparr>) (length (us_objs st)) = []"
    and "fu_chunk_number u = 0"
proof -
  obtain p where p: "free_path (path_exists E (us_fs st)) (path_name p) 0 p = Some (fu_path u)" "fu_chunk_number u = 0"
    "st1 = st\<lparr>us_fs := dict_set (real_path E u) (Regular []) (us_fs st)\<rparr>"
    using assms(2) by (auto simp: new_file_upload_def real_path_def split: sum.splits if_splits option.splits)
  have fresh: "map_of (us_fs st) (real_path E u) = None"
    using free_path_free[OF p(1)] by (simp add: path_exists_def dict_has_iff real_path_def)
  have other: "real_path E v \<noteq> real_path E u" if "v \<in> set (us_objs st)" for v
    using assms(1) that fresh unfolding uploads_ok_def by fastforce
  let ?st = "st1\<lparr>us_objs := us_objs st1 @ [u], us_file_uploads := dict_set i (length (us_objs st1)) (us_file_uploads st1)\<rparr>"
  have "uploads_ok E ?st" unfolding uploads_ok_def
  proof (intro conjI)
    show "distinct (map (real_path E) (us_objs ?st))" using assms(1) other by (force simp: uploads_ok_def p(3))
    show "\<forall>v \<in> set (us_objs ?st). \<exists>c. map_of (us_fs ?st) (real_path E v) = Some (Regular c)"
      using assms(1) other by (auto simp: uploads_ok_def p(3))
    show "\<forall>(j, a) \<in> set (us_file_uploads ?st). a < length (us_objs ?st)"
    proof -
      have "set (dict_set i n d) \<subseteq> insert (i, n) (set d)" for n :: nat and d by (induction d) auto
      then show ?thesis using assms(1) by (fastforce simp: uploads_ok_def p(3))
    qed
  qed
  then show "steps_to E st (\<lambda>_. []) ?st" using other
    by (auto simp: steps_to_def p(3) upload_content_def nth_append)
  show "us_objs st1 = us_objs st" "fu_chunk_number u = 0" using p by simp_all
  show "upload_content E (st1\<lparr>us_objs := us_objs st1 @ [u], us_file_uploads := x\<rparr>) (length (us_objs st)) = []"
    by (simp add: upload_content_def p(3))
qed

lemma upload_step_ok:
  assumes "uploads_ok E st" "upload_step E e st = Some st1"
  shows "steps_to E st (\<lambda>a. accepted_for a e st) st1"
proof (cases e)
  case (Round now a)
  then have "accepted_for b e st = []" for b by (simp add: accepted_for_def)
  moreover have "steps_to E st (\<lambda>_. []) st" using assms(1) by (rule steps_to_idle) simp_all
  ultimately show ?thesis using assms manager_round_idle[OF assms(1)] Round by (auto split: if_splits)
next
  case (Receive now m)
  show ?thesis
  proof (cases m)
    case (UploadRequest rq)
    have none: "accepted_for b e st = []" for b using Receive UploadRequest by (simp add: accepted_for_def)
    show ?thesis
    proof (cases "dict_has (us_file_uploads st) (rq_file_id rq)")
      case True
      then show ?thesis using assms Receive UploadRequest none file_error_idle by auto
    next
      case False
      show ?thesis
      proof (cases "\<exists>u st2. new_file_upload E now rq st = Some (Inr u, st2)")
        case True
        then show ?thesis using assms False Receive UploadRequest none new_upload_steps(1)[OF assms(1)] by auto
      next
        case refused: False
        have "st2 = st" if "new_file_upload E now rq st = Some (Inl x, st2)" for x st2
          using that by (auto simp: new_file_upload_def split: sum.splits if_splits option.splits)
        then show ?thesis using assms False refused Receive UploadRequest none file_error_idle
          by (auto split: option.splits sum.splits prod.splits)
      qed
    qed
  next
    case (FileChunk c)
    show ?thesis
    proof (cases "map_of (us_file_uploads st) (ch_file_id c)")
      case None
      then have "accepted_for b e st = []" for b using Receive FileChunk by (simp add: accepted_for_def)
      then show ?thesis using assms Receive FileChunk None file_error_idle by auto
    next
      case (Some a)
      have a: "a < length (us_objs st)" using assms(1) map_of_SomeD[OF Some] by (auto simp: uploads_ok_def)
      show ?thesis
      proof (cases "ch_number c = fu_chunk_number (us_objs st ! a) + 1")
        case True
        then have "(\<lambda>b. accepted_for b e st) = (\<lambda>b. if b = a then [ch_data c] else [])"
          using Receive FileChunk Some by (auto simp: accepted_for_def)
        then show ?thesis using upload_process_accepted[OF assms(1) a True, of now] assms(2) Receive FileChunk Some by auto
      next
        case False
        then have "(\<lambda>b. accepted_for b e st) = (\<lambda>_. [])" using Receive FileChunk Some by (auto simp: accepted_for_def)
        then show ?thesis using upload_process_refused[OF assms(1) False, of now] assms(2) Receive FileChunk Some by auto
      qed
    qed
  qed
qed

lemma upload_run_content:
  assumes "uploads_ok E st" "upload_run E es st = Some st'" "a < length (us_objs st)"
  shows "upload_content E st' a = upload_content E st a @ concat (received E a es st) \<and>
    fu_chunk_number (us_objs st' ! a) = fu_chunk_number (us_objs st ! a) + int (length (received E a es st))"
  using assms
proof (induction es arbitrary: st)
  case (Cons e es)
  obtain st1 where st1: "upload_step E e st = Some st1" "upload_run E es st1 = Some st'" using Cons.prems(2) by (auto split: option.splits)
  note s = upload_step_ok[OF Cons.prems(1) st1(1), unfolded steps_to_def]
  show ?case using Cons.IH[OF _ st1(2)] s Cons.prems(3) st1(1) by simp
qed simp

text \<open>After an error, and after the last chunk, chunks are still accepted until the task has run.\<close>

lemma stopped_upload_accepts:
  assumes "uploads_ok E st" "a < length (us_objs st)" "fu_should_stop (us_objs st ! a)" "ch_number c = fu_chunk_number (us_objs st ! a) + 1"
  shows "\<exists>st1. upload_process_message E now a c st = (Inr (), st1) \<and> upload_content E st1 a = upload_content E st a @ ch_data c"
  using upload_process_accepted[OF assms(1,2,4)] assms(2) by (fastforce simp: steps_to_def)

text \<open>A second request for an id, from whomever, ends the upload that has it.\<close>

lemma second_request_ends_upload:
  assumes "dict_has (us_file_uploads st) (rq_file_id rq)" "file_process_message E now (UploadRequest rq) st = Some st1"
  shows "map_of (us_file_uploads st1) (rq_file_id rq) = None"
  using assms by auto

section \<open>Where files are created\<close>

lemma free_path_shape: "free_path ex orig n p = Some q \<Longrightarrow> q = p \<or> (\<exists>k. q = numbered p orig k)"
  by (induction rule: free_path.raw_induct[rotated, consumes 1]) (auto simp: numbered_def split: if_splits, metis with_name_with_name)

lemma numbered_no_dots: "orig @ ''.'' @ str_of_nat k \<noteq> ''..''"
proof
  assume "orig @ ''.'' @ str_of_nat k = ''..''"
  then have "last (orig @ ''.'' @ str_of_nat k) = CHR ''.''" by simp
  moreover have "str_of_nat k \<noteq> []" by (simp add: str_of_nat.simps[of k])
  moreover have "digit_char d \<noteq> CHR ''.''" if "d < 10" for d
  proof
    assume "digit_char d = CHR ''.''"
    then have "of_char (digit_char d) = (of_char CHR ''.'' :: nat)" by simp
    then show False using of_char_digit_char[OF that] by simp
  qed
  then have "last (str_of_nat k) \<noteq> CHR ''.''" by (simp add: str_of_nat.simps[of k])
  ultimately show False by simp
qed

text \<open>The check of the path: the parts of the directory come first.\<close>

lemma upload_path_inside:
  assumes "upload_path E rq = Inr p" "rq_destination_dir rq \<noteq> []" "pa_root (ue_cwd E) \<noteq> []" "''..'' \<notin> set (pa_parts (parse_path (rq_name rq)))"
  shows "\<exists>rest. p = (parse_path (rq_destination_dir rq))\<lparr>pa_parts := pa_parts (parse_path (rq_destination_dir rq)) @ rest\<rparr> \<and> ''..'' \<notin> set rest"
proof -
  let ?d = "parse_path (rq_destination_dir rq)" and ?n = "parse_path (rq_name rq)"
  have p: "p = path_absolute (ue_cwd E) (path_join ?d ?n)" "is_relative_to p ?d"
    using assms(1,2) by (auto simp: upload_path_def of_option_def bind_res_Inr_iff Let_def split: if_splits)
  obtain rest where rest: "pa_parts p = pa_parts ?d @ rest" "pa_root p = pa_root ?d" using p(2) by (auto simp: is_relative_to_def prefix_def)
  have "''..'' \<notin> set rest"
  proof (cases "pa_root ?n \<noteq> []")
    case True
    then have "p = ?n" using p(1) by (simp add: path_join_def path_absolute_def)
    then show ?thesis using rest(1) assms(4) by auto
  next
    case False
    have "pa_root ?d \<noteq> []" using p(1) rest(2) assms(3) False by (auto simp: path_join_def path_absolute_def split: if_splits)
    then have "pa_parts p = pa_parts ?d @ pa_parts ?n" using p(1) False by (simp add: path_join_def path_absolute_def)
    then show ?thesis using rest(1) assms(4) by simp
  qed
  then show ?thesis using rest by (intro exI[of _ rest]) simp
qed

text \<open>The path as far as \<open>..\<close> goes, for a file system without links.\<close>

definition normal_path :: "path \<Rightarrow> path" where
  "normal_path p = p\<lparr>pa_parts := fold (\<lambda>q acc. if q = ''..'' then butlast acc else acc @ [q]) (pa_parts p) []\<rparr>"

definition sample_upload_env :: upload_env where
  "sample_upload_env = \<lparr>ue_cwd = \<lparr>pa_root = ''/'', pa_parts = []\<rparr>, ue_real = normal_path, ue_terminal_cwd = (\<lambda>_. None)\<rparr>"

definition sample_upload_request :: "string \<Rightarrow> upload_request" where
  "sample_upload_request name = \<lparr>rq_id = ''1'', rq_sender = ''s'', rq_file_id = ''f'', rq_back_channel = [], rq_response_channel = ''s'', rq_name = name,
     rq_content_type = ''text/plain'', rq_destination_dir = ''/srv/up'', rq_terminal_id = []\<rparr>"

definition sample_upload_state :: upload_state where
  "sample_upload_state = \<lparr>us_objs = [], us_file_uploads = [], us_fs = map (\<lambda>d. (parse_path d, Directory)) [''/'', ''/srv'', ''/srv/up'', ''/etc''], us_sent = []\<rparr>"

section \<open>Properties\<close>

text \<open>C24. The file of an upload holds the data of the accepted chunks in the order of their numbers, whatever other messages
  and tasks run in between: content and chunk number grow exactly by what was accepted for it.\<close>

theorem upload_holds_its_chunks:
  assumes "uploads_ok E st" "upload_run E es st = Some st'" "a < length (us_objs st)"
  shows "upload_content E st' a = upload_content E st a @ concat (received E a es st) \<and>
    fu_chunk_number (us_objs st' ! a) = fu_chunk_number (us_objs st ! a) + int (length (received E a es st))"
  by (rule upload_run_content[OF assms])

definition sample_chunk :: "int \<Rightarrow> string \<Rightarrow> file_chunk" where
  "sample_chunk n d = \<lparr>ch_id = ''2'', ch_file_id = ''f'', ch_back_channel = [], ch_response_channel = ''s'', ch_number = n, ch_last = False, ch_data = d\<rparr>"

definition sample_opened :: upload_state where
  "sample_opened = sample_upload_state\<lparr>us_objs := [\<lparr>fu_request = sample_upload_request ''x'', fu_path = parse_path ''/srv/up/x'', fu_should_stop = False,
       fu_chunk_number = 0, fu_last_chunk_time = 0, fu_managed = True\<rparr>], us_file_uploads := [(''f'', 0)],
     us_fs := us_fs sample_upload_state @ [(parse_path ''/srv/up/x'', Regular [])]\<rparr>"

theorem upload_holds_its_chunks_witness:
  "\<exists>st'. upload_run sample_upload_env [Receive 1 (FileChunk (sample_chunk 1 ''ab'')), Receive 2 (FileChunk (sample_chunk 3 ''zz'')),
      Receive 3 (FileChunk (sample_chunk 2 ''cd''))] sample_opened = Some st' \<and> upload_content sample_upload_env st' 0 = ''abcd''"
proof -
  let ?es = "[Receive 1 (FileChunk (sample_chunk 1 ''ab'')), Receive 2 (FileChunk (sample_chunk 3 ''zz'')), Receive 3 (FileChunk (sample_chunk 2 ''cd''))]"
  have "upload_run sample_upload_env ?es sample_opened \<noteq> None" by code_simp
  then obtain st' where st': "upload_run sample_upload_env ?es sample_opened = Some st'" by blast
  have ok: "uploads_ok sample_upload_env sample_opened"
  proof -
    have "map_of (us_fs sample_opened) (real_path sample_upload_env (us_objs sample_opened ! 0)) = Some (Regular [])" by code_simp
    then show ?thesis by (simp add: uploads_ok_def sample_opened_def)
  qed
  have "received sample_upload_env 0 ?es sample_opened = [''ab'', ''cd'']" by code_simp
  moreover have "upload_content sample_upload_env sample_opened 0 = []" by code_simp
  moreover have "0 < length (us_objs sample_opened)" by code_simp
  ultimately have "upload_content sample_upload_env st' 0 = ''abcd''" using upload_holds_its_chunks[OF ok st', of 0] by simp
  then show ?thesis using st' by blast
qed



text \<open>C40. A file is created inside the directory of the request, if the name has no part \<open>..\<close> and does not denote the directory
  itself: the path consists of the parts of the directory followed by at least one more, none of them \<open>..\<close>.\<close>

theorem upload_inside_directory:
  assumes "new_file_upload E now rq st = Some (Inr u, st')" "rq_destination_dir rq \<noteq> []" "pa_root (ue_cwd E) \<noteq> []"
    and "''..'' \<notin> set (pa_parts (parse_path (rq_name rq)))" "upload_path E rq \<noteq> Inr (parse_path (rq_destination_dir rq))"
  shows "\<exists>rest. fu_path u = (parse_path (rq_destination_dir rq))\<lparr>pa_parts := pa_parts (parse_path (rq_destination_dir rq)) @ rest\<rparr> \<and>
    rest \<noteq> [] \<and> ''..'' \<notin> set rest"
proof -
  let ?d = "parse_path (rq_destination_dir rq)"
  obtain p where p: "upload_path E rq = Inr p" "free_path (path_exists E (us_fs st)) (path_name p) 0 p = Some (fu_path u)"
    using assms(1) by (auto simp: new_file_upload_def split: sum.splits if_splits option.splits)
  obtain rest where rest: "p = ?d\<lparr>pa_parts := pa_parts ?d @ rest\<rparr>" "''..'' \<notin> set rest" using upload_path_inside[OF p(1) assms(2-4)] by blast
  have ne: "rest \<noteq> []" using rest(1) p(1) assms(5) by auto
  from free_path_shape[OF p(2)] show ?thesis
  proof (elim disjE exE)
    assume "fu_path u = p"
    then show ?thesis using rest ne by blast
  next
    fix k
    assume "fu_path u = numbered p (path_name p) k"
    then have "fu_path u = ?d\<lparr>pa_parts := pa_parts ?d @ butlast rest @ [path_name p @ ''.'' @ str_of_nat k]\<rparr>"
      using rest(1) ne by (simp add: numbered_def with_name_def butlast_append)
    moreover have "''..'' \<notin> set (butlast rest @ [path_name p @ ''.'' @ str_of_nat k])"
      using rest(2) numbered_no_dots[of "path_name p" k] in_set_butlastD by fastforce
    ultimately show ?thesis by blast
  qed
qed

theorem upload_inside_directory_witness:
  "\<exists>u st' rest. new_file_upload sample_upload_env 0 (sample_upload_request ''x'') sample_upload_state = Some (Inr u, st') \<and>
    fu_path u = (parse_path ''/srv/up'')\<lparr>pa_parts := [''srv'', ''up''] @ rest\<rparr> \<and> rest \<noteq> []"
proof -
  let ?rq = "sample_upload_request ''x''"
  have "case new_file_upload sample_upload_env 0 ?rq sample_upload_state of Some (Inr u, _) \<Rightarrow> True | _ \<Rightarrow> False" by code_simp
  then obtain u st' where n: "new_file_upload sample_upload_env 0 ?rq sample_upload_state = Some (Inr u, st')"
    by (auto split: option.splits sum.splits)
  have "rq_destination_dir ?rq = ''/srv/up''" by (simp add: sample_upload_request_def)
  moreover have "pa_parts (parse_path ''/srv/up'') = [''srv'', ''up'']" by code_simp
  moreover have "pa_root (ue_cwd sample_upload_env) \<noteq> []" "''..'' \<notin> set (pa_parts (parse_path (rq_name ?rq)))"
    "upload_path sample_upload_env ?rq \<noteq> Inr (parse_path (rq_destination_dir ?rq))" by code_simp+
  ultimately show ?thesis using upload_inside_directory[OF n] n by auto
qed

text \<open>A name with \<open>..\<close> passes the check and creates a file anywhere: for the directory \<open>/srv/up\<close> the name \<open>../../etc/x\<close>
  creates \<open>/etc/x\<close>.\<close>

theorem upload_escapes_directory:
  "map_option (\<lambda>st. map_of (us_fs st) (parse_path ''/etc/x''))
     (file_process_message sample_upload_env 0 (UploadRequest (sample_upload_request ''../../etc/x'')) sample_upload_state) = Some (Some (Regular []))"
  by code_simp

end
