(* ===== verification/Spec2Isabelle.thy ===== *)
theory Spec2Isabelle
  imports Middleware Mysql_Query Product_Actions Jsonrpc Dhcpd_Control License Messagebus_Files
begin

text \<open>
  opsiconfd is the configuration service of the client management system opsi. Clients, depot servers and
  administrators talk to it over HTTPS: JSON-RPC calls against a backend in MySQL, a websocket messagebus
  on redis streams, and WebDAV. Several workers share the sessions, the caches and the messagebus through redis.
  This development translates the code that decides who may do what, what a call returns, and what is stored,
  and proves that it does so correctly. Paths below are relative to \<open>src/opsiconfd\<close>.

  \<^bold>\<open>How a request travels.\<close> The middleware (\<open>Middleware\<close>) checks load, maintenance mode and networks and gets a
  session from the session manager (\<open>Session_Manager\<close>), which finds it among the sessions of the worker, loads it
  from redis (\<open>Session_Store\<close>) or makes a new one (\<open>Session\<close>). A session that is not authenticated is
  authenticated (\<open>Authentication\<close>). A JSON-RPC request (\<open>Jsonrpc\<close>) calls a decorated method of the backend
  (\<open>Rpc_Method\<close>), which asks for the access control entries that apply to the session (\<open>Access\<close>, read by
  \<open>Acl\<close>); the database layer turns them into column expressions and conditions (\<open>Mysql_Columns\<close>, \<open>Mysql_Query\<close>).
  A websocket client (\<open>Messagebus_Websocket\<close>) sends messages into redis streams (\<open>Messagebus_Redis\<close>) whose names are
  checked by \<open>Messagebus_Channels\<close>; the JSON-RPC worker reads them and executes calls with the session that
  came along as context. The theorems of \<open>Jsonrpc\<close>, \<open>Middleware\<close> and \<open>Mysql_Query\<close> span several of these parts.

  \<^bold>\<open>Theories, sources and what is shown.\<close>
  \<^item> \<open>Opsi_Prelude\<close>, \<open>Py_Strings\<close>, \<open>Py_Values\<close>: exceptions and results, stateful code that may raise (\<open>prog\<close>: an exception keeps
    the assignments made before it), dictionaries in insertion order with the locale \<open>dictionary\<close>, the string methods of
    Python, the values of the RPC interface.
  \<^item> \<open>Acl\<close> (\<open>backend/auth.py\<close>): \<open>read_acl_file\<close>. Reading a printed list gives its entries; every entry is well formed.
  \<^item> \<open>Access\<close> (\<open>backend/rpc/main.py\<close>): loading the list, \<open>_get_ace\<close>, \<open>_check_role\<close>, \<open>_check_module\<close>. The entries are shared
    objects in a store; the decision is nevertheless a function of list and session.
  \<^item> \<open>Session\<close>, \<open>Session_Store\<close>, \<open>Session_Manager\<close> (\<open>session.py\<close>, \<open>redis.py\<close>): the session object with its modification tracking
    (an interpretation of the locale of tracked attributes for every attribute), serialisation, storing, loading, deleting,
    the limit per address, the manager task. Round trips, equivalence of incremental storing, limits, cleaning up.
  \<^item> \<open>Authentication\<close>, \<open>Middleware\<close> (\<open>session.py\<close>, \<open>auth/__init__.py\<close>, \<open>application/session.py\<close>): evidence behind every
    authenticated session, failing closed, and the authorisation of every request that reaches the application.
  \<^item> \<open>Mysql_Columns\<close>, \<open>Mysql_Query\<close> (\<open>backend/mysql/__init__.py\<close>): select expressions, WHERE, INSERT, UPDATE, DELETE and retries. The
    text of the statements is given a meaning on rows; what is selected, written and deleted is exactly what filter and
    entries allow.
  \<^item> \<open>Product_Sort\<close>, \<open>Product_Actions\<close> (\<open>backend/rpc/obj_product_dependency.py\<close>): the dependency sort converges and respects
    requirements; following requirements terminates, every product is scheduled once.
  \<^item> \<open>Rpc_Method\<close> (\<open>backend/rpc/__init__.py\<close>, \<open>backend/rpc/cache.py\<close>): the decorator and its cache; the cache is transparent for calls
    that do not overlap, and is not for calls that do.
  \<^item> \<open>Jsonrpc\<close> (\<open>application/jsonrpc.py\<close>): requests over HTTP and messagebus; batches, statistics, and that a call runs with the
    rights of its sender.
  \<^item> \<open>Messagebus_Channels\<close>, \<open>Messagebus_Redis\<close>, \<open>Messagebus_Websocket\<close> (\<open>messagebus/\<close>): channel names, readers and their counts,
    acknowledgement, access to channels; subscriptions refine operations on sets of channels.
  \<^item> \<open>Config_State\<close> (\<open>backend/rpc/obj_config.py\<close>, \<open>backend/rpc/obj_config_state.py\<close>): values of configurations and the depots of clients; the
    loops implement the order of precedence, and every client has one depot.
  \<^item> \<open>License\<close> (\<open>backend/rpc/obj_license_on_client.py\<close>): licenses for clients. Requests one after another stay within the limits;
    with requests at the same time, whose reads and writes interleave, they need not.
  \<^item> \<open>File_Transfer\<close> (\<open>application/filetransfer.py\<close>): files stored for a transfer; what is uploaded can be downloaded until it
    expires, and what the cleanup deletes.
  \<^item> \<open>Messagebus_Files\<close> (\<open>messagebus/filetransfer.py\<close>): uploads in chunks, as messages and tasks interleave; content, termination of the
    search for a file name, and where files are created.
  \<^item> \<open>Dhcpd_Conf\<close> (\<open>dhcpd.py\<close>): parser, printer and host operations of the DHCP server configuration, on a store of components that
    refer to each other; well-formedness of the store and what \<open>get_host\<close> finds after \<open>add_host\<close>.
  \<^item> \<open>Dhcpd_Control\<close> (\<open>backend/rpc/dhcpd_control.py\<close>): what events about hosts and depots do to that configuration; every change of the
    file is followed by a reload, as long as the thread that reloads is alive.

  \<^bold>\<open>Conventions.\<close> Records are the classes, datatypes the enumerations, \<open>Inl\<close> of \<open>py_error\<close> every exception. Code outside the
  repository (redis, the database server, msgspec, opsicommon, PAM, LDAP, hashing, Python's \<open>re\<close>) is a field of an
  environment record; what a theorem relies on is a named hypothesis (\<open>redis_laws\<close>, \<open>codec_laws\<close>, \<open>stream_laws\<close>,
  \<open>cache_laws\<close>, \<open>metric_law\<close>, ...), and each has an instance in the theory that a witness uses. Times are arguments in
  microseconds or seconds as the code has them. Concurrency appears as the order of steps; where the code is not atomic
  and it matters, the operation is split and the interleaving is a theorem.

  \<^bold>\<open>Bounds and fuel.\<close> Loops over lists are structural. The dependency sort has the number of runs the code allows. Following
  product requirements has the number of products of the depot as depth, and it is proved that this bound is never
  reached. The parser of the DHCP configuration recurses on the remaining text.
  The search for a free file name is a partial function; it returns if only finitely many names are taken. Endless tasks (the manager task, a
  reader, the connection) are modelled over the finite list of their turns.

  \<^bold>\<open>Not modelled.\<close> Code that is mostly input and output or configuration and has no logic of its own to verify: the
  admin pages, WebDAV, the proxy and metrics end points (\<open>application/\<close>), terminals and processes (\<open>messagebus/terminal.py\<close>,
  \<open>messagebus/process.py\<close>), the command line and configuration (\<open>config.py\<close>), setup, database schema and migrations, certificates
  (\<open>ssl.py\<close>), logging, worker processes (\<open>worker.py\<close>, \<open>manager.py\<close>, \<open>main.py\<close>), backup, packages on depots (\<open>depot.py\<close>), the control of
  hosts and of opsipxeconfd, health checks, and the legacy and extension methods (\<open>ext_*.py\<close>), which call the methods above.
  Within the modelled files: log output, waiting, file locks, the conversion of rows to objects of opsicommon.
\<close>

end
